(* ===== verification/Prelude.thy ===== *)
theory Prelude
  imports Main "HOL-Library.Word" "HOL-Library.AList" "HOL-Library.List_Lexorder"
    "HOL-Library.Char_ord"
begin

text \<open>
  What the component theories share: the width of the machine integers, the pieces of the C++
  standard library the agent uses (\<open>std::string_view\<close> searches, \<open>std::from_chars\<close>,
  decimal output, sorting with a comparison, \<open>std::unordered_map\<close> as an association list), a
  deque that is cut to a capacity after every push, and the theorem collections the component
  proofs use.

  \<^item> \<open>step_simps\<close>: what each operation does to each field of its state;
  \<^item> \<open>inv_intros\<close>: preservation of the components' invariants by their operations.
\<close>

named_theorems step_simps "effects of the operations on the fields of their state"
named_theorems inv_intros "operations preserve the invariants of their component"

section \<open>Machine integers\<close>

type_synonym u8 = "8 word"
type_synonym u16 = "16 word"
type_synonym u32 = "32 word"
type_synonym u64 = "64 word"

text \<open>
  Signed 64-bit times are mathematical integers here: the code adds at most \<open>2 ^ 32\<close> seconds in
  milliseconds to a wall-clock reading, and signed overflow is undefined in C++. Counters that
  saturate or are cut to a width are words.
\<close>

type_synonym millis = int

definition u32_max :: u32 where
  "u32_max = 4294967295"

text \<open>\<open>if (counter < numeric_limits<uint32_t>::max()) ++counter;\<close>\<close>

definition saturating_inc :: "u32 \<Rightarrow> u32" where
  "saturating_inc w = (if w < u32_max then w + 1 else w)"

lemma saturating_inc_unat:
  "unat (saturating_inc w) = min (unat w + 1) 4294967295"
proof (cases "w < u32_max")
  case True
  then have "unat w < 4294967295"
    by (simp add: u32_max_def word_less_nat_alt)
  then show ?thesis
    using True by (simp add: saturating_inc_def unat_word_ariths)
next
  case False
  then have "4294967295 \<le> unat w"
    by (simp add: u32_max_def word_less_nat_alt)
  then show ?thesis
    using False unsigned_less [of w, where ?'a = nat] by (simp add: saturating_inc_def)
qed

lemma saturating_inc_not_0 [simp]: "saturating_inc w \<noteq> 0"
proof
  assume "saturating_inc w = 0"
  then have "unat (saturating_inc w) = 0"
    by simp
  then show False
    by (simp add: saturating_inc_unat)
qed

lemma saturating_inc_ge: "w \<le> saturating_inc w"
  using unsigned_less [of w, where ?'a = nat] by (simp add: word_le_nat_alt saturating_inc_unat)

section \<open>Strings and string views\<close>

definition starts_with :: "string \<Rightarrow> string \<Rightarrow> bool" where
  "starts_with s p \<longleftrightarrow> take (length p) s = p"

definition ends_with :: "string \<Rightarrow> string \<Rightarrow> bool" where
  "ends_with s p \<longleftrightarrow> length p \<le> length s \<and> drop (length s - length p) s = p"

text \<open>\<open>s.find(c)\<close>: the first position of a character, \<^term>\<open>None\<close> for \<open>npos\<close>.\<close>

fun find_char :: "char \<Rightarrow> string \<Rightarrow> nat option" where
  "find_char c [] = None"
| "find_char c (x # xs) = (if x = c then Some 0 else map_option Suc (find_char c xs))"

lemma find_char_None: "find_char c s = None \<longleftrightarrow> c \<notin> set s"
  by (induction s) auto

lemma find_char_Some:
  "find_char c s = Some n \<longleftrightarrow> n < length s \<and> s ! n = c \<and> c \<notin> set (take n s)"
proof (induction s arbitrary: n)
  case Nil
  show ?case by simp
next
  case (Cons x s)
  show ?case
    by (cases n) (auto simp: Cons.IH)
qed

lemma find_char_append: "c \<notin> set xs \<Longrightarrow> find_char c (xs @ c # ys) = Some (length xs)"
  by (induction xs) auto

lemma starts_with_append [simp]: "starts_with (p @ s) p"
  by (simp add: starts_with_def)

lemma starts_with_iff: "starts_with s p \<longleftrightarrow> (\<exists>r. s = p @ r)"
  by (auto simp: starts_with_def) (metis append_take_drop_id)

lemma ends_with_append [simp]: "ends_with (s @ p) p"
  by (simp add: ends_with_def)

text \<open>A separator that the second part cannot contain splits a string in one way only.\<close>

lemma append_sep_eq_iff:
  fixes a b x y :: string
  assumes "c \<notin> set a" and "c \<notin> set b"
  shows "a @ c # x = b @ c # y \<longleftrightarrow> a = b \<and> x = y"
proof
  assume eq: "a @ c # x = b @ c # y"
  have "length a = length b"
    using find_char_append [OF assms(1), of x] find_char_append [OF assms(2), of y] eq by simp
  with eq show "a = b \<and> x = y" by simp
qed simp

subsection \<open>Decimal output and \<open>std::from_chars\<close>\<close>

definition digit_char :: "nat \<Rightarrow> char" where
  "digit_char d = ''0123456789'' ! d"

definition is_digit :: "char \<Rightarrow> bool" where
  "is_digit c \<longleftrightarrow> 48 \<le> (of_char c :: nat) \<and> (of_char c :: nat) \<le> 57"

definition digit_val :: "char \<Rightarrow> nat" where
  "digit_val c = of_char c - 48"

fun nat_to_string :: "nat \<Rightarrow> string" where
  "nat_to_string n =
     (if n < 10 then [digit_char n] else nat_to_string (n div 10) @ [digit_char (n mod 10)])"

declare nat_to_string.simps [simp del]

definition int_to_string :: "int \<Rightarrow> string" where
  "int_to_string i = (if i < 0 then CHR ''-'' # nat_to_string (nat (- i)) else nat_to_string (nat i))"

text \<open>
  \<open>std::from_chars\<close> on an unsigned integer type of the given maximum: it consumes the longest
  prefix of decimal digits, fails with \<open>invalid_argument\<close> on an empty prefix and with
  \<open>result_out_of_range\<close> when the value does not fit. The callers accept a result only when the
  whole view was consumed, which is what \<open>from_chars_all\<close> returns.
\<close>

definition digits_value :: "string \<Rightarrow> nat" where
  "digits_value s = foldl (\<lambda>v c. 10 * v + digit_val c) 0 s"

definition from_chars_all :: "nat \<Rightarrow> string \<Rightarrow> nat option" where
  "from_chars_all maxval s =
     (let ds = takeWhile is_digit s in
      if ds = [] then None
      else if maxval < digits_value ds then None
      else if length ds = length s then Some (digits_value ds)
      else None)"

lemma of_char_digit_char: "d < 10 \<Longrightarrow> (of_char (digit_char d) :: nat) = 48 + d"
proof -
  assume "d < 10"
  then have "d \<in> {0, 1, 2, 3, 4, 5, 6, 7, 8, 9}"
    by auto
  then show ?thesis
    by (auto simp: digit_char_def)
qed

lemma is_digit_digit_char [simp]: "d < 10 \<Longrightarrow> is_digit (digit_char d)"
  by (simp add: is_digit_def of_char_digit_char)

lemma digit_val_digit_char [simp]: "d < 10 \<Longrightarrow> digit_val (digit_char d) = d"
  by (simp add: digit_val_def of_char_digit_char)

lemma nat_to_string_digits: "\<forall>c \<in> set (nat_to_string n). is_digit c"
proof (induction n rule: nat_to_string.induct)
  case (1 n)
  then show ?case
    by (subst nat_to_string.simps) auto
qed

lemma nat_to_string_not_Nil [simp]: "nat_to_string n \<noteq> []"
  by (subst nat_to_string.simps) simp

lemma digits_value_nat_to_string [simp]: "digits_value (nat_to_string n) = n"
proof (induction n rule: nat_to_string.induct)
  case (1 n)
  then show ?case
    by (subst nat_to_string.simps) (auto simp: digits_value_def)
qed

lemma from_chars_nat_to_string:
  "n \<le> m \<Longrightarrow> from_chars_all m (nat_to_string n) = Some n"
  using nat_to_string_digits [of n]
  by (simp add: from_chars_all_def Let_def takeWhile_eq_all_conv [THEN iffD2])

lemma from_chars_all_Some:
  "from_chars_all m s = Some v \<Longrightarrow> v \<le> m \<and> s \<noteq> [] \<and> (\<forall>c \<in> set s. is_digit c)"
proof -
  assume *: "from_chars_all m s = Some v"
  then have ne: "takeWhile is_digit s \<noteq> []" and len: "length (takeWhile is_digit s) = length s"
    and v: "v = digits_value (takeWhile is_digit s)" "v \<le> m"
    by (auto simp: from_chars_all_def Let_def split: if_splits)
  from len have "takeWhile is_digit s = s"
    by (metis append_take_drop_id takeWhile_eq_take take_all_iff order_refl)
  with ne v show ?thesis
    by (metis takeWhile_eq_all_conv)
qed

section \<open>Sorting with a comparison\<close>

text \<open>
  \<open>std::ranges::sort(xs, lt)\<close> with a strict comparison. Where the comparison comes from a key
  into a linear order this is the library's \<^term>\<open>sort_key\<close>, so its facts apply.
\<close>

fun insert_by :: "('a \<Rightarrow> 'a \<Rightarrow> bool) \<Rightarrow> 'a \<Rightarrow> 'a list \<Rightarrow> 'a list" where
  "insert_by lt x [] = [x]"
| "insert_by lt x (y # ys) = (if lt y x then y # insert_by lt x ys else x # y # ys)"

definition sort_by :: "('a \<Rightarrow> 'a \<Rightarrow> bool) \<Rightarrow> 'a list \<Rightarrow> 'a list" where
  "sort_by lt xs = foldr (insert_by lt) xs []"

lemma insert_by_key:
  fixes f :: "'a \<Rightarrow> 'k::linorder"
  assumes "\<And>a b. lt a b \<longleftrightarrow> f a < f b"
  shows "insert_by lt x ys = insort_key f x ys"
  by (induction ys) (auto simp: assms)

lemma sort_by_key:
  fixes f :: "'a \<Rightarrow> 'k::linorder"
  assumes "\<And>a b. lt a b \<longleftrightarrow> f a < f b"
  shows "sort_by lt xs = sort_key f xs"
  unfolding sort_by_def
  by (induction xs) (simp_all add: insert_by_key [OF assms])

text \<open>Two arrangements of the same elements sort to the same list when keys tell them apart.\<close>

lemma sort_key_set_cong:
  fixes f :: "'a \<Rightarrow> 'k::linorder"
  assumes "distinct xs" and "distinct ys" and "set xs = set ys" and "inj_on f (set xs)"
  shows "sort_key f xs = sort_key f ys"
proof -
  have "map f (sort_key f xs) = map f (sort_key f ys)"
    using assms by (intro sorted_distinct_set_unique) (auto simp: distinct_map)
  then show ?thesis
    using assms by (intro map_inj_on [of f]) simp_all
qed

section \<open>Hash maps as association lists\<close>

text \<open>
  A \<open>std::unordered_map\<close> whose elements the code visits in a loop is an association list
  with distinct keys: the list order is the iteration order, which the language leaves open. A map
  that is only looked up is a function \<open>'k \<rightharpoonup> 'v\<close>. \<open>operator[]\<close> and assignment through an
  iterator are \<^term>\<open>AList.update\<close>, \<open>erase\<close> is \<^term>\<open>AList.delete\<close>, \<open>emplace\<close> keeps the element
  that is there.
\<close>

type_synonym ('k, 'v) hash_map = "('k \<times> 'v) list"

definition wf_map :: "('k, 'v) hash_map \<Rightarrow> bool" where
  "wf_map m \<longleftrightarrow> distinct (map fst m)"

definition emplace :: "'k \<Rightarrow> 'v \<Rightarrow> ('k, 'v) hash_map \<Rightarrow> ('k, 'v) hash_map" where
  "emplace k v m = (if map_of m k = None then m @ [(k, v)] else m)"

definition map_values :: "('k, 'v) hash_map \<Rightarrow> 'v list" where
  "map_values m = map snd m"

text \<open>The loop that erases, through its iterator, every element a test selects.\<close>

definition erase_if :: "('k \<times> 'v \<Rightarrow> bool) \<Rightarrow> ('k, 'v) hash_map \<Rightarrow> ('k, 'v) hash_map" where
  "erase_if p m = filter (\<lambda>kv. \<not> p kv) m"

lemma map_of_emplace:
  "map_of (emplace k v m) = (if map_of m k = None then (map_of m)(k \<mapsto> v) else map_of m)"
proof (cases "map_of m k")
  case None
  then show ?thesis
    by (auto simp: emplace_def map_add_def fun_eq_iff split: option.splits)
next
  case (Some w)
  then show ?thesis by (simp add: emplace_def)
qed

lemma wf_map_Nil [simp, intro]: "wf_map []"
  by (simp add: wf_map_def)

lemma wf_map_emplace [simp, intro]: "wf_map m \<Longrightarrow> wf_map (emplace k v m)"
  by (auto simp: wf_map_def emplace_def map_of_eq_None_iff)

lemma wf_map_update [simp, intro]: "wf_map m \<Longrightarrow> wf_map (AList.update k v m)"
  by (simp add: wf_map_def distinct_update)

lemma wf_map_delete [simp, intro]: "wf_map m \<Longrightarrow> wf_map (AList.delete k m)"
  by (simp add: wf_map_def distinct_delete)

lemma wf_map_erase_if [simp, intro]: "wf_map m \<Longrightarrow> wf_map (erase_if p m)"
  unfolding wf_map_def erase_if_def by (induction m) auto

lemma map_of_mem: "wf_map m \<Longrightarrow> (k, v) \<in> set m \<longleftrightarrow> map_of m k = Some v"
  unfolding wf_map_def by (metis map_of_SomeD map_of_eq_Some_iff)

lemma map_of_erase_if:
  assumes "wf_map m"
  shows "map_of (erase_if p m) k =
    (case map_of m k of None \<Rightarrow> None | Some v \<Rightarrow> if p (k, v) then None else Some v)"
  using assms unfolding wf_map_def erase_if_def
  by (induction m) (auto split: option.splits simp: map_of_eq_None_iff[symmetric] dest: map_of_SomeD)

lemma set_map_values: "wf_map m \<Longrightarrow> v \<in> set (map_values m) \<longleftrightarrow> (\<exists>k. map_of m k = Some v)"
  by (auto simp: map_values_def map_of_mem [symmetric]) (metis snd_conv image_eqI)

lemma wf_map_distinct: "wf_map m \<Longrightarrow> distinct m"
  by (simp add: wf_map_def distinct_map)

section \<open>A deque cut to a capacity\<close>

text \<open>
  \<open>log.push_back(x); while (log.size() > capacity) log.pop_front();\<close>: three components keep
  their history this way. The loop is a recursion on the deque.
\<close>

fun trim_front :: "nat \<Rightarrow> 'a list \<Rightarrow> 'a list" where
  "trim_front cap [] = []"
| "trim_front cap (x # xs) = (if cap < length (x # xs) then trim_front cap xs else x # xs)"

definition push_bounded :: "nat \<Rightarrow> 'a \<Rightarrow> 'a list \<Rightarrow> 'a list" where
  "push_bounded cap x xs = trim_front cap (xs @ [x])"

lemma trim_front_eq: "trim_front cap xs = drop (length xs - cap) xs"
proof (induction xs)
  case (Cons x xs)
  then show ?case
    by (cases "cap \<le> length xs") (auto simp: Suc_diff_le)
qed simp

lemma length_trim_front [simp]: "length (trim_front cap xs) = min (length xs) cap"
  by (simp add: trim_front_eq)

lemma push_bounded_eq: "push_bounded cap x xs = drop (Suc (length xs) - cap) (xs @ [x])"
  by (simp add: push_bounded_def trim_front_eq)

text \<open>The newest \<open>limit\<close> entries, newest first, as the index loops of the queries read them.\<close>

definition newest_first :: "nat \<Rightarrow> 'a list \<Rightarrow> 'a list" where
  "newest_first limit xs =
     (if limit = 0 \<or> xs = [] then []
      else map (\<lambda>i. xs ! (length xs - 1 - i)) [0..<min limit (length xs)])"

lemma newest_first_eq: "newest_first limit xs = take limit (rev xs)"
  by (rule nth_equalityI) (auto simp: newest_first_def rev_nth min_def)

text \<open>
  The contract of such a log, whatever state it lives in: a push appends and keeps the newest
  \<open>cap\<close> entries. Everything a reader of a log relies on follows from it.
\<close>

locale bounded_log =
  fixes push :: "'a \<Rightarrow> 's \<Rightarrow> 's"
    and entries :: "'s \<Rightarrow> 'a list"
    and cap :: "'s \<Rightarrow> nat"
  assumes entries_push: "entries (push x s) = drop (Suc (length (entries s)) - cap s) (entries s @ [x])"
    and cap_push: "cap (push x s) = cap s"
begin

lemma log_bounded: "length (entries (push x s)) = min (Suc (length (entries s))) (cap s)"
  by (simp add: entries_push)

lemma log_newest: "0 < cap s \<Longrightarrow> last (entries (push x s)) = x \<and> entries (push x s) \<noteq> []"
  by (simp add: entries_push)

lemma cap_fold_push: "cap (fold push xs s) = cap s"
  by (induction xs arbitrary: s) (simp_all add: cap_push)

lemma log_window:
  "length (entries s) \<le> cap s \<Longrightarrow>
   entries (fold push xs s) = drop (length (entries s) + length xs - cap s) (entries s @ xs)"
proof (induction xs arbitrary: s)
  case (Cons x xs)
  let ?E = "entries s" and ?m = "Suc (length (entries s)) - cap s"
  have "length (entries (push x s)) \<le> cap (push x s)"
    by (simp add: log_bounded cap_push)
  note IH = Cons.IH [OF this]
  have "entries (push x s) @ xs = drop ?m (?E @ x # xs)"
    by (cases "cap s") (auto simp: entries_push)
  moreover have "?m + (length (entries (push x s)) + length xs - cap s) = length ?E + length (x # xs) - cap s"
    by (simp add: log_bounded)
  ultimately show ?case
    using IH by (simp add: cap_push add.commute del: drop_append)
qed simp

lemma log_keeps:
  "y \<in> set (entries (push x s)) \<Longrightarrow> y = x \<or> y \<in> set (entries s)"
  by (auto simp: entries_push dest!: in_set_dropD)

end

end
