(* ===== verification/Doubles.thy ===== *)
theory Doubles
  imports Prelude Complex_Main
begin

text \<open>
  Floating-point values as the agent uses them: \<open>double\<close> thresholds and metric values with their
  comparisons, the conversion of a 64-bit count, and the text a \<open>std::ostringstream\<close> with
  \<open>std::setprecision(8)\<close> prints (the format \<open>%.8g\<close> of C).
\<close>

section \<open>Doubles\<close>

text \<open>
  A \<open>double\<close> is a finite rational, an infinity or a NaN; the zeros of both signs are one value,
  as every comparison of C++ treats them.
\<close>

datatype double = Fin rat | PosInf | NegInf | NaN

fun isfinite :: "double \<Rightarrow> bool" where
  "isfinite (Fin _) = True"
| "isfinite _ = False"

fun double_less :: "double \<Rightarrow> double \<Rightarrow> bool" where
  "double_less (Fin a) (Fin b) = (a < b)"
| "double_less NegInf (Fin _) = True"
| "double_less NegInf PosInf = True"
| "double_less (Fin _) PosInf = True"
| "double_less _ _ = False"

fun double_eq :: "double \<Rightarrow> double \<Rightarrow> bool" where
  "double_eq NaN _ = False"
| "double_eq _ NaN = False"
| "double_eq a b = (a = b)"

definition double_le :: "double \<Rightarrow> double \<Rightarrow> bool" where
  "double_le a b \<longleftrightarrow> double_less a b \<or> double_eq a b"

text \<open>\<open>static_cast<double>\<close> of an unsigned integer: 53 bits, round half to even.\<close>

fun bit_length :: "nat \<Rightarrow> nat" where
  "bit_length n = (if n = 0 then 0 else Suc (bit_length (n div 2)))"

declare bit_length.simps [simp del]

definition round_bits :: "nat \<Rightarrow> nat \<Rightarrow> nat" where
  "round_bits p n =
     (let k = bit_length n - p; q = n div 2 ^ k; r = n mod 2 ^ k in
      if k = 0 then n
      else if 2 ^ k < 2 * r \<or> (2 * r = 2 ^ k \<and> odd q) then (q + 1) * 2 ^ k
      else q * 2 ^ k)"

definition double_of_u64 :: "u64 \<Rightarrow> double" where
  "double_of_u64 w = Fin (of_nat (round_bits 53 (unat w)))"

section \<open>Printing with eight significant digits\<close>

text \<open>
  The decimal exponent of a positive number \<open>n / d\<close>: the least \<open>k\<close> with \<open>1 \<le> n * 10 ^ k / d\<close>
  below one, the number of digits of the integral part from one on.
\<close>

function scale_up :: "nat \<Rightarrow> nat \<Rightarrow> nat \<Rightarrow> nat" where
  "scale_up n d k = (if n = 0 \<or> d \<le> n * 10 ^ k then k else scale_up n d (Suc k))"
  by pat_completeness auto
termination
  by (relation "measure (\<lambda>(n, d, k). d - n * 10 ^ k)") (auto intro!: diff_less_mono2)

declare scale_up.simps [simp del]

definition decimal_exponent :: "nat \<Rightarrow> nat \<Rightarrow> int" where
  "decimal_exponent n d =
     (if d \<le> n then int (length (nat_to_string (n div d))) - 1 else - int (scale_up n d 0))"

definition round_half_even :: "nat \<Rightarrow> nat \<Rightarrow> nat" where
  "round_half_even n d =
     (let q = n div d; r = n mod d in if d < 2 * r \<or> (2 * r = d \<and> odd q) then q + 1 else q)"

text \<open>The eight-digit significand and the exponent, after a carry out of the top digit.\<close>

definition significand :: "nat \<Rightarrow> nat \<Rightarrow> nat \<times> int" where
  "significand n d =
     (let e = decimal_exponent n d;
          m = (if e \<le> 7 then round_half_even (n * 10 ^ nat (7 - e)) d
               else round_half_even n (d * 10 ^ nat (e - 7)))
      in if m = 10 ^ 8 then (10 ^ 7, e + 1) else (m, e))"

definition strip_zeros :: "string \<Rightarrow> string" where
  "strip_zeros s = rev (dropWhile (\<lambda>c. c = CHR ''0'') (rev s))"

definition with_fraction :: "string \<Rightarrow> string \<Rightarrow> string" where
  "with_fraction whole tail =
     (let f = strip_zeros tail in if f = [] then whole else whole @ CHR ''.'' # f)"

definition exponent_text :: "int \<Rightarrow> string" where
  "exponent_text e =
     (let s = nat_to_string (nat \<bar>e\<bar>) in
      (if e < 0 then ''e-'' else ''e+'') @ (if length s < 2 then CHR ''0'' # s else s))"

definition format_positive :: "nat \<Rightarrow> nat \<Rightarrow> string" where
  "format_positive n d =
     (let (m, e) = significand n d; ds = nat_to_string m in
      if e < -4 \<or> 8 \<le> e then with_fraction (take 1 ds) (drop 1 ds) @ exponent_text e
      else if e < 0 then with_fraction ''0'' (replicate (nat (- e - 1)) (CHR ''0'') @ ds)
      else with_fraction (take (nat e + 1) ds) (drop (nat e + 1) ds))"

definition format_rat :: "rat \<Rightarrow> string" where
  "format_rat r =
     (let (n, d) = quotient_of \<bar>r\<bar> in
      if n = 0 then ''0''
      else (if r < 0 then ''-'' else []) @ format_positive (nat n) (nat d))"

fun FormatDouble :: "double \<Rightarrow> string" where
  "FormatDouble (Fin r) = format_rat r"
| "FormatDouble PosInf = ''inf''"
| "FormatDouble NegInf = ''-inf''"
| "FormatDouble NaN = ''nan''"

end
