(* ===== verification/ServiceModel.thy ===== *)
theory ServiceModel
  imports Doubles
begin

text \<open>
  The data model of the agent (headers under \<open>src/apps/agent/include/agent/\<close>): the
  enumerations with their \<open>ToString\<close> functions, the identifiers with their validity checks, the
  configuration records (\<open>HealthCheckDefinition\<close>, \<open>AlertRule\<close>, \<open>RecoveryPolicy\<close>,
  \<open>ServiceDefinition\<close>) and the published records (\<open>HealthStatus\<close>, \<open>AlertEvent\<close>,
  \<open>RecoveryEvent\<close>, \<open>ServiceMetrics\<close>, \<open>ServiceStatus\<close>), each with its
  \<open>IsStructurallyValid\<close>. A C++ aggregate is a record whose fields carry a short prefix, an
  \<open>enum class\<close> a datatype, \<open>std::optional\<close> an option.
\<close>

section \<open>Identifiers\<close>

definition char_between :: "char \<Rightarrow> char \<Rightarrow> char \<Rightarrow> bool" where
  "char_between lo hi c \<longleftrightarrow> (of_char lo :: nat) \<le> of_char c \<and> (of_char c :: nat) \<le> of_char hi"

definition id_char :: "char \<Rightarrow> bool" where
  "id_char c \<longleftrightarrow> char_between CHR ''a'' CHR ''z'' c \<or> char_between CHR ''A'' CHR ''Z'' c
     \<or> char_between CHR ''0'' CHR ''9'' c \<or> c = CHR ''_'' \<or> c = CHR ''-''"

definition IsValidServiceId :: "string \<Rightarrow> bool" where
  "IsValidServiceId i \<longleftrightarrow> i \<noteq> [] \<and> length i \<le> 64 \<and> (\<forall>c \<in> set i. id_char c)"

definition IsValidAlertRuleId :: "string \<Rightarrow> bool" where
  "IsValidAlertRuleId i \<longleftrightarrow>
     i \<noteq> [] \<and> length i \<le> 64 \<and> (\<forall>c \<in> set i. id_char c \<or> c = CHR ''.'')"

definition IsValidAlertEventId :: "string \<Rightarrow> bool" where
  "IsValidAlertEventId i \<longleftrightarrow>
     i \<noteq> [] \<and> length i \<le> 160 \<and> (\<forall>c \<in> set i. id_char c \<or> c = CHR ''.'' \<or> c = CHR '':'')"

lemma id_char_not_colon [simp]: "\<not> id_char CHR '':''"
  by (simp add: id_char_def char_between_def)

lemma valid_service_id_no_colon: "IsValidServiceId i \<Longrightarrow> CHR '':'' \<notin> set i"
  by (auto simp: IsValidServiceId_def)

lemma valid_rule_id_no_colon: "IsValidAlertRuleId i \<Longrightarrow> CHR '':'' \<notin> set i"
  by (auto simp: IsValidAlertRuleId_def)

text \<open>
  \<open>MakeRuleKey\<close> and \<open>MakeAlertEventId\<close> are the same function of two files: the two ids joined
  by a colon, which neither can contain.
\<close>

definition MakeAlertEventId :: "string \<Rightarrow> string \<Rightarrow> string" where
  "MakeAlertEventId service_id rule_id = service_id @ CHR '':'' # rule_id"

definition MakeRuleKey :: "string \<Rightarrow> string \<Rightarrow> string" where
  "MakeRuleKey service_id rule_id = service_id @ CHR '':'' # rule_id"

lemma MakeAlertEventId_inj:
  assumes "IsValidServiceId s" and "IsValidServiceId s'"
  shows "MakeAlertEventId s r = MakeAlertEventId s' r' \<longleftrightarrow> s = s' \<and> r = r'"
  using append_sep_eq_iff [OF assms [THEN valid_service_id_no_colon]]
  by (simp add: MakeAlertEventId_def)

lemma MakeAlertEventId_valid:
  "IsValidServiceId s \<Longrightarrow> IsValidAlertRuleId r \<Longrightarrow> IsValidAlertEventId (MakeAlertEventId s r)"
  by (auto simp: MakeAlertEventId_def IsValidServiceId_def IsValidAlertRuleId_def
      IsValidAlertEventId_def)

section \<open>Enumerations\<close>

datatype DesiredState = DStopped | DRunning

fun ToString_DesiredState :: "DesiredState \<Rightarrow> string" where
  "ToString_DesiredState DStopped = ''stopped''"
| "ToString_DesiredState DRunning = ''running''"

definition ParseDesiredState :: "string \<Rightarrow> DesiredState option" where
  "ParseDesiredState text =
     (if text = ''stopped'' then Some DStopped
      else if text = ''running'' then Some DRunning
      else None)"

definition IsDesiredRunning :: "DesiredState \<Rightarrow> bool" where
  "IsDesiredRunning s \<longleftrightarrow> s = DRunning"

definition IsDesiredStopped :: "DesiredState \<Rightarrow> bool" where
  "IsDesiredStopped s \<longleftrightarrow> s = DStopped"

datatype ServiceState = Stopped | Starting | Running | Stopping | Exited | Failed

fun ToString_ServiceState :: "ServiceState \<Rightarrow> string" where
  "ToString_ServiceState Stopped = ''Stopped''"
| "ToString_ServiceState Starting = ''Starting''"
| "ToString_ServiceState Running = ''Running''"
| "ToString_ServiceState Stopping = ''Stopping''"
| "ToString_ServiceState Exited = ''Exited''"
| "ToString_ServiceState Failed = ''Failed''"

datatype ProcessExitKind = KindNone | KindExited | KindSignaled | KindUnknown

fun ToString_ProcessExitKind :: "ProcessExitKind \<Rightarrow> string" where
  "ToString_ProcessExitKind KindNone = ''none''"
| "ToString_ProcessExitKind KindExited = ''exited''"
| "ToString_ProcessExitKind KindSignaled = ''signaled''"
| "ToString_ProcessExitKind KindUnknown = ''unknown''"

datatype HealthCheckType = CheckTypeProcess | CheckTypeHttp | CheckTypeTcp | CheckTypeCommand

fun ToString_HealthCheckType :: "HealthCheckType \<Rightarrow> string" where
  "ToString_HealthCheckType CheckTypeProcess = ''process''"
| "ToString_HealthCheckType CheckTypeHttp = ''http''"
| "ToString_HealthCheckType CheckTypeTcp = ''tcp''"
| "ToString_HealthCheckType CheckTypeCommand = ''command''"

datatype HealthState = Healthy | Unhealthy | HealthUnknown

fun ToString_HealthState :: "HealthState \<Rightarrow> string" where
  "ToString_HealthState Healthy = ''healthy''"
| "ToString_HealthState Unhealthy = ''unhealthy''"
| "ToString_HealthState HealthUnknown = ''unknown''"

datatype AlertMetric = CpuPercent | RssBytes | ThreadCount | FdCount | HealthStateMetric

fun ToString_AlertMetric :: "AlertMetric \<Rightarrow> string" where
  "ToString_AlertMetric CpuPercent = ''cpu_percent''"
| "ToString_AlertMetric RssBytes = ''rss_bytes''"
| "ToString_AlertMetric ThreadCount = ''thread_count''"
| "ToString_AlertMetric FdCount = ''fd_count''"
| "ToString_AlertMetric HealthStateMetric = ''health_state''"

datatype AlertOperator =
  GreaterThan | GreaterThanOrEqual | LessThan | LessThanOrEqual | Equal | NotEqual

fun ToString_AlertOperator :: "AlertOperator \<Rightarrow> string" where
  "ToString_AlertOperator GreaterThan = ''>''"
| "ToString_AlertOperator GreaterThanOrEqual = ''>=''"
| "ToString_AlertOperator LessThan = ''<''"
| "ToString_AlertOperator LessThanOrEqual = ''<=''"
| "ToString_AlertOperator Equal = ''==''"
| "ToString_AlertOperator NotEqual = ''!=''"

datatype AlertSeverity = Info | Warning | Critical

fun ToString_AlertSeverity :: "AlertSeverity \<Rightarrow> string" where
  "ToString_AlertSeverity Info = ''info''"
| "ToString_AlertSeverity Warning = ''warning''"
| "ToString_AlertSeverity Critical = ''critical''"

text \<open>\<open>SeverityRank\<close> of the alert manager orders the severities.\<close>

fun SeverityRank :: "AlertSeverity \<Rightarrow> int" where
  "SeverityRank Critical = 3"
| "SeverityRank Warning = 2"
| "SeverityRank Info = 1"

lemma SeverityRank_inj: "SeverityRank a = SeverityRank b \<longleftrightarrow> a = b"
  by (cases a; cases b) simp_all

instantiation AlertSeverity :: linorder
begin

definition less_eq_AlertSeverity :: "AlertSeverity \<Rightarrow> AlertSeverity \<Rightarrow> bool" where
  "less_eq_AlertSeverity a b \<longleftrightarrow> SeverityRank a \<le> SeverityRank b"

definition less_AlertSeverity :: "AlertSeverity \<Rightarrow> AlertSeverity \<Rightarrow> bool" where
  "less_AlertSeverity a b \<longleftrightarrow> SeverityRank a < SeverityRank b"

instance
  by standard (auto simp: less_eq_AlertSeverity_def less_AlertSeverity_def SeverityRank_inj)

end

datatype AlertEventState = AlertActive | AlertResolved

fun ToString_AlertEventState :: "AlertEventState \<Rightarrow> string" where
  "ToString_AlertEventState AlertActive = ''active''"
| "ToString_AlertEventState AlertResolved = ''resolved''"

datatype RecoveryAction = ActionNone | ActionRestart

fun ToString_RecoveryAction :: "RecoveryAction \<Rightarrow> string" where
  "ToString_RecoveryAction ActionNone = ''none''"
| "ToString_RecoveryAction ActionRestart = ''restart''"

datatype RecoveryEventType = RestartStarted | RestartSucceeded | RestartFailed | RestartSuppressed

fun ToString_RecoveryEventType :: "RecoveryEventType \<Rightarrow> string" where
  "ToString_RecoveryEventType RestartStarted = ''restart_started''"
| "ToString_RecoveryEventType RestartSucceeded = ''restart_succeeded''"
| "ToString_RecoveryEventType RestartFailed = ''restart_failed''"
| "ToString_RecoveryEventType RestartSuppressed = ''restart_suppressed''"

section \<open>Configuration records\<close>

record HealthCheckDefinition =
  hc_enabled :: bool
  hc_type :: HealthCheckType
  hc_interval_seconds :: u32
  hc_timeout_milliseconds :: u32
  hc_failure_threshold :: u32
  hc_endpoint :: string
  hc_host :: string
  hc_port :: u16
  hc_command :: string

definition default_health_check :: HealthCheckDefinition where
  "default_health_check = \<lparr> hc_enabled = True, hc_type = CheckTypeProcess,
     hc_interval_seconds = 5, hc_timeout_milliseconds = 1000, hc_failure_threshold = 3,
     hc_endpoint = [], hc_host = [], hc_port = 0, hc_command = [] \<rparr>"

definition valid_HealthCheckDefinition :: "HealthCheckDefinition \<Rightarrow> bool" where
  "valid_HealthCheckDefinition d =
     (if \<not> hc_enabled d then True
      else if hc_interval_seconds d = 0 \<or> hc_interval_seconds d > 3600 then False
      else if hc_timeout_milliseconds d = 0 \<or> hc_timeout_milliseconds d > 60000 then False
      else if hc_failure_threshold d = 0 \<or> hc_failure_threshold d > 100 then False
      else (case hc_type d of
              CheckTypeProcess \<Rightarrow> True
            | CheckTypeHttp \<Rightarrow> hc_endpoint d \<noteq> []
            | CheckTypeTcp \<Rightarrow> hc_host d \<noteq> [] \<and> hc_port d > 0
            | CheckTypeCommand \<Rightarrow> hc_command d \<noteq> []))"

record AlertRule =
  ar_id :: string
  ar_service_id :: string
  ar_metric :: AlertMetric
  ar_op :: AlertOperator
  ar_numeric_threshold :: "double option"
  ar_health_state_threshold :: "HealthState option"
  ar_duration_seconds :: u32
  ar_severity :: AlertSeverity
  ar_enabled :: bool
  ar_description :: string

definition default_alert_rule :: AlertRule where
  "default_alert_rule = \<lparr> ar_id = [], ar_service_id = [], ar_metric = CpuPercent,
     ar_op = GreaterThan, ar_numeric_threshold = None, ar_health_state_threshold = None,
     ar_duration_seconds = 0, ar_severity = Warning, ar_enabled = True, ar_description = [] \<rparr>"

definition valid_AlertRule :: "AlertRule \<Rightarrow> bool" where
  "valid_AlertRule r =
     (if \<not> IsValidAlertRuleId (ar_id r) then False
      else if \<not> IsValidServiceId (ar_service_id r) then False
      else if ar_duration_seconds r > 86400 then False
      else if ar_metric r = HealthStateMetric then
        (if ar_health_state_threshold r = None then False
         else if ar_numeric_threshold r \<noteq> None then False
         else ar_op r = Equal \<or> ar_op r = NotEqual)
      else (case ar_numeric_threshold r of
              None \<Rightarrow> False
            | Some th \<Rightarrow>
                (if ar_health_state_threshold r \<noteq> None then False
                 else if \<not> isfinite th then False
                 else if ar_metric r = CpuPercent then
                   double_le (Fin 0) th \<and> double_le th (Fin 100)
                 else double_le (Fin 0) th)))"

record RecoveryPolicy =
  rp_enabled :: bool
  rp_restart_on_unhealthy :: bool
  rp_restart_on_critical_alert :: bool
  rp_max_restarts :: u32
  rp_window_seconds :: u32
  rp_backoff_seconds :: u32
  rp_startup_grace_seconds :: u32

definition default_recovery_policy :: RecoveryPolicy where
  "default_recovery_policy = \<lparr> rp_enabled = False, rp_restart_on_unhealthy = False,
     rp_restart_on_critical_alert = False, rp_max_restarts = 3, rp_window_seconds = 300,
     rp_backoff_seconds = 10, rp_startup_grace_seconds = 10 \<rparr>"

definition valid_RecoveryPolicy :: "RecoveryPolicy \<Rightarrow> bool" where
  "valid_RecoveryPolicy p =
     (if \<not> rp_enabled p then True
      else if \<not> rp_restart_on_unhealthy p \<and> \<not> rp_restart_on_critical_alert p then False
      else if rp_max_restarts p = 0 \<or> rp_max_restarts p > 100 then False
      else if rp_window_seconds p = 0 \<or> rp_window_seconds p > 86400 then False
      else if rp_backoff_seconds p > 3600 then False
      else if rp_startup_grace_seconds p > 3600 then False
      else True)"

text \<open>A \<open>std::filesystem::path\<close> is its native string; \<open>empty()\<close> is the empty string.\<close>

record ServiceDefinition =
  sd_id :: string
  sd_display_name :: string
  sd_executable :: string
  sd_work_dir :: string
  sd_args :: "string list"
  sd_log_path :: string
  sd_auto_start :: bool
  sd_health_check :: HealthCheckDefinition
  sd_alert_rules :: "AlertRule list"
  sd_recovery_policy :: RecoveryPolicy

text \<open>The loop over the rules, with the set of rule ids seen so far.\<close>

fun valid_rules_loop :: "string \<Rightarrow> string set \<Rightarrow> AlertRule list \<Rightarrow> bool" where
  "valid_rules_loop sid seen [] = True"
| "valid_rules_loop sid seen (r # rs) =
     (if \<not> valid_AlertRule r then False
      else if ar_service_id r \<noteq> sid then False
      else if ar_id r \<in> seen then False
      else valid_rules_loop sid (insert (ar_id r) seen) rs)"

definition valid_ServiceDefinition :: "ServiceDefinition \<Rightarrow> bool" where
  "valid_ServiceDefinition d =
     (if \<not> IsValidServiceId (sd_id d) then False
      else if sd_display_name d = [] then False
      else if sd_executable d = [] then False
      else if sd_work_dir d = [] then False
      else if sd_log_path d = [] then False
      else if \<not> valid_HealthCheckDefinition (sd_health_check d) then False
      else if \<not> valid_RecoveryPolicy (sd_recovery_policy d) then False
      else valid_rules_loop (sd_id d) {} (sd_alert_rules d))"

lemma valid_rules_loop_iff:
  "valid_rules_loop sid seen rs \<longleftrightarrow>
     (\<forall>r \<in> set rs. valid_AlertRule r \<and> ar_service_id r = sid \<and> ar_id r \<notin> seen)
     \<and> distinct (map ar_id rs)"
proof (induction rs arbitrary: seen)
  case (Cons r rs)
  show ?case
    by (simp add: Cons.IH) (metis image_iff)
qed simp

lemma valid_ServiceDefinition_rules:
  "valid_ServiceDefinition d \<Longrightarrow>
     (\<forall>r \<in> set (sd_alert_rules d). valid_AlertRule r \<and> ar_service_id r = sd_id d)
     \<and> distinct (map ar_id (sd_alert_rules d))"
  by (simp add: valid_ServiceDefinition_def valid_rules_loop_iff split: if_splits)

lemma valid_ServiceDefinition_id: "valid_ServiceDefinition d \<Longrightarrow> IsValidServiceId (sd_id d)"
  by (simp add: valid_ServiceDefinition_def split: if_splits)

section \<open>Published records\<close>

record HealthStatus =
  hs_service_id :: string
  hs_state :: HealthState
  hs_reason :: string
  hs_consecutive_failures :: u32
  hs_checked_at_unix_ms :: millis

definition valid_HealthStatus :: "HealthStatus \<Rightarrow> bool" where
  "valid_HealthStatus s =
     (if \<not> IsValidServiceId (hs_service_id s) then False
      else if hs_checked_at_unix_ms s < 0 then False
      else (case hs_state s of
              Healthy \<Rightarrow> True
            | Unhealthy \<Rightarrow> hs_reason s \<noteq> []
            | HealthUnknown \<Rightarrow> True))"

record AlertEvaluation =
  ae_service_id :: string
  ae_rule_id :: string
  ae_severity :: AlertSeverity
  ae_rule_enabled :: bool
  ae_condition_met :: bool
  ae_firing :: bool
  ae_evaluated_at_unix_ms :: millis
  ae_condition_started_at_unix_ms :: "millis option"
  ae_message :: string

definition valid_AlertEvaluation :: "AlertEvaluation \<Rightarrow> bool" where
  "valid_AlertEvaluation e =
     (if \<not> IsValidServiceId (ae_service_id e) then False
      else if \<not> IsValidAlertRuleId (ae_rule_id e) then False
      else if ae_evaluated_at_unix_ms e < 0 then False
      else if (case ae_condition_started_at_unix_ms e of None \<Rightarrow> False | Some t \<Rightarrow> t < 0) then False
      else if ae_firing e \<and> \<not> ae_condition_met e then False
      else ae_message e \<noteq> [])"

record AlertEvent =
  ev_id :: string
  ev_service_id :: string
  ev_rule_id :: string
  ev_severity :: AlertSeverity
  ev_state :: AlertEventState
  ev_message :: string
  ev_first_triggered_at_unix_ms :: millis
  ev_last_triggered_at_unix_ms :: millis
  ev_resolved_at_unix_ms :: "millis option"
  ev_trigger_count :: u32
  ev_acknowledged :: bool

definition valid_AlertEvent :: "AlertEvent \<Rightarrow> bool" where
  "valid_AlertEvent e =
     (if \<not> IsValidAlertEventId (ev_id e) then False
      else if \<not> IsValidServiceId (ev_service_id e) then False
      else if \<not> IsValidAlertRuleId (ev_rule_id e) then False
      else if ev_message e = [] then False
      else if ev_first_triggered_at_unix_ms e < 0 \<or> ev_last_triggered_at_unix_ms e < 0 then False
      else if ev_last_triggered_at_unix_ms e < ev_first_triggered_at_unix_ms e then False
      else if ev_trigger_count e = 0 then False
      else (case ev_state e of
              AlertActive \<Rightarrow> ev_resolved_at_unix_ms e = None
            | AlertResolved \<Rightarrow>
                (case ev_resolved_at_unix_ms e of
                   None \<Rightarrow> False
                 | Some t \<Rightarrow> ev_last_triggered_at_unix_ms e \<le> t)))"

record RecoveryEvent =
  re_service_id :: string
  re_type :: RecoveryEventType
  re_occurred_at_unix_ms :: millis
  re_reason :: string
  re_alert_event_id :: "string option"
  re_restart_count_in_window :: u32

definition valid_RecoveryEvent :: "RecoveryEvent \<Rightarrow> bool" where
  "valid_RecoveryEvent e =
     (if \<not> IsValidServiceId (re_service_id e) then False
      else if re_occurred_at_unix_ms e < 0 then False
      else if re_reason e = [] then False
      else True)"

record ServiceMetrics =
  sm_service_id :: string
  sm_available :: bool
  sm_pid :: int
  sm_collected_at_unix_ms :: millis
  sm_cpu_percent :: "double option"
  sm_rss_bytes :: "u64 option"
  sm_thread_count :: "u64 option"
  sm_fd_count :: "u64 option"

definition HasAnyMetricValue :: "ServiceMetrics \<Rightarrow> bool" where
  "HasAnyMetricValue m \<longleftrightarrow> sm_cpu_percent m \<noteq> None \<or> sm_rss_bytes m \<noteq> None
     \<or> sm_thread_count m \<noteq> None \<or> sm_fd_count m \<noteq> None"

definition valid_ServiceMetrics :: "ServiceMetrics \<Rightarrow> bool" where
  "valid_ServiceMetrics m =
     (if \<not> IsValidServiceId (sm_service_id m) \<or> sm_pid m < -1 \<or> sm_collected_at_unix_ms m < 0
      then False
      else if (case sm_cpu_percent m of
                 None \<Rightarrow> False
               | Some c \<Rightarrow> \<not> isfinite c \<or> double_less c (Fin 0) \<or> double_less (Fin 100) c)
      then False
      else if \<not> sm_available m then \<not> HasAnyMetricValue m
      else if sm_pid m \<le> 0 then False
      else sm_rss_bytes m \<noteq> None \<and> sm_thread_count m \<noteq> None \<and> sm_fd_count m \<noteq> None)"

record ServiceStatus =
  st_state :: ServiceState
  st_desired_state :: DesiredState
  st_pid :: int
  st_process_group_id :: int
  st_exit_code :: "int option"
  st_uptime :: int
  st_last_exit_kind :: ProcessExitKind
  st_last_exit_signal :: "int option"
  st_last_error :: string
  st_last_transition_at_unix_ms :: millis

record ServiceSummary =
  ss_id :: string
  ss_display_name :: string
  ss_auto_start :: bool
  ss_status :: ServiceStatus

section \<open>Forgetting a service\<close>

text \<open>
  Every component that keeps per-service state has a \<open>ForgetService\<close>: it drops what belongs to
  that service and nothing else. \<open>holds s sid\<close> says that the state keeps something of a service.
\<close>

locale service_store =
  fixes forget :: "string \<Rightarrow> 's \<Rightarrow> 's"
    and portion :: "'s \<Rightarrow> string \<Rightarrow> 'p"
    and nothing :: 'p
    and svc_ok :: "string \<Rightarrow> bool"
  assumes forget_same: "svc_ok sid \<Longrightarrow> portion (forget sid s) sid = nothing"
    and forget_other: "svc_ok sid \<Longrightarrow> svc_ok other \<Longrightarrow> other \<noteq> sid \<Longrightarrow>
          portion (forget sid s) other = portion s other"
begin

lemma forget_all:
  "\<forall>sid \<in> set sids. svc_ok sid \<Longrightarrow> svc_ok other \<Longrightarrow>
   portion (fold forget sids s) other = (if other \<in> set sids then nothing else portion s other)"
proof (induction sids arbitrary: s)
  case (Cons sid sids)
  then show ?case
    by (cases "other = sid") (simp_all add: forget_same forget_other)
qed simp

end

section \<open>Sample values\<close>

text \<open>A service and a status the witnesses of the component theories evaluate.\<close>

definition demo_def :: ServiceDefinition where
  "demo_def = \<lparr> sd_id = ''demo'', sd_display_name = ''Demo'', sd_executable = ''/bin/demo'',
     sd_work_dir = ''/'', sd_args = [], sd_log_path = ''/tmp/demo.log'', sd_auto_start = False,
     sd_health_check = default_health_check, sd_alert_rules = [],
     sd_recovery_policy = default_recovery_policy \<rparr>"

definition status_of :: "ServiceState \<Rightarrow> int \<Rightarrow> ServiceStatus" where
  "status_of s pid = \<lparr> st_state = s, st_desired_state = DRunning, st_pid = pid,
     st_process_group_id = pid, st_exit_code = None, st_uptime = 0, st_last_exit_kind = KindNone,
     st_last_exit_signal = None, st_last_error = [], st_last_transition_at_unix_ms = 0 \<rparr>"

lemma demo_def_valid_id [simp]: "IsValidServiceId (sd_id demo_def)"
  by (simp add: demo_def_def IsValidServiceId_def id_char_def char_between_def)

end
