(* ===== verification/HealthCheck.thy ===== *)
theory HealthCheck
  imports ServiceModel
begin

text \<open>
  \<open>HealthChecker\<close> (\<open>src/apps/agent/src/health/health_checker.cpp\<close>): the health of a service from
  its process status, with a count of consecutive failures per service. The state is the map
  \<open>consecutive_failures_\<close>; every operation returns the new map. The last part states what the
  counter means: the length of the run of failing checks that ends the history of the service.
\<close>

section \<open>The checker\<close>

type_synonym checker = "string \<rightharpoonup> u32"

definition health_status ::
  "ServiceDefinition \<Rightarrow> HealthState \<Rightarrow> string \<Rightarrow> u32 \<Rightarrow> millis \<Rightarrow> HealthStatus" where
  "health_status d s reason n now = \<lparr> hs_service_id = sd_id d, hs_state = s, hs_reason = reason,
     hs_consecutive_failures = n, hs_checked_at_unix_ms = now \<rparr>"

definition MakeUnknown ::
  "ServiceDefinition \<Rightarrow> string \<Rightarrow> millis \<Rightarrow> checker \<Rightarrow> HealthStatus \<times> checker" where
  "MakeUnknown d reason now m =
     (health_status d HealthUnknown reason 0 now, m(sd_id d := None))"

definition process_running :: "ServiceStatus \<Rightarrow> bool" where
  "process_running st \<longleftrightarrow> st_state st = Running \<and> 0 < st_pid st"

definition CheckProcess ::
  "ServiceDefinition \<Rightarrow> ServiceStatus \<Rightarrow> millis \<Rightarrow> checker \<Rightarrow> HealthStatus \<times> checker" where
  "CheckProcess d st now m =
     (if st_state st = Running \<and> 0 < st_pid st then
        (health_status d Healthy ''process is running'' 0 now, m(sd_id d := None))
      else
        let failure_count = (case m (sd_id d) of None \<Rightarrow> 0 | Some n \<Rightarrow> n);
            failure_count = (if failure_count < u32_max then failure_count + 1 else failure_count);
            m' = m(sd_id d \<mapsto> failure_count)
        in if failure_count < max 1 (hc_failure_threshold (sd_health_check d)) then
             (health_status d HealthUnknown
                ''process is not running, waiting for failure threshold'' failure_count now, m')
           else
             (health_status d Unhealthy ''process is not running'' failure_count now, m'))"

definition Check ::
  "ServiceDefinition \<Rightarrow> ServiceStatus \<Rightarrow> millis \<Rightarrow> checker \<Rightarrow> HealthStatus \<times> checker" where
  "Check d st now m =
     (if \<not> hc_enabled (sd_health_check d) then
        (health_status d HealthUnknown ''health check is disabled'' 0 now, m(sd_id d := None))
      else if \<not> valid_HealthCheckDefinition (sd_health_check d) then
        (health_status d HealthUnknown ''health check definition is invalid'' 0 now,
         m(sd_id d := None))
      else (case hc_type (sd_health_check d) of
              CheckTypeProcess \<Rightarrow> CheckProcess d st now m
            | CheckTypeHttp \<Rightarrow> MakeUnknown d ''http health check is not implemented yet'' now m
            | CheckTypeTcp \<Rightarrow> MakeUnknown d ''tcp health check is not implemented yet'' now m
            | CheckTypeCommand \<Rightarrow>
                MakeUnknown d ''command health check is not implemented yet'' now m))"

definition checker_ForgetService :: "string \<Rightarrow> checker \<Rightarrow> checker" where
  "checker_ForgetService sid m = m(sid := None)"

definition checker_Clear :: "checker \<Rightarrow> checker" where
  "checker_Clear m = Map.empty"

interpretation checker_store:
  service_store checker_ForgetService "\<lambda>m sid. m sid" None "\<lambda>_. True"
  by unfold_locales (simp_all add: checker_ForgetService_def)

section \<open>Basic facts\<close>

lemma health_status_simps [simp]:
  "hs_service_id (health_status d s r n now) = sd_id d"
  "hs_state (health_status d s r n now) = s"
  "hs_reason (health_status d s r n now) = r"
  "hs_consecutive_failures (health_status d s r n now) = n"
  "hs_checked_at_unix_ms (health_status d s r n now) = now"
  by (simp_all add: health_status_def)

lemmas check_defs = Check_def CheckProcess_def MakeUnknown_def Let_def

lemma Check_frame: "sid \<noteq> sd_id d \<Longrightarrow> snd (Check d st now m) sid = m sid"
  by (simp add: check_defs split: HealthCheckType.splits)

lemma Check_service_id [simp]: "hs_service_id (fst (Check d st now m)) = sd_id d"
  by (simp add: check_defs split: HealthCheckType.splits)

lemma Check_time [simp]: "hs_checked_at_unix_ms (fst (Check d st now m)) = now"
  by (simp add: check_defs split: HealthCheckType.splits)

lemma Check_reason_not_Nil: "hs_reason (fst (Check d st now m)) \<noteq> []"
  by (simp add: check_defs split: HealthCheckType.splits)

text \<open>
  Every status the checker produces for a service with a valid id, at a time that is not
  negative, is structurally valid: the API never finds an invalid health cache.
\<close>

theorem Check_valid:
  assumes "IsValidServiceId (sd_id d)" and "0 \<le> now"
  shows "valid_HealthStatus (fst (Check d st now m))"
  using assms by (simp add: valid_HealthStatus_def Check_reason_not_Nil split: HealthState.splits)

section \<open>What the counter means\<close>

text \<open>A history of checks of one service: one status and one time per check.\<close>

fun Check_history ::
  "ServiceDefinition \<Rightarrow> (ServiceStatus \<times> millis) list \<Rightarrow> checker \<Rightarrow> HealthStatus list \<times> checker" where
  "Check_history d [] m = ([], m)"
| "Check_history d ((st, now) # rest) m =
     (let (h, m') = Check d st now m; (hs, m'') = Check_history d rest m' in (h # hs, m''))"

text \<open>The abstract counter: how many checks in a row, up to the last one, found no process.\<close>

definition trailing_failures :: "ServiceStatus list \<Rightarrow> nat" where
  "trailing_failures sts = length (takeWhile (\<lambda>st. \<not> process_running st) (rev sts))"

lemma trailing_failures_Nil [simp]: "trailing_failures [] = 0"
  by (simp add: trailing_failures_def)

lemma trailing_failures_snoc:
  "trailing_failures (sts @ [st]) =
     (if process_running st then 0 else Suc (trailing_failures sts))"
  by (simp add: trailing_failures_def)

definition health_of_run :: "nat \<Rightarrow> nat \<Rightarrow> HealthState" where
  "health_of_run threshold k =
     (if k = 0 then Healthy else if k < max 1 threshold then HealthUnknown else Unhealthy)"

definition counter_is :: "nat \<Rightarrow> u32 option \<Rightarrow> bool" where
  "counter_is k c \<longleftrightarrow> unat (case c of None \<Rightarrow> 0 | Some n \<Rightarrow> n) = min k 4294967295"

definition process_checked :: "ServiceDefinition \<Rightarrow> bool" where
  "process_checked d \<longleftrightarrow> hc_enabled (sd_health_check d)
     \<and> valid_HealthCheckDefinition (sd_health_check d)
     \<and> hc_type (sd_health_check d) = CheckTypeProcess"

lemma threshold_bound:
  "process_checked d \<Longrightarrow> unat (hc_failure_threshold (sd_health_check d)) \<le> 100
     \<and> hc_failure_threshold (sd_health_check d) \<noteq> 0"
  by (auto simp: process_checked_def valid_HealthCheckDefinition_def word_less_nat_alt
      split: if_splits)

lemma Check_counter_step:
  fixes st :: ServiceStatus and k :: nat
  assumes d: "process_checked d" and c: "counter_is k (m (sd_id d))"
  defines "k' \<equiv> (if process_running st then 0 else Suc k)"
  shows "counter_is k' (snd (Check d st now m) (sd_id d))
    \<and> hs_state (fst (Check d st now m))
        = health_of_run (unat (hc_failure_threshold (sd_health_check d))) k'
    \<and> unat (hs_consecutive_failures (fst (Check d st now m))) = min k' 4294967295"
proof -
  let ?n = "case m (sd_id d) of None \<Rightarrow> 0 | Some n \<Rightarrow> n"
  have n: "unat ?n = min k 4294967295"
    using c by (simp add: counter_is_def)
  have sat: "unat (saturating_inc ?n) = min (Suc k) 4294967295"
    by (simp add: saturating_inc_unat n)
  have chk: "Check d st now m = CheckProcess d st now m"
    using d by (simp add: Check_def process_checked_def)
  show ?thesis
  proof (cases "process_running st")
    case True
    then show ?thesis
      by (simp add: chk CheckProcess_def k'_def process_running_def counter_is_def health_of_run_def)
  next
    case False
    have lt: "saturating_inc ?n < max 1 (hc_failure_threshold (sd_health_check d))
        \<longleftrightarrow> Suc k < max 1 (unat (hc_failure_threshold (sd_health_check d)))"
      using threshold_bound [OF d] sat by (auto simp: word_less_nat_alt max_def word_le_nat_alt)
    show ?thesis
      using False lt sat
      by (simp add: chk CheckProcess_def k'_def process_running_def counter_is_def health_of_run_def
          Let_def saturating_inc_def [symmetric] max_def)
  qed
qed

lemma Check_history_snoc:
  "Check_history d (xs @ [(st, now)]) m =
     (let (hs, m') = Check_history d xs m; (h, m'') = Check d st now m' in (hs @ [h], m''))"
  by (induction xs arbitrary: m) (auto simp: Let_def split: prod.splits)

lemma Check_history_counter:
  assumes "process_checked d"
  shows "counter_is (trailing_failures (map fst xs)) (snd (Check_history d xs Map.empty) (sd_id d))"
proof (induction xs rule: rev_induct)
  case Nil
  show ?case by (simp add: counter_is_def)
next
  case (snoc x xs)
  obtain st now where x: "x = (st, now)" by (cases x)
  from Check_counter_step [OF assms, where m = "snd (Check_history d xs Map.empty)", OF snoc.IH, of st now]
  show ?case
    by (simp add: x Check_history_snoc trailing_failures_snoc Let_def case_prod_beta)
qed

text \<open>
  C33. The health of a service with a process check is a function of the run of failing checks
  that ends its history: healthy when the last check found the process, unknown while the run is
  shorter than the threshold, unhealthy from the threshold on, and the reported count is the
  length of the run, up to the width of the counter.
\<close>

theorem Check_history_refines_run:
  assumes "process_checked d" and "xs \<noteq> []"
  shows "hs_state (last (fst (Check_history d xs Map.empty)))
      = health_of_run (unat (hc_failure_threshold (sd_health_check d))) (trailing_failures (map fst xs))
    \<and> unat (hs_consecutive_failures (last (fst (Check_history d xs Map.empty))))
      = min (trailing_failures (map fst xs)) 4294967295"
proof -
  obtain ys st now where xs: "xs = ys @ [(st, now)]"
    using assms(2) by (metis rev_exhaust surj_pair)
  from Check_counter_step [OF assms(1), where m = "snd (Check_history d ys Map.empty)",
      OF Check_history_counter [OF assms(1), of ys], of st now]
  show ?thesis
    by (simp add: xs Check_history_snoc trailing_failures_snoc Let_def case_prod_beta)
qed

section \<open>Witnesses\<close>

lemma demo_def_process_checked [simp]: "process_checked demo_def"
  by (simp add: process_checked_def demo_def_def default_health_check_def
      valid_HealthCheckDefinition_def)

lemma demo_threshold: "hc_failure_threshold (sd_health_check demo_def) = 3"
  by (simp add: demo_def_def default_health_check_def)

theorem Check_valid_witness: "valid_HealthStatus (fst (Check demo_def (status_of Exited (-1)) 7 Map.empty))"
  by (rule Check_valid) simp_all

theorem Check_history_refines_run_witness:
  "hs_state (last (fst (Check_history demo_def
      [(status_of Running 9, 0), (status_of Exited (-1), 1), (status_of Exited (-1), 2),
       (status_of Exited (-1), 3)] Map.empty))) = Unhealthy"
  using Check_history_refines_run [of demo_def "[(status_of Running 9, 0),
      (status_of Exited (-1), 1), (status_of Exited (-1), 2), (status_of Exited (-1), 3)]"]
  by (simp add: trailing_failures_def process_running_def status_of_def health_of_run_def
      demo_threshold del: Check_history.simps)

end
