(* ===== verification/AlertEval.thy ===== *)
theory AlertEval
  imports ServiceModel
begin

text \<open>
  \<open>AlertEvaluator\<close> (\<open>src/apps/agent/src/alerts/alert_evaluator.cpp\<close>): each rule of a service is
  evaluated against the latest metrics and the health of the service; a rule fires when its
  condition has been met for its duration. The state \<open>rule_states_\<close> maps the key of a rule to the
  time its condition was first met.
\<close>

section \<open>Conditions\<close>

definition FormatRuleExpression :: "AlertRule \<Rightarrow> string \<Rightarrow> string" where
  "FormatRuleExpression rule threshold_text =
     ToString_AlertMetric (ar_metric rule) @ '' '' @ ToString_AlertOperator (ar_op rule) @ '' ''
     @ threshold_text
     @ (if 0 < ar_duration_seconds rule
        then '' for '' @ nat_to_string (unat (ar_duration_seconds rule)) @ ''s'' else [])"

definition FormatEvaluationMessage :: "string \<Rightarrow> string \<Rightarrow> bool \<Rightarrow> bool \<Rightarrow> string" where
  "FormatEvaluationMessage expression observed_value condition_met firing =
     expression @ '', observed='' @ observed_value
     @ (if firing then '', firing''
        else if condition_met then '', condition met but duration not reached''
        else '', condition not met'')"

definition GetNumericMetricValue :: "AlertRule \<Rightarrow> ServiceMetrics option \<Rightarrow> double option" where
  "GetNumericMetricValue rule metrics =
     (case metrics of
        None \<Rightarrow> None
      | Some m \<Rightarrow>
          if \<not> sm_available m then None
          else (case ar_metric rule of
                  CpuPercent \<Rightarrow> sm_cpu_percent m
                | RssBytes \<Rightarrow> map_option double_of_u64 (sm_rss_bytes m)
                | ThreadCount \<Rightarrow> map_option double_of_u64 (sm_thread_count m)
                | FdCount \<Rightarrow> map_option double_of_u64 (sm_fd_count m)
                | HealthStateMetric \<Rightarrow> None))"

record ConditionResult =
  cr_available :: bool
  cr_condition_met :: bool
  cr_observed_value :: string
  cr_expression :: string
  cr_message :: string

definition no_result :: ConditionResult where
  "no_result = \<lparr> cr_available = False, cr_condition_met = False, cr_observed_value = [],
     cr_expression = [], cr_message = [] \<rparr>"

fun CompareDouble :: "double \<Rightarrow> AlertOperator \<Rightarrow> double \<Rightarrow> bool" where
  "CompareDouble observed GreaterThan threshold = double_less threshold observed"
| "CompareDouble observed GreaterThanOrEqual threshold = double_le threshold observed"
| "CompareDouble observed LessThan threshold = double_less observed threshold"
| "CompareDouble observed LessThanOrEqual threshold = double_le observed threshold"
| "CompareDouble observed Equal threshold = double_eq observed threshold"
| "CompareDouble observed NotEqual threshold = (\<not> double_eq observed threshold)"

fun CompareHealthState :: "HealthState \<Rightarrow> AlertOperator \<Rightarrow> HealthState \<Rightarrow> bool" where
  "CompareHealthState observed Equal threshold = (observed = threshold)"
| "CompareHealthState observed NotEqual threshold = (observed \<noteq> threshold)"
| "CompareHealthState observed _ threshold = False"

definition EvaluateNumericCondition :: "AlertRule \<Rightarrow> double option \<Rightarrow> ConditionResult" where
  "EvaluateNumericCondition rule observed_value =
     (case ar_numeric_threshold rule of
        None \<Rightarrow> no_result\<lparr> cr_message := ''numeric alert rule is missing threshold'' \<rparr>
      | Some threshold \<Rightarrow>
          let expression = FormatRuleExpression rule (FormatDouble threshold);
              result = no_result\<lparr> cr_expression := expression \<rparr>
          in (case observed_value of
                None \<Rightarrow> result\<lparr> cr_message := expression @ '', metric value is unavailable'' \<rparr>
              | Some v \<Rightarrow>
                  if \<not> isfinite v then
                    result\<lparr> cr_message := expression @ '', metric value is not finite'' \<rparr>
                  else
                    result\<lparr> cr_available := True, cr_observed_value := FormatDouble v,
                      cr_condition_met := CompareDouble v (ar_op rule) threshold \<rparr>))"

definition EvaluateHealthCondition :: "AlertRule \<Rightarrow> HealthState \<Rightarrow> ConditionResult" where
  "EvaluateHealthCondition rule observed_state =
     (case ar_health_state_threshold rule of
        None \<Rightarrow> no_result\<lparr> cr_message := ''health_state alert rule is missing threshold'' \<rparr>
      | Some threshold \<Rightarrow>
          no_result\<lparr> cr_expression := FormatRuleExpression rule (ToString_HealthState threshold),
            cr_available := True,
            cr_observed_value := ToString_HealthState observed_state,
            cr_condition_met := CompareHealthState observed_state (ar_op rule) threshold \<rparr>)"

definition EvaluateCondition ::
  "AlertRule \<Rightarrow> ServiceMetrics option \<Rightarrow> HealthStatus \<Rightarrow> ConditionResult" where
  "EvaluateCondition rule metrics health =
     (if ar_metric rule = HealthStateMetric then EvaluateHealthCondition rule (hs_state health)
      else EvaluateNumericCondition rule (GetNumericMetricValue rule metrics))"

section \<open>Rules\<close>

text \<open>\<open>RuleRuntimeState\<close> holds one optional time.\<close>

type_synonym rule_states = "string \<rightharpoonup> millis option"

definition blank_evaluation :: "AlertRule \<Rightarrow> millis \<Rightarrow> AlertEvaluation" where
  "blank_evaluation rule now = \<lparr> ae_service_id = ar_service_id rule, ae_rule_id = ar_id rule,
     ae_severity = ar_severity rule, ae_rule_enabled = ar_enabled rule, ae_condition_met = False,
     ae_firing = False, ae_evaluated_at_unix_ms = now, ae_condition_started_at_unix_ms = None,
     ae_message = [] \<rparr>"

definition EvaluateRule ::
  "AlertRule \<Rightarrow> ServiceMetrics option \<Rightarrow> HealthStatus \<Rightarrow> millis \<Rightarrow> rule_states
     \<Rightarrow> AlertEvaluation \<times> rule_states" where
  "EvaluateRule rule metrics health now states =
     (let evaluation = blank_evaluation rule now;
          rule_key = MakeRuleKey (ar_service_id rule) (ar_id rule);
          erased = states(rule_key := None)
      in if \<not> ar_enabled rule then
           (evaluation\<lparr> ae_message := ''alert rule is disabled'' \<rparr>, erased)
         else if \<not> valid_AlertRule rule then
           (evaluation\<lparr> ae_message := ''alert rule is structurally invalid'' \<rparr>, erased)
         else if now < 0 then
           (evaluation\<lparr> ae_message := ''evaluation time is invalid'' \<rparr>, erased)
         else
           let result = EvaluateCondition rule metrics health in
           if \<not> cr_available result then
             (evaluation\<lparr> ae_message := cr_message result \<rparr>, erased)
           else if \<not> cr_condition_met result then
             (evaluation\<lparr> ae_condition_met := False,
                ae_message := FormatEvaluationMessage (cr_expression result)
                  (cr_observed_value result) False False \<rparr>, erased)
           else
             let previous = (case states rule_key of None \<Rightarrow> None | Some s \<Rightarrow> s);
                 started = (case previous of None \<Rightarrow> now | Some s \<Rightarrow> if now < s then now else s);
                 required_duration_ms = uint (ar_duration_seconds rule) * 1000;
                 elapsed_ms = now - started;
                 firing = (required_duration_ms \<le> elapsed_ms)
             in (evaluation\<lparr> ae_condition_met := True, ae_firing := firing,
                   ae_condition_started_at_unix_ms := Some started,
                   ae_message := FormatEvaluationMessage (cr_expression result)
                     (cr_observed_value result) True firing \<rparr>,
                 states(rule_key \<mapsto> Some started)))"

text \<open>\<open>Evaluate\<close>: the rules of a definition in order, the map threaded through.\<close>

fun EvaluateRules ::
  "AlertRule list \<Rightarrow> ServiceMetrics option \<Rightarrow> HealthStatus \<Rightarrow> millis \<Rightarrow> rule_states
     \<Rightarrow> AlertEvaluation list \<times> rule_states" where
  "EvaluateRules [] metrics health now states = ([], states)"
| "EvaluateRules (rule # rules) metrics health now states =
     (let (e, states') = EvaluateRule rule metrics health now states;
          (es, states'') = EvaluateRules rules metrics health now states'
      in (e # es, states''))"

definition Evaluate ::
  "ServiceDefinition \<Rightarrow> ServiceMetrics option \<Rightarrow> HealthStatus \<Rightarrow> millis \<Rightarrow> rule_states
     \<Rightarrow> AlertEvaluation list \<times> rule_states" where
  "Evaluate d metrics health now states =
     EvaluateRules (sd_alert_rules d) metrics health now states"

definition evaluator_ForgetService :: "string \<Rightarrow> rule_states \<Rightarrow> rule_states" where
  "evaluator_ForgetService service_id states =
     (\<lambda>key. if starts_with key (service_id @ '':'') then None else states key)"

definition evaluator_Clear :: "rule_states \<Rightarrow> rule_states" where
  "evaluator_Clear states = Map.empty"

section \<open>Forgetting\<close>

definition rules_of_service :: "rule_states \<Rightarrow> string \<Rightarrow> string \<Rightarrow> millis option option" where
  "rules_of_service states service_id = (\<lambda>rule_id. states (MakeRuleKey service_id rule_id))"

lemma starts_with_rule_key:
  assumes "IsValidServiceId s" and "IsValidServiceId s'"
  shows "starts_with (MakeRuleKey s' r) (s @ '':'') \<longleftrightarrow> s = s'"
proof -
  have "starts_with (MakeRuleKey s' r) (s @ '':'') \<longleftrightarrow> (\<exists>x. s' @ CHR '':'' # r = s @ CHR '':'' # x)"
    by (simp add: starts_with_iff MakeRuleKey_def)
  also have "\<dots> \<longleftrightarrow> s = s'"
    using append_sep_eq_iff [OF assms(2,1) [THEN valid_service_id_no_colon]] by auto
  finally show ?thesis .
qed

interpretation evaluator_store:
  service_store evaluator_ForgetService rules_of_service "\<lambda>_. None" IsValidServiceId
  by unfold_locales
    (auto simp: rules_of_service_def evaluator_ForgetService_def starts_with_rule_key fun_eq_iff)

section \<open>Results\<close>

lemma blank_evaluation_simps [simp]:
  "ae_service_id (blank_evaluation rule now) = ar_service_id rule"
  "ae_rule_id (blank_evaluation rule now) = ar_id rule"
  "ae_evaluated_at_unix_ms (blank_evaluation rule now) = now"
  "ae_firing (blank_evaluation rule now) = False"
  "ae_condition_met (blank_evaluation rule now) = False"
  "ae_condition_started_at_unix_ms (blank_evaluation rule now) = None"
  "ae_severity (blank_evaluation rule now) = ar_severity rule"
  by (simp_all add: blank_evaluation_def)

lemma EvaluateRule_ids:
  "ae_service_id (fst (EvaluateRule rule metrics health now states)) = ar_service_id rule"
  "ae_rule_id (fst (EvaluateRule rule metrics health now states)) = ar_id rule"
  "ae_evaluated_at_unix_ms (fst (EvaluateRule rule metrics health now states)) = now"
  "ae_severity (fst (EvaluateRule rule metrics health now states)) = ar_severity rule"
  by (simp_all add: EvaluateRule_def Let_def)

lemma EvaluateRule_frame:
  "key \<noteq> MakeRuleKey (ar_service_id rule) (ar_id rule) \<Longrightarrow>
   snd (EvaluateRule rule metrics health now states) key = states key"
  by (simp add: EvaluateRule_def Let_def)

lemma unavailable_message:
  "\<not> cr_available (EvaluateCondition rule metrics health) \<Longrightarrow>
   cr_message (EvaluateCondition rule metrics health) \<noteq> []"
  by (auto simp: EvaluateCondition_def EvaluateNumericCondition_def EvaluateHealthCondition_def
      no_result_def Let_def split: option.splits if_splits)

lemma EvaluateRule_message: "ae_message (fst (EvaluateRule rule metrics health now states)) \<noteq> []"
  using unavailable_message
  by (simp add: EvaluateRule_def Let_def FormatEvaluationMessage_def)

text \<open>All recorded start times are times of past evaluations, never negative.\<close>

definition starts_ok :: "rule_states \<Rightarrow> bool" where
  "starts_ok states \<longleftrightarrow> (\<forall>key t. states key = Some (Some t) \<longrightarrow> 0 \<le> t)"

lemma EvaluateRule_starts_ok [inv_intros]:
  "starts_ok states \<Longrightarrow> starts_ok (snd (EvaluateRule rule metrics health now states))"
  by (auto simp: EvaluateRule_def Let_def starts_ok_def split: option.splits)

lemma EvaluateRule_valid:
  assumes "IsValidServiceId (ar_service_id rule)" and "IsValidAlertRuleId (ar_id rule)"
    and "0 \<le> now" and "starts_ok states"
  shows "valid_AlertEvaluation (fst (EvaluateRule rule metrics health now states))"
proof -
  let ?e = "fst (EvaluateRule rule metrics health now states)"
  have "ae_firing ?e \<Longrightarrow> ae_condition_met ?e"
    by (simp add: EvaluateRule_def Let_def split: if_splits)
  moreover have "ae_condition_started_at_unix_ms ?e = Some t \<Longrightarrow> 0 \<le> t" for t
    using assms by (auto simp: EvaluateRule_def Let_def starts_ok_def split: if_splits option.splits)
  ultimately show ?thesis
    using assms
    by (auto simp: valid_AlertEvaluation_def EvaluateRule_ids EvaluateRule_message
        not_less split: option.splits)
qed

lemma EvaluateRules_valid:
  assumes "\<forall>r \<in> set rules. IsValidServiceId (ar_service_id r) \<and> IsValidAlertRuleId (ar_id r)"
    and "0 \<le> now" and "starts_ok states"
  shows "(\<forall>e \<in> set (fst (EvaluateRules rules metrics health now states)). valid_AlertEvaluation e)
    \<and> starts_ok (snd (EvaluateRules rules metrics health now states))"
  using assms
proof (induction rules arbitrary: states)
  case (Cons r rules)
  have "starts_ok (snd (EvaluateRule r metrics health now states))"
    using Cons.prems by (intro EvaluateRule_starts_ok)
  from Cons.IH [OF _ _ this] Cons.prems show ?case
    using EvaluateRule_valid [of r now states metrics health]
    by (simp add: Let_def case_prod_beta)
qed simp

lemma EvaluateRules_ids:
  "map ae_rule_id (fst (EvaluateRules rules metrics health now states)) = map ar_id rules
   \<and> map ae_service_id (fst (EvaluateRules rules metrics health now states)) = map ar_service_id rules"
  by (induction rules arbitrary: states) (simp_all add: Let_def case_prod_beta EvaluateRule_ids)

lemma valid_rule_ids:
  "valid_AlertRule r \<Longrightarrow> IsValidServiceId (ar_service_id r) \<and> IsValidAlertRuleId (ar_id r)"
  by (simp add: valid_AlertRule_def split: if_splits)

text \<open>
  Evaluating a valid definition gives one structurally valid evaluation per rule, in rule
  order and for that service, so the alert manager never drops one as invalid.
\<close>

theorem Evaluate_valid:
  assumes "valid_ServiceDefinition d" and "0 \<le> now" and "starts_ok states"
  shows "(\<forall>e \<in> set (fst (Evaluate d metrics health now states)).
      valid_AlertEvaluation e \<and> ae_service_id e = sd_id d)
    \<and> map ae_rule_id (fst (Evaluate d metrics health now states)) = map ar_id (sd_alert_rules d)
    \<and> starts_ok (snd (Evaluate d metrics health now states))"
proof -
  let ?es = "fst (Evaluate d metrics health now states)"
  have rules: "\<forall>r \<in> set (sd_alert_rules d). valid_AlertRule r \<and> ar_service_id r = sd_id d"
    using valid_ServiceDefinition_rules [OF assms(1)] by blast
  have ids: "\<forall>r \<in> set (sd_alert_rules d). IsValidServiceId (ar_service_id r) \<and> IsValidAlertRuleId (ar_id r)"
    using rules valid_rule_ids by blast
  have "map ae_service_id ?es = map ar_service_id (sd_alert_rules d)"
    by (simp add: Evaluate_def EvaluateRules_ids)
  then have "ae_service_id ` set ?es = ar_service_id ` set (sd_alert_rules d)"
    by (metis set_map)
  then have "ae_service_id e = sd_id d" if "e \<in> set ?es" for e
    using rules that by (metis imageE imageI)
  then show ?thesis
    using EvaluateRules_valid [OF ids assms(2,3), of metrics health] assms(1)
      EvaluateRules_ids [of "sd_alert_rules d" metrics health now states]
    unfolding Evaluate_def by auto
qed

section \<open>When a rule fires\<close>

text \<open>A history of evaluations of one rule, and the abstract condition of one input.\<close>

type_synonym rule_input = "ServiceMetrics option \<times> HealthStatus \<times> millis"

fun EvaluateRule_history ::
  "AlertRule \<Rightarrow> rule_input list \<Rightarrow> rule_states \<Rightarrow> AlertEvaluation list \<times> rule_states" where
  "EvaluateRule_history rule [] states = ([], states)"
| "EvaluateRule_history rule ((metrics, health, now) # inputs) states =
     (let (e, states') = EvaluateRule rule metrics health now states;
          (es, states'') = EvaluateRule_history rule inputs states'
      in (e # es, states''))"

definition condition_holds :: "AlertRule \<Rightarrow> rule_input \<Rightarrow> bool" where
  "condition_holds rule input =
     (let r = EvaluateCondition rule (fst input) (fst (snd input))
      in cr_available r \<and> cr_condition_met r)"

text \<open>The times of the run of met conditions that ends the history, newest first.\<close>

definition met_times :: "AlertRule \<Rightarrow> rule_input list \<Rightarrow> millis list" where
  "met_times rule inputs =
     map (\<lambda>i. snd (snd i)) (takeWhile (condition_holds rule) (rev inputs))"

definition duration_ms :: "AlertRule \<Rightarrow> millis" where
  "duration_ms rule = uint (ar_duration_seconds rule) * 1000"

definition run_start :: "millis list \<Rightarrow> millis option option" where
  "run_start ts = (if ts = [] then None else Some (Some (Min (set ts))))"

lemma met_times_snoc:
  "met_times rule (inputs @ [i]) =
     (if condition_holds rule i then snd (snd i) # met_times rule inputs else [])"
  by (simp add: met_times_def)

lemma EvaluateRule_history_snoc:
  "EvaluateRule_history rule (inputs @ [(metrics, health, now)]) states =
     (let (es, states') = EvaluateRule_history rule inputs states;
          (e, states'') = EvaluateRule rule metrics health now states'
      in (es @ [e], states''))"
  by (induction inputs arbitrary: states) (auto simp: Let_def case_prod_beta)

lemma EvaluateRule_run_step:
  fixes metrics :: "ServiceMetrics option" and health :: HealthStatus and now :: millis
    and ts :: "millis list"
  assumes rule: "ar_enabled rule" "valid_AlertRule rule" and now: "0 \<le> now"
    and start: "states (MakeRuleKey (ar_service_id rule) (ar_id rule)) = run_start ts"
  defines "ts' \<equiv> (if condition_holds rule (metrics, health, now) then now # ts else [])"
  shows "snd (EvaluateRule rule metrics health now states)
      (MakeRuleKey (ar_service_id rule) (ar_id rule)) = run_start ts'
    \<and> (ae_firing (fst (EvaluateRule rule metrics health now states)) \<longleftrightarrow>
        ts' \<noteq> [] \<and> duration_ms rule \<le> hd ts' - Min (set ts'))"
proof (cases "condition_holds rule (metrics, health, now)")
  case False
  then show ?thesis
    using rule now
    by (auto simp: EvaluateRule_def Let_def ts'_def run_start_def condition_holds_def)
next
  case True
  let ?started = "case (case run_start ts of None \<Rightarrow> None | Some s \<Rightarrow> s) of
    None \<Rightarrow> now | Some s \<Rightarrow> if now < s then now else s"
  have started: "?started = Min (set (now # ts))"
    by (cases "ts = []") (simp_all add: run_start_def Min_insert min_def del: Min_gr_iff Min_ge_iff)
  have "snd (EvaluateRule rule metrics health now states)
      (MakeRuleKey (ar_service_id rule) (ar_id rule)) = Some (Some ?started)
    \<and> ae_firing (fst (EvaluateRule rule metrics health now states))
      = (duration_ms rule \<le> now - ?started)"
    using True rule now start
    by (simp add: EvaluateRule_def Let_def condition_holds_def duration_ms_def)
  then show ?thesis
    using True unfolding started by (simp add: ts'_def run_start_def)
qed

lemma EvaluateRule_history_start:
  assumes "ar_enabled rule" and "valid_AlertRule rule" and "\<forall>i \<in> set inputs. 0 \<le> snd (snd i)"
  shows "snd (EvaluateRule_history rule inputs Map.empty)
    (MakeRuleKey (ar_service_id rule) (ar_id rule)) = run_start (met_times rule inputs)"
  using assms(3)
proof (induction inputs rule: rev_induct)
  case Nil
  show ?case by (simp add: run_start_def met_times_def)
next
  case (snoc i inputs)
  obtain metrics health now where i: "i = (metrics, health, now)"
    by (cases i)
  have "snd (EvaluateRule_history rule inputs Map.empty)
      (MakeRuleKey (ar_service_id rule) (ar_id rule)) = run_start (met_times rule inputs)"
    using snoc by simp
  note step = EvaluateRule_run_step [where metrics = metrics and health = health and now = now
      and ts = "met_times rule inputs" and states = "snd (EvaluateRule_history rule inputs Map.empty)",
      OF assms(1,2) _ this]
  show ?case
    using step snoc.prems
    by (simp add: i EvaluateRule_history_snoc met_times_snoc Let_def case_prod_beta)
qed

text \<open>
  C31. A rule fires exactly when its condition has held in every evaluation of the run that ends
  the history and the time from the start of the run to the last evaluation reaches the duration
  of the rule. The start is the earliest time seen in the run, so a clock that was set back does
  not make a rule fire early.
\<close>

theorem rule_fires_iff:
  assumes "ar_enabled rule" and "valid_AlertRule rule" and "inputs \<noteq> []"
    and "\<forall>i \<in> set inputs. 0 \<le> snd (snd i)"
  shows "ae_firing (last (fst (EvaluateRule_history rule inputs Map.empty))) \<longleftrightarrow>
    met_times rule inputs \<noteq> []
    \<and> duration_ms rule \<le> hd (met_times rule inputs) - Min (set (met_times rule inputs))"
proof -
  obtain ys metrics health now where inputs: "inputs = ys @ [(metrics, health, now)]"
    using assms(3) by (metis rev_exhaust surj_pair)
  have start: "snd (EvaluateRule_history rule ys Map.empty)
      (MakeRuleKey (ar_service_id rule) (ar_id rule)) = run_start (met_times rule ys)"
    using assms inputs by (intro EvaluateRule_history_start) auto
  have "0 \<le> now"
    using assms(4) by (simp add: inputs)
  note step = EvaluateRule_run_step [where metrics = metrics and health = health
      and ts = "met_times rule ys" and states = "snd (EvaluateRule_history rule ys Map.empty)",
      OF assms(1,2) this start]
  show ?thesis
    using step by (simp add: inputs EvaluateRule_history_snoc met_times_snoc Let_def case_prod_beta)
qed

section \<open>Witnesses\<close>

definition health_rule :: AlertRule where
  "health_rule = default_alert_rule\<lparr> ar_id := ''down'', ar_service_id := ''demo'',
     ar_metric := HealthStateMetric, ar_op := Equal, ar_health_state_threshold := Some Unhealthy,
     ar_duration_seconds := 2, ar_severity := Critical \<rparr>"

definition sick :: HealthStatus where
  "sick = \<lparr> hs_service_id = ''demo'', hs_state = Unhealthy, hs_reason = ''x'',
     hs_consecutive_failures = 3, hs_checked_at_unix_ms = 0 \<rparr>"

lemma health_rule_simps [simp]:
  "ar_enabled health_rule" "ar_service_id health_rule = ''demo''" "ar_id health_rule = ''down''"
  "ar_metric health_rule = HealthStateMetric" "ar_op health_rule = Equal"
  "ar_health_state_threshold health_rule = Some Unhealthy"
  "ar_duration_seconds health_rule = 2" "ar_severity health_rule = Critical"
  by (simp_all add: health_rule_def default_alert_rule_def)

lemma health_rule_valid [simp]: "valid_AlertRule health_rule"
  by (simp add: valid_AlertRule_def IsValidAlertRuleId_def IsValidServiceId_def id_char_def
      char_between_def) (simp add: health_rule_def default_alert_rule_def)

lemma sick_holds: "condition_holds health_rule (None, sick, t)"
  by (simp add: condition_holds_def EvaluateCondition_def EvaluateHealthCondition_def sick_def
      no_result_def Let_def)

theorem rule_fires_iff_witness:
  "ae_firing (last (fst (EvaluateRule_history health_rule
      [(None, sick, 1000), (None, sick, 3000)] Map.empty)))
   \<and> \<not> ae_firing (last (fst (EvaluateRule_history health_rule
      [(None, sick, 1000), (None, sick, 2999)] Map.empty)))"
  using rule_fires_iff [of health_rule "[(None, sick, 1000), (None, sick, 3000)]"]
    rule_fires_iff [of health_rule "[(None, sick, 1000), (None, sick, 2999)]"]
  by (simp add: met_times_def sick_holds duration_ms_def del: EvaluateRule_history.simps)

definition alert_def :: ServiceDefinition where
  "alert_def = demo_def\<lparr> sd_alert_rules := [health_rule] \<rparr>"

lemma alert_def_valid [simp]: "valid_ServiceDefinition alert_def"
  by (simp add: valid_ServiceDefinition_def alert_def_def demo_def_def default_health_check_def
      default_recovery_policy_def valid_HealthCheckDefinition_def valid_RecoveryPolicy_def
      IsValidServiceId_def id_char_def char_between_def)

lemma alert_def_id [simp]: "sd_id alert_def = ''demo''"
  by (simp add: alert_def_def demo_def_def)

theorem Evaluate_valid_witness:
  "list_all (\<lambda>e. valid_AlertEvaluation e \<and> ae_service_id e = ''demo'')
     (fst (Evaluate alert_def None sick 5 Map.empty))"
  using Evaluate_valid [of alert_def 5 Map.empty None sick]
  by (simp add: starts_ok_def list_all_iff)

end
