(* ===== verification/AlertManager.thy ===== *)
theory AlertManager
  imports AlertEval "HOL-Library.Product_Lexorder"
begin

text \<open>
  \<open>AlertManager\<close> (\<open>src/apps/agent/src/alerts/alert_manager.cpp\<close>): the active alerts by event id, a
  bounded log of resolved alerts, and the operations under the component's mutex. The lemmas show
  the invariant of the two collections for every sequence of operations, the life of the alert of a
  rule as a function of the evaluations of that rule, and that what the queries display does not
  depend on the iteration order of the hash map.
\<close>

section \<open>State and operations\<close>

record alert_manager =
  am_capacity :: nat
  am_active :: "(string, AlertEvent) hash_map"
  am_resolved :: "AlertEvent list"

record AlertManagerUpdate =
  up_created :: "AlertEvent list"
  up_updated :: "AlertEvent list"
  up_resolved :: "AlertEvent list"
  up_ignored :: nat

definition no_update :: AlertManagerUpdate where
  "no_update = \<lparr> up_created = [], up_updated = [], up_resolved = [], up_ignored = 0 \<rparr>"

definition HasChanges :: "AlertManagerUpdate \<Rightarrow> bool" where
  "HasChanges u \<longleftrightarrow> up_created u \<noteq> [] \<or> up_updated u \<noteq> [] \<or> up_resolved u \<noteq> []"

definition new_AlertManager :: "nat \<Rightarrow> alert_manager" where
  "new_AlertManager capacity = \<lparr> am_capacity = (if capacity = 0 then 1 else capacity),
     am_active = [], am_resolved = [] \<rparr>"

definition PushResolvedLocked :: "AlertEvent \<Rightarrow> alert_manager \<Rightarrow> alert_manager" where
  "PushResolvedLocked event s =
     s\<lparr> am_resolved := push_bounded (am_capacity s) event (am_resolved s) \<rparr>"

definition ignore_one :: "AlertManagerUpdate \<Rightarrow> AlertManagerUpdate" where
  "ignore_one u = u\<lparr> up_ignored := up_ignored u + 1 \<rparr>"

definition first_event :: "string \<Rightarrow> AlertEvaluation \<Rightarrow> AlertEvent" where
  "first_event event_id e = \<lparr> ev_id = event_id, ev_service_id = ae_service_id e,
     ev_rule_id = ae_rule_id e, ev_severity = ae_severity e, ev_state = AlertActive,
     ev_message = ae_message e, ev_first_triggered_at_unix_ms = ae_evaluated_at_unix_ms e,
     ev_last_triggered_at_unix_ms = ae_evaluated_at_unix_ms e, ev_resolved_at_unix_ms = None,
     ev_trigger_count = 1, ev_acknowledged = False \<rparr>"

definition fired_again :: "AlertEvaluation \<Rightarrow> AlertEvent \<Rightarrow> AlertEvent" where
  "fired_again e event = event\<lparr> ev_severity := ae_severity e, ev_message := ae_message e,
     ev_last_triggered_at_unix_ms := ae_evaluated_at_unix_ms e,
     ev_trigger_count := (if ev_trigger_count event < u32_max then ev_trigger_count event + 1
                          else ev_trigger_count event),
     ev_state := AlertActive, ev_resolved_at_unix_ms := None \<rparr>"

definition resolved_by :: "AlertEvaluation \<Rightarrow> AlertEvent \<Rightarrow> AlertEvent" where
  "resolved_by e event = event\<lparr> ev_state := AlertResolved, ev_message := ae_message e,
     ev_resolved_at_unix_ms := Some (ae_evaluated_at_unix_ms e) \<rparr>"

text \<open>
  One turn of the loop of \<open>ApplyEvaluations\<close>. The code writes the refreshed event through the
  iterator before it validates it; when it is invalid the element is erased, so only the valid
  result stays in the map.
\<close>

definition ApplyEvaluation ::
  "AlertEvaluation \<Rightarrow> alert_manager \<times> AlertManagerUpdate \<Rightarrow> alert_manager \<times> AlertManagerUpdate" where
  "ApplyEvaluation e su =
     (let (s, u) = su;
          event_id = MakeAlertEventId (ae_service_id e) (ae_rule_id e)
      in if \<not> valid_AlertEvaluation e then (s, ignore_one u)
         else if \<not> IsValidAlertEventId event_id then (s, ignore_one u)
         else if ae_firing e then
           (case map_of (am_active s) event_id of
              None \<Rightarrow>
                let event = first_event event_id e in
                if \<not> valid_AlertEvent event then (s, ignore_one u)
                else (s\<lparr> am_active := emplace (ev_id event) event (am_active s) \<rparr>,
                      u\<lparr> up_created := up_created u @ [event] \<rparr>)
            | Some active \<Rightarrow>
                let event = fired_again e active in
                if \<not> valid_AlertEvent event then
                  (s\<lparr> am_active := AList.delete event_id (am_active s) \<rparr>, ignore_one u)
                else (s\<lparr> am_active := AList.update event_id event (am_active s) \<rparr>,
                      u\<lparr> up_updated := up_updated u @ [event] \<rparr>))
         else
           (case map_of (am_active s) event_id of
              None \<Rightarrow> (s, u)
            | Some active \<Rightarrow>
                let event = resolved_by e active;
                    s' = s\<lparr> am_active := AList.delete event_id (am_active s) \<rparr>
                in if \<not> valid_AlertEvent event then (s', ignore_one u)
                   else (PushResolvedLocked event s', u\<lparr> up_resolved := up_resolved u @ [event] \<rparr>)))"

definition ApplyEvaluations ::
  "AlertEvaluation list \<Rightarrow> alert_manager \<Rightarrow> alert_manager \<times> AlertManagerUpdate" where
  "ApplyEvaluations es s = fold ApplyEvaluation es (s, no_update)"

text \<open>The comparison of \<open>SortAlertsForDisplay\<close>, test by test.\<close>

definition alert_before :: "AlertEvent \<Rightarrow> AlertEvent \<Rightarrow> bool" where
  "alert_before left right =
     (let left_rank = SeverityRank (ev_severity left);
          right_rank = SeverityRank (ev_severity right)
      in if left_rank \<noteq> right_rank then left_rank > right_rank
         else if ev_state left \<noteq> ev_state right then ev_state left = AlertActive
         else if ev_last_triggered_at_unix_ms left \<noteq> ev_last_triggered_at_unix_ms right
           then ev_last_triggered_at_unix_ms left > ev_last_triggered_at_unix_ms right
         else if ev_service_id left \<noteq> ev_service_id right
           then ev_service_id left < ev_service_id right
         else ev_rule_id left < ev_rule_id right)"

definition SortAlertsForDisplay :: "AlertEvent list \<Rightarrow> AlertEvent list" where
  "SortAlertsForDisplay alerts = sort_by alert_before alerts"

definition GetActiveAlerts :: "alert_manager \<Rightarrow> AlertEvent list" where
  "GetActiveAlerts s = SortAlertsForDisplay (map_values (am_active s))"

definition GetRecentResolvedAlerts :: "nat \<Rightarrow> alert_manager \<Rightarrow> AlertEvent list" where
  "GetRecentResolvedAlerts limit s = newest_first limit (am_resolved s)"

definition GetAlertsForService :: "string \<Rightarrow> bool \<Rightarrow> alert_manager \<Rightarrow> AlertEvent list" where
  "GetAlertsForService service_id include_resolved s =
     SortAlertsForDisplay
       (filter (\<lambda>e. ev_service_id e = service_id) (map_values (am_active s))
        @ (if include_resolved then filter (\<lambda>e. ev_service_id e = service_id) (am_resolved s)
           else []))"

definition GetAlert :: "string \<Rightarrow> alert_manager \<Rightarrow> AlertEvent option" where
  "GetAlert alert_id s =
     (case map_of (am_active s) alert_id of
        Some e \<Rightarrow> Some e
      | None \<Rightarrow> find (\<lambda>e. ev_id e = alert_id) (am_resolved s))"

definition HasActiveAlert :: "string \<Rightarrow> string \<Rightarrow> alert_manager \<Rightarrow> bool" where
  "HasActiveAlert service_id rule_id s \<longleftrightarrow>
     map_of (am_active s) (MakeAlertEventId service_id rule_id) \<noteq> None"

text \<open>The loop over the resolved alerts of \<open>AcknowledgeAndGet\<close>: the first match is marked.\<close>

fun acknowledge_first :: "string \<Rightarrow> AlertEvent list \<Rightarrow> AlertEvent option \<times> AlertEvent list" where
  "acknowledge_first alert_id [] = (None, [])"
| "acknowledge_first alert_id (e # es) =
     (if ev_id e = alert_id then
        (let e' = e\<lparr> ev_acknowledged := True \<rparr> in (Some e', e' # es))
      else (let (r, es') = acknowledge_first alert_id es in (r, e # es')))"

definition AcknowledgeAndGet :: "string \<Rightarrow> alert_manager \<Rightarrow> AlertEvent option \<times> alert_manager" where
  "AcknowledgeAndGet alert_id s =
     (case map_of (am_active s) alert_id of
        Some e \<Rightarrow>
          let e' = e\<lparr> ev_acknowledged := True \<rparr>
          in (Some e', s\<lparr> am_active := AList.update alert_id e' (am_active s) \<rparr>)
      | None \<Rightarrow>
          let (r, resolved) = acknowledge_first alert_id (am_resolved s)
          in (r, s\<lparr> am_resolved := resolved \<rparr>))"

definition Acknowledge :: "string \<Rightarrow> alert_manager \<Rightarrow> bool \<times> alert_manager" where
  "Acknowledge alert_id s = (let (r, s') = AcknowledgeAndGet alert_id s in (r \<noteq> None, s'))"

definition alerts_ForgetService :: "string \<Rightarrow> alert_manager \<Rightarrow> alert_manager" where
  "alerts_ForgetService service_id s =
     s\<lparr> am_active := erase_if (\<lambda>(_, e). ev_service_id e = service_id) (am_active s),
        am_resolved := filter (\<lambda>e. ev_service_id e \<noteq> service_id) (am_resolved s) \<rparr>"

definition alerts_Clear :: "alert_manager \<Rightarrow> alert_manager" where
  "alerts_Clear s = s\<lparr> am_active := [], am_resolved := [] \<rparr>"

section \<open>The interfaces\<close>

interpretation resolved_log: bounded_log PushResolvedLocked am_resolved am_capacity
  by unfold_locales (simp_all add: PushResolvedLocked_def push_bounded_eq)

definition alerts_of_service :: "alert_manager \<Rightarrow> string \<Rightarrow> (string \<times> AlertEvent) list \<times> AlertEvent list" where
  "alerts_of_service s service_id =
     (filter (\<lambda>(_, e). ev_service_id e = service_id) (am_active s),
      filter (\<lambda>e. ev_service_id e = service_id) (am_resolved s))"

interpretation alert_store:
  service_store alerts_ForgetService alerts_of_service "([], [])" "\<lambda>_. True"
  by unfold_locales
    (auto simp: alerts_ForgetService_def alerts_of_service_def erase_if_def case_prod_beta
      filter_empty_conv intro!: filter_cong)

section \<open>The invariant\<close>

definition event_ok :: "AlertEventState \<Rightarrow> AlertEvent \<Rightarrow> bool" where
  "event_ok st e \<longleftrightarrow> valid_AlertEvent e \<and> ev_state e = st
     \<and> ev_id e = MakeAlertEventId (ev_service_id e) (ev_rule_id e)"

definition alerts_ok :: "alert_manager \<Rightarrow> bool" where
  "alerts_ok s \<longleftrightarrow> 0 < am_capacity s \<and> length (am_resolved s) \<le> am_capacity s
     \<and> wf_map (am_active s)
     \<and> (\<forall>k e. map_of (am_active s) k = Some e \<longrightarrow> k = ev_id e \<and> event_ok AlertActive e)
     \<and> (\<forall>e \<in> set (am_resolved s). event_ok AlertResolved e)"

lemma alerts_okI:
  assumes "0 < am_capacity s" and "length (am_resolved s) \<le> am_capacity s" and "wf_map (am_active s)"
    and "\<And>k e. map_of (am_active s) k = Some e \<Longrightarrow> k = ev_id e \<and> event_ok AlertActive e"
    and "\<And>e. e \<in> set (am_resolved s) \<Longrightarrow> event_ok AlertResolved e"
  shows "alerts_ok s"
  using assms by (simp add: alerts_ok_def)

lemma alerts_okD:
  assumes "alerts_ok s"
  shows "0 < am_capacity s" and "length (am_resolved s) \<le> am_capacity s" and "wf_map (am_active s)"
    and "map_of (am_active s) k = Some e \<Longrightarrow> k = ev_id e"
    and "map_of (am_active s) k = Some e \<Longrightarrow> event_ok AlertActive e"
    and "e \<in> set (am_resolved s) \<Longrightarrow> event_ok AlertResolved e"
  using assms by (auto simp: alerts_ok_def)

lemma new_AlertManager_ok [inv_intros]: "alerts_ok (new_AlertManager capacity)"
  by (simp add: alerts_ok_def new_AlertManager_def)

lemma alerts_ok_put [inv_intros]:
  "alerts_ok s \<Longrightarrow> event_ok AlertActive e \<Longrightarrow>
   alerts_ok (s\<lparr> am_active := AList.update (ev_id e) e (am_active s) \<rparr>)"
  by (auto simp: alerts_ok_def update_conv' split: if_splits)

lemma alerts_ok_emplace [inv_intros]:
  "alerts_ok s \<Longrightarrow> event_ok AlertActive e \<Longrightarrow>
   alerts_ok (s\<lparr> am_active := emplace (ev_id e) e (am_active s) \<rparr>)"
  by (auto simp: alerts_ok_def map_of_emplace split: if_splits)

lemma alerts_ok_delete [inv_intros]:
  "alerts_ok s \<Longrightarrow> alerts_ok (s\<lparr> am_active := AList.delete k (am_active s) \<rparr>)"
  by (auto simp: alerts_ok_def delete_conv' split: if_splits)

lemma alerts_ok_push [inv_intros]:
  assumes "alerts_ok s" and "event_ok AlertResolved e"
  shows "alerts_ok (PushResolvedLocked e s)"
proof (rule alerts_okI)
  show "length (am_resolved (PushResolvedLocked e s)) \<le> am_capacity (PushResolvedLocked e s)"
    by (simp add: resolved_log.log_bounded resolved_log.cap_push)
  show "event_ok AlertResolved x" if "x \<in> set (am_resolved (PushResolvedLocked e s))" for x
    using resolved_log.log_keeps [OF that] assms alerts_okD(6) by blast
qed (use assms in \<open>auto simp: alerts_ok_def PushResolvedLocked_def\<close>)

lemma fired_again_ok:
  "event_ok AlertActive a \<Longrightarrow> valid_AlertEvent (fired_again e a) \<Longrightarrow>
   event_ok AlertActive (fired_again e a)"
  by (simp add: event_ok_def fired_again_def)

lemma resolved_by_ok:
  "event_ok AlertActive a \<Longrightarrow> valid_AlertEvent (resolved_by e a) \<Longrightarrow>
   event_ok AlertResolved (resolved_by e a)"
  by (simp add: event_ok_def resolved_by_def)

lemma first_event_ok:
  "valid_AlertEvent (first_event (MakeAlertEventId (ae_service_id e) (ae_rule_id e)) e) \<Longrightarrow>
   event_ok AlertActive (first_event (MakeAlertEventId (ae_service_id e) (ae_rule_id e)) e)"
  by (simp add: event_ok_def first_event_def)

lemma ApplyEvaluation_ok [inv_intros]:
  assumes "alerts_ok (fst su)"
  shows "alerts_ok (fst (ApplyEvaluation e su))"
proof -
  obtain s u where su: "su = (s, u)" by (cases su)
  let ?id = "MakeAlertEventId (ae_service_id e) (ae_rule_id e)"
  have s: "alerts_ok s" using assms by (simp add: su)
  show ?thesis
  proof (cases "map_of (am_active s) ?id")
    case None
    then show ?thesis
      using s first_event_ok [of e]
      by (simp add: ApplyEvaluation_def su Let_def alerts_ok_emplace)
  next
    case (Some a)
    have a: "event_ok AlertActive a" and k: "ev_id a = ?id"
      using alerts_okD(4,5) [OF s Some] by auto
    have "ev_id (fired_again e a) = ?id"
      by (simp add: fired_again_def k)
    then have "valid_AlertEvent (fired_again e a) \<Longrightarrow>
        alerts_ok (s\<lparr> am_active := AList.update ?id (fired_again e a) (am_active s) \<rparr>)"
      using alerts_ok_put [OF s fired_again_ok [OF a, of e]] by simp
    moreover have "valid_AlertEvent (resolved_by e a) \<Longrightarrow>
        alerts_ok (PushResolvedLocked (resolved_by e a)
          (s\<lparr> am_active := AList.delete ?id (am_active s) \<rparr>))"
      using alerts_ok_push [OF alerts_ok_delete [OF s] resolved_by_ok [OF a]] .
    ultimately show ?thesis
      using Some s alerts_ok_delete [OF s] by (simp add: ApplyEvaluation_def su Let_def)
  qed
qed

lemma fold_ApplyEvaluation_ok: "alerts_ok (fst su) \<Longrightarrow> alerts_ok (fst (fold ApplyEvaluation es su))"
  by (induction es arbitrary: su) (simp_all add: ApplyEvaluation_ok)

lemma ApplyEvaluations_ok [inv_intros]: "alerts_ok s \<Longrightarrow> alerts_ok (fst (ApplyEvaluations es s))"
  by (simp add: ApplyEvaluations_def fold_ApplyEvaluation_ok)

lemma event_ok_acknowledged: "event_ok st (e\<lparr> ev_acknowledged := b \<rparr>) = event_ok st e"
  by (cases "ev_state e"; cases "ev_resolved_at_unix_ms e")
    (simp_all add: event_ok_def valid_AlertEvent_def)

lemma acknowledge_first_list:
  "snd (acknowledge_first k es)
     = (case find (\<lambda>e. ev_id e = k) es of
          None \<Rightarrow> es
        | Some e \<Rightarrow> takeWhile (\<lambda>e. ev_id e \<noteq> k) es @ e\<lparr> ev_acknowledged := True \<rparr>
            # tl (dropWhile (\<lambda>e. ev_id e \<noteq> k) es))"
  by (induction es) (auto simp: Let_def case_prod_beta split: option.splits)

lemma acknowledge_first_fst:
  "fst (acknowledge_first k es)
     = map_option (\<lambda>e. e\<lparr> ev_acknowledged := True \<rparr>) (find (\<lambda>e. ev_id e = k) es)"
  by (induction es) (simp_all add: Let_def case_prod_beta)

lemma acknowledge_first_ok:
  "\<forall>e \<in> set es. event_ok st e \<Longrightarrow>
   (\<forall>e \<in> set (snd (acknowledge_first k es)). event_ok st e)
   \<and> length (snd (acknowledge_first k es)) = length es"
  by (induction es) (simp_all add: Let_def case_prod_beta event_ok_acknowledged)

lemma AcknowledgeAndGet_ok [inv_intros]:
  assumes s: "alerts_ok s"
  shows "alerts_ok (snd (AcknowledgeAndGet k s))"
proof (cases "map_of (am_active s) k")
  case None
  have "\<forall>e \<in> set (am_resolved s). event_ok AlertResolved e"
    using s by (simp add: alerts_ok_def)
  from acknowledge_first_ok [OF this, of k] s None show ?thesis
    by (simp add: AcknowledgeAndGet_def Let_def case_prod_beta alerts_ok_def)
next
  case (Some a)
  let ?a = "a\<lparr> ev_acknowledged := True \<rparr>"
  have "event_ok AlertActive ?a" and "ev_id ?a = k"
    using alerts_okD(4,5) [OF s Some] by (simp_all add: event_ok_acknowledged)
  from alerts_ok_put [OF s this(1)] this(2) Some show ?thesis
    by (simp add: AcknowledgeAndGet_def Let_def)
qed

lemma alerts_ForgetService_ok [inv_intros]:
  "alerts_ok s \<Longrightarrow> alerts_ok (alerts_ForgetService sid s)"
  by (auto simp: alerts_ok_def alerts_ForgetService_def map_of_erase_if
      intro: order_trans [OF length_filter_le] split: option.splits if_splits)

lemma alerts_Clear_ok [inv_intros]: "alerts_ok s \<Longrightarrow> alerts_ok (alerts_Clear s)"
  by (simp add: alerts_ok_def alerts_Clear_def)

text \<open>The operations a client can call, in any order.\<close>

datatype alert_op =
  OpApply "AlertEvaluation list" | OpAcknowledge string | OpForget string | OpClear

fun run_alert_op :: "alert_op \<Rightarrow> alert_manager \<Rightarrow> alert_manager" where
  "run_alert_op (OpApply es) s = fst (ApplyEvaluations es s)"
| "run_alert_op (OpAcknowledge k) s = snd (AcknowledgeAndGet k s)"
| "run_alert_op (OpForget sid) s = alerts_ForgetService sid s"
| "run_alert_op OpClear s = alerts_Clear s"

definition alerts_after :: "nat \<Rightarrow> alert_op list \<Rightarrow> alert_manager" where
  "alerts_after capacity ops = fold run_alert_op ops (new_AlertManager capacity)"

lemma alerts_ok_run: "alerts_ok s \<Longrightarrow> alerts_ok (fold run_alert_op ops s)"
proof (induction ops arbitrary: s)
  case (Cons oper ops)
  then show ?case
    by (cases oper) (simp_all add: inv_intros)
qed simp

text \<open>
  C34. Whatever operations run, in whatever order, every active alert is stored under its own id,
  is structurally valid and active, every resolved one is valid and resolved, and the resolved log
  never exceeds its capacity (which is at least one).
\<close>

theorem alerts_after_ok: "alerts_ok (alerts_after capacity ops)"
  by (simp add: alerts_after_def alerts_ok_run new_AlertManager_ok)

section \<open>The life of an alert\<close>

definition eval_key :: "AlertEvaluation \<Rightarrow> string" where
  "eval_key e = MakeAlertEventId (ae_service_id e) (ae_rule_id e)"

text \<open>A count cut to the width of the counter.\<close>

definition saturated :: "nat \<Rightarrow> u32" where
  "saturated n = of_nat (min n 4294967295)"

lemma unat_saturated: "unat (saturated n) = min n 4294967295"
  by (simp add: saturated_def unat_of_nat)

lemma saturating_inc_saturated: "saturating_inc (saturated n) = saturated (Suc n)"
  by (rule word_unat_eq_iff [THEN iffD2]) (simp add: saturating_inc_unat unat_saturated)

text \<open>The run of firing evaluations of one rule that ends a history, newest first.\<close>

definition firing_run :: "string \<Rightarrow> AlertEvaluation list \<Rightarrow> AlertEvaluation list" where
  "firing_run k es = takeWhile ae_firing (rev (filter (\<lambda>e. eval_key e = k) es))"

definition alert_of_run :: "string \<Rightarrow> AlertEvaluation list \<Rightarrow> AlertEvent option" where
  "alert_of_run k run =
     (if run = [] then None
      else Some \<lparr> ev_id = k, ev_service_id = ae_service_id (last run),
        ev_rule_id = ae_rule_id (last run), ev_severity = ae_severity (hd run),
        ev_state = AlertActive, ev_message = ae_message (hd run),
        ev_first_triggered_at_unix_ms = ae_evaluated_at_unix_ms (last run),
        ev_last_triggered_at_unix_ms = ae_evaluated_at_unix_ms (hd run),
        ev_resolved_at_unix_ms = None,
        ev_trigger_count = saturated (length run), ev_acknowledged = False \<rparr>)"

definition apply_one :: "AlertEvaluation \<Rightarrow> alert_manager \<Rightarrow> alert_manager" where
  "apply_one e s = fst (ApplyEvaluation e (s, no_update))"

lemma ApplyEvaluation_fst: "fst (ApplyEvaluation e (s, u)) = apply_one e s"
  by (simp add: apply_one_def ApplyEvaluation_def Let_def split: option.split)

lemma fold_ApplyEvaluation_fst:
  "fst (fold ApplyEvaluation es (s, u)) = fold apply_one es s"
proof (induction es arbitrary: s u)
  case (Cons e es)
  have "ApplyEvaluation e (s, u) = (apply_one e s, snd (ApplyEvaluation e (s, u)))"
    by (metis ApplyEvaluation_fst prod.collapse)
  then show ?case
    using Cons.IH by (metis fold_simps(2))
qed simp

lemma ApplyEvaluations_fst: "fst (ApplyEvaluations es s) = fold apply_one es s"
  by (simp add: ApplyEvaluations_def fold_ApplyEvaluation_fst)

lemma fold_ApplyEvaluations_concat:
  "fold (\<lambda>es s. fst (ApplyEvaluations es s)) batches s = fold apply_one (concat batches) s"
  by (induction batches arbitrary: s) (simp_all add: ApplyEvaluations_fst)

lemma fired_again_eq:
  "fired_again e a = a\<lparr> ev_severity := ae_severity e, ev_message := ae_message e,
     ev_last_triggered_at_unix_ms := ae_evaluated_at_unix_ms e,
     ev_trigger_count := saturating_inc (ev_trigger_count a),
     ev_state := AlertActive, ev_resolved_at_unix_ms := None \<rparr>"
  by (simp add: fired_again_def saturating_inc_def)

lemma valid_AlertEvent_iff:
  "valid_AlertEvent e \<longleftrightarrow> IsValidAlertEventId (ev_id e) \<and> IsValidServiceId (ev_service_id e)
     \<and> IsValidAlertRuleId (ev_rule_id e) \<and> ev_message e \<noteq> []
     \<and> 0 \<le> ev_first_triggered_at_unix_ms e
     \<and> ev_first_triggered_at_unix_ms e \<le> ev_last_triggered_at_unix_ms e
     \<and> ev_trigger_count e \<noteq> 0
     \<and> (case ev_state e of
          AlertActive \<Rightarrow> ev_resolved_at_unix_ms e = None
        | AlertResolved \<Rightarrow>
            (case ev_resolved_at_unix_ms e of
               None \<Rightarrow> False
             | Some t \<Rightarrow> ev_last_triggered_at_unix_ms e \<le> t))"
  by (auto simp: valid_AlertEvent_def)

lemma firing_run_snoc:
  "firing_run k (es @ [e]) =
     (if eval_key e \<noteq> k then firing_run k es
      else if ae_firing e then e # firing_run k es
      else [])"
  by (simp add: firing_run_def)

lemma valid_evaluation_key:
  "valid_AlertEvaluation e \<Longrightarrow> IsValidAlertEventId (eval_key e)"
  by (simp add: valid_AlertEvaluation_def eval_key_def MakeAlertEventId_valid split: if_splits)

lemma valid_evaluation_facts:
  assumes "valid_AlertEvaluation e"
  shows "ae_message e \<noteq> []" "0 \<le> ae_evaluated_at_unix_ms e"
    "IsValidServiceId (ae_service_id e)" "IsValidAlertRuleId (ae_rule_id e)"
  using assms by (simp_all add: valid_AlertEvaluation_def split: if_splits)

lemma first_event_valid:
  "valid_AlertEvaluation e \<Longrightarrow> valid_AlertEvent (first_event (eval_key e) e)"
  using valid_evaluation_key [of e] valid_evaluation_facts [of e]
  by (simp add: valid_AlertEvent_def first_event_def)

lemma fired_again_valid_iff:
  assumes "valid_AlertEvent a" and "valid_AlertEvaluation e"
  shows "valid_AlertEvent (fired_again e a) \<longleftrightarrow>
    ev_first_triggered_at_unix_ms a \<le> ae_evaluated_at_unix_ms e"
  using assms valid_evaluation_facts [of e]
  by (auto simp: valid_AlertEvent_iff fired_again_eq)

lemma resolved_by_valid_iff:
  assumes "valid_AlertEvent a" and "valid_AlertEvaluation e"
  shows "valid_AlertEvent (resolved_by e a) \<longleftrightarrow>
    ev_last_triggered_at_unix_ms a \<le> ae_evaluated_at_unix_ms e"
  using assms valid_evaluation_facts [of e]
  by (auto simp: valid_AlertEvent_iff resolved_by_def)

text \<open>The whole effect of one valid evaluation on a manager that satisfies the invariant.\<close>

lemma apply_one_cases:
  assumes s: "alerts_ok s" and e: "valid_AlertEvaluation e"
  shows "apply_one e s =
    (case map_of (am_active s) (eval_key e) of
       None \<Rightarrow>
         if ae_firing e
         then s\<lparr> am_active := emplace (eval_key e) (first_event (eval_key e) e) (am_active s) \<rparr>
         else s
     | Some a \<Rightarrow>
         let erased = s\<lparr> am_active := AList.delete (eval_key e) (am_active s) \<rparr> in
         if ae_firing e then
           (if ev_first_triggered_at_unix_ms a \<le> ae_evaluated_at_unix_ms e
            then s\<lparr> am_active := AList.update (eval_key e) (fired_again e a) (am_active s) \<rparr>
            else erased)
         else
           (if ev_last_triggered_at_unix_ms a \<le> ae_evaluated_at_unix_ms e
            then PushResolvedLocked (resolved_by e a) erased
            else erased))"
proof (cases "map_of (am_active s) (eval_key e)")
  case None
  then show ?thesis
    using e valid_evaluation_key [OF e] first_event_valid [OF e]
    by (simp add: apply_one_def ApplyEvaluation_def Let_def eval_key_def first_event_def)
next
  case (Some a)
  have "valid_AlertEvent a"
    using alerts_okD(5) [OF s Some] by (simp add: event_ok_def)
  then show ?thesis
    using Some e valid_evaluation_key [OF e] fired_again_valid_iff [of a e] resolved_by_valid_iff [of a e]
    by (simp add: apply_one_def ApplyEvaluation_def Let_def eval_key_def)
qed

lemma apply_one_ok [inv_intros]: "alerts_ok s \<Longrightarrow> alerts_ok (apply_one e s)"
  by (simp add: apply_one_def ApplyEvaluation_ok)

lemma apply_one_run:
  assumes s: "alerts_ok s" and e: "valid_AlertEvaluation e"
    and run: "map_of (am_active s) k = alert_of_run k run"
    and order: "run \<noteq> [] \<Longrightarrow> eval_key e = k \<Longrightarrow>
      ae_evaluated_at_unix_ms (last run) \<le> ae_evaluated_at_unix_ms e"
  shows "map_of (am_active (apply_one e s)) k =
    alert_of_run k (if eval_key e \<noteq> k then run else if ae_firing e then e # run else [])"
proof (cases "eval_key e = k")
  case False
  then have "k \<noteq> eval_key e" by simp
  then show ?thesis
    using False run
    by (simp add: apply_one_cases [OF s e] Let_def PushResolvedLocked_def map_of_emplace
        update_conv' delete_conv' split: option.split)
next
  case True
  show ?thesis
  proof (cases "run = []")
    case True
    then show ?thesis
      using run \<open>eval_key e = k\<close>
      by (simp add: apply_one_cases [OF s e] alert_of_run_def map_of_emplace first_event_def
          saturated_def)
  next
    case False
    then show ?thesis
      using run order \<open>eval_key e = k\<close>
      by (simp add: apply_one_cases [OF s e] alert_of_run_def Let_def PushResolvedLocked_def
          update_conv' delete_conv' fired_again_eq saturating_inc_saturated)
  qed
qed

text \<open>
  C29. The active alert of a rule is a function of the run of firing evaluations that ends its
  history: there is one exactly when the last evaluation of the rule fired, it was first triggered
  at the start of the run, last triggered at its end, counts the run up to the width of the counter,
  and carries the severity and message of the last evaluation. The evaluations of other rules,
  and how the history is cut into batches, do not matter. Times are assumed not to go back.
\<close>

theorem active_alert_is_run:
  assumes "\<forall>e \<in> set (concat batches). valid_AlertEvaluation e"
    and "sorted (map ae_evaluated_at_unix_ms (filter (\<lambda>e. eval_key e = k) (concat batches)))"
  shows "map_of (am_active (fold (\<lambda>es s. fst (ApplyEvaluations es s)) batches
      (new_AlertManager capacity))) k
    = alert_of_run k (firing_run k (concat batches))"
proof -
  have "alerts_ok (fold apply_one es (new_AlertManager capacity))
      \<and> map_of (am_active (fold apply_one es (new_AlertManager capacity))) k
        = alert_of_run k (firing_run k es)"
    if "\<forall>e \<in> set es. valid_AlertEvaluation e"
      "sorted (map ae_evaluated_at_unix_ms (filter (\<lambda>e. eval_key e = k) es))" for es
    using that
  proof (induction es rule: rev_induct)
    case Nil
    show ?case
      by (simp add: new_AlertManager_ok) (simp add: new_AlertManager_def alert_of_run_def firing_run_def)
  next
    case (snoc e es)
    let ?run = "firing_run k es"
    have IH: "alerts_ok (fold apply_one es (new_AlertManager capacity))"
      "map_of (am_active (fold apply_one es (new_AlertManager capacity))) k = alert_of_run k ?run"
      using snoc by (auto simp: sorted_append)
    have "set ?run \<subseteq> set (filter (\<lambda>e. eval_key e = k) es)"
      unfolding firing_run_def using set_takeWhileD by fastforce
    then have "ae_evaluated_at_unix_ms (last ?run) \<le> ae_evaluated_at_unix_ms e"
      if "?run \<noteq> []" "eval_key e = k"
      using snoc.prems(2) that(2) last_in_set [OF that(1)] by (auto simp: sorted_append)
    moreover have "valid_AlertEvaluation e"
      using snoc.prems(1) by simp
    ultimately have "map_of (am_active (apply_one e (fold apply_one es (new_AlertManager capacity)))) k
        = alert_of_run k (firing_run k (es @ [e]))"
      unfolding firing_run_snoc by (intro apply_one_run [OF IH(1) _ IH(2)])
    then show ?case
      using apply_one_ok [OF IH(1)] by simp
  qed
  then show ?thesis
    using assms by (simp add: fold_ApplyEvaluations_concat)
qed

text \<open>
  What a single evaluation does, on every branch: a firing one creates or refreshes the alert of
  its rule, one that does not fire moves the alert to the resolved log, and one that is older than
  the alert (a clock that was set back) drops the alert without logging it.
\<close>

theorem ApplyEvaluation_branches:
  assumes "alerts_ok s" and "valid_AlertEvaluation e"
  shows "ApplyEvaluations [e] s =
    (case map_of (am_active s) (eval_key e) of
       None \<Rightarrow>
         (if ae_firing e
          then (s\<lparr> am_active := am_active s @ [(eval_key e, first_event (eval_key e) e)] \<rparr>,
                no_update\<lparr> up_created := [first_event (eval_key e) e] \<rparr>)
          else (s, no_update))
     | Some a \<Rightarrow>
         let erased = s\<lparr> am_active := AList.delete (eval_key e) (am_active s) \<rparr> in
         if ae_firing e then
           (if ev_first_triggered_at_unix_ms a \<le> ae_evaluated_at_unix_ms e
            then (s\<lparr> am_active := AList.update (eval_key e) (fired_again e a) (am_active s) \<rparr>,
                  no_update\<lparr> up_updated := [fired_again e a] \<rparr>)
            else (erased, no_update\<lparr> up_ignored := 1 \<rparr>))
         else
           (if ev_last_triggered_at_unix_ms a \<le> ae_evaluated_at_unix_ms e
            then (PushResolvedLocked (resolved_by e a) erased,
                  no_update\<lparr> up_resolved := [resolved_by e a] \<rparr>)
            else (erased, no_update\<lparr> up_ignored := 1 \<rparr>)))"
proof (cases "map_of (am_active s) (eval_key e)")
  case None
  then show ?thesis
    using assms(2) valid_evaluation_key [OF assms(2)] first_event_valid [OF assms(2)]
    by (simp add: ApplyEvaluations_def ApplyEvaluation_def Let_def eval_key_def first_event_def
        emplace_def no_update_def)
next
  case (Some a)
  have "valid_AlertEvent a"
    using alerts_okD(5) [OF assms(1) Some] by (simp add: event_ok_def)
  then show ?thesis
    using Some assms(2) valid_evaluation_key [OF assms(2)] fired_again_valid_iff [of a e]
      resolved_by_valid_iff [of a e]
    by (simp add: ApplyEvaluations_def ApplyEvaluation_def Let_def eval_key_def ignore_one_def
        no_update_def)
qed

section \<open>Display and acknowledgement\<close>

definition display_key :: "AlertEvent \<Rightarrow> int \<times> int \<times> int \<times> string \<times> string" where
  "display_key e = (- SeverityRank (ev_severity e), (if ev_state e = AlertActive then 0 else 1),
     - ev_last_triggered_at_unix_ms e, ev_service_id e, ev_rule_id e)"

lemma alert_before_key: "alert_before l r \<longleftrightarrow> display_key l < display_key r"
  by (cases "ev_state l"; cases "ev_state r")
    (auto simp: alert_before_def display_key_def Let_def less_prod_def)

lemma SortAlertsForDisplay_key: "SortAlertsForDisplay es = sort_key display_key es"
  unfolding SortAlertsForDisplay_def by (rule sort_by_key) (rule alert_before_key)

text \<open>
  The list of active alerts holds each active alert once, most severe first, and is the same
  whatever the iteration order of the hash map: it depends on the map's contents only.
\<close>

theorem GetActiveAlerts_canonical:
  assumes "alerts_ok s" and "alerts_ok s'" and "map_of (am_active s) = map_of (am_active s')"
  shows "GetActiveAlerts s = GetActiveAlerts s'
    \<and> set (GetActiveAlerts s) = ran (map_of (am_active s))
    \<and> distinct (GetActiveAlerts s)
    \<and> sorted (map display_key (GetActiveAlerts s))"
proof -
  have vals: "distinct (map_values (am_active t)) \<and> inj_on display_key (set (map_values (am_active t)))"
    if "alerts_ok t" for t
  proof -
    have wf: "wf_map (am_active t)" using that by (simp add: alerts_ok_def)
    have id: "snd kv = e \<Longrightarrow> kv \<in> set (am_active t) \<Longrightarrow> fst kv = ev_id e
        \<and> ev_id e = MakeAlertEventId (ev_service_id e) (ev_rule_id e)" for kv e
      using alerts_okD(4,5) [OF that, of "fst kv" e] wf
      by (cases kv) (auto simp: map_of_mem event_ok_def)
    have "inj_on snd (set (am_active t))"
      by (rule inj_onI) (metis id prod_eqI)
    then have "distinct (map_values (am_active t))"
      using wf_map_distinct [OF wf] by (simp add: map_values_def distinct_map)
    moreover have "inj_on display_key (set (map_values (am_active t)))"
    proof (rule inj_onI)
      fix x y
      assume *: "x \<in> set (map_values (am_active t))" "y \<in> set (map_values (am_active t))"
        "display_key x = display_key y"
      then obtain k k' where k: "map_of (am_active t) k = Some x" "map_of (am_active t) k' = Some y"
        using set_map_values [OF wf] by blast
      have "ev_service_id x = ev_service_id y" "ev_rule_id x = ev_rule_id y"
        using *(3) by (simp_all add: display_key_def)
      moreover have "k = MakeAlertEventId (ev_service_id x) (ev_rule_id x)"
        "k' = MakeAlertEventId (ev_service_id y) (ev_rule_id y)"
        using alerts_okD(4,5) [OF that k(1)] alerts_okD(4,5) [OF that k(2)]
        by (simp_all add: event_ok_def)
      ultimately have "k = k'" by simp
      with k show "x = y" by simp
    qed
    ultimately show ?thesis ..
  qed
  have sets: "set (map_values (am_active t)) = ran (map_of (am_active t))" if "alerts_ok t" for t
    using that set_map_values [of "am_active t"] by (auto simp: alerts_ok_def ran_def)
  have "sort_key display_key (map_values (am_active s)) = sort_key display_key (map_values (am_active s'))"
    using vals assms sets by (intro sort_key_set_cong) auto
  then show ?thesis
    using vals [OF assms(2)] sets [OF assms(2)] assms(3)
    by (simp add: GetActiveAlerts_def SortAlertsForDisplay_key)
qed

text \<open>
  Acknowledging an id answers the alert \<open>GetAlert\<close> finds, marked, or nothing when it finds
  none; afterwards \<open>GetAlert\<close> finds the marked alert there and the same as before at every other
  id.
\<close>

theorem AcknowledgeAndGet_GetAlert:
  "fst (AcknowledgeAndGet k s) = map_option (\<lambda>e. e\<lparr> ev_acknowledged := True \<rparr>) (GetAlert k s)
   \<and> GetAlert k' (snd (AcknowledgeAndGet k s)) =
       (if k' = k then fst (AcknowledgeAndGet k s) else GetAlert k' s)"
proof (cases "map_of (am_active s) k")
  case None
  have marked: "find (\<lambda>e. ev_id e = k') (snd (acknowledge_first k es)) =
      (if k' = k then map_option (\<lambda>e. e\<lparr> ev_acknowledged := True \<rparr>) (find (\<lambda>e. ev_id e = k) es)
       else find (\<lambda>e. ev_id e = k') es)" for es
    by (cases "k' = k"; induction es) (simp_all add: Let_def case_prod_beta)
  show ?thesis
    using None marked [of "am_resolved s"]
    by (cases "k' = k") (simp_all add: AcknowledgeAndGet_def GetAlert_def Let_def case_prod_beta acknowledge_first_fst
        split: option.split)
next
  case (Some a)
  then show ?thesis
    by (simp add: AcknowledgeAndGet_def GetAlert_def Let_def update_conv' split: option.split)
qed

text \<open>
  An id that is no longer active names its oldest resolved occurrence: acknowledging it marks
  that one and leaves every later occurrence of the same rule unacknowledged, however often the
  request is repeated.
\<close>

theorem Acknowledge_marks_oldest_resolved:
  assumes "map_of (am_active s) k = None" and "am_resolved s = older @ e # newer"
    and "ev_id e = k" and "k \<notin> ev_id ` set older"
  shows "am_resolved (((snd \<circ> AcknowledgeAndGet k) ^^ Suc n) s)
    = older @ e\<lparr> ev_acknowledged := True \<rparr> # newer"
proof -
  have mark: "snd (acknowledge_first k (older @ x # newer)) = older @ x\<lparr> ev_acknowledged := True \<rparr> # newer"
    if "ev_id x = k" for x
    using assms(4) that by (induction older) (auto simp: Let_def case_prod_beta)
  have "am_resolved (((snd \<circ> AcknowledgeAndGet k) ^^ Suc n) s)
      = older @ e\<lparr> ev_acknowledged := True \<rparr> # newer
    \<and> map_of (am_active (((snd \<circ> AcknowledgeAndGet k) ^^ Suc n) s)) k = None"
    using assms(1-3) mark
    by (induction n) (simp_all add: AcknowledgeAndGet_def Let_def case_prod_beta)
  then show ?thesis ..
qed

section \<open>Witnesses\<close>

definition evaluation_at :: "bool \<Rightarrow> millis \<Rightarrow> AlertEvaluation" where
  "evaluation_at firing t = \<lparr> ae_service_id = ''demo'', ae_rule_id = ''down'',
     ae_severity = Critical, ae_rule_enabled = True, ae_condition_met = firing, ae_firing = firing,
     ae_evaluated_at_unix_ms = t, ae_condition_started_at_unix_ms = None, ae_message = ''m'' \<rparr>"

definition resolved_at :: "millis \<Rightarrow> AlertEvent" where
  "resolved_at t = resolved_by (evaluation_at False t)
     (first_event ''demo:down'' (evaluation_at True t))"

lemma evaluation_at_simps [simp]:
  "ae_firing (evaluation_at b t) = b" "ae_evaluated_at_unix_ms (evaluation_at b t) = t"
  "eval_key (evaluation_at b t) = ''demo:down''"
  by (simp_all add: evaluation_at_def eval_key_def MakeAlertEventId_def)

lemma evaluation_at_valid [simp]: "0 \<le> t \<Longrightarrow> valid_AlertEvaluation (evaluation_at b t)"
  by (simp add: valid_AlertEvaluation_def evaluation_at_def IsValidServiceId_def
      IsValidAlertRuleId_def id_char_def char_between_def)

theorem active_alert_is_run_witness:
  "map_option (\<lambda>e. (ev_first_triggered_at_unix_ms e, ev_last_triggered_at_unix_ms e, ev_trigger_count e))
     (map_of (am_active (fold (\<lambda>es s. fst (ApplyEvaluations es s))
        [[evaluation_at True 1, evaluation_at False 2], [evaluation_at True 3], [evaluation_at True 5]]
        (new_AlertManager 4))) ''demo:down'')
   = Some (3, 5, 2)"
  using active_alert_is_run [of "[[evaluation_at True 1, evaluation_at False 2],
      [evaluation_at True 3], [evaluation_at True 5]]" "''demo:down''" 4]
  by (simp add: firing_run_def alert_of_run_def saturated_def del: fold.simps fold_simps)

theorem ApplyEvaluation_branches_witness:
  "up_created (snd (ApplyEvaluations [evaluation_at True 7] (new_AlertManager 0)))
     = [first_event ''demo:down'' (evaluation_at True 7)]"
  using ApplyEvaluation_branches [OF new_AlertManager_ok [of 0], of "evaluation_at True 7"]
  by (simp add: new_AlertManager_def)

theorem GetActiveAlerts_canonical_witness:
  "distinct (GetActiveAlerts (alerts_after 2 [OpApply [evaluation_at True 7]]))"
  using GetActiveAlerts_canonical [of "alerts_after 2 [OpApply [evaluation_at True 7]]"
      "alerts_after 2 [OpApply [evaluation_at True 7]]"]
    alerts_ok_run [OF new_AlertManager_ok]
  unfolding alerts_after_def by blast

theorem Acknowledge_marks_oldest_resolved_witness:
  "map ev_acknowledged (am_resolved (((snd \<circ> AcknowledgeAndGet ''demo:down'') ^^ 2)
     \<lparr> am_capacity = 2, am_active = [], am_resolved = [resolved_at 1, resolved_at 2] \<rparr>))
   = [True, False]"
  using Acknowledge_marks_oldest_resolved [of
      "\<lparr> am_capacity = 2, am_active = [], am_resolved = [resolved_at 1, resolved_at 2] \<rparr>"
      "''demo:down''" "[]" "resolved_at 1" "[resolved_at 2]" 1]
  by (simp add: resolved_at_def resolved_by_def first_event_def numeral_2_eq_2)

end
