(* ===== verification/Supervisor.thy ===== *)
theory Supervisor
  imports ServiceModel "HOL-Library.Monad_Syntax"
begin

text \<open>
  \<open>ProcessSupervisor\<close> (\<open>src/apps/agent/src/service/process_supervisor.cpp\<close>): one child process in
  a process group of its own, an observer thread that waits for it, and the operations
  \<open>Start\<close>, \<open>Stop\<close> and \<open>Restart\<close> of the agent.

  The fields of the class are the record \<open>supervisor\<close>; \<open>sys\<close> adds what lives outside it: the
  program counter of the observer thread, the two clocks, the open descriptors, and a script. The
  script is the operating system and the scheduler: one item per system call or wait of an
  operation, with the events that happen meanwhile (steps of the observer, the clocks moving) and
  the answer of the call. An operation is a function of the system and hence of the script, so a
  statement about all scripts is a statement about all interleavings and all answers. The result is
  \<^term>\<open>None\<close> when the script ends while the operation still waits. A block under
  \<open>state_mutex_\<close> is one step, \<open>locked\<close>, and leaves what it publishes in a log; \<open>operation_mutex_\<close>
  is held by a whole operation, so operations never overlap.
\<close>

section \<open>State\<close>

record supervisor =
  pv_definition :: ServiceDefinition
  pv_desired :: DesiredState
  pv_state :: ServiceState
  pv_pid :: int
  pv_pgid :: int
  pv_exit_code :: "int option"
  pv_exit_kind :: ProcessExitKind
  pv_exit_signal :: "int option"
  pv_last_error :: string
  pv_last_transition :: millis
  pv_start_time :: "int option"

text \<open>
  Answers of system calls: a return value, a failure with its \<open>errno\<close>, the bytes a \<open>read\<close>
  delivered, the two descriptors of a \<open>pipe\<close>, the status of a reaped child, or the message of the
  exception a C++ library call threw.
\<close>

datatype wait_status = WExited int | WSignaled int | WOther

datatype answer =
  Ret int | Err int | Data "u8 list" | Fds int int | Reaped wait_status | Threw string

fun ret_of :: "answer \<Rightarrow> int" where
  "ret_of (Ret n) = n"
| "ret_of (Err _) = -1"
| "ret_of (Data bs) = int (length bs)"
| "ret_of (Fds _ _) = 0"
| "ret_of (Reaped _) = 1"
| "ret_of (Threw _) = -1"

fun errno_of :: "answer \<Rightarrow> int" where
  "errno_of (Err e) = e"
| "errno_of _ = 0"

definition EPERM :: int where "EPERM = 1"
definition ESRCH :: int where "ESRCH = 3"
definition EINTR :: int where "EINTR = 4"
definition ECHILD :: int where "ECHILD = 10"
definition EPROTO :: int where "EPROTO = 71"
definition SIGKILL :: int where "SIGKILL = 9"
definition SIGTERM :: int where "SIGTERM = 15"

text \<open>Where the observer thread is: before \<open>waitpid\<close> returned, or in the clean-up of the group.\<close>

datatype observer =
  ObsNone
| ObsWaiting int int
| ObsCheckGroup int
| ObsTermWait int int
| ObsKillWait int int
| ObsFinal int
| ObsDone

datatype event = ObserverStep answer | Tick nat | WallClock int

record sys =
  sy_sup :: supervisor
  sy_observer :: observer
  sy_steady_ms :: int
  sy_wall_ms :: int
  sy_script :: "(event list \<times> answer) list"
  sy_strerror :: "int \<Rightarrow> string"
  sy_fds :: "int list"
  sy_log :: "supervisor list"
  sy_signals :: "(int \<times> int) list"
  sy_children :: "int list"
  sy_unreaped :: "int set"

text \<open>
  The last four fields are for stating properties only: no step reads them. \<open>sy_log\<close> is what
  each critical section published, \<open>sy_signals\<close> the signals sent, as the group or process and the
  signal, \<open>sy_children\<close> the results of \<open>fork\<close>, \<open>sy_unreaped\<close> the children no \<open>waitpid\<close> has
  answered for yet.
\<close>

definition kGracefulStopTimeout :: int where "kGracefulStopTimeout = 3000"
definition kForcedStopTimeout :: int where "kForcedStopTimeout = 3000"
definition kExecConfirmationTimeout :: int where "kExecConfirmationTimeout = 5000"

section \<open>Critical sections\<close>

definition locked :: "(supervisor \<Rightarrow> supervisor) \<Rightarrow> sys \<Rightarrow> sys" where
  "locked f s = s\<lparr> sy_sup := f (sy_sup s), sy_log := sy_log s @ [f (sy_sup s)] \<rparr>"

definition NowUnixTimeMilliseconds :: "sys \<Rightarrow> millis" where
  "NowUnixTimeMilliseconds s = (if sy_wall_ms s < 0 then 0 else sy_wall_ms s)"

definition TransitionStateLocked ::
  "millis \<Rightarrow> ServiceState \<Rightarrow> string \<Rightarrow> supervisor \<Rightarrow> supervisor" where
  "TransitionStateLocked now state error v =
     v\<lparr> pv_state := state, pv_last_error := error, pv_last_transition := now \<rparr>"

definition SaveExitStatusLocked :: "wait_status \<Rightarrow> supervisor \<Rightarrow> supervisor" where
  "SaveExitStatusLocked status v =
     (case status of
        WExited code \<Rightarrow>
          v\<lparr> pv_exit_code := Some code, pv_exit_kind := KindExited, pv_exit_signal := None \<rparr>
      | WSignaled sig \<Rightarrow>
          v\<lparr> pv_exit_code := Some (128 + sig), pv_exit_kind := KindSignaled, pv_exit_signal := Some sig \<rparr>
      | WOther \<Rightarrow>
          v\<lparr> pv_exit_code := None, pv_exit_kind := KindUnknown, pv_exit_signal := None \<rparr>)"

definition MarkChildExitedLocked :: "millis \<Rightarrow> supervisor \<Rightarrow> supervisor" where
  "MarkChildExitedLocked now v =
     (let v = v\<lparr> pv_pid := -1, pv_start_time := None \<rparr>;
          explicitly_stopped = (pv_desired v = DStopped \<or> pv_state v = Stopping)
      in TransitionStateLocked now (if explicitly_stopped then Stopped else Exited) [] v)"

definition transition :: "ServiceState \<Rightarrow> string \<Rightarrow> sys \<Rightarrow> sys" where
  "transition state error s = locked (TransitionStateLocked (NowUnixTimeMilliseconds s) state error) s"

definition send_signal :: "int \<Rightarrow> int \<Rightarrow> sys \<Rightarrow> sys" where
  "send_signal target sig s = s\<lparr> sy_signals := sy_signals s @ [(target, sig)] \<rparr>"

section \<open>The observer thread\<close>

text \<open>\<open>ProcessGroupExists\<close>, given the answer of \<open>kill(-pgid, 0)\<close>.\<close>

definition group_exists :: "int \<Rightarrow> answer \<Rightarrow> bool" where
  "group_exists pgid a =
     (if pgid \<le> 0 then False else if ret_of a = 0 then True else errno_of a = EPERM)"

text \<open>The critical section of \<open>ObserveChildExit\<close> after \<open>waitpid\<close> returned for good.\<close>

definition child_exit_section :: "int \<Rightarrow> answer \<Rightarrow> sys \<Rightarrow> supervisor \<Rightarrow> supervisor" where
  "child_exit_section target_pid a s v =
     (if pv_pid v \<noteq> target_pid then v
      else case a of
        Reaped status \<Rightarrow>
          MarkChildExitedLocked (NowUnixTimeMilliseconds s) (SaveExitStatusLocked status v)
      | _ \<Rightarrow>
          if ret_of a < 0 \<and> errno_of a = ECHILD then
            MarkChildExitedLocked (NowUnixTimeMilliseconds s)
              (v\<lparr> pv_exit_code := None, pv_exit_kind := KindUnknown, pv_exit_signal := None \<rparr>)
          else
            TransitionStateLocked (NowUnixTimeMilliseconds s) Failed
              (''waitpid failed for service child: '' @ sy_strerror s (errno_of a))
              (v\<lparr> pv_pid := -1, pv_start_time := None, pv_exit_code := None,
                 pv_exit_kind := KindUnknown, pv_exit_signal := None \<rparr>))"

definition ObserveChildExit :: "int \<Rightarrow> int \<Rightarrow> answer \<Rightarrow> sys \<Rightarrow> sys" where
  "ObserveChildExit target_pid target_pgid a s =
     (if ret_of a < 0 \<and> errno_of a = EINTR then s
      else
        let exited = locked (child_exit_section target_pid a s) s
        in exited\<lparr> sy_unreaped := sy_unreaped s - {target_pid},
             sy_observer := (if pv_pid (sy_sup s) \<noteq> target_pid then ObsDone
                             else ObsCheckGroup target_pgid) \<rparr>)"

text \<open>
  \<open>CleanupProcessGroupAfterLeaderExit\<close>: each step is one probe of the group, with what follows it.
  The answers of the two signals are ignored by the code.
\<close>

fun CleanupProcessGroupAfterLeaderExit :: "observer \<Rightarrow> answer \<Rightarrow> sys \<Rightarrow> sys" where
  "CleanupProcessGroupAfterLeaderExit (ObsCheckGroup g) a s =
     (if group_exists g a then
        (send_signal (- g) SIGTERM s)\<lparr> sy_observer := ObsTermWait g (sy_steady_ms s + kGracefulStopTimeout) \<rparr>
      else s\<lparr> sy_observer := ObsFinal g \<rparr>)"
| "CleanupProcessGroupAfterLeaderExit (ObsTermWait g deadline) a s =
     (if \<not> group_exists g a then s\<lparr> sy_observer := ObsFinal g \<rparr>
      else if deadline \<le> sy_steady_ms s then
        (send_signal (- g) SIGKILL s)\<lparr> sy_observer := ObsKillWait g (sy_steady_ms s + kForcedStopTimeout) \<rparr>
      else s)"
| "CleanupProcessGroupAfterLeaderExit (ObsKillWait g deadline) a s =
     (if \<not> group_exists g a then s\<lparr> sy_observer := ObsFinal g \<rparr>
      else if deadline \<le> sy_steady_ms s then s\<lparr> sy_observer := ObsFinal g \<rparr>
      else s)"
| "CleanupProcessGroupAfterLeaderExit (ObsFinal g) a s =
     (locked (\<lambda>v. if pv_pgid v = g \<and> \<not> group_exists g a then v\<lparr> pv_pgid := -1 \<rparr> else v) s)
       \<lparr> sy_observer := ObsDone \<rparr>"
| "CleanupProcessGroupAfterLeaderExit _ a s = s"

fun apply_event :: "event \<Rightarrow> sys \<Rightarrow> sys" where
  "apply_event (Tick n) s = s\<lparr> sy_steady_ms := sy_steady_ms s + int n \<rparr>"
| "apply_event (WallClock t) s = s\<lparr> sy_wall_ms := t \<rparr>"
| "apply_event (ObserverStep a) s =
     (case sy_observer s of
        ObsWaiting p g \<Rightarrow> ObserveChildExit p g a s
      | obs \<Rightarrow> CleanupProcessGroupAfterLeaderExit obs a s)"

section \<open>System calls of an operation\<close>

definition syscall :: "sys \<Rightarrow> (answer \<times> sys) option" where
  "syscall s =
     (case sy_script s of
        [] \<Rightarrow> None
      | (events, a) # rest \<Rightarrow> Some (a, fold apply_event events (s\<lparr> sy_script := rest \<rparr>)))"

text \<open>A point where the state lock is free and other threads may run.\<close>

definition yield :: "sys \<Rightarrow> sys option" where
  "yield s = map_option snd (syscall s)"

definition JoinObserverThread :: "sys \<Rightarrow> sys option" where
  "JoinObserverThread s =
     (if sy_observer s = ObsNone then Some s
      else do {
        s \<leftarrow> yield s;
        if sy_observer s = ObsDone then Some (s\<lparr> sy_observer := ObsNone \<rparr>) else None
      })"

definition ProcessGroupExists :: "int \<Rightarrow> sys \<Rightarrow> (bool \<times> sys) option" where
  "ProcessGroupExists pgid s = do { (a, s) \<leftarrow> syscall s; Some (group_exists pgid a, s) }"

text \<open>\<open>kill\<close> through \<open>SignalProcessTree\<close>: the group when there is one, else the leader.\<close>

definition SignalProcessTree :: "int \<Rightarrow> int \<Rightarrow> int \<Rightarrow> sys \<Rightarrow> (answer \<times> sys) option" where
  "SignalProcessTree pgid leader_pid sig s =
     (if 0 < pgid then syscall (send_signal (- pgid) sig s)
      else if 0 < leader_pid then syscall (send_signal leader_pid sig s)
      else Some (Ret 0, s))"

definition close_fd :: "int \<Rightarrow> sys \<Rightarrow> sys" where
  "close_fd fd s = s\<lparr> sy_fds := remove1 fd (sy_fds s) \<rparr>"

definition MoveDescriptor :: "int \<Rightarrow> sys \<Rightarrow> ((int + int) \<times> sys) option" where
  "MoveDescriptor fd s =
     (if 2 < fd then Some (Inr fd, s)
      else do {
        (a, s) \<leftarrow> syscall s;
        if ret_of a < 0 then Some (Inl (errno_of a), s)
        else Some (Inr (ret_of a), close_fd fd (s\<lparr> sy_fds := ret_of a # sy_fds s \<rparr>))
      })"

text \<open>Both ends in turn; on failure the ends as they are then and the error number.\<close>

definition MovePipeDescriptorsAboveStandardStreams ::
  "int \<Rightarrow> int \<Rightarrow> sys \<Rightarrow> ((int \<times> int \<times> int option) \<times> sys) option" where
  "MovePipeDescriptorsAboveStandardStreams r w s = do {
     (r', s) \<leftarrow> MoveDescriptor r s;
     case r' of
       Inl e \<Rightarrow> Some ((r, w, Some e), s)
     | Inr r \<Rightarrow> do {
         (w', s) \<leftarrow> MoveDescriptor w s;
         case w' of Inl e \<Rightarrow> Some ((r, w, Some e), s) | Inr w \<Rightarrow> Some ((r, w, None), s)
       }
   }"

text \<open>\<open>SetCloseOnExec\<close> reads and sets the descriptor flags; the error number when it fails.\<close>

definition SetCloseOnExec :: "int \<Rightarrow> sys \<Rightarrow> (int option \<times> sys) option" where
  "SetCloseOnExec fd s = do {
     (flags, s) \<leftarrow> syscall s;
     if ret_of flags < 0 then Some (Some (errno_of flags), s)
     else do {
       (a, s) \<leftarrow> syscall s;
       if ret_of a = 0 then Some (None, s) else Some (Some (errno_of a), s)
     }
   }"

section \<open>Confirmation of \<open>exec\<close>\<close>

text \<open>
  The child reports a failure before \<open>exec\<close> as a \<open>ChildStartError\<close>, two 32-bit integers in the
  byte order of the machine (little-endian), over a pipe that \<open>exec\<close> closes.
\<close>

datatype ChildStartStage =
  kCreateProcessGroup | kChangeDirectory | kOpenNullDevice | kRedirectStandardOutput
| kRedirectStandardError | kExecute

fun stage_number :: "ChildStartStage \<Rightarrow> int" where
  "stage_number kCreateProcessGroup = 1"
| "stage_number kChangeDirectory = 2"
| "stage_number kOpenNullDevice = 3"
| "stage_number kRedirectStandardOutput = 4"
| "stage_number kRedirectStandardError = 5"
| "stage_number kExecute = 6"

definition le_bytes :: "int \<Rightarrow> u8 list" where
  "le_bytes i = map (\<lambda>k. word_of_int (i div 256 ^ k)) [0..<4]"

definition int_of_le_bytes :: "u8 list \<Rightarrow> int" where
  "int_of_le_bytes bs =
     (let n = foldr (\<lambda>b v. uint b + 256 * v) bs 0 in if 2147483648 \<le> n then n - 4294967296 else n)"

definition child_error_message :: "ChildStartStage \<Rightarrow> int \<Rightarrow> u8 list" where
  "child_error_message stage error_number = le_bytes (stage_number stage) @ le_bytes error_number"

text \<open>The bytes that reach the pipe from the \<open>write\<close> loop of \<open>ReportChildStartErrorAndExit\<close>.\<close>

fun ReportChildStartErrorAndExit :: "u8 list \<Rightarrow> answer list \<Rightarrow> u8 list" where
  "ReportChildStartErrorAndExit data [] = []"
| "ReportChildStartErrorAndExit data (a # as) =
     (if data = [] then []
      else if 0 < ret_of a then
        take (nat (ret_of a)) data @ ReportChildStartErrorAndExit (drop (nat (ret_of a)) data) as
      else if ret_of a < 0 \<and> errno_of a = EINTR then ReportChildStartErrorAndExit data as
      else [])"

text \<open>
  The child between \<open>fork\<close> and \<open>exec\<close>: the stage that failed with its error number, or
  \<^term>\<open>None\<close> when \<open>execv\<close> replaced it. The answers are those of \<open>setpgid\<close>, \<open>chdir\<close>, \<open>open\<close>,
  the two \<open>dup2\<close> and \<open>execv\<close>, which returns only to report a failure.
\<close>

definition ChildBeforeExec ::
  "answer \<Rightarrow> answer \<Rightarrow> answer \<Rightarrow> answer \<Rightarrow> answer \<Rightarrow> answer option \<Rightarrow> (ChildStartStage \<times> int) option" where
  "ChildBeforeExec a_setpgid a_chdir a_open a_out a_err a_exec =
     (if ret_of a_setpgid \<noteq> 0 then Some (kCreateProcessGroup, errno_of a_setpgid)
      else if ret_of a_chdir \<noteq> 0 then Some (kChangeDirectory, errno_of a_chdir)
      else if ret_of a_open < 0 then Some (kOpenNullDevice, errno_of a_open)
      else if ret_of a_out < 0 then Some (kRedirectStandardOutput, errno_of a_out)
      else if ret_of a_err < 0 then Some (kRedirectStandardError, errno_of a_err)
      else map_option (\<lambda>a. (kExecute, errno_of a)) a_exec)"

datatype ExecConfirmationResult = ExecSucceeded | ExecChildFailed | ExecTimedOut | ExecPipeFailed

fun data_of :: "answer \<Rightarrow> u8 list" where
  "data_of (Data bs) = bs"
| "data_of _ = []"

lemma apply_event_script [simp]: "sy_script (apply_event e s) = sy_script s"
proof (cases e)
  case (ObserverStep a)
  then show ?thesis
    by (cases "sy_observer s")
      (simp_all add: ObserveChildExit_def locked_def send_signal_def Let_def)
qed simp_all

lemma fold_apply_event_script [simp]: "sy_script (fold apply_event es s) = sy_script s"
  by (induction es arbitrary: s) simp_all

lemma syscall_script: "syscall s = Some (a, s') \<Longrightarrow> length (sy_script s') < length (sy_script s)"
  by (auto simp: syscall_def split: list.splits)

text \<open>
  The loop of \<open>WaitForExecConfirmation\<close>: the bytes read so far stand for the \<open>destination\<close>
  buffer, the last component is \<open>pipe_error_number\<close>.
\<close>

function WaitForExecConfirmation ::
  "int \<Rightarrow> u8 list \<Rightarrow> sys \<Rightarrow> ((ExecConfirmationResult \<times> u8 list \<times> int) \<times> sys) option" where
  "WaitForExecConfirmation deadline bytes s =
     (if deadline - sy_steady_ms s \<le> 0 then Some ((ExecTimedOut, bytes, 0), s)
      else case syscall s of
        None \<Rightarrow> None
      | Some (poll_result, s1) \<Rightarrow>
          if ret_of poll_result = 0 then Some ((ExecTimedOut, bytes, 0), s1)
          else if ret_of poll_result < 0 then
            (if errno_of poll_result = EINTR then WaitForExecConfirmation deadline bytes s1
             else Some ((ExecPipeFailed, bytes, errno_of poll_result), s1))
          else (case syscall s1 of
            None \<Rightarrow> None
          | Some (result, s2) \<Rightarrow>
              if ret_of result = 0 then
                (if bytes = [] then Some ((ExecSucceeded, bytes, 0), s2)
                 else Some ((ExecPipeFailed, bytes, EPROTO), s2))
              else if ret_of result < 0 then
                (if errno_of result = EINTR then WaitForExecConfirmation deadline bytes s2
                 else Some ((ExecPipeFailed, bytes, errno_of result), s2))
              else
                let bytes' = bytes @ take (8 - length bytes) (data_of result) in
                if length bytes' = 8 then Some ((ExecChildFailed, bytes', 0), s2)
                else WaitForExecConfirmation deadline bytes' s2))"
  by pat_completeness auto
termination
  by (relation "measure (\<lambda>(_, _, s). length (sy_script s))")
    (auto dest!: syscall_script)

declare WaitForExecConfirmation.simps [simp del]

text \<open>A text between single quotes.\<close>

definition quoted :: "string \<Rightarrow> string" where
  "quoted s = CHR 0x27 # s @ [CHR 0x27]"

definition DescribeChildStartError ::
  "int \<Rightarrow> int \<Rightarrow> string \<Rightarrow> string \<Rightarrow> (int \<Rightarrow> string) \<Rightarrow> string" where
  "DescribeChildStartError stage error_number executable_path work_dir strerror =
     (let operation =
            (if stage = stage_number kCreateProcessGroup then ''setpgid(0, 0)''
             else if stage = stage_number kChangeDirectory then ''chdir('' @ quoted work_dir @ '')''
             else if stage = stage_number kOpenNullDevice then ''open('' @ [CHR 0x27] @ ''/dev/null'' @ [CHR 0x27] @ '')''
             else if stage = stage_number kRedirectStandardOutput then ''redirect stdout''
             else if stage = stage_number kRedirectStandardError then ''redirect stderr''
             else if stage = stage_number kExecute then ''execv('' @ quoted executable_path @ '')''
             else [])
      in ''service startup failed during '' @ operation @ '': '' @ strerror error_number)"

section \<open>Operations\<close>

text \<open>An operation returns its flag and the error text, or an exception leaves it.\<close>

datatype op_result = Done bool string | Raised string

type_synonym 'a op = "('a \<times> sys) option"

definition sup_id :: "sys \<Rightarrow> string" where
  "sup_id s = sd_id (pv_definition (sy_sup s))"

definition start_failed :: "string \<Rightarrow> sys \<Rightarrow> op_result op" where
  "start_failed error s = Some (Done False error, transition Failed error s)"

function ReapChildBlocking :: "int \<Rightarrow> sys \<Rightarrow> sys option" where
  "ReapChildBlocking child_pid s =
     (case syscall s of
        None \<Rightarrow> None
      | Some (a, s1) \<Rightarrow>
          if ret_of a < 0 \<and> errno_of a = EINTR then ReapChildBlocking child_pid s1
          else Some (s1\<lparr> sy_unreaped := sy_unreaped s1 - {child_pid} \<rparr>))"
  by pat_completeness auto
termination
  by (relation "measure (\<lambda>(_, s). length (sy_script s))") (auto dest!: syscall_script)

declare ReapChildBlocking.simps [simp del]

text \<open>
  The last part of \<open>StartOperation\<close>: the child confirmed its \<open>exec\<close>; publish it, start the
  observer, and mark it running unless the observer has already seen it exit.
\<close>

definition AdoptChild :: "int \<Rightarrow> sys \<Rightarrow> op_result op" where
  "AdoptChild child_pid s =
     (let s = locked (\<lambda>v. v\<lparr> pv_pid := child_pid, pv_pgid := child_pid,
                pv_start_time := Some (sy_steady_ms s) \<rparr>) s
      in do {
        (created, s) \<leftarrow> syscall s;
        case created of
          Threw what \<Rightarrow>
            let error = ''failed to start child exit observer: '' @ what in do {
              (_, s) \<leftarrow> SignalProcessTree child_pid child_pid SIGKILL s;
              s \<leftarrow> ReapChildBlocking child_pid s;
              Some (Done False error,
                locked (\<lambda>v. if pv_pid v = child_pid then
                    TransitionStateLocked (NowUnixTimeMilliseconds s) Failed error
                      (v\<lparr> pv_pid := -1, pv_pgid := -1, pv_start_time := None \<rparr>)
                  else v) s)
            }
        | _ \<Rightarrow>
            do {
              s \<leftarrow> yield (s\<lparr> sy_observer := ObsWaiting child_pid child_pid \<rparr>);
              Some (Done True [],
                locked (\<lambda>v. if pv_pid v = child_pid \<and> pv_state v = Starting then
                    TransitionStateLocked (NowUnixTimeMilliseconds s) Running [] v
                  else v) s)
            }
      })"

text \<open>Wait for the confirmation of the child, with the read end of the pipe.\<close>

definition ConfirmChild :: "int \<Rightarrow> int \<Rightarrow> sys \<Rightarrow> op_result op" where
  "ConfirmChild child_pid read_end s =
     (let d = pv_definition (sy_sup s) in do {
        ((confirmation, child_error, pipe_error_number), s) \<leftarrow>
          WaitForExecConfirmation (sy_steady_ms s + kExecConfirmationTimeout) [] s;
        let s = close_fd read_end s;
        if confirmation = ExecSucceeded then AdoptChild child_pid s
        else
          let error =
                (if confirmation = ExecChildFailed then
                   DescribeChildStartError (int_of_le_bytes (take 4 child_error))
                     (int_of_le_bytes (drop 4 child_error)) (sd_executable d) (sd_work_dir d)
                     (sy_strerror s)
                 else if confirmation = ExecTimedOut then
                   ''timed out waiting for exec confirmation: '' @ sd_id d
                 else ''exec confirmation pipe failed: '' @ sy_strerror s pipe_error_number)
          in do {
            (_, s) \<leftarrow> (if confirmation = ExecChildFailed then Some (Ret 0, s)
                       else syscall (send_signal child_pid SIGKILL s));
            s \<leftarrow> ReapChildBlocking child_pid s;
            start_failed error s
          }
      })"

text \<open>
  Create the pipe and the child. \<open>fork\<close> answers zero in the child only, which is not a run of the
  agent: what the child does is \<open>ChildBeforeExec\<close>. The process-wide \<open>g_fork_mutex\<close>, held from the
  pipe to the fork, keeps other supervisors from inheriting the pipe and has no effect here.
\<close>

definition ForkChild :: "sys \<Rightarrow> op_result op" where
  "ForkChild s = do {
     (a, s) \<leftarrow> syscall s;
     case a of
       Fds r w \<Rightarrow> do {
         ((r, w, moved), s) \<leftarrow>
           MovePipeDescriptorsAboveStandardStreams r w (s\<lparr> sy_fds := r # w # sy_fds s \<rparr>);
         case moved of
           Some e \<Rightarrow>
             start_failed (''failed to configure exec confirmation pipe descriptors: '' @ sy_strerror s e)
               (close_fd w (close_fd r s))
         | None \<Rightarrow> do {
             (cloexec, s) \<leftarrow> SetCloseOnExec w s;
             case cloexec of
               Some e \<Rightarrow>
                 start_failed (''failed to configure exec confirmation pipe: '' @ sy_strerror s e)
                   (close_fd w (close_fd r s))
             | None \<Rightarrow> do {
                 (child, s) \<leftarrow> syscall s;
                 if ret_of child < 0 then
                   start_failed (''fork failed: '' @ sy_strerror s (errno_of child))
                     (close_fd w (close_fd r s))
                 else if ret_of child = 0 then None
                 else
                   let s = s\<lparr> sy_children := ret_of child # sy_children s,
                              sy_unreaped := insert (ret_of child) (sy_unreaped s) \<rparr>
                   in ConfirmChild (ret_of child) r (close_fd w s)
               }
           }
       }
     | _ \<Rightarrow> start_failed (''failed to create exec confirmation pipe: '' @ sy_strerror s (errno_of a)) s
   }"

text \<open>
  A test on the file system that must hold for the start to go on. \<open>std::filesystem::exists\<close> and
  \<open>is_directory\<close> throw when the path cannot be examined, for example without permission on a
  directory; the exception leaves the operation.
\<close>

definition require :: "string \<Rightarrow> (sys \<Rightarrow> op_result op) \<Rightarrow> sys \<Rightarrow> op_result op" where
  "require error k s = do {
     (a, s) \<leftarrow> syscall s;
     case a of
       Threw what \<Rightarrow> Some (Raised what, s)
     | _ \<Rightarrow> if ret_of a = 0 then start_failed error s else k s
   }"

definition StartOperation :: "sys \<Rightarrow> op_result op" where
  "StartOperation s =
     (let s = locked (\<lambda>v. v\<lparr> pv_desired := DRunning \<rparr>) s;
          d = pv_definition (sy_sup s);
          no_dir = ''service work directory does not exist or is not a directory: '' @ sd_work_dir d
      in if 0 < pv_pid (sy_sup s) then Some (Done False (sd_id d @ '' is already running''), s)
         else do {
           s \<leftarrow> JoinObserverThread s;
           if 0 < pv_pgid (sy_sup s) then
             Some (Done False (sd_id d @ '' still has an active process group''), s)
           else
             let s = transition Starting [] s in
             if \<not> valid_ServiceDefinition d then
               start_failed (''invalid service definition: '' @ sd_id d) s
             else
               require (''service executable does not exist: '' @ sd_executable d)
                 (require no_dir (require no_dir ForkChild)) s
         })"

text \<open>
  \<open>WaitForObservedExitAndProcessGroup\<close>: one turn reads the leader under the lock, probes the group
  with the lock released, and waits on the condition variable when there is time left.
\<close>

function WaitForObservedExitAndProcessGroup :: "int \<Rightarrow> int \<Rightarrow> int \<Rightarrow> sys \<Rightarrow> bool op" where
  "WaitForObservedExitAndProcessGroup target_pid target_pgid deadline s =
     (let leader_was_observed = (target_pid \<le> 0 \<or> pv_pid (sy_sup s) \<noteq> target_pid) in
      case syscall s of
        None \<Rightarrow> None
      | Some (a, s1) \<Rightarrow>
          if leader_was_observed \<and> \<not> group_exists target_pgid a then
            Some (True, locked (\<lambda>v. if pv_pgid v = target_pgid then v\<lparr> pv_pgid := -1 \<rparr> else v) s1)
          else if deadline \<le> sy_steady_ms s1 then Some (False, s1)
          else (case syscall s1 of
            None \<Rightarrow> None
          | Some (_, s2) \<Rightarrow> WaitForObservedExitAndProcessGroup target_pid target_pgid deadline s2))"
  by pat_completeness auto
termination
  by (relation "measure (\<lambda>(_, _, _, s). length (sy_script s))") (auto dest!: syscall_script)

declare WaitForObservedExitAndProcessGroup.simps [simp del]

definition stop_failed :: "int \<Rightarrow> string \<Rightarrow> sys \<Rightarrow> op_result op" where
  "stop_failed target_pid error s = do {
     s \<leftarrow> yield s;
     Some (Done False error,
       locked (\<lambda>v. if pv_pid v = target_pid then
           TransitionStateLocked (NowUnixTimeMilliseconds s) Failed error v else v) s)
   }"

definition stop_joined :: "sys \<Rightarrow> op_result op" where
  "stop_joined s = do { s \<leftarrow> JoinObserverThread s; Some (Done True [], s) }"

text \<open>The stop of a process tree after the state was marked: \<open>SIGTERM\<close>, wait, \<open>SIGKILL\<close>, wait.\<close>

definition StopProcessTree :: "int \<Rightarrow> int \<Rightarrow> sys \<Rightarrow> op_result op" where
  "StopProcessTree target_pid target_pgid s = do {
     (term, s) \<leftarrow> SignalProcessTree target_pgid target_pid SIGTERM s;
     if ret_of term \<noteq> 0 \<and> errno_of term \<noteq> ESRCH then
       stop_failed target_pid (''SIGTERM process tree failed: '' @ sy_strerror s (errno_of term)) s
     else do {
       (gone, s) \<leftarrow> WaitForObservedExitAndProcessGroup target_pid target_pgid
         (sy_steady_ms s + kGracefulStopTimeout) s;
       if gone then stop_joined s
       else do {
         (kill, s) \<leftarrow> SignalProcessTree target_pgid target_pid SIGKILL s;
         if ret_of kill \<noteq> 0 \<and> errno_of kill \<noteq> ESRCH then
           stop_failed target_pid (''SIGKILL process tree failed: '' @ sy_strerror s (errno_of kill)) s
         else do {
           (gone, s) \<leftarrow> WaitForObservedExitAndProcessGroup target_pid target_pgid
             (sy_steady_ms s + kForcedStopTimeout) s;
           if gone then stop_joined s
           else stop_failed target_pid
             (''timed out waiting for service to exit after SIGKILL: '' @ sup_id s) s
         }
       }
     }
   }"

text \<open>The first critical section of \<open>StopOperation\<close>.\<close>

definition stop_section :: "DesiredState \<Rightarrow> millis \<Rightarrow> supervisor \<Rightarrow> supervisor" where
  "stop_section final_desired_state now v =
     (let v = v\<lparr> pv_desired := final_desired_state \<rparr> in
      if pv_pid v \<le> 0 \<and> pv_pgid v \<le> 0 then
        (if final_desired_state = DStopped \<and> pv_state v \<noteq> Stopped then
           TransitionStateLocked now Stopped [] v
         else v)
      else TransitionStateLocked now Stopping [] v)"

definition StopOperation :: "DesiredState \<Rightarrow> sys \<Rightarrow> op_result op" where
  "StopOperation final_desired_state s =
     (let idle = (pv_pid (sy_sup s) \<le> 0 \<and> pv_pgid (sy_sup s) \<le> 0);
          target_pid = (if idle then -1 else pv_pid (sy_sup s));
          target_pgid = (if idle then -1 else pv_pgid (sy_sup s));
          s = locked (stop_section final_desired_state (NowUnixTimeMilliseconds s)) s
      in if target_pid \<le> 0 \<and> target_pgid \<le> 0 then stop_joined s
         else StopProcessTree target_pid target_pgid s)"

text \<open>The public operations; each runs under \<open>operation_mutex_\<close>.\<close>

definition Start :: "sys \<Rightarrow> op_result op" where
  "Start s = StartOperation s"

definition Stop :: "sys \<Rightarrow> op_result op" where
  "Stop s = StopOperation DStopped s"

definition Restart :: "sys \<Rightarrow> op_result op" where
  "Restart s = do {
     (r, s) \<leftarrow> StopOperation DRunning (locked (\<lambda>v. v\<lparr> pv_desired := DRunning \<rparr>) s);
     if r = Done True [] then StartOperation s else Some (r, s)
   }"

definition SetDesiredState :: "DesiredState \<Rightarrow> sys \<Rightarrow> sys" where
  "SetDesiredState desired s = locked (\<lambda>v. v\<lparr> pv_desired := desired \<rparr>) s"

definition GetStatus :: "sys \<Rightarrow> ServiceStatus" where
  "GetStatus s =
     (let v = sy_sup s in
      \<lparr> st_state = pv_state v, st_desired_state = pv_desired v, st_pid = pv_pid v,
        st_process_group_id = pv_pgid v, st_exit_code = pv_exit_code v,
        st_uptime = (case pv_start_time v of None \<Rightarrow> 0 | Some t \<Rightarrow> (sy_steady_ms s - t) div 1000),
        st_last_exit_kind = pv_exit_kind v, st_last_exit_signal = pv_exit_signal v,
        st_last_error = pv_last_error v,
        st_last_transition_at_unix_ms = pv_last_transition v \<rparr>)"

definition GetDesiredState :: "sys \<Rightarrow> DesiredState" where
  "GetDesiredState s = pv_desired (sy_sup s)"

definition Definition :: "sys \<Rightarrow> ServiceDefinition" where
  "Definition s = pv_definition (sy_sup s)"

text \<open>The constructor, with \<open>std::filesystem::absolute\<close> as a parameter.\<close>

definition new_supervisor :: "(string \<Rightarrow> string) \<Rightarrow> millis \<Rightarrow> ServiceDefinition \<Rightarrow> supervisor" where
  "new_supervisor absolute now d =
     \<lparr> pv_definition =
         (if valid_ServiceDefinition d then
            d\<lparr> sd_executable := absolute (sd_executable d), sd_work_dir := absolute (sd_work_dir d),
               sd_log_path := absolute (sd_log_path d) \<rparr>
          else d),
       pv_desired = (if sd_auto_start d then DRunning else DStopped), pv_state = Stopped,
       pv_pid = -1, pv_pgid = -1, pv_exit_code = None, pv_exit_kind = KindNone,
       pv_exit_signal = None, pv_last_error = [],
       pv_last_transition = (if now < 0 then 0 else now), pv_start_time = None \<rparr>"

text \<open>The destructor; a second \<open>SIGKILL\<close> when the stop failed, then it joins the observer.\<close>

definition Destroy :: "sys \<Rightarrow> sys option" where
  "Destroy s = do {
     (r, s) \<leftarrow> Stop s;
     s \<leftarrow> (if r = Done True [] then Some s
           else if 0 < pv_pid (sy_sup s) \<or> 0 < pv_pgid (sy_sup s) then
             map_option snd (SignalProcessTree (pv_pgid (sy_sup s)) (pv_pid (sy_sup s)) SIGKILL s)
           else Some s);
     JoinObserverThread s
   }"

end
