(* ===== verification/SupervisorInv.thy ===== *)
theory SupervisorInv
  imports Supervisor "HOL-Library.Multiset"
begin

text \<open>
  What holds of a supervisor in every interleaving: the invariant of its fields, the transitions
  its state can make, and where signals can go. The first part shows that the steps of the observer
  keep the invariant, the second that the operations do, each from and to a state in which no
  operation runs (\<open>quiet\<close>), the third draws the consequences for what \<open>GetStatus\<close> can observe.
\<close>

section \<open>Invariants\<close>

fun exit_fields_ok :: "ProcessExitKind \<Rightarrow> int option \<Rightarrow> int option \<Rightarrow> bool" where
  "exit_fields_ok KindExited code sig = (code \<noteq> None \<and> sig = None)"
| "exit_fields_ok KindSignaled code sig = (sig \<noteq> None \<and> code = map_option (\<lambda>n. 128 + n) sig)"
| "exit_fields_ok _ code sig = (code = None \<and> sig = None)"

definition exit_info_ok :: "supervisor \<Rightarrow> bool" where
  "exit_info_ok v = exit_fields_ok (pv_exit_kind v) (pv_exit_code v) (pv_exit_signal v)"

definition pv_ok :: "supervisor \<Rightarrow> bool" where
  "pv_ok v \<longleftrightarrow> (0 < pv_pid v \<or> pv_pid v = -1) \<and> (0 < pv_pgid v \<or> pv_pgid v = -1)
     \<and> (0 < pv_pid v \<longrightarrow> pv_pgid v = pv_pid v)
     \<and> (0 < pv_pid v \<longleftrightarrow> pv_start_time v \<noteq> None)
     \<and> (pv_state v = Running \<longrightarrow> 0 < pv_pid v)
     \<and> (pv_state v \<in> {Stopped, Exited} \<longrightarrow> pv_pid v = -1)
     \<and> (pv_last_error v \<noteq> [] \<longleftrightarrow> pv_state v = Failed)
     \<and> 0 \<le> pv_last_transition v
     \<and> exit_info_ok v"

fun allowed_edge :: "ServiceState \<Rightarrow> ServiceState \<Rightarrow> bool" where
  "allowed_edge Stopped t = (t \<in> {Stopped, Starting, Stopping})"
| "allowed_edge Starting t = (t \<in> {Starting, Running, Failed, Exited, Stopped})"
| "allowed_edge Running t = (t \<in> {Running, Stopping, Stopped, Exited, Failed})"
| "allowed_edge Stopping t = (t \<in> {Stopping, Stopped, Failed, Starting})"
| "allowed_edge Exited t = (t \<in> {Exited, Starting, Stopping, Stopped})"
| "allowed_edge Failed t = (t \<in> {Failed, Starting, Stopping, Stopped, Exited})"

lemma allowed_edge_refl [simp]: "allowed_edge a a"
  by (cases a) simp_all

text \<open>One published step: an edge of the table, and a start only over a stopped child.\<close>

definition published_step :: "supervisor \<Rightarrow> supervisor \<Rightarrow> bool" where
  "published_step v w \<longleftrightarrow> allowed_edge (pv_state v) (pv_state w)
     \<and> (pv_state w = Starting \<longrightarrow> pv_state v = Starting \<or> pv_pid v = -1 \<and> pv_pgid v = -1)
     \<and> pv_definition w = pv_definition v"

fun observer_ok :: "observer \<Rightarrow> supervisor \<Rightarrow> int list \<Rightarrow> bool" where
  "observer_ok (ObsWaiting p g) v children = (0 < p \<and> p = pv_pid v \<and> g = p)"
| "observer_ok (ObsCheckGroup g) v children = (pv_pid v = -1 \<and> g \<in> set children)"
| "observer_ok (ObsTermWait g _) v children = (pv_pid v = -1 \<and> g \<in> set children)"
| "observer_ok (ObsKillWait g _) v children = (pv_pid v = -1 \<and> g \<in> set children)"
| "observer_ok (ObsFinal g) v children = (pv_pid v = -1 \<and> g \<in> set children)"
| "observer_ok _ v children = True"

lemma pv_ok_desired [simp]: "pv_ok (v\<lparr> pv_desired := d \<rparr>) = pv_ok v"
  by (simp add: pv_ok_def exit_info_ok_def)

lemma observer_ok_cong:
  "pv_pid v = pv_pid w \<Longrightarrow> observer_ok obs v children = observer_ok obs w children"
  by (cases obs) simp_all

definition known_targets :: "int list \<Rightarrow> (int \<times> int) list \<Rightarrow> bool" where
  "known_targets children signals \<longleftrightarrow>
     (\<forall>(target, sig) \<in> set signals. (- target \<in> set children \<or> target \<in> set children)
        \<and> sig \<in> {SIGTERM, SIGKILL})"

lemma known_targets_mono: "known_targets cs sigs \<Longrightarrow> set cs \<subseteq> set ds \<Longrightarrow> known_targets ds sigs"
  unfolding known_targets_def by blast

definition sys_ok :: "sys \<Rightarrow> bool" where
  "sys_ok s \<longleftrightarrow> pv_ok (sy_sup s) \<and> observer_ok (sy_observer s) (sy_sup s) (sy_children s)
     \<and> sy_log s \<noteq> [] \<and> last (sy_log s) = sy_sup s
     \<and> (\<forall>v \<in> set (sy_log s). pv_ok v) \<and> successively published_step (sy_log s)
     \<and> (\<forall>c \<in> set (sy_children s). 0 < c)
     \<and> known_targets (sy_children s) (sy_signals s)
     \<and> (0 < pv_pgid (sy_sup s) \<longrightarrow> pv_pgid (sy_sup s) \<in> set (sy_children s))"

text \<open>
  The child is observed, or there is none and every child was collected; between operations the
  state is moreover not that of a start that still runs.
\<close>

definition watched :: "sys \<Rightarrow> bool" where
  "watched s \<longleftrightarrow> sys_ok s
     \<and> (0 < pv_pid (sy_sup s) \<longrightarrow> sy_observer s = ObsWaiting (pv_pid (sy_sup s)) (pv_pid (sy_sup s)))
     \<and> sy_unreaped s = (if 0 < pv_pid (sy_sup s) then {pv_pid (sy_sup s)} else {})"

definition quiet :: "sys \<Rightarrow> bool" where
  "quiet s \<longleftrightarrow> watched s
     \<and> (pv_state (sy_sup s) = Starting \<longrightarrow> pv_pid (sy_sup s) = -1 \<and> pv_pgid (sy_sup s) = -1)"

section \<open>Critical sections\<close>

lemma locked_simps [simp]:
  "sy_sup (locked f s) = f (sy_sup s)" "sy_log (locked f s) = sy_log s @ [f (sy_sup s)]"
  "sy_observer (locked f s) = sy_observer s" "sy_script (locked f s) = sy_script s"
  "sy_children (locked f s) = sy_children s" "sy_signals (locked f s) = sy_signals s"
  "sy_unreaped (locked f s) = sy_unreaped s" "sy_fds (locked f s) = sy_fds s"
  "sy_steady_ms (locked f s) = sy_steady_ms s" "sy_wall_ms (locked f s) = sy_wall_ms s"
  "sy_strerror (locked f s) = sy_strerror s"
  by (simp_all add: locked_def)

lemma TransitionStateLocked_simps [simp]:
  "pv_state (TransitionStateLocked now st e v) = st"
  "pv_last_error (TransitionStateLocked now st e v) = e"
  "pv_last_transition (TransitionStateLocked now st e v) = now"
  "pv_pid (TransitionStateLocked now st e v) = pv_pid v"
  "pv_pgid (TransitionStateLocked now st e v) = pv_pgid v"
  "pv_desired (TransitionStateLocked now st e v) = pv_desired v"
  "pv_definition (TransitionStateLocked now st e v) = pv_definition v"
  "pv_start_time (TransitionStateLocked now st e v) = pv_start_time v"
  "exit_info_ok (TransitionStateLocked now st e v) = exit_info_ok v"
  by (simp_all add: TransitionStateLocked_def exit_info_ok_def)

lemma exit_info_frame [simp]:
  "exit_info_ok (v\<lparr> pv_pid := a \<rparr>) = exit_info_ok v"
  "exit_info_ok (v\<lparr> pv_pgid := a \<rparr>) = exit_info_ok v"
  "exit_info_ok (v\<lparr> pv_start_time := t \<rparr>) = exit_info_ok v"
  "exit_info_ok (v\<lparr> pv_desired := d \<rparr>) = exit_info_ok v"
  "exit_info_ok (v\<lparr> pv_exit_code := None, pv_exit_kind := KindUnknown, pv_exit_signal := None \<rparr>)"
  by (simp_all add: exit_info_ok_def)

lemma NowUnixTimeMilliseconds_nonneg [simp]: "0 \<le> NowUnixTimeMilliseconds s"
  by (simp add: NowUnixTimeMilliseconds_def)

text \<open>What keeps the invariant of a critical section: a good result over an allowed edge.\<close>

lemma sys_ok_locked [inv_intros]:
  assumes "sys_ok s" and "pv_ok (f (sy_sup s))" and "published_step (sy_sup s) (f (sy_sup s))"
    and "observer_ok (sy_observer s) (f (sy_sup s)) (sy_children s)"
    and "0 < pv_pgid (f (sy_sup s)) \<Longrightarrow> pv_pgid (f (sy_sup s)) \<in> set (sy_children s)"
  shows "sys_ok (locked f s)"
  using assms by (auto simp: sys_ok_def successively_append_iff)

lemma sys_ok_locked_id: "sys_ok s \<Longrightarrow> f (sy_sup s) = sy_sup s \<Longrightarrow> sys_ok (locked f s)"
  by (rule sys_ok_locked) (simp_all add: sys_ok_def published_step_def)

lemma sys_ok_locked_transition:
  assumes "sys_ok s" and "f (sy_sup s) = TransitionStateLocked now st e (sy_sup s)" and "0 \<le> now"
    and "allowed_edge (pv_state (sy_sup s)) st"
    and "st = Running \<Longrightarrow> 0 < pv_pid (sy_sup s)" and "st \<in> {Stopped, Exited} \<Longrightarrow> pv_pid (sy_sup s) = -1"
    and "e \<noteq> [] \<longleftrightarrow> st = Failed"
    and "st = Starting \<Longrightarrow> pv_pid (sy_sup s) = -1 \<and> pv_pgid (sy_sup s) = -1"
  shows "sys_ok (locked f s)"
proof (rule sys_ok_locked)
  let ?w = "TransitionStateLocked now st e (sy_sup s)"
  have ok: "pv_ok (sy_sup s)" "observer_ok (sy_observer s) (sy_sup s) (sy_children s)"
    "0 < pv_pgid (sy_sup s) \<Longrightarrow> pv_pgid (sy_sup s) \<in> set (sy_children s)"
    using assms(1) by (simp_all add: sys_ok_def)
  show "pv_ok (f (sy_sup s))"
    unfolding assms(2) using ok(1) assms(3,5,6,7) by (auto simp: pv_ok_def)
  show "published_step (sy_sup s) (f (sy_sup s))"
    unfolding assms(2) using assms(4,8) by (simp add: published_step_def)
  show "observer_ok (sy_observer s) (f (sy_sup s)) (sy_children s)"
    unfolding assms(2) using ok(2) observer_ok_cong [of ?w "sy_sup s"] by simp
  show "pv_pgid (f (sy_sup s)) \<in> set (sy_children s)" if "0 < pv_pgid (f (sy_sup s))"
    using that ok(3) unfolding assms(2) by simp
qed (fact assms(1))

lemma sys_ok_signal [inv_intros]:
  assumes "sys_ok s" and "- target \<in> set (sy_children s) \<or> target \<in> set (sy_children s)"
    and "sig \<in> {SIGTERM, SIGKILL}"
  shows "sys_ok (send_signal target sig s)"
  using assms by (auto simp: sys_ok_def send_signal_def known_targets_def)

lemma send_signal_simps [simp]:
  "sy_sup (send_signal t g s) = sy_sup s" "sy_log (send_signal t g s) = sy_log s"
  "sy_observer (send_signal t g s) = sy_observer s" "sy_script (send_signal t g s) = sy_script s"
  "sy_children (send_signal t g s) = sy_children s" "sy_unreaped (send_signal t g s) = sy_unreaped s"
  "sy_fds (send_signal t g s) = sy_fds s" "sy_steady_ms (send_signal t g s) = sy_steady_ms s"
  "sy_wall_ms (send_signal t g s) = sy_wall_ms s" "sy_strerror (send_signal t g s) = sy_strerror s"
  by (simp_all add: send_signal_def)

text \<open>The fields the invariant does not mention.\<close>

lemma sys_ok_frame [simp]:
  "sys_ok (s\<lparr> sy_steady_ms := t \<rparr>) = sys_ok s" "sys_ok (s\<lparr> sy_wall_ms := t \<rparr>) = sys_ok s"
  "sys_ok (s\<lparr> sy_script := sc \<rparr>) = sys_ok s" "sys_ok (s\<lparr> sy_fds := fds \<rparr>) = sys_ok s"
  "sys_ok (s\<lparr> sy_unreaped := u \<rparr>) = sys_ok s"
  by (simp_all add: sys_ok_def)

lemma sys_ok_observer [inv_intros]:
  "sys_ok s \<Longrightarrow> observer_ok obs (sy_sup s) (sy_children s) \<Longrightarrow> sys_ok (s\<lparr> sy_observer := obs \<rparr>)"
  by (simp add: sys_ok_def)

section \<open>The observer keeps the invariant\<close>

lemma SaveExitStatus_simps [simp]:
  "pv_pid (SaveExitStatusLocked ws v) = pv_pid v" "pv_pgid (SaveExitStatusLocked ws v) = pv_pgid v"
  "pv_state (SaveExitStatusLocked ws v) = pv_state v"
  "pv_desired (SaveExitStatusLocked ws v) = pv_desired v"
  "pv_definition (SaveExitStatusLocked ws v) = pv_definition v"
  "exit_info_ok (SaveExitStatusLocked ws v)"
  by (simp_all add: SaveExitStatusLocked_def exit_info_ok_def split: wait_status.split)

lemma MarkChildExited_simps [simp]:
  "pv_pid (MarkChildExitedLocked now v) = -1" "pv_pgid (MarkChildExitedLocked now v) = pv_pgid v"
  "pv_start_time (MarkChildExitedLocked now v) = None"
  "pv_desired (MarkChildExitedLocked now v) = pv_desired v"
  "pv_definition (MarkChildExitedLocked now v) = pv_definition v"
  "pv_last_error (MarkChildExitedLocked now v) = []"
  "pv_last_transition (MarkChildExitedLocked now v) = now"
  "exit_info_ok (MarkChildExitedLocked now v) = exit_info_ok v"
  "pv_state (MarkChildExitedLocked now v) =
     (if pv_desired v = DStopped \<or> pv_state v = Stopping then Stopped else Exited)"
  by (simp_all add: MarkChildExitedLocked_def Let_def)

lemma child_exit_section_effect:
  assumes "pv_pid v = p"
  shows "pv_pid (child_exit_section p a s v) = -1" "pv_pgid (child_exit_section p a s v) = pv_pgid v"
    "pv_desired (child_exit_section p a s v) = pv_desired v"
    "pv_definition (child_exit_section p a s v) = pv_definition v"
  using assms by (cases a; simp add: child_exit_section_def)+

lemma child_exit_section_states:
  assumes "pv_pid v = p"
  shows "pv_state (child_exit_section p a s v)
    \<in> {if pv_desired v = DStopped \<or> pv_state v = Stopping then Stopped else Exited, Failed}"
  using assms by (cases a) (simp_all add: child_exit_section_def)

lemma child_exit_section_fields:
  assumes "pv_pid v = p"
  shows "pv_start_time (child_exit_section p a s v) = None"
    "0 \<le> pv_last_transition (child_exit_section p a s v)"
    "exit_info_ok (child_exit_section p a s v)"
    "pv_last_error (child_exit_section p a s v) \<noteq> []
      \<longleftrightarrow> pv_state (child_exit_section p a s v) = Failed"
  using assms by (cases a; simp add: child_exit_section_def)+

lemma child_exit_section_ok:
  assumes "pv_ok v" and "pv_pid v = p" and "0 < p"
  shows "pv_ok (child_exit_section p a s v)"
  using assms(1) child_exit_section_states [OF assms(2), of a s]
  by (auto simp: pv_ok_def child_exit_section_fields [OF assms(2)] child_exit_section_effect [OF assms(2)]
      split: if_splits)

lemma child_exit_section_step:
  assumes "pv_ok v" and "pv_pid v = p" and "0 < p"
  shows "published_step v (child_exit_section p a s v)"
  using assms child_exit_section_states [OF assms(2), of a s] child_exit_section_effect [OF assms(2), of a s]
  by (cases "pv_state v") (auto simp: published_step_def pv_ok_def split: if_splits)

lemma sys_okD:
  assumes "sys_ok s"
  shows "pv_ok (sy_sup s)" "observer_ok (sy_observer s) (sy_sup s) (sy_children s)"
    "0 < pv_pgid (sy_sup s) \<Longrightarrow> pv_pgid (sy_sup s) \<in> set (sy_children s)"
    "0 < pv_pid (sy_sup s) \<Longrightarrow> pv_pid (sy_sup s) \<in> set (sy_children s)"
    "c \<in> set (sy_children s) \<Longrightarrow> 0 < c"
    "sy_log s \<noteq> []" "last (sy_log s) = sy_sup s"
  using assms by (auto simp: sys_ok_def pv_ok_def)

lemma ObserveChildExit_ok [inv_intros]:
  assumes s: "sys_ok s" and obs: "sy_observer s = ObsWaiting p g"
  shows "sys_ok (ObserveChildExit p g a s)"
proof -
  have p: "pv_pid (sy_sup s) = p" "0 < p" "g = p"
    using sys_okD(2) [OF s] by (simp_all add: obs)
  have child: "p \<in> set (sy_children s)" "pv_pgid (sy_sup s) = p"
    using sys_okD(1,4) [OF s] p by (auto simp: pv_ok_def)
  let ?f = "child_exit_section p a s"
  have ok: "pv_ok (?f (sy_sup s))" and step: "published_step (sy_sup s) (?f (sy_sup s))"
    using child_exit_section_ok child_exit_section_step sys_okD(1) [OF s] p by blast+
  have "sys_ok (locked ?f (s\<lparr> sy_observer := ObsNone \<rparr>))"
    using ok step child child_exit_section_effect(2) [OF p(1), of a s]
    by (intro sys_ok_locked sys_ok_observer [OF s]) simp_all
  then have "sys_ok (locked ?f (s\<lparr> sy_observer := ObsNone \<rparr>)\<lparr> sy_observer := ObsCheckGroup g \<rparr>)"
    using child p child_exit_section_effect(1) [OF p(1), of a s] by (intro sys_ok_observer) simp_all
  then show ?thesis
    using s p by (simp add: ObserveChildExit_def Let_def locked_def sys_ok_def)
qed

lemma Cleanup_ok [inv_intros]:
  assumes s: "sys_ok s"
  shows "sys_ok (CleanupProcessGroupAfterLeaderExit (sy_observer s) a s)"
proof (cases "sy_observer s")
  case (ObsCheckGroup g)
  then have g: "pv_pid (sy_sup s) = -1" "g \<in> set (sy_children s)"
    using sys_okD(2) [OF s] by simp_all
  show ?thesis
    unfolding ObsCheckGroup
    by (auto intro!: sys_ok_observer sys_ok_signal s simp: g)
next
  case (ObsTermWait g d)
  then have g: "pv_pid (sy_sup s) = -1" "g \<in> set (sy_children s)"
    using sys_okD(2) [OF s] by simp_all
  show ?thesis
    unfolding ObsTermWait
    by (auto intro!: sys_ok_observer sys_ok_signal s simp: g)
next
  case (ObsKillWait g d)
  then show ?thesis
    using sys_okD(2) [OF s] by (auto intro!: sys_ok_observer s)
next
  case (ObsFinal g)
  then have g: "pv_pid (sy_sup s) = -1" "g \<in> set (sy_children s)"
    using sys_okD(2) [OF s] by simp_all
  let ?f = "\<lambda>v. if pv_pgid v = g \<and> \<not> group_exists g a then v\<lparr> pv_pgid := -1 \<rparr> else v"
  have "sys_ok (locked ?f s)"
    using sys_okD(1,3) [OF s] g ObsFinal
    by (intro sys_ok_locked s) (auto simp: pv_ok_def published_step_def)
  then show ?thesis
    unfolding ObsFinal by (simp add: sys_ok_observer)
qed (use s in simp_all)

lemma apply_event_ok [inv_intros]: "sys_ok s \<Longrightarrow> sys_ok (apply_event e s)"
proof (cases e)
  case (ObserverStep a)
  assume s: "sys_ok s"
  show ?thesis
    using ObserveChildExit_ok [OF s] Cleanup_ok [OF s, of a] ObserverStep
    by (cases "sy_observer s") simp_all
qed simp_all

lemma fold_apply_event_ok [inv_intros]: "sys_ok s \<Longrightarrow> sys_ok (fold apply_event es s)"
  by (induction es arbitrary: s) (simp_all add: apply_event_ok)

text \<open>
  What an operation can rely on while the observer runs: the published fields stay, or the child is
  gone and the state is one a lost child leads to.
\<close>

definition ended_states :: "supervisor \<Rightarrow> ServiceState set" where
  "ended_states v =
     {if pv_desired v = DStopped \<or> pv_state v = Stopping then Stopped else Exited, Failed}"

definition sup_rely :: "supervisor \<Rightarrow> supervisor \<Rightarrow> bool" where
  "sup_rely v w \<longleftrightarrow> w = v
     \<or> pv_definition w = pv_definition v \<and> pv_desired w = pv_desired v \<and> pv_pid w = -1
       \<and> pv_pgid w \<in> {pv_pgid v, -1}
       \<and> (if pv_pid v = -1 then pv_state w = pv_state v else pv_state w \<in> ended_states v)"

definition rely :: "sys \<Rightarrow> sys \<Rightarrow> bool" where
  "rely s s' \<longleftrightarrow> sy_children s' = sy_children s \<and> sy_fds s' = sy_fds s
     \<and> sy_strerror s' = sy_strerror s \<and> sy_steady_ms s \<le> sy_steady_ms s'
     \<and> sup_rely (sy_sup s) (sy_sup s')
     \<and> (sy_observer s = ObsNone \<longrightarrow> sy_observer s' = ObsNone \<and> sy_sup s' = sy_sup s
          \<and> sy_log s' = sy_log s \<and> sy_signals s' = sy_signals s \<and> sy_unreaped s' = sy_unreaped s)"

lemma sup_rely_refl [simp]: "sup_rely v v"
  by (simp add: sup_rely_def)

lemma sup_rely_trans:
  assumes "sup_rely v w" and "sup_rely w x"
  shows "sup_rely v x"
proof (cases "w = v \<or> x = w")
  case False
  then have "pv_pid w = -1" and "pv_state x = pv_state w"
    using assms by (auto simp: sup_rely_def)
  then show ?thesis
    using assms False unfolding sup_rely_def by auto
qed (use assms in auto)

lemma rely_refl [simp]: "rely s s"
  by (simp add: rely_def)

lemma rely_trans: "rely s t \<Longrightarrow> rely t u \<Longrightarrow> rely s u"
  by (auto simp: rely_def intro: sup_rely_trans)

lemma relyD:
  assumes "rely s s'"
  shows "sy_children s' = sy_children s" "sy_fds s' = sy_fds s" "sy_strerror s' = sy_strerror s"
    "sup_rely (sy_sup s) (sy_sup s')" "sy_steady_ms s \<le> sy_steady_ms s'"
  using assms by (simp_all add: rely_def)

lemma rely_idle:
  assumes "rely s s'" and "sy_observer s = ObsNone"
  shows "sy_observer s' = ObsNone" "sy_sup s' = sy_sup s" "sy_log s' = sy_log s"
    "sy_signals s' = sy_signals s" "sy_unreaped s' = sy_unreaped s"
  using assms by (simp_all add: rely_def)

lemma sup_relyD:
  assumes "sup_rely v w"
  shows "pv_definition w = pv_definition v" "pv_desired w = pv_desired v"
    "pv_pid w \<in> {pv_pid v, -1}" "pv_pgid w \<in> {pv_pgid v, -1}"
    "pv_pid w = pv_pid v \<Longrightarrow> pv_state w = pv_state v"
    "pv_pid w \<noteq> pv_pid v \<Longrightarrow> pv_state w \<in> ended_states v"
  using assms by (auto simp: sup_rely_def split: if_splits)

lemma rely_script [simp]: "rely (s\<lparr> sy_script := sc \<rparr>) t = rely s t"
  by (simp add: rely_def)

lemma Cleanup_rely:
  assumes "sys_ok s"
  shows "rely s (CleanupProcessGroupAfterLeaderExit (sy_observer s) a s)"
  using sys_okD(2) [OF assms]
  by (cases "sy_observer s") (simp_all add: rely_def sup_rely_def)

lemma ObserveChildExit_rely:
  assumes "sys_ok s" and "sy_observer s = ObsWaiting p g"
  shows "rely s (ObserveChildExit p g a s)"
proof -
  have p: "pv_pid (sy_sup s) = p" "0 < p"
    using sys_okD(2) [OF assms(1)] by (simp_all add: assms(2))
  show ?thesis
    using p assms(2) child_exit_section_effect [OF p(1), of a s]
      child_exit_section_states [OF p(1), of a s]
    by (simp add: rely_def sup_rely_def ended_states_def ObserveChildExit_def Let_def)
qed

lemma apply_event_rely: "sys_ok s \<Longrightarrow> rely s (apply_event e s)"
proof (cases e)
  case (ObserverStep a)
  assume s: "sys_ok s"
  show ?thesis
    using ObserveChildExit_rely [OF s] Cleanup_rely [OF s, of a] ObserverStep
    by (cases "sy_observer s") simp_all
qed (simp_all add: rely_def)

lemma fold_apply_event_rely: "sys_ok s \<Longrightarrow> rely s (fold apply_event es s)"
proof (induction es arbitrary: s)
  case (Cons e es)
  show ?case
    using rely_trans [OF apply_event_rely Cons.IH [OF apply_event_ok]] Cons.prems by simp
qed simp

lemma syscall_ok:
  assumes "sys_ok s" and "syscall s = Some (a, s')"
  shows "sys_ok s' \<and> rely s s'"
proof -
  obtain es rest where "sy_script s = (es, a) # rest"
    and s': "s' = fold apply_event es (s\<lparr> sy_script := rest \<rparr>)"
    using assms(2) by (auto simp: syscall_def split: list.splits)
  have "sys_ok (s\<lparr> sy_script := rest \<rparr>)"
    using assms(1) by simp
  from fold_apply_event_ok [OF this] fold_apply_event_rely [OF this] show ?thesis
    by (simp add: s')
qed

lemma syscall_children: "sys_ok s \<Longrightarrow> syscall s = Some (a, s') \<Longrightarrow> sy_children s' = sy_children s"
  using syscall_ok relyD(1) by blast

lemma pv_ok_pid: "pv_ok v \<Longrightarrow> \<not> 0 < pv_pid v \<Longrightarrow> pv_pid v = -1"
  by (simp add: pv_ok_def)

lemma watched_pid:
  assumes "watched s" and "\<And>p g. sy_observer s \<noteq> ObsWaiting p g"
  shows "pv_pid (sy_sup s) = -1"
proof (rule pv_ok_pid)
  show "pv_ok (sy_sup s)"
    using assms(1) by (simp add: watched_def sys_ok_def)
  show "\<not> 0 < pv_pid (sy_sup s)"
    using assms unfolding watched_def by blast
qed

lemma watched_event [inv_intros]:
  assumes "watched s"
  shows "watched (apply_event e s)"
proof (cases e)
  case (ObserverStep a)
  have s: "sys_ok s" using assms by (simp add: watched_def)
  have ok: "sys_ok (apply_event e s)" by (rule apply_event_ok [OF s])
  show ?thesis
  proof (cases "sy_observer s")
    case (ObsWaiting p g)
    have p: "pv_pid (sy_sup s) = p" "0 < p" "g = p"
      using sys_okD(2) [OF s] by (simp_all add: ObsWaiting)
    show ?thesis
      using ok assms ObserverStep ObsWaiting p child_exit_section_effect [OF p(1), of a s]
      by (simp add: watched_def ObserveChildExit_def Let_def)
  qed (use ok assms ObserverStep in \<open>auto simp: watched_def\<close>)
qed (use assms in \<open>simp_all add: watched_def\<close>)

lemma watched_fold: "watched s \<Longrightarrow> watched (fold apply_event es s)"
  by (induction es arbitrary: s) (simp_all add: watched_event)

lemma watched_syscall: "watched s \<Longrightarrow> syscall s = Some (a, s') \<Longrightarrow> watched s' \<and> rely s s'"
proof -
  assume s: "watched s" and call: "syscall s = Some (a, s')"
  obtain es rest where "sy_script s = (es, a) # rest"
    and s': "s' = fold apply_event es (s\<lparr> sy_script := rest \<rparr>)"
    using call by (auto simp: syscall_def split: list.splits)
  have "watched (s\<lparr> sy_script := rest \<rparr>)"
    using s by (simp add: watched_def)
  then show ?thesis
    using syscall_ok [OF _ call] s watched_fold by (simp add: s' watched_def)
qed

lemma watched_yield: "watched s \<Longrightarrow> yield s = Some s' \<Longrightarrow> watched s' \<and> rely s s'"
  using watched_syscall by (auto simp: yield_def)

lemma quiet_rely: "quiet s \<Longrightarrow> watched s' \<Longrightarrow> rely s s' \<Longrightarrow> quiet s'"
proof -
  assume q: "quiet s" and w: "watched s'" and r: "rely s s'"
  note sup = sup_relyD [OF relyD(4) [OF r]]
  have "pv_pid (sy_sup s') = -1 \<and> pv_pgid (sy_sup s') = -1" if "pv_state (sy_sup s') = Starting"
  proof (cases "pv_pid (sy_sup s') = pv_pid (sy_sup s)")
    case True
    then show ?thesis
      using q sup(4,5) that by (auto simp: quiet_def)
  next
    case False
    then show ?thesis
      using sup(6) that by (auto simp: ended_states_def split: if_splits)
  qed
  then show ?thesis
    using w by (simp add: quiet_def)
qed

lemma quiet_event [inv_intros]: "quiet s \<Longrightarrow> quiet (apply_event e s)"
  by (rule quiet_rely [OF _ watched_event apply_event_rely]) (simp_all add: quiet_def watched_def)

section \<open>Starting\<close>

text \<open>
  Inside \<open>StartOperation\<close>, after the previous observer was joined: no observer runs, so only the
  clocks can move. \<open>u\<close> is the child forked so far, \<open>fds\<close> the open descriptors.
\<close>

definition starting :: "int set \<Rightarrow> int multiset \<Rightarrow> sys \<Rightarrow> bool" where
  "starting u fds s \<longleftrightarrow> sys_ok s \<and> sy_observer s = ObsNone \<and> pv_pid (sy_sup s) = -1
     \<and> pv_pgid (sy_sup s) = -1 \<and> pv_state (sy_sup s) = Starting
     \<and> pv_desired (sy_sup s) = DRunning \<and> sy_unreaped s = u \<and> u \<subseteq> set (sy_children s)
     \<and> mset (sy_fds s) = fds"

text \<open>How a start that got this far ends.\<close>

definition start_end :: "int multiset \<Rightarrow> op_result \<Rightarrow> sys \<Rightarrow> bool" where
  "start_end fds r s \<longleftrightarrow> quiet s \<and> pv_desired (sy_sup s) = DRunning \<and> mset (sy_fds s) = fds
     \<and> (case r of
          Done True e \<Rightarrow> e = []
            \<and> (0 < pv_pid (sy_sup s) \<and> pv_state (sy_sup s) = Running
               \<or> pv_pid (sy_sup s) = -1 \<and> pv_state (sy_sup s) \<in> {Exited, Failed})
        | Done False e \<Rightarrow> e \<noteq> [] \<and> pv_state (sy_sup s) = Failed \<and> pv_last_error (sy_sup s) = e
            \<and> pv_pid (sy_sup s) = -1 \<and> pv_pgid (sy_sup s) = -1
        | Raised _ \<Rightarrow> pv_state (sy_sup s) = Starting \<and> pv_pid (sy_sup s) = -1
            \<and> pv_pgid (sy_sup s) = -1)"

lemma starting_syscall:
  "starting u fds s \<Longrightarrow> syscall s = Some (a, s') \<Longrightarrow> starting u fds s' \<and> sy_children s' = sy_children s"
proof -
  assume s: "starting u fds s" and call: "syscall s = Some (a, s')"
  have "sys_ok s" "sy_observer s = ObsNone"
    using s by (simp_all add: starting_def)
  then have "sys_ok s'" and r: "rely s s'"
    using syscall_ok call by blast+
  then show ?thesis
    using s rely_idle [OF r] relyD(1,2) [OF r] by (simp add: starting_def)
qed

lemma starting_sys_ok: "starting u fds s \<Longrightarrow> sys_ok s"
  by (simp add: starting_def)

lemma starting_failed:
  assumes "starting {} fds s" and "e \<noteq> []" and "start_failed e s = Some (r, s')"
  shows "start_end fds r s'"
proof -
  have s: "sys_ok s" "sy_observer s = ObsNone" "pv_pid (sy_sup s) = -1"
    using assms(1) by (simp_all add: starting_def)
  have "sys_ok (transition Failed e s)"
    unfolding transition_def using assms(1,2) sys_okD(1) [OF s(1)] s
    by (intro sys_ok_locked) (auto simp: pv_ok_def published_step_def starting_def)
  then show ?thesis
    using assms by (auto simp: start_failed_def start_end_def quiet_def watched_def starting_def
        transition_def)
qed

text \<open>Reaping is system calls, then the child is collected.\<close>

lemma ReapChildBlocking_rule:
  assumes "ReapChildBlocking c s = Some s'" and "P s"
    and "\<And>t a t'. P t \<Longrightarrow> syscall t = Some (a, t') \<Longrightarrow> P t'"
  shows "\<exists>t. P t \<and> s' = t\<lparr> sy_unreaped := sy_unreaped t - {c} \<rparr>"
  using assms(1,2)
proof (induction c s rule: ReapChildBlocking.induct)
  case (1 c s)
  obtain a s1 where call: "syscall s = Some (a, s1)"
    using "1.prems"(1) by (subst (asm) ReapChildBlocking.simps) (auto split: option.splits)
  have s1: "P s1"
    using assms(3) "1.prems"(2) call .
  show ?case
  proof (cases "ret_of a < 0 \<and> errno_of a = EINTR")
    case True
    then have "ReapChildBlocking c s1 = Some s'"
      using "1.prems"(1) call by (subst (asm) ReapChildBlocking.simps) simp
    from "1.IH" [OF call refl True this s1] show ?thesis .
  next
    case False
    then have "s' = s1\<lparr> sy_unreaped := sy_unreaped s1 - {c} \<rparr>"
      using "1.prems"(1) call by (subst (asm) ReapChildBlocking.simps) auto
    then show ?thesis
      using s1 by blast
  qed
qed

lemma starting_reap:
  assumes "starting {c} fds s" and "ReapChildBlocking c s = Some s'"
  shows "starting {} fds s'"
proof -
  obtain t where "starting {c} fds t" and "s' = t\<lparr> sy_unreaped := sy_unreaped t - {c} \<rparr>"
    using ReapChildBlocking_rule [OF assms(2), of "starting {c} fds"] assms(1) starting_syscall
    by blast
  then show ?thesis
    by (simp add: starting_def)
qed

lemma starting_confirm:
  assumes "starting u fds s" and "WaitForExecConfirmation deadline bytes s = Some (r, s')"
  shows "starting u fds s' \<and> sy_children s' = sy_children s"
  using assms
proof (induction deadline bytes s arbitrary: r s' rule: WaitForExecConfirmation.induct)
  case (1 deadline bytes s)
  note unfolded = "1.prems"(2) [unfolded WaitForExecConfirmation.simps [of deadline bytes s]]
  show ?case
  proof (cases "deadline - sy_steady_ms s \<le> 0")
    case True
    then show ?thesis
      using unfolded "1.prems"(1) by simp
  next
    case False
    then obtain p s1 where poll: "syscall s = Some (p, s1)"
      using unfolded by (auto split: option.splits)
    note s1 = starting_syscall [OF "1.prems"(1) poll]
    show ?thesis
    proof (cases "ret_of p = 0 \<or> ret_of p < 0")
      case True
      then show ?thesis
        using unfolded False poll s1 "1.IH"(1) [OF False poll refl]
        by (auto split: if_splits)
    next
      case readable: False
      then obtain a s2 where read: "syscall s1 = Some (a, s2)"
        using unfolded False poll by (auto split: option.splits)
      have s2: "starting u fds s2 \<and> sy_children s2 = sy_children s"
        using starting_syscall [OF _ read] s1 by auto
      show ?thesis
        using unfolded False poll readable read s2 "1.IH"(2,3) [OF False poll refl _ _ read refl]
        by (auto simp: Let_def split: if_splits)
    qed
  qed
qed

lemma starting_frame [simp]:
  "starting u fds (s\<lparr> sy_fds := xs \<rparr>) = (starting u (mset (sy_fds s)) s \<and> mset xs = fds)"
  by (auto simp: starting_def)

lemma starting_close:
  "starting u (add_mset fd fds) s \<Longrightarrow> starting u fds (close_fd fd s)"
  by (auto simp: starting_def close_fd_def)

lemma close_fd_simps [simp]:
  "sy_sup (close_fd fd s) = sy_sup s" "sy_children (close_fd fd s) = sy_children s"
  "sy_strerror (close_fd fd s) = sy_strerror s" "sy_observer (close_fd fd s) = sy_observer s"
  "sy_script (close_fd fd s) = sy_script s" "sy_steady_ms (close_fd fd s) = sy_steady_ms s"
  by (simp_all add: close_fd_def)

lemma starting_signal:
  assumes "starting {c} fds s"
  shows "starting {c} fds (send_signal (- c) SIGKILL s)" "starting {c} fds (send_signal c SIGKILL s)"
  using assms sys_ok_signal [of s "- c" SIGKILL] sys_ok_signal [of s c SIGKILL]
  by (simp_all add: starting_def)

lemma SignalProcessTree_starting:
  assumes "starting {c} fds s" and "SignalProcessTree c c SIGKILL s = Some (a, s')"
  shows "starting {c} fds s'"
proof -
  have "0 < c"
    using assms(1) sys_okD(5) by (auto simp: starting_def)
  then have "syscall (send_signal (- c) SIGKILL s) = Some (a, s')"
    using assms(2) by (simp add: SignalProcessTree_def)
  then show ?thesis
    using starting_syscall starting_signal(1) [OF assms(1)] by blast
qed

text \<open>The child is published: it is running as far as the fields say, but the state is not.\<close>

definition publish_child :: "int \<Rightarrow> sys \<Rightarrow> sys" where
  "publish_child c s = locked (\<lambda>v. v\<lparr> pv_pid := c, pv_pgid := c,
     pv_start_time := Some (sy_steady_ms s) \<rparr>) s"

lemma publish_child_ok:
  assumes "starting {c} fds s"
  shows "sys_ok (publish_child c s)"
proof -
  have s: "sys_ok s" "sy_observer s = ObsNone" "pv_state (sy_sup s) = Starting" "c \<in> set (sy_children s)"
    using assms by (simp_all add: starting_def)
  moreover have "0 < c"
    using sys_okD(5) [OF s(1,4)] .
  ultimately show ?thesis
    unfolding publish_child_def using sys_okD(1) [OF s(1)]
    by (intro sys_ok_locked) (auto simp: pv_ok_def published_step_def exit_info_ok_def)
qed

lemma adopt_failed:
  assumes s: "starting {c} fds s" and s1: "s1 = publish_child c s"
    and call: "syscall s1 = Some (a, s2)" and kill: "SignalProcessTree c c SIGKILL s2 = Some (b, s3)"
    and reap: "ReapChildBlocking c s3 = Some s4" and e: "e \<noteq> []"
  shows "start_end fds (Done False e)
    (locked (\<lambda>v. if pv_pid v = c then
        TransitionStateLocked (NowUnixTimeMilliseconds s4) Failed e
          (v\<lparr> pv_pid := -1, pv_pgid := -1, pv_start_time := None \<rparr>)
      else v) s4)"
proof -
  define live where "live t \<longleftrightarrow> sys_ok t \<and> sy_observer t = ObsNone \<and> pv_pid (sy_sup t) = c
    \<and> pv_state (sy_sup t) = Starting \<and> pv_desired (sy_sup t) = DRunning
    \<and> mset (sy_fds t) = fds \<and> c \<in> set (sy_children t)" for t
  have live1: "live s1 \<and> sy_unreaped s1 = {c}"
    using publish_child_ok [OF s] s by (simp add: live_def s1 publish_child_def starting_def)
  have live_call: "live t' \<and> sy_unreaped t' = sy_unreaped t" if "live t" "syscall t = Some (x, t')" for t t' x
  proof -
    have t: "sys_ok t" "sy_observer t = ObsNone"
      using that(1) by (simp_all add: live_def)
    then have "sys_ok t'" and r: "rely t t'"
      using syscall_ok that(2) by blast+
    then show ?thesis
      using that(1) rely_idle [OF r t(2)] relyD(1,2) [OF r] by (simp add: live_def)
  qed
  have "0 < c"
    using live1 sys_okD(5) by (auto simp: live_def)
  have live2: "live s2 \<and> sy_unreaped s2 = {c}"
    using live_call [OF _ call] live1 by simp
  have sent: "live (send_signal (- c) SIGKILL s2)"
    using live2 sys_ok_signal [of s2 "- c" SIGKILL] by (simp add: live_def)
  have "syscall (send_signal (- c) SIGKILL s2) = Some (b, s3)"
    using kill \<open>0 < c\<close> by (simp add: SignalProcessTree_def)
  from live_call [OF sent this] live2 have live3: "live s3 \<and> sy_unreaped s3 = {c}"
    by simp
  obtain t where "live t \<and> sy_unreaped t = {c}" and "s4 = t\<lparr> sy_unreaped := sy_unreaped t - {c} \<rparr>"
    using ReapChildBlocking_rule [OF reap, of "\<lambda>t. live t \<and> sy_unreaped t = {c}"] live3 live_call
    by blast
  then have live4: "live s4 \<and> sy_unreaped s4 = {}"
    by (simp add: live_def)
  let ?f = "\<lambda>v. if pv_pid v = c then TransitionStateLocked (NowUnixTimeMilliseconds s4) Failed e
      (v\<lparr> pv_pid := -1, pv_pgid := -1, pv_start_time := None \<rparr>) else v"
  have ok4: "sys_ok s4" and sup4: "sy_observer s4 = ObsNone" "pv_state (sy_sup s4) = Starting"
    and f: "?f (sy_sup s4) = TransitionStateLocked (NowUnixTimeMilliseconds s4) Failed e
      ((sy_sup s4)\<lparr> pv_pid := -1, pv_pgid := -1, pv_start_time := None \<rparr>)"
    using live4 by (simp_all add: live_def)
  have "sys_ok (locked ?f s4)"
    using sys_okD(1) [OF ok4] e sup4
    by (intro sys_ok_locked ok4) (simp_all only: f, simp_all add: pv_ok_def published_step_def)
  then show ?thesis
    using live4 e by (auto simp: start_end_def quiet_def watched_def live_def)
qed

lemma adopt_observed:
  assumes s: "starting {c} fds s" and s1: "s1 = publish_child c s"
    and call: "syscall s1 = Some (a, s2)"
    and yield: "yield (s2\<lparr> sy_observer := ObsWaiting c c \<rparr>) = Some s3"
  shows "start_end fds (Done True [])
    (locked (\<lambda>v. if pv_pid v = c \<and> pv_state v = Starting then
        TransitionStateLocked (NowUnixTimeMilliseconds s3) Running [] v else v) s3)"
proof -
  have ok1: "sys_ok s1" and obs1: "sy_observer s1 = ObsNone"
    using publish_child_ok [OF s] s by (simp_all add: s1 publish_child_def starting_def)
  have ok2: "sys_ok s2" and r: "rely s1 s2"
    using syscall_ok [OF ok1 call] by simp_all
  have c: "0 < c" "c \<in> set (sy_children s1)"
    using s sys_okD(5) by (auto simp: s1 publish_child_def starting_def)
  have sup2: "pv_pid (sy_sup s2) = c" "pv_state (sy_sup s2) = Starting" "pv_desired (sy_sup s2) = DRunning"
    "sy_unreaped s2 = {c}" "mset (sy_fds s2) = fds"
    using s rely_idle [OF r obs1] relyD(2) [OF r] by (simp_all add: s1 publish_child_def starting_def)
  let ?s2 = "s2\<lparr> sy_observer := ObsWaiting c c \<rparr>"
  have "watched ?s2"
    using sup2 c sys_ok_observer [OF ok2, of "ObsWaiting c c"] by (simp add: watched_def)
  then have w3: "watched s3" and r3: "rely ?s2 s3"
    using watched_yield yield by blast+
  note sup3 = sup_relyD [OF relyD(4) [OF r3]]
  have cases3: "pv_pid (sy_sup s3) = c \<and> pv_state (sy_sup s3) = Starting
      \<or> pv_pid (sy_sup s3) = -1 \<and> pv_state (sy_sup s3) \<in> {Exited, Failed}"
    using sup3(3,5,6) sup2 c by (auto simp: ended_states_def)
  have desired3: "pv_desired (sy_sup s3) = DRunning" "mset (sy_fds s3) = fds"
    using sup3(2) sup2 relyD(2) [OF r3] by simp_all
  let ?f = "\<lambda>v. if pv_pid v = c \<and> pv_state v = Starting then
      TransitionStateLocked (NowUnixTimeMilliseconds s3) Running [] v else v"
  have ok3: "sys_ok s3"
    using w3 by (simp add: watched_def)
  have "sys_ok (locked ?f s3)"
    using cases3
  proof
    assume run: "pv_pid (sy_sup s3) = c \<and> pv_state (sy_sup s3) = Starting"
    show ?thesis
      by (rule sys_ok_locked_transition [OF ok3, where now = "NowUnixTimeMilliseconds s3"
            and st = Running and e = "[]"]) (use run c in simp_all)
  next
    assume "pv_pid (sy_sup s3) = -1 \<and> pv_state (sy_sup s3) \<in> {Exited, Failed}"
    then show ?thesis
      by (intro sys_ok_locked_id ok3) auto
  qed
  moreover have "?f (sy_sup s3) = (if pv_pid (sy_sup s3) = c
      then TransitionStateLocked (NowUnixTimeMilliseconds s3) Running [] (sy_sup s3) else sy_sup s3)"
    using cases3 c by auto
  ultimately show ?thesis
    using cases3 desired3 w3 c unfolding start_end_def quiet_def watched_def
    by (elim disjE conjE) auto
qed

lemma AdoptChild_end:
  assumes "starting {c} fds s" and "AdoptChild c s = Some (r, s')"
  shows "start_end fds r s'"
proof -
  obtain a s2 where call: "syscall (publish_child c s) = Some (a, s2)"
    using assms(2) by (auto simp: AdoptChild_def Let_def bind_eq_Some_conv publish_child_def)
  show ?thesis
    using assms(2) call adopt_failed [OF assms(1) refl call] adopt_observed [OF assms(1) refl call]
    by (cases a) (auto simp: AdoptChild_def Let_def bind_eq_Some_conv publish_child_def)
qed

lemma ConfirmChild_end:
  assumes s: "starting {c} (add_mset r fds) s" and run: "ConfirmChild c r s = Some (res, s')"
  shows "start_end fds res s'"
proof -
  obtain conf bytes num s1 where
    confirm: "WaitForExecConfirmation (sy_steady_ms s + kExecConfirmationTimeout) [] s
      = Some ((conf, bytes, num), s1)"
    using run by (auto simp: ConfirmChild_def Let_def bind_eq_Some_conv)
  have s1: "starting {c} fds (close_fd r s1)"
    using starting_confirm [OF s confirm] starting_close by blast
  show ?thesis
  proof (cases "conf = ExecSucceeded")
    case True
    then show ?thesis
      using run confirm AdoptChild_end [OF s1] by (simp add: ConfirmChild_def)
  next
    case False
    then obtain a s2 s3 e where
      kill: "(if conf = ExecChildFailed then Some (Ret 0, close_fd r s1)
         else syscall (send_signal c SIGKILL (close_fd r s1))) = Some (a, s2)"
      and reap: "ReapChildBlocking c s2 = Some s3"
      and e: "e \<noteq> []" "start_failed e s3 = Some (res, s')"
      using run confirm
      by (auto simp: ConfirmChild_def Let_def bind_eq_Some_conv DescribeChildStartError_def
          split: if_splits)
    have "starting {c} fds s2"
      using kill s1 starting_syscall [OF starting_signal(2) [OF s1]] by (auto split: if_splits)
    from starting_failed [OF starting_reap [OF this reap] e] show ?thesis .
  qed
qed

lemma MoveDescriptor_starting:
  assumes "starting u (add_mset fd fds) s" and "MoveDescriptor fd s = Some (r, s')"
  shows "starting u (add_mset (case r of Inl _ \<Rightarrow> fd | Inr fd' \<Rightarrow> fd') fds) s'"
proof (cases "2 < fd")
  case True
  then show ?thesis
    using assms by (auto simp: MoveDescriptor_def)
next
  case False
  then obtain a s1 where call: "syscall s = Some (a, s1)"
    using assms(2) by (auto simp: MoveDescriptor_def bind_eq_Some_conv)
  have s1: "starting u (add_mset fd fds) s1"
    using starting_syscall [OF assms(1) call] by simp
  then have "starting u (add_mset (ret_of a) fds) (close_fd fd (s1\<lparr> sy_fds := ret_of a # sy_fds s1 \<rparr>))"
    by (intro starting_close) (simp add: starting_def add_mset_commute)
  then show ?thesis
    using assms(2) False call s1 by (auto simp: MoveDescriptor_def split: if_splits)
qed

lemma MovePipe_starting:
  assumes "starting u (add_mset r (add_mset w fds)) s"
    and "MovePipeDescriptorsAboveStandardStreams r w s = Some ((r', w', m), s')"
  shows "starting u (add_mset r' (add_mset w' fds)) s'"
proof -
  obtain x s1 where r1: "MoveDescriptor r s = Some (x, s1)"
    using assms(2) by (auto simp: MovePipeDescriptorsAboveStandardStreams_def bind_eq_Some_conv)
  note s1 = MoveDescriptor_starting [OF assms(1) r1]
  show ?thesis
  proof (cases x)
    case (Inl e)
    then show ?thesis
      using assms(2) r1 s1 by (auto simp: MovePipeDescriptorsAboveStandardStreams_def)
  next
    case (Inr rr)
    then obtain y s2 where w1: "MoveDescriptor w s1 = Some (y, s2)"
      using assms(2) r1 by (auto simp: MovePipeDescriptorsAboveStandardStreams_def bind_eq_Some_conv)
    have "starting u (add_mset w (add_mset rr fds)) s1"
      using s1 Inr by (simp add: add_mset_commute)
    note s2 = MoveDescriptor_starting [OF this w1]
    show ?thesis
      using assms(2) r1 w1 Inr s2
      by (cases y) (auto simp: MovePipeDescriptorsAboveStandardStreams_def add_mset_commute)
  qed
qed

lemma SetCloseOnExec_starting:
  assumes "starting u fds s" and "SetCloseOnExec fd s = Some (r, s')"
  shows "starting u fds s'"
proof -
  obtain a s1 where call: "syscall s = Some (a, s1)"
    using assms(2) by (auto simp: SetCloseOnExec_def bind_eq_Some_conv)
  note s1 = starting_syscall [OF assms(1) call]
  show ?thesis
    using assms(2) call s1 starting_syscall [of u fds s1]
    by (auto simp: SetCloseOnExec_def bind_eq_Some_conv split: if_splits)
qed

lemma sys_ok_child:
  assumes "sys_ok s" and "sy_observer s = ObsNone" and "0 < c"
    and "known_targets (c # sy_children s) (sy_signals s)"
  shows "sys_ok (s\<lparr> sy_children := c # sy_children s \<rparr>)"
  using assms unfolding sys_ok_def by (intro conjI; elim conjE; simp)

lemma starting_fork:
  assumes "starting {} fds s" and "0 < c"
  shows "starting {c} fds (s\<lparr> sy_children := c # sy_children s,
    sy_unreaped := insert c (sy_unreaped s) \<rparr>)"
proof -
  have s: "sys_ok s" and obs: "sy_observer s = ObsNone"
    using assms(1) by (simp_all add: starting_def)
  have "known_targets (sy_children s) (sy_signals s)"
    using s by (simp add: sys_ok_def)
  then have "known_targets (c # sy_children s) (sy_signals s)"
    by (rule known_targets_mono) auto
  then have "sys_ok (s\<lparr> sy_children := c # sy_children s \<rparr>)"
    by (rule sys_ok_child [OF s obs assms(2)])
  then have "sys_ok (s\<lparr> sy_children := c # sy_children s, sy_unreaped := insert c (sy_unreaped s) \<rparr>)"
    by (simp only: sys_ok_frame)
  then show ?thesis
    using assms(1) by (simp add: starting_def)
qed

lemma ForkChild_end:
  assumes s: "starting {} fds s" and run: "ForkChild s = Some (res, s')"
  shows "start_end fds res s'"
proof -
  obtain a s1 where call: "syscall s = Some (a, s1)"
    using run by (auto simp: ForkChild_def bind_eq_Some_conv)
  have s1: "starting {} fds s1"
    using starting_syscall [OF s call] by simp
  show ?thesis
  proof (cases "\<exists>r w. a = Fds r w")
    case False
    then have "start_failed (''failed to create exec confirmation pipe: '' @ sy_strerror s1 (errno_of a)) s1
        = Some (res, s')"
      using run call by (cases a) (simp_all add: ForkChild_def)
    from starting_failed [OF s1 _ this] show ?thesis by simp
  next
    case True
    then obtain r w where a: "a = Fds r w" by blast
    let ?s1 = "s1\<lparr> sy_fds := r # w # sy_fds s1 \<rparr>"
    obtain r' w' m s2 where move: "MovePipeDescriptorsAboveStandardStreams r w ?s1 = Some ((r', w', m), s2)"
      using run call a by (auto simp: ForkChild_def bind_eq_Some_conv)
    have "starting {} (add_mset r (add_mset w fds)) ?s1"
      using s1 by (simp add: starting_def)
    note s2 = MovePipe_starting [OF this move]
    show ?thesis
    proof (cases m)
      case (Some e)
      then have "start_failed (''failed to configure exec confirmation pipe descriptors: '' @ sy_strerror s2 e)
          (close_fd w' (close_fd r' s2)) = Some (res, s')"
        using run call a move by (simp add: ForkChild_def)
      from starting_failed [OF starting_close [OF starting_close [OF s2]] _ this] show ?thesis by simp
    next
      case None
      then obtain x s3 where cloexec: "SetCloseOnExec w' s2 = Some (x, s3)"
        using run call a move by (auto simp: ForkChild_def bind_eq_Some_conv)
      note s3 = SetCloseOnExec_starting [OF s2 cloexec]
      show ?thesis
      proof (cases x)
        case (Some e)
        then have "start_failed (''failed to configure exec confirmation pipe: '' @ sy_strerror s3 e)
            (close_fd w' (close_fd r' s3)) = Some (res, s')"
          using run call a move None cloexec by (simp add: ForkChild_def)
        from starting_failed [OF starting_close [OF starting_close [OF s3]] _ this] show ?thesis by simp
      next
        case x: None
        then obtain child s4 where fork: "syscall s3 = Some (child, s4)"
          using run call a move None cloexec by (auto simp: ForkChild_def bind_eq_Some_conv)
        have s4: "starting {} (add_mset r' (add_mset w' fds)) s4"
          using starting_syscall [OF s3 fork] by simp
        show ?thesis
        proof (cases "ret_of child < 0")
          case True
          then have "start_failed (''fork failed: '' @ sy_strerror s4 (errno_of child))
              (close_fd w' (close_fd r' s4)) = Some (res, s')"
            using run call a move None cloexec x fork by (simp add: ForkChild_def)
          from starting_failed [OF starting_close [OF starting_close [OF s4]] _ this] show ?thesis by simp
        next
          case False
          let ?c = "ret_of child"
          let ?s4 = "s4\<lparr> sy_children := ?c # sy_children s4, sy_unreaped := insert ?c (sy_unreaped s4) \<rparr>"
          have c: "0 < ?c" and confirm: "ConfirmChild ?c r' (close_fd w' ?s4) = Some (res, s')"
            using run call a move None cloexec x fork False
            by (auto simp: ForkChild_def split: if_splits)
          have "starting {?c} (add_mset w' (add_mset r' fds)) ?s4"
            using starting_fork [OF s4 c] by (simp add: add_mset_commute)
          from ConfirmChild_end [OF starting_close [OF this] confirm] show ?thesis .
        qed
      qed
    qed
  qed
qed

section \<open>The whole operations\<close>

lemma locked_desired_ok:
  assumes "watched s"
  shows "watched (locked (\<lambda>v. v\<lparr> pv_desired := d \<rparr>) s)"
proof -
  have s: "sys_ok s" using assms by (simp add: watched_def)
  have "sys_ok (locked (\<lambda>v. v\<lparr> pv_desired := d \<rparr>) s)"
    using sys_okD(1,2,3) [OF s] observer_ok_cong [of "(sy_sup s)\<lparr> pv_desired := d \<rparr>" "sy_sup s"]
    by (intro sys_ok_locked s) (simp_all add: published_step_def)
  then show ?thesis
    using assms by (simp add: watched_def)
qed

lemma quiet_desired: "quiet s \<Longrightarrow> quiet (locked (\<lambda>v. v\<lparr> pv_desired := d \<rparr>) s)"
  using locked_desired_ok by (simp add: quiet_def)

text \<open>Joining lets the observer finish; what changes is what it publishes.\<close>

lemma Join_quiet:
  assumes "watched s" and "JoinObserverThread s = Some s'"
  shows "watched s' \<and> sy_observer s' = ObsNone \<and> pv_pid (sy_sup s') = -1
    \<and> sup_rely (sy_sup s) (sy_sup s') \<and> sy_fds s' = sy_fds s \<and> sy_children s' = sy_children s"
proof (cases "sy_observer s = ObsNone")
  case True
  then have "s' = s"
    using assms(2) by (simp add: JoinObserverThread_def)
  then show ?thesis
    using assms(1) True watched_pid [OF assms(1)] by simp
next
  case False
  then obtain t where y: "yield s = Some t" and t: "sy_observer t = ObsDone"
    and s': "s' = t\<lparr> sy_observer := ObsNone \<rparr>"
    using assms(2) by (auto simp: JoinObserverThread_def bind_eq_Some_conv split: if_splits)
  have w: "watched t" and r: "rely s t"
    using watched_yield [OF assms(1) y] by simp_all
  have "pv_pid (sy_sup t) = -1"
    by (rule watched_pid [OF w]) (simp add: t)
  then show ?thesis
    using w relyD [OF r] sys_ok_observer [of t ObsNone] by (simp add: s' watched_def)
qed

lemma starting_raised:
  assumes "starting {} fds s"
  shows "start_end fds (Raised w) s"
  using assms by (simp add: start_end_def quiet_def watched_def starting_def)

lemma require_end:
  assumes s: "starting {} fds s" and run: "require e k s = Some (r, s')" and e: "e \<noteq> []"
    and rest: "\<And>t. starting {} fds t \<Longrightarrow> k t = Some (r, s') \<Longrightarrow> start_end fds r s'"
  shows "start_end fds r s'"
proof -
  obtain a t where call: "syscall s = Some (a, t)"
    using run by (auto simp: require_def bind_eq_Some_conv)
  have t: "starting {} fds t"
    using starting_syscall [OF s call] by simp
  show ?thesis
    using run call rest [OF t] starting_failed [OF t e] starting_raised [OF t]
    by (cases a) (auto simp: require_def split: if_splits)
qed

definition start_refused :: "sys \<Rightarrow> op_result \<Rightarrow> sys \<Rightarrow> bool" where
  "start_refused s r s' \<longleftrightarrow> quiet s' \<and> pv_desired (sy_sup s') = DRunning
     \<and> sy_children s' = sy_children s \<and> sy_fds s' = sy_fds s
     \<and> (0 < pv_pid (sy_sup s) \<and> r = Done False (sup_id s @ '' is already running'')
          \<and> sy_sup s' = (sy_sup s)\<lparr> pv_desired := DRunning \<rparr>
        \<or> pv_pid (sy_sup s) = -1 \<and> 0 < pv_pgid (sy_sup s')
          \<and> r = Done False (sup_id s @ '' still has an active process group''))"

lemma StartOperation_end:
  assumes q: "quiet s" and run: "StartOperation s = Some (r, s')"
  shows "start_refused s r s' \<or> pv_pid (sy_sup s) = -1 \<and> start_end (mset (sy_fds s)) r s'"
proof -
  let ?s1 = "locked (\<lambda>v. v\<lparr> pv_desired := DRunning \<rparr>) s"
  let ?d = "pv_definition (sy_sup s)"
  have q1: "quiet ?s1"
    by (rule quiet_desired [OF q])
  show ?thesis
  proof (cases "0 < pv_pid (sy_sup s)")
    case True
    then show ?thesis
      using run q1 by (auto simp: StartOperation_def Let_def start_refused_def sup_id_def)
  next
    case notLive: False
    then have pid: "pv_pid (sy_sup s) = -1"
      using q by (intro pv_ok_pid) (simp_all add: quiet_def watched_def sys_ok_def)
    obtain s2 where join: "JoinObserverThread ?s1 = Some s2"
      using run notLive by (auto simp: StartOperation_def Let_def bind_eq_Some_conv)
    have "watched ?s1"
      using q1 by (simp add: quiet_def)
    note joined = Join_quiet [OF this join]
    have rely2: "pv_desired (sy_sup s2) = DRunning" "pv_definition (sy_sup s2) = ?d"
      "pv_state (sy_sup s2) = pv_state (sy_sup s)" "pv_pgid (sy_sup s2) \<in> {pv_pgid (sy_sup s), -1}"
      using sup_relyD [of "sy_sup ?s1" "sy_sup s2"] joined pid by simp_all
    have q2: "quiet s2"
      using joined rely2 q by (auto simp: quiet_def)
    show ?thesis
    proof (cases "0 < pv_pgid (sy_sup s2)")
      case True
      then show ?thesis
        using run notLive join pid joined q2 rely2
        by (auto simp: StartOperation_def Let_def start_refused_def sup_id_def)
    next
      case noGroup: False
      let ?s3 = "transition Starting [] s2"
      have ok2: "sys_ok s2" using joined by (simp add: watched_def)
      then have pgid: "pv_pgid (sy_sup s2) = -1"
        using noGroup by (auto simp: sys_ok_def pv_ok_def)
      have "allowed_edge (pv_state (sy_sup s2)) Starting"
        using ok2 joined by (cases "pv_state (sy_sup s2)") (auto simp: sys_ok_def pv_ok_def)
      then have "sys_ok ?s3"
        unfolding transition_def using pgid joined
        by (intro sys_ok_locked_transition [OF ok2, where st = Starting
              and now = "NowUnixTimeMilliseconds s2" and e = "[]"]) simp_all
      then have s3: "starting {} (mset (sy_fds s)) ?s3"
        using joined pgid rely2 by (simp add: starting_def transition_def watched_def)
      have "start_end (mset (sy_fds s)) r s'"
      proof (cases "valid_ServiceDefinition ?d")
        case False
        then have "start_failed (''invalid service definition: '' @ sd_id ?d) ?s3 = Some (r, s')"
          using run notLive join noGroup by (simp add: StartOperation_def Let_def)
        from starting_failed [OF s3 _ this] show ?thesis by simp
      next
        case True
        then have "require (''service executable does not exist: '' @ sd_executable ?d)
            (require (''service work directory does not exist or is not a directory: '' @ sd_work_dir ?d)
              (require (''service work directory does not exist or is not a directory: '' @ sd_work_dir ?d)
                ForkChild)) ?s3 = Some (r, s')"
          using run notLive join noGroup by (simp add: StartOperation_def Let_def)
        from require_end [OF s3 this _ require_end [OF _ _ _ require_end [OF _ _ _ ForkChild_end]]]
        show ?thesis by simp
      qed
      then show ?thesis
        using pid by simp
    qed
  qed
qed

text \<open>The parts of a stop: signals and waits, during which the observer may run.\<close>

definition calm :: "sys \<Rightarrow> sys \<Rightarrow> bool" where
  "calm s s' \<longleftrightarrow> sup_rely (sy_sup s) (sy_sup s') \<and> sy_children s' = sy_children s \<and> sy_fds s' = sy_fds s"

lemma calm_refl [simp]: "calm s s"
  by (simp add: calm_def)

lemma calm_trans: "calm s t \<Longrightarrow> calm t u \<Longrightarrow> calm s u"
  by (auto simp: calm_def intro: sup_rely_trans)

lemma rely_calm: "rely s s' \<Longrightarrow> calm s s'"
  by (simp add: calm_def rely_def)

lemma watched_signal:
  assumes "watched s" and "- t \<in> set (sy_children s) \<or> t \<in> set (sy_children s)"
    and "g \<in> {SIGTERM, SIGKILL}"
  shows "watched (send_signal t g s)"
  using assms sys_ok_signal [of s t g] by (simp add: watched_def)

lemma SignalProcessTree_watched:
  assumes s: "watched s" and run: "SignalProcessTree pgid pid g s = Some (a, s')"
    and "0 < pgid \<Longrightarrow> pgid \<in> set (sy_children s)" and "0 < pid \<Longrightarrow> pid \<in> set (sy_children s)"
    and g: "g \<in> {SIGTERM, SIGKILL}"
  shows "watched s' \<and> calm s s'"
proof -
  have call: "watched s' \<and> calm s s'"
    if "watched (send_signal t g s)" "syscall (send_signal t g s) = Some (a, s')" for t
    using watched_syscall [OF that] by (simp add: calm_def rely_def)
  show ?thesis
    using run s assms(3,4) call [of "- pgid"] call [of pid] watched_signal [OF s _ g, of "- pgid"]
      watched_signal [OF s _ g, of pid]
    by (auto simp: SignalProcessTree_def split: if_splits)
qed

lemma Wait_watched:
  assumes "watched s" and "WaitForObservedExitAndProcessGroup tp tg deadline s = Some (gone, s')"
    and "pv_pid (sy_sup s) \<in> {tp, -1}" and "pv_pgid (sy_sup s) \<in> {tg, -1}" and "tp \<le> 0 \<Longrightarrow> tp = -1"
  shows "watched s' \<and> calm s s' \<and> (gone \<longrightarrow> pv_pid (sy_sup s') = -1 \<and> pv_pgid (sy_sup s') = -1)"
  using assms
proof (induction tp tg deadline s rule: WaitForObservedExitAndProcessGroup.induct)
  case (1 tp tg deadline s)
  note unfolded = "1.prems"(2) [unfolded WaitForObservedExitAndProcessGroup.simps [of tp tg deadline s]]
  obtain a s1 where call: "syscall s = Some (a, s1)"
    using unfolded by (auto simp: Let_def split: option.splits)
  have w1: "watched s1" and r1: "rely s s1"
    using watched_syscall [OF "1.prems"(1) call] by simp_all
  note sup1 = sup_relyD [OF relyD(4) [OF r1]]
  let ?observed = "tp \<le> 0 \<or> pv_pid (sy_sup s) \<noteq> tp"
  show ?case
  proof (cases "?observed \<and> \<not> group_exists tg a")
    case True
    let ?f = "\<lambda>v. if pv_pgid v = tg then v\<lparr> pv_pgid := -1 \<rparr> else v"
    have s': "gone" "s' = locked ?f s1"
      using unfolded call True by (simp_all add: Let_def)
    have pid: "pv_pid (sy_sup s1) = -1"
      using True "1.prems"(3,5) sup1(3) by auto
    have ok1: "sys_ok s1" using w1 by (simp add: watched_def)
    have "sys_ok (locked ?f s1)"
      using sys_okD(1,2,3) [OF ok1] pid observer_ok_cong [of "?f (sy_sup s1)" "sy_sup s1"]
      by (intro sys_ok_locked ok1) (auto simp: pv_ok_def published_step_def)
    then have w': "watched s'"
      using w1 pid by (simp add: s' watched_def)
    have "sup_rely (sy_sup s1) (?f (sy_sup s1))"
      using pid by (simp add: sup_rely_def)
    then have "calm s1 s'"
      by (simp add: calm_def s')
    moreover have "pv_pgid (?f (sy_sup s1)) = -1"
      using "1.prems"(4) sup1(4) by auto
    ultimately show ?thesis
      using w' pid calm_trans [OF rely_calm [OF r1]] by (simp add: s')
  next
    case notGone: False
    show ?thesis
    proof (cases "deadline \<le> sy_steady_ms s1")
      case True
      then have "\<not> gone" "s' = s1"
        using unfolded call notGone by (simp_all add: Let_def)
      then show ?thesis
        using w1 rely_calm [OF r1] by simp
    next
      case False
      then obtain b s2 where call2: "syscall s1 = Some (b, s2)"
        and loop: "WaitForObservedExitAndProcessGroup tp tg deadline s2 = Some (gone, s')"
        using unfolded call notGone by (auto simp: Let_def split: option.splits)
      have w2: "watched s2" and r2: "rely s s2"
        using watched_syscall [OF w1 call2] rely_trans [OF r1] by simp_all
      have "pv_pid (sy_sup s2) \<in> {tp, -1}" "pv_pgid (sy_sup s2) \<in> {tg, -1}"
        using sup_relyD(3,4) [OF relyD(4) [OF r2]] "1.prems"(3,4) by auto
      from "1.IH" [OF refl call refl notGone False call2 refl w2 loop this "1.prems"(5)]
      show ?thesis
        using calm_trans [OF rely_calm [OF r2]] by blast
    qed
  qed
qed

text \<open>
  A stop that found a child or a group marks the state as stopping; from then on it is stopping
  while the leader lives, and stopped or failed once the observer has seen it go.
\<close>

definition stopping :: "int \<Rightarrow> supervisor \<Rightarrow> bool" where
  "stopping tp v \<longleftrightarrow> (if pv_pid v = tp then pv_state v = Stopping else pv_state v \<in> {Stopped, Failed})"

definition stop_end :: "int \<Rightarrow> op_result \<Rightarrow> sys \<Rightarrow> bool" where
  "stop_end tp r s \<longleftrightarrow> quiet s
     \<and> (case r of
          Done True e \<Rightarrow> e = [] \<and> sy_observer s = ObsNone \<and> pv_pid (sy_sup s) = -1
            \<and> pv_pgid (sy_sup s) = -1
        | Done False e \<Rightarrow> e \<noteq> []
            \<and> (0 < pv_pid (sy_sup s) \<longrightarrow> pv_state (sy_sup s) = Failed \<and> pv_last_error (sy_sup s) = e)
        | Raised _ \<Rightarrow> False)
     \<and> pv_state (sy_sup s) \<in> (if 0 < tp then {Stopped, Failed} else if \<exists>e. r = Done True e then {Stopping} else {Failed})"

lemma stopping_calm:
  assumes "stopping tp (sy_sup s)" and "calm s s'" and "pv_pid (sy_sup s) \<in> {tp, -1}"
  shows "stopping tp (sy_sup s') \<and> pv_pid (sy_sup s') \<in> {tp, -1}"
proof -
  note sup = sup_relyD [of "sy_sup s" "sy_sup s'"]
  have r: "sup_rely (sy_sup s) (sy_sup s')" using assms(2) by (simp add: calm_def)
  show ?thesis
  proof (cases "pv_pid (sy_sup s') = pv_pid (sy_sup s)")
    case True
    then show ?thesis
      using sup(5) [OF r] assms by (auto simp: stopping_def split: if_splits)
  next
    case False
    then have "pv_pid (sy_sup s') = -1" "pv_pid (sy_sup s) = tp" "tp \<noteq> -1"
      using sup(3) [OF r] assms(3) by auto
    moreover have "pv_state (sy_sup s') \<in> {Stopped, Failed}"
      using sup(6) [OF r False] assms(1) calculation by (auto simp: stopping_def ended_states_def)
    ultimately show ?thesis
      by (simp add: stopping_def)
  qed
qed

definition kept :: "sys \<Rightarrow> sys \<Rightarrow> bool" where
  "kept s s' \<longleftrightarrow> sy_children s' = sy_children s \<and> sy_fds s' = sy_fds s
     \<and> pv_desired (sy_sup s') = pv_desired (sy_sup s)"

lemma calm_kept: "calm s s' \<Longrightarrow> kept s s'"
  using sup_relyD(2) by (auto simp: calm_def kept_def)

lemma kept_trans: "kept s t \<Longrightarrow> kept t u \<Longrightarrow> kept s u"
  by (simp add: kept_def)

lemma stopping_edge: "stopping tp v \<Longrightarrow> pv_state v \<in> {Stopping, Stopped, Failed}"
  by (auto simp: stopping_def split: if_splits)

lemma stop_failed_end:
  assumes w: "watched s" and st: "stopping tp (sy_sup s)" and pid: "pv_pid (sy_sup s) \<in> {tp, -1}"
    and tp: "0 < tp \<or> tp = -1" and e: "e \<noteq> []" and run: "stop_failed tp e s = Some (r, s')"
  shows "stop_end tp r s' \<and> kept s s'"
proof -
  obtain t where y: "yield s = Some t" and r: "r = Done False e"
    and s': "s' = locked (\<lambda>v. if pv_pid v = tp then
           TransitionStateLocked (NowUnixTimeMilliseconds t) Failed e v else v) t"
    using run by (auto simp: stop_failed_def bind_eq_Some_conv)
  have wt: "watched t" and rel: "rely s t"
    using watched_yield [OF w y] by simp_all
  have stt: "stopping tp (sy_sup t)" "pv_pid (sy_sup t) \<in> {tp, -1}"
    using stopping_calm [OF st rely_calm [OF rel] pid] by simp_all
  have ok: "sys_ok t" using wt by (simp add: watched_def)
  have ok': "sys_ok s'"
  proof (cases "pv_pid (sy_sup t) = tp")
    case True
    then have "pv_state (sy_sup t) = Stopping"
      using stt(1) by (simp add: stopping_def)
    then show ?thesis
      unfolding s' using True e
      by (intro sys_ok_locked_transition [OF ok, where st = Failed and e = e
            and now = "NowUnixTimeMilliseconds t"]) simp_all
  next
    case False
    then show ?thesis
      unfolding s' by (intro sys_ok_locked_id ok) simp
  qed
  have "watched s'"
    using wt ok' by (simp add: s' watched_def)
  moreover have "pv_state (sy_sup s') \<in> (if 0 < tp then {Stopped, Failed} else {Failed})"
    using stt tp by (auto simp: s' stopping_def)
  ultimately show ?thesis
    using e stt tp relyD [OF rel] sup_relyD(2) [OF relyD(4) [OF rel]]
    by (auto simp: stop_end_def quiet_def r s' kept_def split: if_splits)
qed

lemma stop_joined_end:
  assumes w: "watched s" and st: "stopping tp (sy_sup s)" and pid: "pv_pid (sy_sup s) = -1"
    and pgid: "pv_pgid (sy_sup s) = -1" and tp: "0 < tp \<or> tp = -1"
    and run: "stop_joined s = Some (r, s')"
  shows "stop_end tp r s' \<and> kept s s'"
proof -
  have join: "JoinObserverThread s = Some s'" and r: "r = Done True []"
    using run by (auto simp: stop_joined_def bind_eq_Some_conv)
  note j = Join_quiet [OF w join]
  have sup: "pv_state (sy_sup s') = pv_state (sy_sup s)" "pv_pgid (sy_sup s') = -1"
    "pv_desired (sy_sup s') = pv_desired (sy_sup s)"
    using sup_relyD [of "sy_sup s" "sy_sup s'"] j pid pgid by simp_all
  then show ?thesis
    using j stopping_edge [OF st] st pid tp
    by (auto simp: stop_end_def quiet_def r kept_def stopping_def split: if_splits)
qed

text \<open>The first critical section, when there is something to stop and when there is nothing.\<close>

lemma stop_section_live:
  "0 < pv_pid v \<or> 0 < pv_pgid v \<Longrightarrow>
   stop_section d now v = TransitionStateLocked now Stopping [] (v\<lparr> pv_desired := d \<rparr>)"
  by (auto simp: stop_section_def Let_def)

lemma stop_section_idle:
  "pv_pid v = -1 \<Longrightarrow> pv_pgid v = -1 \<Longrightarrow> stop_section d now v =
   (if d = DStopped \<and> pv_state v \<noteq> Stopped
    then TransitionStateLocked now Stopped [] (v\<lparr> pv_desired := d \<rparr>) else v\<lparr> pv_desired := d \<rparr>)"
  by (simp add: stop_section_def Let_def)

lemma mark_stopping:
  fixes d :: DesiredState and s :: sys
  assumes q: "quiet s" and live: "0 < pv_pid (sy_sup s) \<or> 0 < pv_pgid (sy_sup s)"
  defines "s1 \<equiv> locked (stop_section d (NowUnixTimeMilliseconds s)) s"
  shows "watched s1 \<and> stopping (pv_pid (sy_sup s)) (sy_sup s1)"
proof -
  note f = stop_section_live [OF live]
  have ok: "sys_ok s" using q by (simp add: quiet_def watched_def)
  have "pv_state (sy_sup s) \<noteq> Starting"
    using q live by (auto simp: quiet_def)
  then have edge: "allowed_edge (pv_state (sy_sup s)) Stopping"
    by (cases "pv_state (sy_sup s)") simp_all
  have pv: "pv_ok (stop_section d (NowUnixTimeMilliseconds s) (sy_sup s))"
    unfolding f using sys_okD(1) [OF ok] by (auto simp: pv_ok_def)
  have step: "published_step (sy_sup s) (stop_section d (NowUnixTimeMilliseconds s) (sy_sup s))"
    unfolding f using edge by (simp add: published_step_def)
  have "sys_ok s1"
    unfolding s1_def
    using pv step sys_okD(2,3) [OF ok]
      observer_ok_cong [of "stop_section d (NowUnixTimeMilliseconds s) (sy_sup s)" "sy_sup s"]
    by (intro sys_ok_locked ok) (simp_all add: f)
  then show ?thesis
    using q by (simp add: quiet_def watched_def stopping_def s1_def f)
qed

lemma mark_idle:
  assumes q: "quiet s" and idle: "pv_pid (sy_sup s) = -1" "pv_pgid (sy_sup s) = -1"
  shows "watched (locked (stop_section d (NowUnixTimeMilliseconds s)) s)"
proof -
  note f = stop_section_idle [OF idle]
  let ?w = "stop_section d (NowUnixTimeMilliseconds s) (sy_sup s)"
  have ok: "sys_ok s" using q by (simp add: quiet_def watched_def)
  have "pv_state (sy_sup s) \<noteq> Running"
    using sys_okD(1) [OF ok] idle by (auto simp: pv_ok_def)
  then have edge: "allowed_edge (pv_state (sy_sup s)) Stopped"
    by (cases "pv_state (sy_sup s)") simp_all
  have w: "pv_pid ?w = -1" "pv_pgid ?w = -1"
    unfolding f using idle by simp_all
  have "pv_ok ?w"
    unfolding f using sys_okD(1) [OF ok] idle by (auto simp: pv_ok_def)
  moreover have "published_step (sy_sup s) ?w"
    unfolding f using edge by (simp add: published_step_def)
  ultimately have "sys_ok (locked (stop_section d (NowUnixTimeMilliseconds s)) s)"
    using sys_okD(2) [OF ok] observer_ok_cong [of ?w "sy_sup s"] w idle
    by (intro sys_ok_locked ok) simp_all
  then show ?thesis
    using q w idle by (simp add: quiet_def watched_def)
qed

lemma stop_idle:
  assumes q: "quiet s" and idle: "pv_pid (sy_sup s) = -1" "pv_pgid (sy_sup s) = -1"
    and run: "StopOperation d s = Some (r, s')"
  shows "r = Done True [] \<and> quiet s' \<and> sy_observer s' = ObsNone
    \<and> pv_pid (sy_sup s') = -1 \<and> pv_pgid (sy_sup s') = -1 \<and> pv_desired (sy_sup s') = d
    \<and> sy_children s' = sy_children s \<and> sy_fds s' = sy_fds s
    \<and> pv_state (sy_sup s') = (if d = DStopped then Stopped else pv_state (sy_sup s))"
proof -
  let ?s1 = "locked (stop_section d (NowUnixTimeMilliseconds s)) s"
  have w: "watched ?s1"
    by (rule mark_idle [OF q idle])
  have sup1: "pv_pid (sy_sup ?s1) = -1" "pv_pgid (sy_sup ?s1) = -1" "pv_desired (sy_sup ?s1) = d"
    "pv_state (sy_sup ?s1) = (if d = DStopped then Stopped else pv_state (sy_sup s))"
    using idle by (auto simp: stop_section_idle [OF idle])
  have "stop_joined ?s1 = Some (r, s')"
    using run idle by (simp add: StopOperation_def Let_def)
  then have j: "JoinObserverThread ?s1 = Some s'" and r: "r = Done True []"
    by (auto simp: stop_joined_def bind_eq_Some_conv)
  note fin = Join_quiet [OF w j]
  have "pv_state (sy_sup s') = pv_state (sy_sup ?s1)" "pv_desired (sy_sup s') = d" "pv_pgid (sy_sup s') = -1"
    using sup_relyD [of "sy_sup ?s1" "sy_sup s'"] fin sup1 by simp_all
  then show ?thesis
    using fin r sup1(4) by (simp add: quiet_def)
qed

definition target_state :: "int \<Rightarrow> int \<Rightarrow> sys \<Rightarrow> bool" where
  "target_state tp tg s \<longleftrightarrow> watched s \<and> stopping tp (sy_sup s) \<and> pv_pid (sy_sup s) \<in> {tp, -1}
     \<and> pv_pgid (sy_sup s) \<in> {tg, -1} \<and> (0 < tg \<longrightarrow> tg \<in> set (sy_children s))
     \<and> (0 < tp \<longrightarrow> tp \<in> set (sy_children s))"

lemma target_state_calm:
  assumes "target_state tp tg s" and "watched s'" and "calm s s'"
  shows "target_state tp tg s'"
proof -
  have "pv_pgid (sy_sup s') \<in> {pv_pgid (sy_sup s), -1}" "sy_children s' = sy_children s"
    using assms(3) sup_relyD(4) by (simp_all add: calm_def)
  then show ?thesis
    using assms(1,2) stopping_calm [OF _ assms(3)] unfolding target_state_def by auto
qed

lemma target_state_signal:
  assumes "target_state tp tg s" and "SignalProcessTree tg tp g s = Some (a, s')" and "g \<in> {SIGTERM, SIGKILL}"
  shows "target_state tp tg s' \<and> kept s s'"
proof -
  have "watched s' \<and> calm s s'"
    by (rule SignalProcessTree_watched [OF _ assms(2) _ _ assms(3)])
      (use assms(1) in \<open>simp_all add: target_state_def\<close>)
  then show ?thesis
    using target_state_calm [OF assms(1)] calm_kept by blast
qed

lemma target_state_wait:
  assumes "target_state tp tg s" and "tp \<le> 0 \<Longrightarrow> tp = -1"
    and "WaitForObservedExitAndProcessGroup tp tg deadline s = Some (gone, s')"
  shows "target_state tp tg s' \<and> kept s s'
    \<and> (gone \<longrightarrow> pv_pid (sy_sup s') = -1 \<and> pv_pgid (sy_sup s') = -1)"
proof -
  have "watched s' \<and> calm s s' \<and> (gone \<longrightarrow> pv_pid (sy_sup s') = -1 \<and> pv_pgid (sy_sup s') = -1)"
    by (rule Wait_watched [OF _ assms(3) _ _ assms(2)])
      (use assms(1) in \<open>simp_all add: target_state_def\<close>)
  then show ?thesis
    using target_state_calm [OF assms(1)] calm_kept by blast
qed

lemma target_state_failed:
  "target_state tp tg s \<Longrightarrow> 0 < tp \<or> tp = -1 \<Longrightarrow> e \<noteq> [] \<Longrightarrow> stop_failed tp e s = Some (r, s') \<Longrightarrow>
   stop_end tp r s' \<and> kept s s'"
  unfolding target_state_def using stop_failed_end by blast

lemma target_state_joined:
  "target_state tp tg s \<Longrightarrow> 0 < tp \<or> tp = -1 \<Longrightarrow> pv_pid (sy_sup s) = -1 \<Longrightarrow> pv_pgid (sy_sup s) = -1 \<Longrightarrow>
   stop_joined s = Some (r, s') \<Longrightarrow> stop_end tp r s' \<and> kept s s'"
  unfolding target_state_def using stop_joined_end by blast

lemma StopProcessTree_end:
  assumes t: "target_state tp tg s" and tp: "0 < tp \<or> tp = -1"
    and run: "StopProcessTree tp tg s = Some (r, s')"
  shows "stop_end tp r s' \<and> kept s s'"
proof -
  have tp': "tp \<le> 0 \<Longrightarrow> tp = -1" using tp by simp
  obtain a s1 where sigterm: "SignalProcessTree tg tp SIGTERM s = Some (a, s1)"
    using run by (auto simp: StopProcessTree_def bind_eq_Some_conv)
  have t1: "target_state tp tg s1" and k1: "kept s s1"
    using target_state_signal [OF t sigterm] by simp_all
  show ?thesis
  proof (cases "ret_of a \<noteq> 0 \<and> errno_of a \<noteq> ESRCH")
    case True
    then have "stop_failed tp (''SIGTERM process tree failed: '' @ sy_strerror s1 (errno_of a)) s1 = Some (r, s')"
      using run sigterm by (simp add: StopProcessTree_def)
    from target_state_failed [OF t1 tp _ this] show ?thesis
      using kept_trans [OF k1] by simp
  next
    case ok1: False
    then obtain g1 s2 where wait1: "WaitForObservedExitAndProcessGroup tp tg
        (sy_steady_ms s1 + kGracefulStopTimeout) s1 = Some (g1, s2)"
      using run sigterm by (auto simp: StopProcessTree_def bind_eq_Some_conv)
    note w2 = target_state_wait [OF t1 tp' wait1]
    have t2: "target_state tp tg s2" and k2: "kept s s2"
      using w2 kept_trans [OF k1] by simp_all
    show ?thesis
    proof (cases g1)
      case True
      then have "stop_joined s2 = Some (r, s')"
        using run sigterm ok1 wait1 by (simp add: StopProcessTree_def)
      from target_state_joined [OF t2 tp _ _ this] show ?thesis
        using w2 True kept_trans [OF k2] by simp
    next
      case notGone: False
      then obtain b s3 where kill: "SignalProcessTree tg tp SIGKILL s2 = Some (b, s3)"
        using run sigterm ok1 wait1 by (auto simp: StopProcessTree_def bind_eq_Some_conv)
      have t3: "target_state tp tg s3" and k3: "kept s s3"
        using target_state_signal [OF t2 kill] kept_trans [OF k2] by simp_all
      show ?thesis
      proof (cases "ret_of b \<noteq> 0 \<and> errno_of b \<noteq> ESRCH")
        case True
        then have "stop_failed tp (''SIGKILL process tree failed: '' @ sy_strerror s3 (errno_of b)) s3 = Some (r, s')"
          using run sigterm ok1 wait1 notGone kill by (simp add: StopProcessTree_def)
        from target_state_failed [OF t3 tp _ this] show ?thesis
          using kept_trans [OF k3] by simp
      next
        case ok2: False
        then obtain g2 s4 where wait2: "WaitForObservedExitAndProcessGroup tp tg
            (sy_steady_ms s3 + kForcedStopTimeout) s3 = Some (g2, s4)"
          using run sigterm ok1 wait1 notGone kill by (auto simp: StopProcessTree_def bind_eq_Some_conv)
        note w4 = target_state_wait [OF t3 tp' wait2]
        have t4: "target_state tp tg s4" and k4: "kept s s4"
          using w4 kept_trans [OF k3] by simp_all
        have "(if g2 then stop_joined s4 else stop_failed tp
            (''timed out waiting for service to exit after SIGKILL: '' @ sup_id s4) s4) = Some (r, s')"
          using run sigterm ok1 wait1 notGone kill ok2 wait2 by (simp add: StopProcessTree_def)
        then show ?thesis
          using target_state_joined [OF t4 tp, of r s'] w4 kept_trans [OF k4]
            target_state_failed [OF t4 tp, of "''timed out waiting for service to exit after SIGKILL: '' @ sup_id s4" r s']
          by (cases g2) simp_all
      qed
    qed
  qed
qed

lemma stop_active:
  assumes q: "quiet s" and live: "0 < pv_pid (sy_sup s) \<or> 0 < pv_pgid (sy_sup s)"
    and run: "StopOperation d s = Some (r, s')"
  shows "stop_end (pv_pid (sy_sup s)) r s' \<and> sy_children s' = sy_children s \<and> sy_fds s' = sy_fds s
    \<and> pv_desired (sy_sup s') = d"
proof -
  let ?s1 = "locked (stop_section d (NowUnixTimeMilliseconds s)) s"
  let ?tp = "pv_pid (sy_sup s)" and ?tg = "pv_pgid (sy_sup s)"
  have ok: "sys_ok s" using q by (simp add: quiet_def watched_def)
  have "StopProcessTree ?tp ?tg ?s1 = Some (r, s')"
    using run live by (auto simp: StopOperation_def Let_def split: if_splits)
  moreover have "target_state ?tp ?tg ?s1"
    using mark_stopping [OF q live, of d] sys_okD(3,4) [OF ok]
    by (simp add: target_state_def stop_section_live [OF live])
  moreover have "0 < ?tp \<or> ?tp = -1"
    using sys_okD(1) [OF ok] by (auto simp: pv_ok_def)
  ultimately have "stop_end ?tp r s' \<and> kept ?s1 s'"
    using StopProcessTree_end by blast
  then show ?thesis
    by (simp add: kept_def stop_section_live [OF live])
qed

end
