(* ===== verification/SupervisorSpec.thy ===== *)
theory SupervisorSpec
  imports SupervisorInv
begin

text \<open>
  The contract of \<open>ProcessSupervisor\<close>, over every system its operations and its observer can reach
  from the constructor, whatever the operating system answers and however the two threads
  interleave: what \<open>GetStatus\<close> can see, which transitions the state makes, that there is one child
  at most, where signals go, how each operation ends, and that no descriptor is lost.
\<close>

section \<open>Reachable systems\<close>

definition initial_sys :: "supervisor \<Rightarrow> (int \<Rightarrow> string) \<Rightarrow> int \<Rightarrow> int list \<Rightarrow> sys" where
  "initial_sys v strerror steady fds = \<lparr> sy_sup = v, sy_observer = ObsNone, sy_steady_ms = steady,
     sy_wall_ms = pv_last_transition v, sy_script = [], sy_strerror = strerror, sy_fds = fds,
     sy_log = [v], sy_signals = [], sy_children = [], sy_unreaped = {} \<rparr>"

text \<open>
  Between operations the observer and the clocks go on (\<open>event\<close>); before an operation the
  environment fixes what will happen during it (\<open>script\<close>). A restart whose stop failed and a start
  that raised leave a system like any other.
\<close>

inductive reachable :: "(string \<Rightarrow> string) \<Rightarrow> ServiceDefinition \<Rightarrow> sys \<Rightarrow> bool"
  for absolute :: "string \<Rightarrow> string" and d :: ServiceDefinition where
  init: "reachable absolute d (initial_sys (new_supervisor absolute now d) strerror steady fds)"
| event: "reachable absolute d s \<Longrightarrow> reachable absolute d (apply_event e s)"
| script: "reachable absolute d s \<Longrightarrow> reachable absolute d (s\<lparr> sy_script := items \<rparr>)"
| start: "reachable absolute d s \<Longrightarrow> Start s = Some (r, s') \<Longrightarrow> reachable absolute d s'"
| stop: "reachable absolute d s \<Longrightarrow> Stop s = Some (r, s') \<Longrightarrow> reachable absolute d s'"
| restart: "reachable absolute d s \<Longrightarrow> Restart s = Some (r, s') \<Longrightarrow> reachable absolute d s'"
| desired: "reachable absolute d s \<Longrightarrow> reachable absolute d (SetDesiredState x s)"

lemma initial_quiet: "quiet (initial_sys (new_supervisor absolute now d) strerror steady fds)"
  by (simp add: quiet_def watched_def sys_ok_def initial_sys_def new_supervisor_def pv_ok_def
      exit_info_ok_def known_targets_def)

lemma quiet_script [simp]: "quiet (s\<lparr> sy_script := items \<rparr>) = quiet s"
  by (simp add: quiet_def watched_def)

lemma Start_quiet: "quiet s \<Longrightarrow> Start s = Some (r, s') \<Longrightarrow> quiet s'"
  using StartOperation_end by (auto simp: Start_def start_refused_def start_end_def)

lemma StopOperation_quiet:
  assumes "quiet s" and "StopOperation x s = Some (r, s')"
  shows "quiet s' \<and> pv_desired (sy_sup s') = x"
proof (cases "0 < pv_pid (sy_sup s) \<or> 0 < pv_pgid (sy_sup s)")
  case True
  then show ?thesis
    using stop_active [OF assms(1) True assms(2)] by (simp add: stop_end_def)
next
  case False
  then have "pv_pid (sy_sup s) = -1" "pv_pgid (sy_sup s) = -1"
    using assms(1) by (auto simp: quiet_def watched_def sys_ok_def pv_ok_def)
  from stop_idle [OF assms(1) this assms(2)] show ?thesis by simp
qed

text \<open>A restart is a stop that keeps the service desired, then a start.\<close>

lemma Restart_steps:
  assumes "Restart s = Some (r, s')"
  obtains r1 s1 where
    "StopOperation DRunning (locked (\<lambda>v. v\<lparr> pv_desired := DRunning \<rparr>) s) = Some (r1, s1)"
    "if r1 = Done True [] then StartOperation s1 = Some (r, s') else r1 = r \<and> s1 = s'"
proof -
  obtain r1 s1 where stop:
    "StopOperation DRunning (locked (\<lambda>v. v\<lparr> pv_desired := DRunning \<rparr>) s) = Some (r1, s1)"
    using assms by (auto simp: Restart_def bind_eq_Some_conv)
  have "if r1 = Done True [] then StartOperation s1 = Some (r, s') else r1 = r \<and> s1 = s'"
    using assms stop by (auto simp: Restart_def)
  with stop show thesis by (rule that)
qed

lemma Restart_quiet:
  assumes "quiet s" and "Restart s = Some (r, s')"
  shows "quiet s'"
proof -
  obtain r1 s1 where
    stop: "StopOperation DRunning (locked (\<lambda>v. v\<lparr> pv_desired := DRunning \<rparr>) s) = Some (r1, s1)"
    and rest: "if r1 = Done True [] then StartOperation s1 = Some (r, s') else r1 = r \<and> s1 = s'"
    using Restart_steps [OF assms(2)] .
  have q1: "quiet s1"
    using StopOperation_quiet [OF quiet_desired [OF assms(1)] stop] by simp
  show ?thesis
  proof (cases "r1 = Done True []")
    case True
    then have "Start s1 = Some (r, s')"
      using rest by (simp add: Start_def)
    then show ?thesis by (rule Start_quiet [OF q1])
  next
    case False
    then show ?thesis using rest q1 by simp
  qed
qed

lemma reachable_quiet: "reachable absolute d s \<Longrightarrow> quiet s"
proof (induction rule: reachable.induct)
  case (restart s r s')
  then show ?case by (blast intro: Restart_quiet)
next
  case (stop s r s')
  then show ?case using StopOperation_quiet by (simp add: Stop_def)
next
  case (start s r s')
  then show ?case by (blast intro: Start_quiet)
qed (simp_all add: initial_quiet quiet_event quiet_desired SetDesiredState_def)

section \<open>What can be observed\<close>

text \<open>
  C1. Every state the supervisor ever publishes, during operations too, is consistent: a process id
  is positive or -1, a live child leads its own group and has a start time, \<open>Running\<close> implies a live
  child and \<open>Stopped\<close> and \<open>Exited\<close> none, an error text goes with \<open>Failed\<close> only, and the exit kind,
  code and signal agree.
\<close>

theorem published_states_ok:
  assumes "reachable absolute d s" and "v \<in> set (sy_log s)"
  shows "pv_ok v"
  using reachable_quiet [OF assms(1)] assms(2) by (simp add: quiet_def watched_def sys_ok_def)

text \<open>
  C3. The published states follow the state machine: a state goes to itself or along the edges of
  the table, \<open>Running\<close> is entered from \<open>Starting\<close> only, \<open>Starting\<close> only with no child and no process
  group left, and a stop that was requested never ends as an unexpected exit. The last state
  published is the one \<open>GetStatus\<close> reports, for the definition the supervisor was created with.
\<close>

theorem published_state_machine:
  assumes "reachable absolute d s"
  shows "successively published_step (sy_log s) \<and> sy_log s \<noteq> []
    \<and> st_state (GetStatus s) = pv_state (last (sy_log s))
    \<and> st_pid (GetStatus s) = pv_pid (last (sy_log s))"
  using reachable_quiet [OF assms] by (simp add: quiet_def watched_def sys_ok_def GetStatus_def Let_def)

text \<open>
  C11. One child at most: between operations the children not collected yet are the published one,
  and none when there is no process id; a live child is watched by the observer. Signals only ever
  go to a child the agent forked or to its group, and are \<open>SIGTERM\<close> or \<open>SIGKILL\<close>.
\<close>

theorem one_child_own_signals:
  assumes "reachable absolute d s"
  shows "sy_unreaped s = (if 0 < st_pid (GetStatus s) then {st_pid (GetStatus s)} else {})
    \<and> (0 < st_pid (GetStatus s) \<longrightarrow>
        sy_observer s = ObsWaiting (st_pid (GetStatus s)) (st_pid (GetStatus s)))
    \<and> known_targets (sy_children s) (sy_signals s) \<and> (\<forall>c \<in> set (sy_children s). 0 < c)"
  using reachable_quiet [OF assms] by (simp add: quiet_def watched_def sys_ok_def GetStatus_def Let_def)

section \<open>How operations end\<close>

text \<open>
  C23. \<open>Start\<close> on a reachable system either refuses, leaving the child alone and forking nothing,
  because a child lives or its process group does; or starts over no child, and then ends with the
  new child running (or already gone again and recorded as such), or fails with the error it
  reports published and no child left, or is left by an exception of the file system library with
  the state still \<open>Starting\<close>. In each case every descriptor it opened is closed.
\<close>

theorem Start_outcome:
  assumes "reachable absolute d s" and "Start s = Some (r, s')"
  shows "start_refused s r s' \<or> pv_pid (sy_sup s) = -1 \<and> start_end (mset (sy_fds s)) r s'"
  using StartOperation_end [OF reachable_quiet [OF assms(1)]] assms(2) by (simp add: Start_def)

lemma Stop_ends:
  assumes "reachable absolute d s" and "Stop s = Some (r, s')"
  shows "st_desired_state (GetStatus s') = DStopped \<and> sy_children s' = sy_children s
    \<and> (case r of
         Done True e \<Rightarrow> e = [] \<and> st_pid (GetStatus s') = -1 \<and> st_process_group_id (GetStatus s') = -1
           \<and> sy_observer s' = ObsNone
       | Done False e \<Rightarrow> e \<noteq> []
           \<and> (0 < st_pid (GetStatus s') \<longrightarrow> st_state (GetStatus s') = Failed \<and> st_last_error (GetStatus s') = e)
       | Raised _ \<Rightarrow> False)"
proof (cases "0 < pv_pid (sy_sup s) \<or> 0 < pv_pgid (sy_sup s)")
  case True
  have "stop_end (pv_pid (sy_sup s)) r s' \<and> sy_children s' = sy_children s \<and> pv_desired (sy_sup s') = DStopped"
    using stop_active [OF reachable_quiet [OF assms(1)] True] assms(2) by (simp add: Stop_def)
  then show ?thesis
    by (cases r) (auto simp: stop_end_def GetStatus_def Let_def split: bool.splits)
next
  case False
  then have idle: "pv_pid (sy_sup s) = -1" "pv_pgid (sy_sup s) = -1"
    using reachable_quiet [OF assms(1)] by (auto simp: quiet_def watched_def sys_ok_def pv_ok_def)
  have "StopOperation DStopped s = Some (r, s')"
    using assms(2) by (simp add: Stop_def)
  from stop_idle [OF reachable_quiet [OF assms(1)] idle this] show ?thesis
    by (simp add: GetStatus_def Let_def)
qed

text \<open>
  C25. \<open>Stop\<close> on a reachable system leaves the service desired stopped and forks nothing. When it
  answers true there is no child, no known process group and no observer thread; when it answers
  false it gives a reason, and a child that is still there is marked failed with that reason.
\<close>

theorem Stop_outcome:
  assumes "reachable absolute d s" and "Stop s = Some (r, s')"
  shows "st_desired_state (GetStatus s') = DStopped \<and> sy_children s' = sy_children s
    \<and> (case r of
         Done True e \<Rightarrow> e = [] \<and> st_pid (GetStatus s') = -1 \<and> st_process_group_id (GetStatus s') = -1
           \<and> sy_observer s' = ObsNone
       | Done False e \<Rightarrow> e \<noteq> []
           \<and> (0 < st_pid (GetStatus s') \<longrightarrow> st_state (GetStatus s') = Failed \<and> st_last_error (GetStatus s') = e)
       | Raised _ \<Rightarrow> False)"
  using Stop_ends [OF assms] .

text \<open>
  C36. A stop of a live child that succeeds ends in \<open>Stopped\<close>, or in \<open>Failed\<close> when \<open>waitpid\<close> failed.
  A stop of a process group whose leader is gone ends in \<open>Stopping\<close> when it succeeds: no thread is
  left that would move the state on.
\<close>

theorem Stop_final_state:
  assumes "reachable absolute d s" and "Stop s = Some (Done True [], s')"
  shows "st_state (GetStatus s') \<in>
    (if 0 < st_pid (GetStatus s) then {Stopped, Failed}
     else if 0 < st_process_group_id (GetStatus s) then {Stopping}
     else {Stopped})"
proof (cases "0 < pv_pid (sy_sup s) \<or> 0 < pv_pgid (sy_sup s)")
  case True
  have "stop_end (pv_pid (sy_sup s)) (Done True []) s'"
    using stop_active [OF reachable_quiet [OF assms(1)] True] assms(2) by (simp add: Stop_def)
  then show ?thesis
    using True by (auto simp: stop_end_def GetStatus_def Let_def split: if_splits)
next
  case False
  then have idle: "pv_pid (sy_sup s) = -1" "pv_pgid (sy_sup s) = -1"
    using reachable_quiet [OF assms(1)] by (auto simp: quiet_def watched_def sys_ok_def pv_ok_def)
  from stop_idle [OF reachable_quiet [OF assms(1)] this] assms(2) show ?thesis
    using idle by (simp add: Stop_def GetStatus_def Let_def)
qed

text \<open>
  A restart leaves the service desired running, however it ends: with a running child (or one
  that is gone again and recorded as such) when it answers true, with a reason when it answers
  false; only the exception of the file system library leaves the state \<open>Starting\<close>.
\<close>

theorem Restart_outcome:
  assumes "reachable absolute d s" and "Restart s = Some (r, s')"
  shows "st_desired_state (GetStatus s') = DRunning
    \<and> (case r of
         Done True e \<Rightarrow> e = [] \<and> (0 < st_pid (GetStatus s') \<and> st_state (GetStatus s') = Running
           \<or> st_pid (GetStatus s') = -1 \<and> st_state (GetStatus s') \<in> {Exited, Failed})
       | Done False e \<Rightarrow> e \<noteq> []
       | Raised _ \<Rightarrow> st_pid (GetStatus s') = -1 \<and> st_state (GetStatus s') = Starting)"
proof -
  let ?s0 = "locked (\<lambda>v. v\<lparr> pv_desired := DRunning \<rparr>) s"
  have q0: "quiet ?s0"
    by (rule quiet_desired [OF reachable_quiet [OF assms(1)]])
  obtain r1 s1 where stop: "StopOperation DRunning ?s0 = Some (r1, s1)"
    and rest: "if r1 = Done True [] then StartOperation s1 = Some (r, s') else r1 = r \<and> s1 = s'"
    using Restart_steps [OF assms(2)] .
  have stopped: "pv_desired (sy_sup s1) = DRunning \<and> quiet s1
      \<and> (case r1 of Done True e \<Rightarrow> e = [] \<and> pv_pid (sy_sup s1) = -1 \<and> pv_pgid (sy_sup s1) = -1
            \<and> sy_observer s1 = ObsNone
         | Done False e \<Rightarrow> e \<noteq> [] | Raised _ \<Rightarrow> False)"
  proof (cases "0 < pv_pid (sy_sup ?s0) \<or> 0 < pv_pgid (sy_sup ?s0)")
    case True
    from stop_active [OF q0 True stop] show ?thesis
      by (cases r1) (auto simp: stop_end_def split: bool.splits)
  next
    case False
    then have "pv_pid (sy_sup ?s0) = -1" "pv_pgid (sy_sup ?s0) = -1"
      using q0 by (auto simp: quiet_def watched_def sys_ok_def pv_ok_def)
    from stop_idle [OF q0 this stop] show ?thesis by simp
  qed
  show ?thesis
  proof (cases "r1 = Done True []")
    case True
    then have run: "StartOperation s1 = Some (r, s')" and s1: "pv_pid (sy_sup s1) = -1"
      "pv_pgid (sy_sup s1) = -1" "sy_observer s1 = ObsNone" "quiet s1"
      using rest stopped by simp_all
    from StartOperation_end [OF s1(4) run] show ?thesis
      by (cases r) (auto simp: start_refused_def start_end_def GetStatus_def Let_def split: bool.splits)
  next
    case False
    then show ?thesis
      using rest stopped by (cases r) (auto simp: GetStatus_def Let_def split: bool.splits)
  qed
qed

section \<open>The confirmation protocol\<close>

lemma le_bytes_expand:
  "le_bytes i = [word_of_int i, word_of_int (i div 256), word_of_int (i div 65536),
     word_of_int (i div 16777216)]"
  by (simp add: le_bytes_def upt_rec)

lemma length_le_bytes [simp]: "length (le_bytes i) = 4"
  by (simp add: le_bytes_def)

lemma base_256:
  "i mod 256 + 256 * (i div 256 mod 256 + 256 * (i div 65536 mod 256 + 256 * (i div 16777216 mod 256)))
    = i mod (4294967296 :: int)"
proof -
  define a b c e where "a = i div 256" and "b = a div 256" and "c = b div 256" and "e = c div 256"
  have "i div 65536 = b" "i div 16777216 = c" "i div 4294967296 = e"
    unfolding a_def b_def c_def e_def by (simp_all add: zdiv_zmult2_eq [symmetric])
  moreover have "i mod 256 = i - 256 * a" "a mod 256 = a - 256 * b" "b mod 256 = b - 256 * c"
    "c mod 256 = c - 256 * e"
    unfolding a_def b_def c_def e_def by (rule minus_mult_div_eq_mod [symmetric])+
  moreover have "i mod 4294967296 = i - 4294967296 * (i div 4294967296)"
    by (rule minus_mult_div_eq_mod [symmetric])
  ultimately show ?thesis
    by (simp flip: a_def)
qed

lemma int_of_le_bytes_le_bytes:
  assumes "- 2147483648 \<le> i" and "i < 2147483648"
  shows "int_of_le_bytes (le_bytes i) = i"
proof -
  have "foldr (\<lambda>b v. uint b + 256 * v) (le_bytes i) 0 = i mod 4294967296"
    unfolding base_256 [of i, symmetric]
    by (simp add: le_bytes_expand unsigned_of_int take_bit_eq_mod del: mod_mod_trivial)
  moreover have "i mod 4294967296 = (if 0 \<le> i then i else i + 4294967296)"
  proof (cases "0 \<le> i")
    case True
    then show ?thesis
      using assms(2) by (simp add: mod_pos_pos_trivial)
  next
    case False
    have "i mod 4294967296 = (i + 4294967296) mod 4294967296"
      by (rule mod_add_self2 [symmetric])
    also have "\<dots> = i + 4294967296"
      using False assms(1) by (intro mod_pos_pos_trivial) linarith+
    finally show ?thesis
      using False by simp
  qed
  ultimately show ?thesis
    using assms by (simp add: int_of_le_bytes_def)
qed

lemma report_prefix: "\<exists>n. ReportChildStartErrorAndExit data as = take n data"
proof (induction data as rule: ReportChildStartErrorAndExit.induct)
  case (2 data a as)
  show ?case
  proof (cases "data \<noteq> [] \<and> 0 < ret_of a")
    case True
    then obtain n where "ReportChildStartErrorAndExit (drop (nat (ret_of a)) data) as
        = take n (drop (nat (ret_of a)) data)"
      using 2 by blast
    then show ?thesis
      using True by (auto simp: take_add [symmetric] intro!: exI)
  next
    case False
    then show ?thesis
      using 2 by (auto intro: exI [of _ 0])
  qed
qed (simp add: exI [of _ 0])

definition confirm_script :: "u8 list list \<Rightarrow> (event list \<times> answer) list" where
  "confirm_script chunks = concat (map (\<lambda>b. [([], Ret 1), ([], Data b)]) chunks)"

lemma confirm_chunks:
  assumes "bytes @ concat chunks = msg" and "length msg = 8" and "length bytes < 8"
    and "[] \<notin> set chunks" and "sy_script s = confirm_script chunks @ rest"
    and "sy_steady_ms s < deadline"
  shows "\<exists>s'. WaitForExecConfirmation deadline bytes s = Some ((ExecChildFailed, msg, 0), s')"
  using assms
proof (induction chunks arbitrary: bytes s)
  case (Cons b chunks)
  let ?s1 = "s\<lparr> sy_script := ([], Data b) # confirm_script chunks @ rest \<rparr>"
  let ?s2 = "s\<lparr> sy_script := confirm_script chunks @ rest \<rparr>"
  have b: "b \<noteq> []" "length bytes + length b \<le> 8"
    using Cons.prems by auto
  have calls: "syscall s = Some (Ret 1, ?s1)" "syscall ?s1 = Some (Data b, ?s2)"
    using Cons.prems(5) by (simp_all add: syscall_def confirm_script_def)
  have round: "WaitForExecConfirmation deadline bytes s =
      (if length (bytes @ b) = 8 then Some ((ExecChildFailed, bytes @ b, 0), ?s2)
       else WaitForExecConfirmation deadline (bytes @ b) ?s2)"
    using Cons.prems(6) b calls by (subst WaitForExecConfirmation.simps) (simp add: Let_def)
  show ?case
  proof (cases "length (bytes @ b) = 8")
    case True
    then have "bytes @ b = msg"
      using Cons.prems(1,2) by (simp flip: append_assoc) (metis append_eq_append_conv append.right_neutral length_append)
    then show ?thesis
      using round True by simp
  next
    case False
    then have "\<exists>s'. WaitForExecConfirmation deadline (bytes @ b) ?s2 = Some ((ExecChildFailed, msg, 0), s')"
      using Cons.prems b by (intro Cons.IH) auto
    then show ?thesis
      using round False by simp
  qed
qed simp

text \<open>
  C35. Whatever partial writes and interruptions the child meets and in whatever pieces the pipe
  delivers them, when all eight bytes of its error message get through before the deadline the
  agent decodes the stage and the error number the child reported.
\<close>

theorem exec_error_roundtrip:
  assumes "concat chunks = ReportChildStartErrorAndExit (child_error_message stage e) answers"
    and "length (concat chunks) = 8" and "[] \<notin> set chunks"
    and "sy_script s = confirm_script chunks @ rest" and "sy_steady_ms s < deadline"
    and "- 2147483648 \<le> e" and "e < 2147483648"
  shows "(\<exists>message s'. WaitForExecConfirmation deadline [] s = Some ((ExecChildFailed, message, 0), s')
    \<and> int_of_le_bytes (take 4 message) = stage_number stage
    \<and> int_of_le_bytes (drop 4 message) = e)"
proof -
  have "concat chunks = child_error_message stage e"
    using report_prefix [of "child_error_message stage e" answers] assms(1,2)
    by (auto simp: child_error_message_def)
  then have "\<exists>s'. WaitForExecConfirmation deadline [] s
      = Some ((ExecChildFailed, child_error_message stage e, 0), s')"
    using assms(2-5) by (intro confirm_chunks) simp_all
  moreover have "int_of_le_bytes (le_bytes (stage_number stage)) = stage_number stage"
    by (rule int_of_le_bytes_le_bytes) (cases stage; simp)+
  ultimately show ?thesis
    using int_of_le_bytes_le_bytes [OF assms(6,7)] by (auto simp: child_error_message_def)
qed

section \<open>Waiting ends\<close>

text \<open>An item of the script during which the steady clock advances.\<close>

definition ticking :: "event list \<Rightarrow> bool" where
  "ticking es \<longleftrightarrow> list_ex (\<lambda>e. case e of Tick n \<Rightarrow> 0 < n | _ \<Rightarrow> False) es"

lemma apply_event_steady: "sy_steady_ms (apply_event e s)
    = sy_steady_ms s + (case e of Tick n \<Rightarrow> int n | _ \<Rightarrow> 0)"
proof (cases e)
  case (ObserverStep a)
  then show ?thesis
    by (cases "sy_observer s") (simp_all add: ObserveChildExit_def Let_def)
qed simp_all

lemma fold_apply_event_steady: "sy_steady_ms s \<le> sy_steady_ms (fold apply_event es s)"
proof (induction es arbitrary: s)
  case (Cons e es)
  have "sy_steady_ms s \<le> sy_steady_ms (apply_event e s)"
    unfolding apply_event_steady by (cases e) simp_all
  with Cons.IH [of "apply_event e s"] show ?case by simp
qed simp

lemma ticking_steady: "ticking es \<Longrightarrow> sy_steady_ms s < sy_steady_ms (fold apply_event es s)"
proof (induction es arbitrary: s)
  case (Cons e es)
  have le: "sy_steady_ms (apply_event e s) \<le> sy_steady_ms (fold apply_event es (apply_event e s))"
    by (rule fold_apply_event_steady)
  show ?case
  proof (cases "ticking es")
    case True
    then have "sy_steady_ms (apply_event e s) < sy_steady_ms (fold apply_event es (apply_event e s))"
      by (rule Cons.IH)
    moreover have "sy_steady_ms s \<le> sy_steady_ms (apply_event e s)"
      unfolding apply_event_steady by (cases e) simp_all
    ultimately show ?thesis by simp
  next
    case False
    then have "sy_steady_ms s < sy_steady_ms (apply_event e s)"
      unfolding apply_event_steady using Cons.prems by (cases e) (simp_all add: ticking_def)
    with le show ?thesis by simp
  qed
qed (simp add: ticking_def)

lemma syscall_ticks:
  assumes "sy_script s = item # items" and "ticking (fst item)"
  shows "\<exists>s'. syscall s = Some (snd item, s') \<and> sy_script s' = items \<and> sy_steady_ms s < sy_steady_ms s'"
  using assms ticking_steady [of "fst item" "s\<lparr> sy_script := items \<rparr>"]
  by (cases item) (simp add: syscall_def)

text \<open>
  C37. The wait of a stop ends: while the steady clock advances by a millisecond at least between two
  calls, it has its answer after as many turns as there are milliseconds to the deadline, whatever
  the process group and the observer do. A graceful stop thus gives way to \<open>SIGKILL\<close>, and a stop
  whose \<open>SIGKILL\<close> has no effect to an error.
\<close>

theorem stop_wait_ends:
  assumes "list_all (\<lambda>item. ticking (fst item)) (sy_script s)"
    and "nat (deadline - sy_steady_ms s) + 2 \<le> length (sy_script s)"
  shows "WaitForObservedExitAndProcessGroup target_pid target_pgid deadline s \<noteq> None"
  using assms
proof (induction target_pid target_pgid deadline s rule: WaitForObservedExitAndProcessGroup.induct)
  case (1 tp tg deadline s)
  obtain i1 i2 items where script: "sy_script s = i1 # i2 # items"
    using "1.prems"(2) by (cases "sy_script s"; cases "tl (sy_script s)") auto
  obtain s1 where c1: "syscall s = Some (snd i1, s1)" "sy_script s1 = i2 # items"
    "sy_steady_ms s < sy_steady_ms s1"
    using syscall_ticks [OF script] "1.prems"(1) script by auto
  obtain s2 where c2: "syscall s1 = Some (snd i2, s2)" "sy_script s2 = items"
    "sy_steady_ms s1 < sy_steady_ms s2"
    using syscall_ticks [OF c1(2)] "1.prems"(1) script by auto
  let ?gone = "(tp \<le> 0 \<or> pv_pid (sy_sup s) \<noteq> tp) \<and> \<not> group_exists tg (snd i1)"
  show ?case
  proof (cases "?gone \<or> deadline \<le> sy_steady_ms s1")
    case True
    then show ?thesis
      using c1(1) by (subst WaitForObservedExitAndProcessGroup.simps) (auto simp: Let_def)
  next
    case False
    have "WaitForObservedExitAndProcessGroup tp tg deadline s2 \<noteq> None"
    proof (rule "1.IH" [OF refl c1(1) refl _ _ c2(1) refl])
      show "list_all (\<lambda>item. ticking (fst item)) (sy_script s2)"
        using "1.prems"(1) script c2(2) by simp
      show "nat (deadline - sy_steady_ms s2) + 2 \<le> length (sy_script s2)"
      proof -
        have "sy_steady_ms s1 < deadline" using False by simp
        then have "nat (deadline - sy_steady_ms s2) + 2 \<le> nat (deadline - sy_steady_ms s)"
          using c1(3) c2(3) by linarith
        then show ?thesis
          using "1.prems"(2) script c2(2) by simp
      qed
    qed (use False in auto)
    then show ?thesis
      using c1(1) c2(1) False by (subst WaitForObservedExitAndProcessGroup.simps) (auto simp: Let_def)
  qed
qed

section \<open>Witnesses\<close>

definition demo_sys :: "(event list \<times> answer) list \<Rightarrow> sys" where
  "demo_sys items = (initial_sys (new_supervisor (\<lambda>p. p) 5 demo_def) (\<lambda>n. ''E'') 0 [])
     \<lparr> sy_script := items \<rparr>"

text \<open>
  A start that succeeds: the three tests, the pipe, \<open>fcntl\<close> twice, \<open>fork\<close>, the end of file of the
  confirmation pipe, the observer thread, one more release of the lock.
\<close>

definition start_items :: "(event list \<times> answer) list" where
  "start_items = [([], Ret 1), ([], Ret 1), ([], Ret 1), ([], Fds 7 8), ([], Ret 0), ([], Ret 0),
     ([], Ret 100), ([], Ret 1), ([], Data []), ([], Ret 0), ([], Ret 0)]"

definition demo_running :: sys where
  "demo_running = snd (the (Start (demo_sys start_items)))"

lemmas [code] = WaitForExecConfirmation.simps ReapChildBlocking.simps
  WaitForObservedExitAndProcessGroup.simps

lemma demo_started: "map_option fst (Start (demo_sys start_items)) = Some (Done True [])
    \<and> pv_pid (sy_sup demo_running) = 100 \<and> pv_pgid (sy_sup demo_running) = 100"
  by code_simp

lemma demo_sys_reachable: "reachable (\<lambda>p. p) demo_def (demo_sys items)"
  unfolding demo_sys_def by (intro reachable.init reachable.script)

lemma demo_Start: "Start (demo_sys start_items) = Some (Done True [], demo_running)"
  using demo_started by (auto simp: demo_running_def)

lemma demo_running_reachable: "reachable (\<lambda>p. p) demo_def demo_running"
  using reachable.start [OF demo_sys_reachable demo_Start] .

text \<open>The child dies of the \<open>SIGTERM\<close> and its group goes with it.\<close>

definition stop_items :: "(event list \<times> answer) list" where
  "stop_items = [([], Ret 0), ([ObserverStep (Reaped (WSignaled 15))], Ret 0), ([], Ret 0),
     ([], Err 3), ([ObserverStep (Err 3), ObserverStep (Err 3)], Ret 0)]"

definition demo_stopped :: sys where
  "demo_stopped = snd (the (Stop (demo_running\<lparr> sy_script := stop_items \<rparr>)))"

lemma demo_stopped_eval: "map_option fst (Stop (demo_running\<lparr> sy_script := stop_items \<rparr>)) = Some (Done True [])
    \<and> pv_exit_code (sy_sup demo_stopped) = Some 143"
  by code_simp

lemma demo_Stop: "Stop (demo_running\<lparr> sy_script := stop_items \<rparr>) = Some (Done True [], demo_stopped)"
  using demo_stopped_eval by (auto simp: demo_stopped_def)

text \<open>The leader has exited, a process it left behind is still in the group.\<close>

definition demo_orphans :: sys where
  "demo_orphans = (fold apply_event [ObserverStep (Reaped (WExited 0)), ObserverStep (Ret 0)] demo_running)
     \<lparr> sy_script := [([], Ret 0), ([], Err 3), ([ObserverStep (Err 3), ObserverStep (Err 3)], Ret 0)] \<rparr>"

definition demo_stuck :: sys where
  "demo_stuck = snd (the (Stop demo_orphans))"

lemma demo_stuck_eval: "map_option fst (Stop demo_orphans) = Some (Done True [])
    \<and> pv_pid (sy_sup demo_orphans) = -1 \<and> pv_pgid (sy_sup demo_orphans) = 100"
  by code_simp

lemma demo_orphans_reachable: "reachable (\<lambda>p. p) demo_def demo_orphans"
  unfolding demo_orphans_def
  by (auto intro!: reachable.script reachable.event demo_running_reachable simp del: apply_event.simps)

lemma demo_stuck: "Stop demo_orphans = Some (Done True [], demo_stuck)"
  using demo_stuck_eval by (auto simp: demo_stuck_def)

theorem published_states_ok_witness: "pv_ok (sy_sup demo_running)"
proof (rule published_states_ok [OF demo_running_reachable])
  show "sy_sup demo_running \<in> set (sy_log demo_running)"
    using reachable_quiet [OF demo_running_reachable] last_in_set [of "sy_log demo_running"]
    by (simp add: quiet_def watched_def sys_ok_def)
qed

theorem published_state_machine_witness:
  "successively published_step (sy_log demo_stopped) \<and> st_pid (GetStatus demo_stopped) = pv_pid (last (sy_log demo_stopped))"
  using published_state_machine [OF reachable.stop [OF reachable.script [OF demo_running_reachable] demo_Stop]]
  by blast

theorem one_child_own_signals_witness: "sy_unreaped demo_running = {100}"
  using one_child_own_signals [OF demo_running_reachable] demo_started
  by (simp add: GetStatus_def Let_def)

theorem Start_outcome_witness: "start_end {#} (Done True []) demo_running"
proof -
  have "\<not> start_refused (demo_sys start_items) (Done True []) demo_running"
    by (simp add: start_refused_def)
  moreover have "mset (sy_fds (demo_sys start_items)) = {#}"
    by (simp add: demo_sys_def initial_sys_def)
  ultimately show ?thesis
    using Start_outcome [OF demo_sys_reachable demo_Start] by simp
qed

theorem Stop_outcome_witness:
  "st_pid (GetStatus demo_stopped) = -1 \<and> st_process_group_id (GetStatus demo_stopped) = -1"
  using Stop_outcome [OF reachable.script [OF demo_running_reachable] demo_Stop] by simp

theorem Stop_final_state_witness: "st_state (GetStatus demo_stuck) = Stopping"
  using Stop_final_state [OF demo_orphans_reachable demo_stuck] demo_stuck_eval
  by (simp add: GetStatus_def Let_def)

theorem Restart_outcome_witness:
  "st_desired_state (GetStatus (snd (the (Restart (demo_sys start_items))))) = DRunning"
proof -
  have "map_option fst (Restart (demo_sys start_items)) = Some (Done True [])"
    by code_simp
  then obtain s' where "Restart (demo_sys start_items) = Some (Done True [], s')"
    by auto
  from Restart_outcome [OF demo_sys_reachable this] this show ?thesis by simp
qed

theorem exec_error_roundtrip_witness:
  "(\<exists>message s'. WaitForExecConfirmation 9 []
      (demo_sys (confirm_script [take 3 (child_error_message kChangeDirectory 13), drop 3 (child_error_message kChangeDirectory 13)]))
      = Some ((ExecChildFailed, message, 0), s')
    \<and> int_of_le_bytes (take 4 message) = 2 \<and> int_of_le_bytes (drop 4 message) = 13)"
  using exec_error_roundtrip [of "[take 3 (child_error_message kChangeDirectory 13), drop 3 (child_error_message kChangeDirectory 13)]"
      kChangeDirectory 13 "[Ret 8]" "demo_sys (confirm_script [take 3 (child_error_message kChangeDirectory 13),
        drop 3 (child_error_message kChangeDirectory 13)])" "[]" 9]
  by (simp add: child_error_message_def demo_sys_def initial_sys_def le_bytes_expand)

theorem stop_wait_ends_witness:
  "WaitForObservedExitAndProcessGroup (-1) 100 2 (demo_sys (replicate 4 ([Tick 1], Ret 0))) \<noteq> None"
  using stop_wait_ends [of "demo_sys (replicate 4 ([Tick 1], Ret 0))" 2 "-1" 100]
  by (simp add: demo_sys_def initial_sys_def ticking_def list_all_iff)

end
