(* ===== verification/LogReader.thy ===== *)
theory LogReader
  imports Prelude
begin

text \<open>
  \<open>ReadLastLines\<close> (\<open>src/apps/agent/src/service/log_reader.cpp\<close>): the last lines of a log file, read
  through a window at its end that doubles until it holds enough lines. The file system is a
  record of answers (that \<open>exists\<close> throws is left out), the stream a function of offset and length. The theorem says that the windowed
  reader answers what a reader of the whole file would.
\<close>

section \<open>The reader\<close>

record log_file =
  lf_exists :: bool
  lf_size_error :: "string option"
  lf_size :: nat
  lf_opens :: bool
  lf_seeks :: "nat \<Rightarrow> bool"
  lf_read :: "nat \<Rightarrow> nat \<Rightarrow> string"

definition kInitialReadWindowBytes :: nat where
  "kInitialReadWindowBytes = 64 * 1024"

definition newline :: char where
  "newline = CHR 0x0A"

text \<open>The successive results of \<open>std::getline\<close> on a string stream.\<close>

function getlines :: "string \<Rightarrow> string list" where
  "getlines [] = []"
| "getlines (c # cs) =
     takeWhile (\<lambda>x. x \<noteq> newline) (c # cs)
     # getlines (drop 1 (dropWhile (\<lambda>x. x \<noteq> newline) (c # cs)))"
  by pat_completeness auto
termination
  by (relation "measure length") (auto intro: le_less_trans [OF diff_le_self] simp: le_imp_less_Suc
      length_dropWhile_le less_Suc_eq_le intro!: le_trans [OF diff_le_self] split: if_splits)

definition strip_cr :: "string \<Rightarrow> string" where
  "strip_cr line = (if line \<noteq> [] \<and> last line = CHR 0x0D then butlast line else line)"

definition push_line :: "nat \<Rightarrow> string \<Rightarrow> string list \<Rightarrow> string list" where
  "push_line max_lines line lines =
     (if length lines = max_lines then tl lines else lines) @ [strip_cr line]"

definition KeepLastLines :: "string \<Rightarrow> nat \<Rightarrow> string list" where
  "KeepLastLines content max_lines = fold (push_line max_lines) (getlines content) []"

text \<open>
  The loop of \<open>ReadLastLines\<close>: the lines and the error text. The test \<open>window_size == file_size\<close>
  inside the search for a newline cannot succeed there, the start offset being positive.
\<close>

function read_window :: "string \<Rightarrow> log_file \<Rightarrow> nat \<Rightarrow> nat \<Rightarrow> string list \<times> string" where
  "read_window path file max_lines window_size =
     (let start_offset = lf_size file - window_size in
      if \<not> lf_seeks file start_offset then ([], ''failed to seek log file: '' @ path)
      else
        let content = lf_read file start_offset window_size in
        case (if 0 < start_offset then map_option (\<lambda>n. drop (n + 1) content) (find_char newline content)
              else Some content) of
          None \<Rightarrow>
            if window_size = lf_size file then ([], [])
            else if window_size = 0 then ([], [])
            else read_window path file max_lines (min (lf_size file) (window_size * 2))
        | Some content \<Rightarrow>
            let lines = KeepLastLines content max_lines in
            if max_lines \<le> length lines \<or> start_offset = 0 then (lines, [])
            else if window_size = 0 then ([], [])
            else read_window path file max_lines (min (lf_size file) (window_size * 2)))"
  by pat_completeness auto
termination
  by (relation "measure (\<lambda>(_, file, _, window_size). lf_size file - window_size)")
    (auto split: if_splits)

declare read_window.simps [simp del]

text \<open>
  The two branches for an empty window make the recursion well-founded; the caller's first window is
  not empty, and a doubled one is not either.
\<close>

definition ReadLastLines :: "string \<Rightarrow> log_file \<Rightarrow> nat \<Rightarrow> string list \<times> string" where
  "ReadLastLines path file max_lines =
     (if max_lines = 0 \<or> \<not> lf_exists file then ([], [])
      else (case lf_size_error file of
              Some message \<Rightarrow> ([], ''failed to get log file size: '' @ message)
            | None \<Rightarrow>
                if lf_size file = 0 then ([], [])
                else if \<not> lf_opens file then ([], ''failed to open log file: '' @ path)
                else read_window path file max_lines (min (lf_size file) kInitialReadWindowBytes)))"

section \<open>Lines\<close>

lemma getlines_newline:
  "getlines (xs @ newline # ys) = getlines (xs @ [newline]) @ getlines ys"
proof (induction xs rule: getlines.induct)
  case 1
  show ?case by simp
next
  case (2 c cs)
  show ?case
  proof (cases "newline \<in> set (c # cs)")
    case True
    then obtain z where "z \<in> set (c # cs)" "\<not> z \<noteq> newline" by blast
    then have "dropWhile (\<lambda>x. x \<noteq> newline) (c # cs @ zs) = dropWhile (\<lambda>x. x \<noteq> newline) (c # cs) @ zs"
      "takeWhile (\<lambda>x. x \<noteq> newline) (c # cs @ zs) = takeWhile (\<lambda>x. x \<noteq> newline) (c # cs)"
      "dropWhile (\<lambda>x. x \<noteq> newline) (c # cs) \<noteq> []" for zs
      using dropWhile_append1 [of z "c # cs" "\<lambda>x. x \<noteq> newline" zs]
        takeWhile_append1 [of z "c # cs" "\<lambda>x. x \<noteq> newline" zs] by auto
    with 2 show ?thesis
      by (cases "dropWhile (\<lambda>x. x \<noteq> newline) (c # cs)") simp_all
  next
    case False
    then have "takeWhile (\<lambda>x. x \<noteq> newline) ((c # cs) @ newline # zs) = c # cs"
      "dropWhile (\<lambda>x. x \<noteq> newline) ((c # cs) @ newline # zs) = newline # zs" for zs
      by (subst takeWhile_append2 dropWhile_append2; auto)+
    then show ?thesis by simp
  qed
qed

lemma keep_lines_fold:
  "0 < n \<Longrightarrow> length acc \<le> n \<Longrightarrow>
   fold (push_line n) ls acc = drop (length acc + length ls - n) (acc @ map strip_cr ls)"
proof (induction ls arbitrary: acc)
  case (Cons l ls)
  have len: "length (push_line n l acc) = min n (Suc (length acc))"
    using Cons.prems by (cases acc) (auto simp: push_line_def)
  have "fold (push_line n) (l # ls) acc
      = drop (length (push_line n l acc) + length ls - n) (push_line n l acc @ map strip_cr ls)"
    using Cons.IH [of "push_line n l acc"] Cons.prems len by simp
  also have "\<dots> = drop (length acc + length (l # ls) - n) (acc @ map strip_cr (l # ls))"
  proof (cases "length acc = n")
    case True
    then have "acc \<noteq> []" using Cons.prems by auto
    then show ?thesis
      using True len by (cases acc) (simp_all add: push_line_def)
  next
    case False
    then show ?thesis
      using len Cons.prems by (simp add: push_line_def)
  qed
  finally show ?case .
qed simp

lemma KeepLastLines_eq:
  "0 < n \<Longrightarrow> KeepLastLines content n
     = drop (length (getlines content) - n) (map strip_cr (getlines content))"
  by (simp add: KeepLastLines_def keep_lines_fold)

text \<open>Enough lines after a newline are the last lines of the whole.\<close>

lemma KeepLastLines_suffix:
  assumes "0 < n" and "n \<le> length (KeepLastLines ys n)"
  shows "KeepLastLines (xs @ newline # ys) n = KeepLastLines ys n"
proof -
  have "n \<le> length (getlines ys)"
    using assms by (simp add: KeepLastLines_eq)
  then show ?thesis
    unfolding KeepLastLines_eq [OF assms(1)] getlines_newline [of xs ys] by simp
qed

text \<open>A file whose contents do not change while it is read.\<close>

definition stable_file :: "string \<Rightarrow> log_file \<Rightarrow> bool" where
  "stable_file content file \<longleftrightarrow> lf_exists file \<and> lf_size_error file = None
     \<and> lf_size file = length content \<and> lf_opens file
     \<and> lf_seeks file = (\<lambda>_. True) \<and> lf_read file = (\<lambda>offset n. take n (drop offset content))"

lemma read_window_eq:
  assumes "stable_file content f" and "0 < n" and "0 < w" and "w \<le> length content"
  shows "read_window path f n w = (KeepLastLines content n, [])"
  using assms
proof (induction path f n w rule: read_window.induct)
  case (1 path f n w)
  let ?off = "length content - w"
  have f: "lf_size f = length content" "lf_seeks f ?off" "lf_read f ?off w = drop ?off content"
    using "1.prems" by (simp_all add: stable_file_def)
  have grow: "0 < min (length content) (w * 2)" "min (length content) (w * 2) \<le> length content"
    using "1.prems" by auto
  show ?case
  proof (cases "?off = 0")
    case True
    then show ?thesis
      using f by (subst read_window.simps) (simp add: Let_def)
  next
    case False
    show ?thesis
    proof (cases "find_char newline (drop ?off content)")
      case None
      have "read_window path f n w = read_window path f n (min (length content) (w * 2))"
        using False None f "1.prems" by (subst read_window.simps) (simp add: Let_def)
      also have "\<dots> = (KeepLastLines content n, [])"
        using "1.IH"(1) [OF refl _ refl, of] False None f "1.prems" grow by (simp add: Let_def)
      finally show ?thesis .
    next
      case (Some k)
      let ?rest = "drop (k + 1) (drop ?off content)"
      have k: "k < length (drop ?off content)" "drop ?off content ! k = newline"
        using Some by (simp_all only: find_char_Some)
      have "content = take (?off + k) content @ newline # drop (Suc (?off + k)) content"
        using k id_take_nth_drop [of "?off + k" content] by (simp add: nth_drop)
      then have split: "content = take (?off + k) content @ newline # ?rest"
        by (simp add: add.commute)
      show ?thesis
      proof (cases "n \<le> length (KeepLastLines ?rest n)")
        case True
        then have "KeepLastLines content n = KeepLastLines ?rest n"
          using KeepLastLines_suffix [OF "1.prems"(2) True] split by metis
        then show ?thesis
          using False Some f True by (subst read_window.simps) (simp add: Let_def)
      next
        case few: False
        have "read_window path f n w = read_window path f n (min (length content) (w * 2))"
          using False Some f few "1.prems" by (subst read_window.simps) (simp add: Let_def)
        also have "\<dots> = (KeepLastLines content n, [])"
          using "1.IH"(2) [OF refl _ refl _ refl] False Some f few "1.prems" grow by (simp add: Let_def)
        finally show ?thesis .
      qed
    qed
  qed
qed

text \<open>
  C39. Reading through the window gives what reading the whole file would: the last \<open>max_lines\<close>
  lines, each without its carriage return, whatever their lengths and wherever the windows cut the
  file, and no error. The loop ends because the window doubles until it covers the file.
\<close>

theorem ReadLastLines_whole_file:
  assumes "stable_file content f"
  shows "ReadLastLines path f max_lines =
    ((let lines = map strip_cr (getlines content) in drop (length lines - max_lines) lines), [])"
proof (cases "max_lines = 0 \<or> content = []")
  case True
  then show ?thesis
    using assms by (auto simp: ReadLastLines_def stable_file_def Let_def)
next
  case False
  then have "ReadLastLines path f max_lines
      = read_window path f max_lines (min (length content) kInitialReadWindowBytes)"
    using assms by (simp add: ReadLastLines_def stable_file_def)
  also have "\<dots> = (KeepLastLines content max_lines, [])"
    using False by (intro read_window_eq [OF assms]) (auto simp: kInitialReadWindowBytes_def)
  also have "KeepLastLines content max_lines
      = (let lines = map strip_cr (getlines content) in drop (length lines - max_lines) lines)"
    using False by (simp add: KeepLastLines_eq Let_def)
  finally show ?thesis .
qed

definition demo_file :: log_file where
  "demo_file = \<lparr> lf_exists = True, lf_size_error = None, lf_size = 6, lf_opens = True,
     lf_seeks = (\<lambda>_. True), lf_read = (\<lambda>offset n. take n (drop offset [CHR ''a'', newline, CHR ''b'', CHR 0x0D, newline, CHR ''c''])) \<rparr>"

theorem ReadLastLines_whole_file_witness:
  "ReadLastLines ''p'' demo_file 2 = ([''b'', ''c''], [])"
  using ReadLastLines_whole_file [of "[CHR ''a'', newline, CHR ''b'', CHR 0x0D, newline, CHR ''c'']" demo_file "''p''" 2]
  by (simp add: demo_file_def stable_file_def newline_def strip_cr_def)

end
