(* ===== verification/Recovery.thy ===== *)
theory Recovery
  imports SupervisorSpec
begin

text \<open>
  \<open>RecoveryManager\<close> (\<open>src/apps/agent/src/recovery/recovery_manager.cpp\<close>): when an unhealthy
  service is restarted, with a startup grace period, a backoff and a budget of restarts per window,
  and the log of recovery events. The supervisor it restarts is the one of \<open>Supervisor\<close>; the log of
  events is a \<open>bounded_log\<close>, the states per service a \<open>service_store\<close>. The lemmas show that an
  operator's stop is respected, that the budget holds over every window and the backoff between any
  two restarts, that suppressions are reported no more often than the cooldown allows, and that the
  log is the newest part of what was reported. An evaluation reads the status and acts on it in one
  step: the observer and the clocks may step in the operations it calls, an operator's request that
  falls between \<open>GetStatus\<close> and \<open>Start\<close> or \<open>Restart\<close> is not modelled.
\<close>

section \<open>State\<close>

record recovery_state =
  rs_has_seen_healthy :: bool
  rs_restart_attempts :: "millis list"
  rs_next_allowed :: "millis option"
  rs_grace_until :: "millis option"
  rs_last_suppressed :: "millis option"

definition no_recovery_state :: recovery_state where
  "no_recovery_state = \<lparr> rs_has_seen_healthy = False, rs_restart_attempts = [],
     rs_next_allowed = None, rs_grace_until = None, rs_last_suppressed = None \<rparr>"

record recovery_manager =
  rm_event_capacity :: nat
  rm_cooldown_seconds :: u32
  rm_states :: "string \<rightharpoonup> recovery_state"
  rm_events :: "RecoveryEvent list"

definition new_RecoveryManager :: "nat \<Rightarrow> u32 \<Rightarrow> recovery_manager" where
  "new_RecoveryManager capacity cooldown =
     \<lparr> rm_event_capacity = (if capacity = 0 then 1 else capacity),
       rm_cooldown_seconds = (if cooldown = 0 then 1 else cooldown),
       rm_states = Map.empty, rm_events = [] \<rparr>"

record RecoveryTrigger =
  tr_triggered :: bool
  tr_reason :: string
  tr_alert_event_id :: "string option"

section \<open>Helpers\<close>

definition SecondsToMilliseconds :: "u32 \<Rightarrow> millis" where
  "SecondsToMilliseconds seconds = uint seconds * 1000"

definition CountRestartAttemptsInWindow :: "recovery_state \<Rightarrow> nat" where
  "CountRestartAttemptsInWindow state = length (rs_restart_attempts state)"

definition FindTrigger ::
  "ServiceDefinition \<Rightarrow> HealthStatus \<Rightarrow> AlertEvent list \<Rightarrow> RecoveryTrigger" where
  "FindTrigger d health active_alerts =
     (let policy = sd_recovery_policy d;
          none = \<lparr> tr_triggered = False, tr_reason = [], tr_alert_event_id = None \<rparr>
      in if rp_restart_on_unhealthy policy \<and> hs_state health = Unhealthy then
           \<lparr> tr_triggered = True, tr_reason = ''service health state is unhealthy: '' @ hs_reason health,
             tr_alert_event_id = None \<rparr>
         else if rp_restart_on_critical_alert policy then
           (case find (\<lambda>a. ev_service_id a = sd_id d \<and> ev_state a = AlertActive
                 \<and> ev_severity a = Critical) active_alerts of
              Some a \<Rightarrow>
                \<lparr> tr_triggered = True, tr_reason = ''critical alert is active: '' @ ev_id a,
                  tr_alert_event_id = Some (ev_id a) \<rparr>
            | None \<Rightarrow> none)
         else none)"

definition before :: "millis \<Rightarrow> millis option \<Rightarrow> bool" where
  "before now limit = (case limit of None \<Rightarrow> False | Some t \<Rightarrow> now < t)"

definition IsInStartupGrace :: "recovery_state \<Rightarrow> millis \<Rightarrow> bool" where
  "IsInStartupGrace state now = before now (rs_grace_until state)"

definition IsInBackoff :: "recovery_state \<Rightarrow> millis \<Rightarrow> bool" where
  "IsInBackoff state now = before now (rs_next_allowed state)"

fun drop_old_attempts :: "millis \<Rightarrow> millis \<Rightarrow> millis list \<Rightarrow> millis list" where
  "drop_old_attempts window_ms now [] = []"
| "drop_old_attempts window_ms now (t # ts) =
     (if t + window_ms < now then drop_old_attempts window_ms now ts else t # ts)"

definition HasRestartBudgetLocked ::
  "recovery_state \<Rightarrow> RecoveryPolicy \<Rightarrow> millis \<Rightarrow> bool \<times> recovery_state" where
  "HasRestartBudgetLocked state policy now =
     (let attempts = drop_old_attempts (SecondsToMilliseconds (rp_window_seconds policy)) now
            (rs_restart_attempts state)
      in (int (length attempts) < uint (rp_max_restarts policy),
          state\<lparr> rs_restart_attempts := attempts \<rparr>))"

definition RecordRestartAttemptLocked ::
  "recovery_state \<Rightarrow> RecoveryPolicy \<Rightarrow> millis \<Rightarrow> recovery_state" where
  "RecordRestartAttemptLocked state policy now =
     state\<lparr> rs_restart_attempts := rs_restart_attempts state @ [now],
            rs_next_allowed := Some (now + SecondsToMilliseconds (rp_backoff_seconds policy)),
            rs_grace_until := Some (now + SecondsToMilliseconds (rp_startup_grace_seconds policy)) \<rparr>"

definition ShouldEmitSuppressedEventLocked ::
  "u32 \<Rightarrow> recovery_state \<Rightarrow> millis \<Rightarrow> bool \<times> recovery_state" where
  "ShouldEmitSuppressedEventLocked cooldown_seconds state now =
     (if (case rs_last_suppressed state of
            None \<Rightarrow> True
          | Some t \<Rightarrow> t + SecondsToMilliseconds cooldown_seconds \<le> now)
      then (True, state\<lparr> rs_last_suppressed := Some now \<rparr>)
      else (False, state))"

definition PushRecentEventLocked :: "RecoveryEvent \<Rightarrow> recovery_manager \<Rightarrow> recovery_manager" where
  "PushRecentEventLocked event m =
     m\<lparr> rm_events := push_bounded (rm_event_capacity m) event (rm_events m) \<rparr>"

definition recovery_event ::
  "ServiceDefinition \<Rightarrow> RecoveryEventType \<Rightarrow> millis \<Rightarrow> string \<Rightarrow> RecoveryTrigger \<Rightarrow> recovery_state \<Rightarrow> RecoveryEvent" where
  "recovery_event d type now reason trigger state =
     \<lparr> re_service_id = sd_id d, re_type = type, re_occurred_at_unix_ms = now, re_reason = reason,
       re_alert_event_id = tr_alert_event_id trigger,
       re_restart_count_in_window = of_nat (CountRestartAttemptsInWindow state) \<rparr>"

text \<open>\<open>if (event.IsStructurallyValid()) { PushRecentEventLocked(event); update.events.push_back(event); }\<close>\<close>

definition emit ::
  "RecoveryEvent \<Rightarrow> recovery_manager \<times> RecoveryEvent list \<Rightarrow> recovery_manager \<times> RecoveryEvent list" where
  "emit event mu =
     (if valid_RecoveryEvent event then (PushRecentEventLocked event (fst mu), snd mu @ [event]) else mu)"

section \<open>Evaluation\<close>

definition put_state :: "string \<Rightarrow> recovery_state \<Rightarrow> recovery_manager \<Rightarrow> recovery_manager" where
  "put_state sid state m = m\<lparr> rm_states := (rm_states m)(sid \<mapsto> state) \<rparr>"

text \<open>A suppression: the cooldown decides whether it is reported.\<close>

definition suppress ::
  "ServiceDefinition \<Rightarrow> string \<Rightarrow> RecoveryTrigger \<Rightarrow> millis \<Rightarrow> recovery_state \<Rightarrow> recovery_manager
     \<Rightarrow> recovery_manager \<times> RecoveryEvent list" where
  "suppress d reason trigger now state m =
     (let (report, state) = ShouldEmitSuppressedEventLocked (rm_cooldown_seconds m) state now;
          m = put_state (sd_id d) state m
      in if report then emit (recovery_event d RestartSuppressed now reason trigger state) (m, [])
         else (m, []))"

text \<open>Why a triggered recovery does not restart, in the order of the tests; the state they leave.\<close>

definition suppression ::
  "ServiceDefinition \<Rightarrow> HealthStatus \<Rightarrow> millis \<Rightarrow> recovery_state \<Rightarrow> string option \<times> recovery_state" where
  "suppression d health now state =
     (if hs_state health = Unhealthy \<and> \<not> rs_has_seen_healthy state \<and> \<not> sd_auto_start d then
        (Some ''auto recovery suppressed because service has not been observed healthy yet'', state)
      else if IsInStartupGrace state now then
        (Some ''auto recovery suppressed during startup grace period'', state)
      else if IsInBackoff state now then
        (Some ''auto recovery suppressed by backoff window'', state)
      else
        let (budget, state) = HasRestartBudgetLocked state (sd_recovery_policy d) now
        in if \<not> budget then
             (Some ''auto recovery suppressed because restart limit was reached'', state)
           else (None, state))"

datatype recovery_result = Recovered "RecoveryEvent list" | RecoveryRaised string

text \<open>The event that reports how the attempt ended.\<close>

definition finish_event ::
  "ServiceDefinition \<Rightarrow> RecoveryTrigger \<Rightarrow> millis \<Rightarrow> recovery_state \<Rightarrow> bool \<Rightarrow> string \<Rightarrow> RecoveryEvent" where
  "finish_event d trigger now st succeeded error =
     (if succeeded then recovery_event d RestartSucceeded now (tr_reason trigger) trigger st
      else recovery_event d RestartFailed now
        (if error = [] then ''restart operation failed'' else error) trigger st)"

text \<open>The restart or start, with its events. An exception of the supervisor leaves the function.\<close>

definition attempt_restart ::
  "ServiceDefinition \<Rightarrow> ServiceStatus \<Rightarrow> RecoveryTrigger \<Rightarrow> millis \<Rightarrow> recovery_state \<Rightarrow> recovery_manager \<Rightarrow> sys
     \<Rightarrow> ((recovery_result \<times> recovery_manager) \<times> sys) option" where
  "attempt_restart d status trigger now state m s = do {
     let m = put_state (sd_id d) state m;
     let mu = emit (recovery_event d RestartStarted now (tr_reason trigger) trigger state) (m, []);
     (r, s) \<leftarrow> (if st_state status = Running \<and> 0 < st_pid status then Restart s else Start s);
     case r of
       Raised what \<Rightarrow> Some ((RecoveryRaised what, fst mu), s)
     | Done succeeded operation_error \<Rightarrow>
         let state = RecordRestartAttemptLocked state (sd_recovery_policy d) now;
             mu = emit (finish_event d trigger now state succeeded operation_error)
               (put_state (sd_id d) state (fst mu), snd mu)
         in Some ((Recovered (snd mu), fst mu), s)
   }"

definition EvaluateAndRecover ::
  "HealthStatus \<Rightarrow> AlertEvent list \<Rightarrow> millis \<Rightarrow> recovery_manager \<Rightarrow> sys
     \<Rightarrow> ((recovery_result \<times> recovery_manager) \<times> sys) option" where
  "EvaluateAndRecover health active_alerts now m s =
     (let d = Definition s;
          policy = sd_recovery_policy d;
          state = (case rm_states m (sd_id d) of None \<Rightarrow> no_recovery_state | Some st \<Rightarrow> st);
          state = (if hs_state health = Healthy then state\<lparr> rs_has_seen_healthy := True \<rparr> else state);
          nothing = Some ((Recovered [], put_state (sd_id d) state m), s)
      in if \<not> rp_enabled policy \<or> \<not> valid_RecoveryPolicy policy then nothing
         else
           let trigger = FindTrigger d health active_alerts in
           if \<not> tr_triggered trigger then nothing
           else
             let status = GetStatus s in
             if IsDesiredStopped (st_desired_state status) then nothing
             else
               case suppression d health now state of
                 (Some reason, state) \<Rightarrow>
                   let (m, events) = suppress d reason trigger now state m
                   in Some ((Recovered events, m), s)
               | (None, state) \<Rightarrow> attempt_restart d status trigger now state m s)"

definition GetRecentEvents :: "nat \<Rightarrow> recovery_manager \<Rightarrow> RecoveryEvent list" where
  "GetRecentEvents limit m = newest_first limit (rm_events m)"

text \<open>The index loop from the newest event on, that stops when enough were found.\<close>

fun collect_events :: "string \<Rightarrow> nat \<Rightarrow> RecoveryEvent list \<Rightarrow> RecoveryEvent list" where
  "collect_events service_id limit [] = []"
| "collect_events service_id limit (e # es) =
     (if limit = 0 then []
      else if re_service_id e = service_id then e # collect_events service_id (limit - 1) es
      else collect_events service_id limit es)"

definition GetEventsForService :: "string \<Rightarrow> nat \<Rightarrow> recovery_manager \<Rightarrow> RecoveryEvent list" where
  "GetEventsForService service_id limit m =
     (if limit = 0 then [] else collect_events service_id limit (rev (rm_events m)))"

definition recovery_ForgetService :: "string \<Rightarrow> recovery_manager \<Rightarrow> recovery_manager" where
  "recovery_ForgetService service_id m =
     m\<lparr> rm_states := (rm_states m)(service_id := None),
        rm_events := filter (\<lambda>e. re_service_id e \<noteq> service_id) (rm_events m) \<rparr>"

definition recovery_Clear :: "recovery_manager \<Rightarrow> recovery_manager" where
  "recovery_Clear m = m\<lparr> rm_states := Map.empty, rm_events := [] \<rparr>"

section \<open>Interfaces\<close>

interpretation recovery_log: bounded_log PushRecentEventLocked rm_events rm_event_capacity
  by unfold_locales (simp_all add: PushRecentEventLocked_def push_bounded_eq)

definition recovery_of_service ::
  "recovery_manager \<Rightarrow> string \<Rightarrow> recovery_state option \<times> RecoveryEvent list" where
  "recovery_of_service m service_id =
     (rm_states m service_id, filter (\<lambda>e. re_service_id e = service_id) (rm_events m))"

interpretation recovery_store:
  service_store recovery_ForgetService recovery_of_service "(None, [])" "\<lambda>_. True"
  by unfold_locales
    (auto simp: recovery_ForgetService_def recovery_of_service_def filter_empty_conv intro!: filter_cong)


section \<open>The ways an evaluation ends\<close>

definition state_of :: "recovery_manager \<Rightarrow> string \<Rightarrow> recovery_state" where
  "state_of m sid = (case rm_states m sid of None \<Rightarrow> no_recovery_state | Some st \<Rightarrow> st)"

definition seen_state :: "HealthStatus \<Rightarrow> recovery_state \<Rightarrow> recovery_state" where
  "seen_state health st = (if hs_state health = Healthy then st\<lparr> rs_has_seen_healthy := True \<rparr> else st)"

definition may_recover :: "HealthStatus \<Rightarrow> AlertEvent list \<Rightarrow> sys \<Rightarrow> bool" where
  "may_recover health alerts s \<longleftrightarrow> rp_enabled (sd_recovery_policy (Definition s))
     \<and> valid_RecoveryPolicy (sd_recovery_policy (Definition s))
     \<and> tr_triggered (FindTrigger (Definition s) health alerts) \<and> pv_desired (sy_sup s) = DRunning"

lemma desired_status [simp]: "st_desired_state (GetStatus s) = pv_desired (sy_sup s)"
  by (simp add: GetStatus_def Let_def)

lemma EvaluateAndRecover_eq:
  "EvaluateAndRecover health alerts now m s =
     (let d = Definition s; st = seen_state health (state_of m (sd_id d));
          trigger = FindTrigger d health alerts
      in if \<not> may_recover health alerts s then Some ((Recovered [], put_state (sd_id d) st m), s)
         else case suppression d health now st of
           (Some reason, st) \<Rightarrow>
             let (m, events) = suppress d reason trigger now st m in Some ((Recovered events, m), s)
         | (None, st) \<Rightarrow> attempt_restart d (GetStatus s) trigger now st m s)"
  by (cases "pv_desired (sy_sup s)")
    (simp_all add: EvaluateAndRecover_def may_recover_def state_of_def seen_state_def Let_def
      IsDesiredStopped_def)

lemma put_state_simps [simp]:
  "rm_states (put_state sid st m) = (rm_states m)(sid \<mapsto> st)"
  "rm_events (put_state sid st m) = rm_events m"
  "rm_cooldown_seconds (put_state sid st m) = rm_cooldown_seconds m"
  "rm_event_capacity (put_state sid st m) = rm_event_capacity m"
  by (simp_all add: put_state_def)

text \<open>Reporting a list of events, the valid ones only.\<close>

lemma push_simps [simp]:
  "rm_states (PushRecentEventLocked e m) = rm_states m"
  "rm_cooldown_seconds (PushRecentEventLocked e m) = rm_cooldown_seconds m"
  "rm_event_capacity (PushRecentEventLocked e m) = rm_event_capacity m"
  by (simp_all add: PushRecentEventLocked_def)

definition reported :: "RecoveryEvent \<Rightarrow> RecoveryEvent list" where
  "reported e = (if valid_RecoveryEvent e then [e] else [])"

lemma emit_simps [simp]:
  "rm_states (fst (emit e mu)) = rm_states (fst mu)"
  "rm_cooldown_seconds (fst (emit e mu)) = rm_cooldown_seconds (fst mu)"
  "rm_event_capacity (fst (emit e mu)) = rm_event_capacity (fst mu)"
  "snd (emit e mu) = snd mu @ reported e"
  by (simp_all add: emit_def reported_def)

lemma fst_emit: "fst (emit e mu) = fold PushRecentEventLocked (reported e) (fst mu)"
  by (simp add: emit_def reported_def)

lemma fold_push_simps [simp]:
  "rm_states (fold PushRecentEventLocked es m) = rm_states m"
  "rm_cooldown_seconds (fold PushRecentEventLocked es m) = rm_cooldown_seconds m"
  "rm_event_capacity (fold PushRecentEventLocked es m) = rm_event_capacity m"
  by (induction es arbitrary: m) simp_all

lemma fold_push_put:
  "fold PushRecentEventLocked es (put_state sid st m) = put_state sid st (fold PushRecentEventLocked es m)"
proof (induction es arbitrary: m)
  case (Cons e es)
  have "PushRecentEventLocked e (put_state sid st m) = put_state sid st (PushRecentEventLocked e m)"
    by (simp add: PushRecentEventLocked_def put_state_def)
  then show ?case by (simp add: Cons.IH)
qed simp

lemma recovery_event_simps [simp]:
  "re_service_id (recovery_event d t now reason tr st) = sd_id d"
  "re_type (recovery_event d t now reason tr st) = t"
  "re_occurred_at_unix_ms (recovery_event d t now reason tr st) = now"
  by (simp_all add: recovery_event_def)

lemma recovery_event_valid:
  "valid_RecoveryEvent (recovery_event d t now reason tr st)
     \<longleftrightarrow> IsValidServiceId (sd_id d) \<and> 0 \<le> now \<and> reason \<noteq> []"
  by (auto simp: recovery_event_def valid_RecoveryEvent_def)

lemma trigger_reason: "tr_triggered (FindTrigger d health alerts) \<Longrightarrow> tr_reason (FindTrigger d health alerts) \<noteq> []"
  by (auto simp: FindTrigger_def Let_def split: option.splits if_splits)

lemma suppression_reason: "suppression d health now st = (Some reason, st') \<Longrightarrow> reason \<noteq> []"
  by (auto simp: suppression_def HasRestartBudgetLocked_def Let_def split: if_splits)

lemma suppression_attempts:
  "suppression d health now st = (x, st') \<Longrightarrow>
     \<exists>ts. st' = st\<lparr> rs_restart_attempts := ts \<rparr>
       \<and> (ts = rs_restart_attempts st
          \<or> ts = drop_old_attempts (SecondsToMilliseconds (rp_window_seconds (sd_recovery_policy d))) now
              (rs_restart_attempts st))"
  by (auto simp: suppression_def HasRestartBudgetLocked_def Let_def split: if_splits)
    (metis recovery_state.surjective recovery_state.update_convs(2))+

text \<open>What the suppression test lets through.\<close>

lemma suppression_None:
  assumes "suppression d health now st = (None, st')"
  shows "\<not> IsInStartupGrace st now" "\<not> IsInBackoff st now"
    "hs_state health = Unhealthy \<Longrightarrow> rs_has_seen_healthy st \<or> sd_auto_start d"
    "st' = st\<lparr> rs_restart_attempts := drop_old_attempts
        (SecondsToMilliseconds (rp_window_seconds (sd_recovery_policy d))) now (rs_restart_attempts st) \<rparr>"
    "int (length (rs_restart_attempts st')) < uint (rp_max_restarts (sd_recovery_policy d))"
  using assms by (auto simp: suppression_def HasRestartBudgetLocked_def Let_def split: if_splits)

text \<open>An attempt, by what the supervisor answered.\<close>

lemma attempt_restart_Some:
  assumes "attempt_restart d status trigger now st m s = Some ((r, m'), s')"
  obtains op where
    "(if st_state status = Running \<and> 0 < st_pid status then Restart s else Start s) = Some (op, s')"
    "case op of
       Raised what \<Rightarrow> r = RecoveryRaised what
     | Done succeeded error \<Rightarrow>
         (let st' = RecordRestartAttemptLocked st (sd_recovery_policy d) now;
              es = reported (recovery_event d RestartStarted now (tr_reason trigger) trigger st)
                @ reported (finish_event d trigger now st' succeeded error)
          in r = Recovered es \<and> rm_states m' = (rm_states m)(sd_id d \<mapsto> st')
             \<and> rm_cooldown_seconds m' = rm_cooldown_seconds m
             \<and> rm_events m' = rm_events (fold PushRecentEventLocked es m)
             \<and> rm_event_capacity m' = rm_event_capacity m)"
proof -
  from assms obtain op where op: "(if st_state status = Running \<and> 0 < st_pid status then Restart s else Start s) = Some (op, s')"
    unfolding attempt_restart_def Let_def bind_eq_Some_conv
    by (elim exE conjE) (auto split: op_result.splits prod.splits)
  show thesis
  proof (rule that [OF op])
    show "case op of
       Raised what \<Rightarrow> r = RecoveryRaised what
     | Done succeeded error \<Rightarrow>
         (let st' = RecordRestartAttemptLocked st (sd_recovery_policy d) now;
              es = reported (recovery_event d RestartStarted now (tr_reason trigger) trigger st)
                @ reported (finish_event d trigger now st' succeeded error)
          in r = Recovered es \<and> rm_states m' = (rm_states m)(sd_id d \<mapsto> st')
             \<and> rm_cooldown_seconds m' = rm_cooldown_seconds m
             \<and> rm_events m' = rm_events (fold PushRecentEventLocked es m)
             \<and> rm_event_capacity m' = rm_event_capacity m)"
      using assms op by (cases op) (auto simp: attempt_restart_def Let_def fst_emit fold_push_put)
  qed
qed

section \<open>One evaluation\<close>

lemma EvaluateAndRecover_sys:
  assumes "EvaluateAndRecover health alerts now m s = Some ((r, m'), s')"
  shows "s' = s \<or> (\<exists>op. Start s = Some (op, s')) \<or> (\<exists>op. Restart s = Some (op, s'))"
proof (cases "\<exists>st st'. suppression (Definition s) health now st = (None, st') \<and>
    attempt_restart (Definition s) (GetStatus s) (FindTrigger (Definition s) health alerts) now st' m s = Some ((r, m'), s')")
  case True
  then show ?thesis
    by (elim exE conjE attempt_restart_Some) (auto split: if_splits)
next
  case False
  then show ?thesis
    using assms by (fastforce simp: EvaluateAndRecover_eq Let_def split: if_splits option.splits prod.splits)
qed

lemma recovery_acts:
  assumes "EvaluateAndRecover health alerts now m s = Some ((r, m'), s')" and "s' \<noteq> s"
  shows "let d = Definition s; p = sd_recovery_policy d; st = state_of m (sd_id d) in
    rp_enabled p \<and> valid_RecoveryPolicy p \<and> GetDesiredState s = DRunning
    \<and> (rp_restart_on_unhealthy p \<and> hs_state health = Unhealthy \<and> (rs_has_seen_healthy st \<or> sd_auto_start d)
       \<or> rp_restart_on_critical_alert p \<and> (\<exists>a \<in> set alerts. ev_service_id a = sd_id d
            \<and> ev_state a = AlertActive \<and> ev_severity a = Critical))
    \<and> \<not> IsInStartupGrace st now \<and> \<not> IsInBackoff st now
    \<and> int (length (drop_old_attempts (SecondsToMilliseconds (rp_window_seconds p)) now (rs_restart_attempts st)))
        < uint (rp_max_restarts p)"
proof -
  let ?d = "Definition s" and ?st = "seen_state health (state_of m (sd_id (Definition s)))"
  have may: "may_recover health alerts s"
    using assms by (auto simp: EvaluateAndRecover_eq Let_def split: if_splits)
  obtain st' where none: "suppression ?d health now ?st = (None, st')"
    using assms may
    by (auto simp: EvaluateAndRecover_eq Let_def case_prod_beta split: option.splits)
      (metis prod.collapse)
  note let_through = suppression_None [OF none]
  have seen: "IsInStartupGrace ?st now = IsInStartupGrace (state_of m (sd_id ?d)) now"
    "IsInBackoff ?st now = IsInBackoff (state_of m (sd_id ?d)) now"
    "rs_restart_attempts ?st = rs_restart_attempts (state_of m (sd_id ?d))"
    "hs_state health = Unhealthy \<Longrightarrow> rs_has_seen_healthy ?st = rs_has_seen_healthy (state_of m (sd_id ?d))"
    by (simp_all add: seen_state_def IsInStartupGrace_def IsInBackoff_def)
  have trigger: "rp_restart_on_unhealthy (sd_recovery_policy ?d) \<and> hs_state health = Unhealthy
      \<or> rp_restart_on_critical_alert (sd_recovery_policy ?d) \<and> (\<exists>a \<in> set alerts. ev_service_id a = sd_id ?d
            \<and> ev_state a = AlertActive \<and> ev_severity a = Critical)"
    using may by (auto simp: may_recover_def FindTrigger_def Let_def find_Some_iff split: if_splits option.splits)
  have "hs_state health = Unhealthy \<longrightarrow> rs_has_seen_healthy (state_of m (sd_id ?d)) \<or> sd_auto_start ?d"
    using let_through(3) seen(4) by blast
  with may let_through seen trigger show ?thesis
    by (auto simp: may_recover_def Let_def GetDesiredState_def)
qed

text \<open>
  C2. Recovery touches a service only when it may: the policy is enabled and valid, the operator
  wants the service running, there is a reason (the service is unhealthy, and has been seen healthy
  or starts automatically, or a critical alert of this very service is active), the startup grace
  period and the backoff of the last attempt are over, and fewer attempts than the policy allows lie
  in the window. In particular a stop the operator made before the evaluation is not undone.
\<close>

theorem recovery_acts_only_when_allowed:
  assumes "EvaluateAndRecover health alerts now m s = Some ((r, m'), s')" and "s' \<noteq> s"
  shows "let d = Definition s; p = sd_recovery_policy d; st = state_of m (sd_id d) in
    rp_enabled p \<and> valid_RecoveryPolicy p \<and> GetDesiredState s = DRunning
    \<and> (rp_restart_on_unhealthy p \<and> hs_state health = Unhealthy \<and> (rs_has_seen_healthy st \<or> sd_auto_start d)
       \<or> rp_restart_on_critical_alert p \<and> (\<exists>a \<in> set alerts. ev_service_id a = sd_id d
            \<and> ev_state a = AlertActive \<and> ev_severity a = Critical))
    \<and> \<not> IsInStartupGrace st now \<and> \<not> IsInBackoff st now
    \<and> int (length (drop_old_attempts (SecondsToMilliseconds (rp_window_seconds p)) now (rs_restart_attempts st)))
        < uint (rp_max_restarts p)"
  by (rule recovery_acts [OF assms])

lemma reported_ok: "re_service_id e = sid \<Longrightarrow> re_occurred_at_unix_ms e = now \<Longrightarrow>
  list_all (\<lambda>e. valid_RecoveryEvent e \<and> re_service_id e = sid \<and> re_occurred_at_unix_ms e = now) (reported e)"
  by (simp add: reported_def)

lemma finish_event_simps [simp]:
  "re_service_id (finish_event d tr now st b e) = sd_id d"
  "re_occurred_at_unix_ms (finish_event d tr now st b e) = now"
  "re_type (finish_event d tr now st b e) = (if b then RestartSucceeded else RestartFailed)"
  by (simp_all add: finish_event_def)

lemma suppress_eq:
  "suppress d reason trigger now st m =
     (let (report, st') = ShouldEmitSuppressedEventLocked (rm_cooldown_seconds m) st now;
          es = (if report then reported (recovery_event d RestartSuppressed now reason trigger st') else [])
      in (put_state (sd_id d) st' (fold PushRecentEventLocked es m), es))"
  by (simp add: suppress_def Let_def case_prod_beta fst_emit fold_push_put [symmetric]
      prod_eq_iff)

text \<open>
  The events an evaluation returns are valid events of this service at this time, and the log
  is then the newest part, up to its capacity, of the old log followed by them.
\<close>

theorem recovery_log_of_evaluation:
  assumes "EvaluateAndRecover health alerts now m s = Some ((Recovered events, m'), s')"
    and "length (rm_events m) \<le> rm_event_capacity m"
  shows "rm_events m' = drop (length (rm_events m) + length events - rm_event_capacity m) (rm_events m @ events)
    \<and> rm_event_capacity m' = rm_event_capacity m
    \<and> list_all (\<lambda>e. valid_RecoveryEvent e \<and> re_service_id e = sd_id (Definition s)
         \<and> re_occurred_at_unix_ms e = now) events"
proof -
  let ?ok = "list_all (\<lambda>e. valid_RecoveryEvent e \<and> re_service_id e = sd_id (Definition s)
         \<and> re_occurred_at_unix_ms e = now)"
  have "rm_events m' = rm_events (fold PushRecentEventLocked events m)
      \<and> rm_event_capacity m' = rm_event_capacity m \<and> ?ok events"
  proof (cases "may_recover health alerts s")
    case False
    then show ?thesis
      using assms(1) by (auto simp: EvaluateAndRecover_eq Let_def)
  next
    case True
    obtain x st where sup: "suppression (Definition s) health now (seen_state health (state_of m (sd_id (Definition s)))) = (x, st)"
      by force
    show ?thesis
    proof (cases x)
      case (Some reason)
      then show ?thesis
        using assms(1) True sup
        by (auto simp: EvaluateAndRecover_eq Let_def suppress_eq case_prod_beta reported_ok split: if_splits)
    next
      case None
      then have "attempt_restart (Definition s) (GetStatus s) (FindTrigger (Definition s) health alerts) now st m s
          = Some ((Recovered events, m'), s')"
        using assms(1) True sup by (simp add: EvaluateAndRecover_eq Let_def)
      then show ?thesis
        by (rule attempt_restart_Some) (auto simp: Let_def reported_ok split: op_result.splits)
    qed
  qed
  then show ?thesis
    using recovery_log.log_window [OF assms(2), of events] by simp
qed

section \<open>Sequences of evaluations\<close>

text \<open>
  The monitor evaluates services one after another, with whatever has happened to each service, its
  health and the alerts in between. A run returns all events reported; an exception ends it.
\<close>

type_synonym evaluation_input = "sys \<times> HealthStatus \<times> AlertEvent list \<times> millis"

fun recovery_run ::
  "evaluation_input list \<Rightarrow> recovery_manager \<Rightarrow> (RecoveryEvent list \<times> recovery_manager) option" where
  "recovery_run [] m = Some ([], m)"
| "recovery_run ((s, health, alerts, now) # inputs) m =
     (case EvaluateAndRecover health alerts now m s of
        None \<Rightarrow> None
      | Some ((RecoveryRaised what, m), s') \<Rightarrow> Some ([], m)
      | Some ((Recovered events, m), s') \<Rightarrow>
          map_option (\<lambda>(rest, m). (events @ rest, m)) (recovery_run inputs m))"

definition times_of :: "(RecoveryEventType \<Rightarrow> bool) \<Rightarrow> string \<Rightarrow> RecoveryEvent list \<Rightarrow> millis list" where
  "times_of p sid es = map re_occurred_at_unix_ms (filter (\<lambda>e. re_service_id e = sid \<and> p (re_type e)) es)"

definition finished :: "RecoveryEventType \<Rightarrow> bool" where
  "finished t \<longleftrightarrow> t = RestartSucceeded \<or> t = RestartFailed"

lemma times_of_append [simp]: "times_of p sid (es @ fs) = times_of p sid es @ times_of p sid fs"
  by (simp add: times_of_def)

lemma times_of_Nil [simp]: "times_of p sid [] = []"
  by (simp add: times_of_def)

text \<open>Gaps between neighbours, and the budget: \<open>n\<close> attempts later the window has passed.\<close>

definition spaced :: "int \<Rightarrow> int list \<Rightarrow> bool" where
  "spaced gap ts \<longleftrightarrow> (\<forall>i. Suc i < length ts \<longrightarrow> ts ! i + gap \<le> ts ! Suc i)"

definition budgeted :: "nat \<Rightarrow> int \<Rightarrow> int list \<Rightarrow> bool" where
  "budgeted n window ts \<longleftrightarrow> (\<forall>i. i + n < length ts \<longrightarrow> ts ! i + window < ts ! (i + n))"

lemma spaced_Nil [simp]: "spaced gap []"
  by (simp add: spaced_def)

lemma spaced_single [simp]: "spaced gap [t]"
  by (simp add: spaced_def)

lemma budgeted_Nil [simp]: "budgeted n window []"
  by (simp add: budgeted_def)

lemma spaced_append:
  assumes "spaced gap ts" and "ts \<noteq> [] \<Longrightarrow> last ts + gap \<le> t"
  shows "spaced gap (ts @ [t])"
  unfolding spaced_def
proof (intro allI impI)
  fix i assume i: "Suc i < length (ts @ [t])"
  show "(ts @ [t]) ! i + gap \<le> (ts @ [t]) ! Suc i"
  proof (cases "Suc i < length ts")
    case True
    then show ?thesis using assms(1) by (simp add: spaced_def nth_append)
  next
    case False
    then have "ts \<noteq> []" "i = length ts - 1" using i by auto
    then show ?thesis using assms(2) by (simp add: nth_append last_conv_nth)
  qed
qed

text \<open>
  What the manager remembers of the attempts: a suffix, such that what it dropped is older than the
  window before the last attempt, and no more than the budget.
\<close>

definition remembers :: "nat \<Rightarrow> int \<Rightarrow> int list \<Rightarrow> int list \<Rightarrow> bool" where
  "remembers n window ts ks \<longleftrightarrow> (\<exists>k \<le> length ts. ks = drop k ts \<and> (\<forall>i < k. ts ! i + window < last ts))
     \<and> length ks \<le> n"

lemma drop_old_attempts_drop:
  "\<exists>k \<le> length ts. drop_old_attempts window now ts = drop k ts \<and> (\<forall>i < k. ts ! i + window < now)"
proof (induction ts)
  case (Cons t ts)
  then obtain k where k: "k \<le> length ts" "drop_old_attempts window now ts = drop k ts"
    "\<forall>i < k. ts ! i + window < now" by blast
  show ?case
  proof (cases "t + window < now")
    case True
    have "\<forall>i < Suc k. (t # ts) ! i + window < now"
      using k(3) True by (auto simp: less_Suc_eq_0_disj)
    with k(1,2) True show ?thesis
      by (intro exI [of _ "Suc k"]) simp
  next
    case False
    then show ?thesis by (intro exI [of _ 0]) simp
  qed
qed simp

lemma remembers_append:
  assumes ks: "remembers n window ts ks" and budget: "budgeted n window ts"
    and room: "length (drop_old_attempts window now ks) < n"
    and later: "ts \<noteq> [] \<Longrightarrow> last ts \<le> now"
  shows "remembers n window (ts @ [now]) (drop_old_attempts window now ks @ [now])
    \<and> budgeted n window (ts @ [now])"
proof -
  obtain k where k: "k \<le> length ts" "ks = drop k ts" "\<forall>i < k. ts ! i + window < last ts"
    using ks by (auto simp: remembers_def)
  obtain j where j: "j \<le> length ks" "drop_old_attempts window now ks = drop j ks"
    "\<forall>i < j. ks ! i + window < now"
    using drop_old_attempts_drop by blast
  have old: "ts ! i + window < now" if "i < k + j" for i
  proof (cases "i < k")
    case True
    then have "ts \<noteq> []" using k(1) by auto
    then show ?thesis using True k(3) later by fastforce
  next
    case False
    then have "i - k < j" using that by simp
    then have "ks ! (i - k) + window < now" using j(3) by blast
    moreover have "ks ! (i - k) = ts ! i" using False that k(1,2) j(1) by simp
    ultimately show ?thesis by simp
  qed
  have left: "length ts - (k + j) < n" "k + j \<le> length ts"
    using room j k by simp_all
  have "\<forall>i < k + j. (ts @ [now]) ! i + window < last (ts @ [now])"
    using old left(2) by (simp add: nth_append)
  moreover have "drop_old_attempts window now ks @ [now] = drop (k + j) (ts @ [now])"
    unfolding j(2) using left(2) by (simp add: k(2) add.commute)
  moreover have "budgeted n window (ts @ [now])"
    unfolding budgeted_def
  proof (intro allI impI)
    fix i assume i: "i + n < length (ts @ [now])"
    show "(ts @ [now]) ! i + window < (ts @ [now]) ! (i + n)"
    proof (cases "i + n < length ts")
      case True
      then show ?thesis using budget by (simp add: budgeted_def nth_append)
    next
      case False
      then have "i + n = length ts" "i < k + j" "i < length ts" using i left room by auto
      then show ?thesis using old by (simp add: nth_append)
    qed
  qed
  ultimately show ?thesis
    unfolding remembers_def using left(2) room by (intro conjI exI [of _ "k + j"]) auto
qed

text \<open>
  How the state of a service relates to the attempts \<open>fs\<close> and the suppressions \<open>ss\<close> reported for it,
  all under the policy \<open>p\<close>.
\<close>

definition restart_gap :: "RecoveryPolicy \<Rightarrow> int" where
  "restart_gap p = max (SecondsToMilliseconds (rp_backoff_seconds p))
     (SecondsToMilliseconds (rp_startup_grace_seconds p))"

definition tracks :: "RecoveryPolicy \<Rightarrow> u32 \<Rightarrow> int list \<Rightarrow> int list \<Rightarrow> recovery_state \<Rightarrow> bool" where
  "tracks p cooldown fs ss st \<longleftrightarrow>
     remembers (unat (rp_max_restarts p)) (SecondsToMilliseconds (rp_window_seconds p)) fs (rs_restart_attempts st)
     \<and> budgeted (unat (rp_max_restarts p)) (SecondsToMilliseconds (rp_window_seconds p)) fs
     \<and> spaced (restart_gap p) fs
     \<and> rs_next_allowed st = (if fs = [] then None else Some (last fs + SecondsToMilliseconds (rp_backoff_seconds p)))
     \<and> rs_grace_until st = (if fs = [] then None else Some (last fs + SecondsToMilliseconds (rp_startup_grace_seconds p)))
     \<and> spaced (SecondsToMilliseconds cooldown) ss
     \<and> rs_last_suppressed st = (if ss = [] then None else Some (last ss))"

lemma tracks_init: "tracks p cooldown [] [] no_recovery_state"
  by (simp add: tracks_def remembers_def no_recovery_state_def)

lemma seconds_nonneg [simp]: "0 \<le> SecondsToMilliseconds w"
  by (simp add: SecondsToMilliseconds_def)

lemma tracks_seen [simp]: "tracks p cooldown fs ss (seen_state health st) = tracks p cooldown fs ss st"
  by (simp add: seen_state_def tracks_def)

lemma drop_old_attempts_id:
  "length (drop_old_attempts w now ts) \<ge> length ts \<Longrightarrow> drop_old_attempts w now ts = ts"
  by (metis drop_old_attempts_drop diff_is_0_eq' diff_le_self drop_all drop_eq_Nil drop_0 length_drop
      le_antisym diff_diff_cancel)

text \<open>A suppressed recovery drops nothing: there is room whenever something is old.\<close>

lemma tracks_suppression:
  assumes "tracks (sd_recovery_policy d) cooldown fs ss st"
    and "suppression d health now st = (Some reason, st')"
  shows "st' = st"
proof (cases "rs_restart_attempts st' = rs_restart_attempts st")
  case True
  moreover obtain ts where "st' = st\<lparr> rs_restart_attempts := ts \<rparr>"
    using suppression_attempts [OF assms(2)] by blast
  ultimately show ?thesis by simp
next
  case False
  let ?w = "SecondsToMilliseconds (rp_window_seconds (sd_recovery_policy d))"
  have "\<not> int (length (drop_old_attempts ?w now (rs_restart_attempts st))) < uint (rp_max_restarts (sd_recovery_policy d))"
    using assms(2) False by (auto simp: suppression_def HasRestartBudgetLocked_def Let_def split: if_splits)
  moreover have "length (rs_restart_attempts st) \<le> unat (rp_max_restarts (sd_recovery_policy d))"
    using assms(1) by (simp add: tracks_def remembers_def)
  ultimately have "drop_old_attempts ?w now (rs_restart_attempts st) = rs_restart_attempts st"
    by (intro drop_old_attempts_id) (unfold uint_nat, linarith)
  moreover obtain ts where "st' = st\<lparr> rs_restart_attempts := ts \<rparr>"
    "ts = rs_restart_attempts st \<or> ts = drop_old_attempts ?w now (rs_restart_attempts st)"
    using suppression_attempts [OF assms(2)] by blast
  ultimately show ?thesis by fastforce
qed

lemma tracks_suppressed:
  assumes "tracks p cooldown fs ss st" and "ShouldEmitSuppressedEventLocked cooldown st now = (report, st')"
  shows "tracks p cooldown fs (ss @ (if report then [now] else [])) st'"
  using assms
  by (auto simp: tracks_def ShouldEmitSuppressedEventLocked_def spaced_append split: if_splits option.splits)

lemma tracks_attempt:
  assumes "tracks (sd_recovery_policy d) cooldown fs ss st"
    and "suppression d health now st = (None, st')"
  shows "tracks (sd_recovery_policy d) cooldown (fs @ [now]) ss
    (RecordRestartAttemptLocked st' (sd_recovery_policy d) now)"
proof -
  note none = suppression_None [OF assms(2)]
  let ?p = "sd_recovery_policy d"
  have gap: "last fs + restart_gap ?p \<le> now" if "fs \<noteq> []"
    using assms(1) that none(1,2)
    by (simp add: tracks_def IsInStartupGrace_def IsInBackoff_def before_def restart_gap_def)
  moreover have "0 \<le> restart_gap ?p"
    by (simp add: restart_gap_def le_max_iff_disj)
  ultimately have later: "last fs \<le> now" if "fs \<noteq> []"
    using that by fastforce
  let ?w = "SecondsToMilliseconds (rp_window_seconds ?p)" and ?n = "unat (rp_max_restarts ?p)"
  let ?ts = "drop_old_attempts ?w now (rs_restart_attempts st)"
  have ts: "rs_restart_attempts st' = ?ts" "rs_last_suppressed st' = rs_last_suppressed st"
    using none(4) by simp_all
  have "length ?ts < ?n"
    using none(5) unfolding ts uint_nat by linarith
  moreover have "remembers ?n ?w fs (rs_restart_attempts st)" "budgeted ?n ?w fs"
    using assms(1) by (simp_all add: tracks_def)
  ultimately have "remembers ?n ?w (fs @ [now]) (?ts @ [now]) \<and> budgeted ?n ?w (fs @ [now])"
    using later by (intro remembers_append)
  moreover have "spaced (restart_gap ?p) (fs @ [now])"
    using assms(1) gap by (intro spaced_append) (simp_all add: tracks_def)
  ultimately show ?thesis
    using assms(1) by (simp add: tracks_def RecordRestartAttemptLocked_def ts)
qed

lemma times_reported [simp]:
  "times_of p sid (reported e) = (if valid_RecoveryEvent e \<and> re_service_id e = sid \<and> p (re_type e)
     then [re_occurred_at_unix_ms e] else [])"
  by (simp add: times_of_def reported_def)

text \<open>One evaluation keeps the relation for its own service and does not touch the others.\<close>

lemma EvaluateAndRecover_tracks:
  assumes call: "EvaluateAndRecover health alerts now m s = Some ((Recovered es, m'), s')"
    and id: "IsValidServiceId sid" "0 \<le> now"
    and tracks: "tracks p (rm_cooldown_seconds m) fs ss (state_of m sid)"
    and policy: "sd_id (Definition s) = sid \<longrightarrow> sd_recovery_policy (Definition s) = p"
  shows "rm_cooldown_seconds m' = rm_cooldown_seconds m
    \<and> tracks p (rm_cooldown_seconds m) (fs @ times_of finished sid es)
        (ss @ times_of ((=) RestartSuppressed) sid es) (state_of m' sid)"
proof -
  let ?d = "Definition s"
  let ?st = "seen_state health (state_of m (sd_id ?d))"
  show ?thesis
  proof (cases "may_recover health alerts s")
    case False
    then show ?thesis
      using call tracks by (auto simp: EvaluateAndRecover_eq Let_def state_of_def)
  next
    case may: True
    obtain x st where sup: "suppression ?d health now ?st = (x, st)"
      by force
    show ?thesis
    proof (cases x)
      case (Some reason)
      obtain report st' where emit: "ShouldEmitSuppressedEventLocked (rm_cooldown_seconds m) st now = (report, st')"
        by force
      have res: "m' = put_state (sd_id ?d) st' (fold PushRecentEventLocked es m)"
        "es = (if report then reported (recovery_event ?d RestartSuppressed now reason (FindTrigger ?d health alerts) st') else [])"
        using call may sup Some emit
        by (auto simp: EvaluateAndRecover_eq Let_def suppress_eq split: if_splits)
      show ?thesis
      proof (cases "sd_id ?d = sid")
        case True
        then have "tracks p (rm_cooldown_seconds m) fs ss ?st" using tracks by simp
        moreover from this have "st = ?st"
          using tracks_suppression sup Some policy True by blast
        ultimately have "tracks p (rm_cooldown_seconds m) fs (ss @ (if report then [now] else [])) st'"
          using tracks_suppressed emit by blast
        moreover have "reason \<noteq> []" using suppression_reason sup Some by blast
        ultimately show ?thesis
          using True id by (auto simp: res state_of_def recovery_event_valid finished_def)
      next
        case False
        then show ?thesis using tracks by (auto simp: res state_of_def)
      qed
    next
      case None
      let ?tr = "FindTrigger ?d health alerts"
      have "attempt_restart ?d (GetStatus s) ?tr now st m s = Some ((Recovered es, m'), s')"
        using call may sup None by (simp add: EvaluateAndRecover_eq Let_def)
      then obtain b e where
        es: "es = reported (recovery_event ?d RestartStarted now (tr_reason ?tr) ?tr st)
             @ reported (finish_event ?d ?tr now (RecordRestartAttemptLocked st (sd_recovery_policy ?d) now) b e)"
        and m': "rm_states m' = (rm_states m)(sd_id ?d \<mapsto> RecordRestartAttemptLocked st (sd_recovery_policy ?d) now)"
        "rm_cooldown_seconds m' = rm_cooldown_seconds m"
        by (rule attempt_restart_Some) (auto simp: Let_def split: op_result.splits)
      show ?thesis
      proof (cases "sd_id ?d = sid")
        case True
        then have "tracks p (rm_cooldown_seconds m) (fs @ [now]) ss (state_of m' sid)"
          using tracks_attempt [of ?d "rm_cooldown_seconds m" fs ss ?st health now st] tracks policy sup None
          by (simp add: m' state_of_def)
        moreover have "tr_reason ?tr \<noteq> []"
          using may trigger_reason by (simp add: may_recover_def)
        ultimately show ?thesis
          using True id
          by (auto simp: es m' finished_def recovery_event_valid finish_event_def)
      next
        case False
        then show ?thesis using tracks by (simp add: es m' state_of_def)
      qed
    qed
  qed
qed

lemma recovery_run_tracks:
  assumes "recovery_run inputs m = Some (es, m')" and "IsValidServiceId sid"
    and "tracks p (rm_cooldown_seconds m) fs ss (state_of m sid)"
    and "list_all (\<lambda>(s, health, alerts, now). 0 \<le> now
          \<and> (sd_id (Definition s) = sid \<longrightarrow> sd_recovery_policy (Definition s) = p)) inputs"
  shows "\<exists>st. tracks p (rm_cooldown_seconds m) (fs @ times_of finished sid es)
      (ss @ times_of ((=) RestartSuppressed) sid es) st"
  using assms
proof (induction inputs m arbitrary: es fs ss rule: recovery_run.induct)
  case (1 m)
  then show ?case by auto
next
  case (2 s health alerts now inputs m)
  obtain r m1 s1 where call: "EvaluateAndRecover health alerts now m s = Some ((r, m1), s1)"
    using "2.prems"(1) by (auto split: option.splits prod.splits)
  show ?case
  proof (cases r)
    case (RecoveryRaised what)
    then show ?thesis using "2.prems"(1,3) call by auto
  next
    case (Recovered events)
    then obtain rest where rest: "recovery_run inputs m1 = Some (rest, m')" "es = events @ rest"
      using "2.prems"(1) call by auto
    have step: "rm_cooldown_seconds m1 = rm_cooldown_seconds m
      \<and> tracks p (rm_cooldown_seconds m) (fs @ times_of finished sid events)
        (ss @ times_of ((=) RestartSuppressed) sid events) (state_of m1 sid)"
      using EvaluateAndRecover_tracks call Recovered "2.prems" by auto
    then have "\<exists>st. tracks p (rm_cooldown_seconds m1) ((fs @ times_of finished sid events) @ times_of finished sid rest)
        ((ss @ times_of ((=) RestartSuppressed) sid events) @ times_of ((=) RestartSuppressed) sid rest) st"
      using "2.prems"(4) by (intro "2.IH" [OF call refl refl Recovered rest(1) "2.prems"(2)]) simp_all
    then show ?thesis
      by (simp only: step rest(2) times_of_append append_assoc)
  qed
qed

text \<open>
  C5. The restart budget. Over any run from a new manager, with any outcomes of the restarts and
  clocks that may go back, the attempts reported for a service are at least the backoff and the
  startup grace period apart, and any \<open>max_restarts + 1\<close> of them in a row span more than the window.
\<close>

theorem restart_budget:
  assumes "recovery_run inputs (new_RecoveryManager capacity cooldown) = Some (events, m)"
    and "IsValidServiceId sid"
    and "list_all (\<lambda>(s, health, alerts, now). 0 \<le> now
          \<and> (sd_id (Definition s) = sid \<longrightarrow> sd_recovery_policy (Definition s) = p)) inputs"
  shows "spaced (restart_gap p) (times_of finished sid events)
    \<and> budgeted (unat (rp_max_restarts p)) (SecondsToMilliseconds (rp_window_seconds p))
        (times_of finished sid events)"
proof -
  have "tracks p (rm_cooldown_seconds (new_RecoveryManager capacity cooldown)) [] []
      (state_of (new_RecoveryManager capacity cooldown) sid)"
    using tracks_init by (simp add: state_of_def new_RecoveryManager_def)
  from recovery_run_tracks [OF assms(1,2) this assms(3)] show ?thesis
    by (auto simp: tracks_def)
qed

text \<open>
  Suppressed recoveries of a service are reported at most once per cooldown, whatever the
  reasons.
\<close>

theorem suppression_cooldown:
  assumes "recovery_run inputs (new_RecoveryManager capacity cooldown) = Some (events, m)"
    and "IsValidServiceId sid" and "cooldown \<noteq> 0"
    and "list_all (\<lambda>(s, health, alerts, now). 0 \<le> now
          \<and> (sd_id (Definition s) = sid \<longrightarrow> sd_recovery_policy (Definition s) = p)) inputs"
  shows "spaced (SecondsToMilliseconds cooldown) (times_of ((=) RestartSuppressed) sid events)"
proof -
  have "tracks p (rm_cooldown_seconds (new_RecoveryManager capacity cooldown)) [] []
      (state_of (new_RecoveryManager capacity cooldown) sid)"
    using tracks_init by (simp add: state_of_def new_RecoveryManager_def)
  from recovery_run_tracks [OF assms(1,2) this assms(4)] show ?thesis
    using assms(3) by (auto simp: tracks_def new_RecoveryManager_def)
qed

section \<open>Witnesses\<close>

definition demo_policy :: RecoveryPolicy where
  "demo_policy = default_recovery_policy\<lparr> rp_enabled := True, rp_restart_on_unhealthy := True,
     rp_max_restarts := 1, rp_window_seconds := 60 \<rparr>"

definition demo_failing :: sys where
  "demo_failing = (initial_sys (new_supervisor (\<lambda>p. p) 5
     (demo_def\<lparr> sd_auto_start := True, sd_recovery_policy := demo_policy \<rparr>)) (\<lambda>n. ''E'') 0 [])
       \<lparr> sy_script := start_items \<rparr>"

definition demo_unhealthy :: HealthStatus where
  "demo_unhealthy = \<lparr> hs_service_id = ''demo'', hs_state = Unhealthy, hs_reason = ''down'',
     hs_consecutive_failures = 3, hs_checked_at_unix_ms = 1000 \<rparr>"

definition demo_inputs :: "evaluation_input list" where
  "demo_inputs = map (\<lambda>t. (demo_failing, demo_unhealthy, [], t)) [1000, 2000, 15000, 70000]"

definition demo_run :: "RecoveryEvent list \<times> recovery_manager" where
  "demo_run = the (recovery_run demo_inputs (new_RecoveryManager 2 10))"

definition demo_recovery :: "(recovery_result \<times> recovery_manager) \<times> sys" where
  "demo_recovery = the (EvaluateAndRecover demo_unhealthy [] 1000 (new_RecoveryManager 2 10) demo_failing)"

lemma demo_recovery_eval:
  "map_option (\<lambda>((r, m), s). case r of Recovered es \<Rightarrow> (map re_type es, sy_script s) | _ \<Rightarrow> ([], []))
     (EvaluateAndRecover demo_unhealthy [] 1000 (new_RecoveryManager 2 10) demo_failing)
     = Some ([RestartStarted, RestartSucceeded], [])"
  by code_simp

lemma demo_recovery_obtain:
  obtains es m' s' where
    "EvaluateAndRecover demo_unhealthy [] 1000 (new_RecoveryManager 2 10) demo_failing = Some ((Recovered es, m'), s')"
    "demo_recovery = ((Recovered es, m'), s')" "map re_type es = [RestartStarted, RestartSucceeded]"
    "s' \<noteq> demo_failing"
proof -
  have "sy_script demo_failing \<noteq> []"
    by (simp add: demo_failing_def start_items_def)
  then show thesis
    using demo_recovery_eval that
    by (fastforce simp: demo_recovery_def split: recovery_result.splits)
qed

lemma demo_run_eval:
  "map_option (\<lambda>(es, m). (times_of finished ''demo'' es, times_of ((=) RestartSuppressed) ''demo'' es))
     (recovery_run demo_inputs (new_RecoveryManager 2 10)) = Some ([1000, 70000], [2000, 15000])"
  by code_simp

lemma demo_run_eq: "recovery_run demo_inputs (new_RecoveryManager 2 10) = Some demo_run"
  using demo_run_eval by (auto simp: demo_run_def)

lemma demo_inputs_ok:
  "list_all (\<lambda>(s, health, alerts, now). 0 \<le> now
     \<and> (sd_id (Definition s) = ''demo'' \<longrightarrow> sd_recovery_policy (Definition s) = demo_policy)) demo_inputs"
  by (simp add: demo_inputs_def demo_failing_def initial_sys_def Definition_def new_supervisor_def)

theorem recovery_acts_only_when_allowed_witness: "GetDesiredState demo_failing = DRunning"
proof -
  obtain es m' s' where
    "EvaluateAndRecover demo_unhealthy [] 1000 (new_RecoveryManager 2 10) demo_failing = Some ((Recovered es, m'), s')"
    "s' \<noteq> demo_failing"
    by (rule demo_recovery_obtain)
  from recovery_acts_only_when_allowed [OF this] show ?thesis
    by (simp add: Let_def)
qed

theorem recovery_log_of_evaluation_witness:
  "map re_type (rm_events (snd (fst demo_recovery))) = [RestartStarted, RestartSucceeded]"
proof -
  obtain es m' s' where
    eval: "EvaluateAndRecover demo_unhealthy [] 1000 (new_RecoveryManager 2 10) demo_failing = Some ((Recovered es, m'), s')"
    and res: "demo_recovery = ((Recovered es, m'), s')" "map re_type es = [RestartStarted, RestartSucceeded]"
    by (rule demo_recovery_obtain)
  have "length es = 2"
    using arg_cong [OF res(2), of length] by simp
  moreover have "length (rm_events (new_RecoveryManager 2 10)) \<le> rm_event_capacity (new_RecoveryManager 2 10)"
    by (simp add: new_RecoveryManager_def)
  from recovery_log_of_evaluation [OF eval this] have
    "rm_events m' = drop (length es - 2) es"
    by (simp add: new_RecoveryManager_def)
  ultimately have "rm_events m' = es" by simp
  then show ?thesis
    unfolding res(1) fst_conv snd_conv by (simp only: res(2))
qed

theorem restart_budget_witness: "budgeted 1 60000 (times_of finished ''demo'' (fst demo_run))"
  using restart_budget [of demo_inputs 2 10 "fst demo_run" "snd demo_run" "''demo''" demo_policy]
    demo_run_eq demo_inputs_ok
  by (simp add: demo_policy_def SecondsToMilliseconds_def IsValidServiceId_def id_char_def char_between_def)

theorem suppression_cooldown_witness:
  "spaced 10000 (times_of ((=) RestartSuppressed) ''demo'' (fst demo_run))"
  using suppression_cooldown [of demo_inputs 2 10 "fst demo_run" "snd demo_run" "''demo''" demo_policy]
    demo_run_eq demo_inputs_ok
  by (simp add: SecondsToMilliseconds_def IsValidServiceId_def id_char_def char_between_def)

end
