(* ===== verification/SupervisorFrame.thy ===== *)
theory SupervisorFrame
  imports SupervisorSpec
begin

text \<open>
  What no operation of a supervisor changes: the definition it was created with. Callers that keep
  supervisors in a table rely on it.
\<close>

definition frame :: "sys \<Rightarrow> sys \<Rightarrow> bool" where
  "frame s s' \<longleftrightarrow> pv_definition (sy_sup s') = pv_definition (sy_sup s)"

lemma frame_refl [simp]: "frame s s"
  by (simp add: frame_def)

lemma frame_trans: "frame s t \<Longrightarrow> frame t u \<Longrightarrow> frame s u"
  by (simp add: frame_def)

lemma frame_updates [simp]:
  "frame (s\<lparr> sy_script := x \<rparr>) t = frame s t" "frame s (t\<lparr> sy_script := x \<rparr>) = frame s t"
  "frame (s\<lparr> sy_fds := f \<rparr>) t = frame s t" "frame s (t\<lparr> sy_fds := f \<rparr>) = frame s t"
  "frame (s\<lparr> sy_observer := ob \<rparr>) t = frame s t" "frame s (t\<lparr> sy_observer := ob \<rparr>) = frame s t"
  "frame (s\<lparr> sy_unreaped := un \<rparr>) t = frame s t" "frame s (t\<lparr> sy_unreaped := un \<rparr>) = frame s t"
  "frame (s\<lparr> sy_children := ch \<rparr>) t = frame s t"
  "frame (send_signal p g s) t = frame s t" "frame s (send_signal p g t) = frame s t"
  "frame (close_fd fd s) t = frame s t" "frame s (close_fd fd t) = frame s t"
  "frame s (t\<lparr> sy_steady_ms := ms \<rparr>) = frame s t" "frame s (t\<lparr> sy_wall_ms := ms \<rparr>) = frame s t"
  by (simp_all add: frame_def close_fd_def)

lemma frame_locked [simp]:
  "pv_definition (f (sy_sup t)) = pv_definition (sy_sup t) \<Longrightarrow> frame s (locked f t) = frame s t"
  "pv_definition (f (sy_sup s)) = pv_definition (sy_sup s) \<Longrightarrow> frame (locked f s) t = frame s t"
  by (simp_all add: frame_def)

lemma frame_transition [simp]:
  "frame s (transition st e t) = frame s t" "frame (transition st e s) t = frame s t"
  by (simp_all add: transition_def)

lemma child_exit_definition [simp]: "pv_definition (child_exit_section p a s v) = pv_definition v"
  using child_exit_section_effect(4) [of v p a s] by (cases "pv_pid v = p") (simp_all add: child_exit_section_def)

lemma frame_event: "frame s (apply_event e s)"
proof (cases e)
  case (ObserverStep a)
  show ?thesis
    by (cases "sy_observer s") (simp_all add: ObserverStep ObserveChildExit_def frame_def Let_def)
qed simp_all

lemma frame_events: "frame s (fold apply_event es s)"
  by (induction es arbitrary: s) (auto intro: frame_trans frame_event)

text \<open>Computations that keep it, by their structure.\<close>

definition keeps :: "sys \<Rightarrow> ('a \<times> sys) option \<Rightarrow> bool" where
  "keeps s m \<longleftrightarrow> (\<forall>r t. m = Some (r, t) \<longrightarrow> frame s t)"

definition keeps1 :: "sys \<Rightarrow> sys option \<Rightarrow> bool" where
  "keeps1 s m \<longleftrightarrow> (\<forall>t. m = Some t \<longrightarrow> frame s t)"

lemma keeps_frame: "frame s t \<Longrightarrow> keeps t m \<Longrightarrow> keeps s m"
  by (auto simp: keeps_def intro: frame_trans)

lemma keeps1_frame: "frame s t \<Longrightarrow> keeps1 t m \<Longrightarrow> keeps1 s m"
  by (auto simp: keeps1_def intro: frame_trans)

lemma keeps_bind [intro!]: "keeps s m \<Longrightarrow> (\<And>a t. keeps t (k (a, t))) \<Longrightarrow> keeps s (Option.bind m k)"
  by (fastforce simp: keeps_def bind_eq_Some_conv intro: frame_trans)

lemma keeps_bind1 [intro!]: "keeps1 s m \<Longrightarrow> (\<And>t. keeps t (k t)) \<Longrightarrow> keeps s (Option.bind m k)"
  by (fastforce simp: keeps_def keeps1_def bind_eq_Some_conv intro: frame_trans)

lemma keeps_None [simp]: "keeps s None" "keeps1 s None"
  by (simp_all add: keeps_def keeps1_def)

lemma keeps_Some [simp]: "keeps s (Some (r, t)) = frame s t" "keeps1 s (Some t) = frame s t"
  by (simp_all add: keeps_def keeps1_def)

lemma keeps_updates [simp]:
  "keeps (s\<lparr> sy_fds := f \<rparr>) m = keeps s m" "keeps (s\<lparr> sy_observer := ob \<rparr>) m = keeps s m"
  "keeps (close_fd fd s) m = keeps s m" "keeps (send_signal p g s) m = keeps s m"
  "keeps (s\<lparr> sy_children := ch, sy_unreaped := un \<rparr>) m = keeps s m"
  "keeps1 (s\<lparr> sy_observer := ob \<rparr>) m1 = keeps1 s m1"
  by (simp_all add: keeps_def keeps1_def frame_def close_fd_def)

lemma keeps_syscall [simp]: "keeps s (syscall s)"
  using frame_events [of s] by (auto simp: keeps_def syscall_def frame_def split: list.splits)
    (metis frame_def frame_events frame_updates(1))

lemma frame_syscall: "syscall s = Some (a, s') \<Longrightarrow> frame s s'"
  using keeps_syscall [of s] by (simp add: keeps_def)

lemma keeps_yield [simp]: "keeps1 s (yield s)"
  using frame_syscall by (auto simp: yield_def keeps1_def)

lemma keeps_Join [simp]: "keeps1 s (JoinObserverThread s)"
  using keeps_yield [of s] by (auto simp: JoinObserverThread_def keeps1_def bind_eq_Some_conv split: if_splits)

lemma keeps_syscall_after [simp]: "keeps s (syscall (send_signal p g s))"
  by (rule keeps_frame [OF _ keeps_syscall]) simp

lemma keeps_Signal [simp]: "keeps s (SignalProcessTree g p sig s)"
  by (simp add: SignalProcessTree_def)

lemma keeps_Move [simp]: "keeps s (MoveDescriptor fd s)"
  by (auto simp: MoveDescriptor_def)

lemma keeps_MovePipe [simp]: "keeps s (MovePipeDescriptorsAboveStandardStreams r w s)"
  by (auto simp: MovePipeDescriptorsAboveStandardStreams_def split: sum.splits)

lemma keeps_SetCloseOnExec [simp]: "keeps s (SetCloseOnExec fd s)"
  by (auto simp: SetCloseOnExec_def)

lemma frame_Reap: "ReapChildBlocking p s = Some s' \<Longrightarrow> frame s s'"
proof (induction p s rule: ReapChildBlocking.induct)
  case (1 p s)
  obtain a s1 where call: "syscall s = Some (a, s1)"
    using "1.prems" by (subst (asm) ReapChildBlocking.simps) (auto split: option.splits)
  show ?case
  proof (cases "ret_of a < 0 \<and> errno_of a = EINTR")
    case True
    then have "frame s1 s'"
      using "1.prems" call by (intro "1.IH" [OF call refl True]) (subst (asm) ReapChildBlocking.simps, simp)
    then show ?thesis using frame_syscall [OF call] by (rule frame_trans [rotated])
  next
    case False
    then show ?thesis
      using "1.prems" call frame_syscall [OF call]
      by (subst (asm) ReapChildBlocking.simps) (auto split: if_splits)
  qed
qed

lemma frame_Confirm: "WaitForExecConfirmation deadline bytes s = Some (r, s') \<Longrightarrow> frame s s'"
proof (induction deadline bytes s arbitrary: r s' rule: WaitForExecConfirmation.induct)
  case (1 deadline bytes s)
  note run = "1.prems" [unfolded WaitForExecConfirmation.simps [of deadline bytes s]]
  show ?case
  proof (cases "deadline - sy_steady_ms s \<le> 0")
    case True
    then show ?thesis using run by simp
  next
    case time: False
    then obtain p s1 where c1: "syscall s = Some (p, s1)"
      using run by (auto split: option.splits)
    note f1 = frame_syscall [OF c1]
    consider "ret_of p = 0 \<or> (ret_of p < 0 \<and> errno_of p \<noteq> EINTR)" | "ret_of p < 0" "errno_of p = EINTR"
      | "0 < ret_of p" by linarith
    then show ?thesis
    proof cases
      case 1
      then show ?thesis using run time c1 f1 by auto
    next
      case 2
      then show ?thesis
        using run time c1 "1.IH"(1) [OF time c1 refl] frame_trans [OF f1] by auto
    next
      case 3
      then obtain a s2 where c2: "syscall s1 = Some (a, s2)"
        using run time c1 by (auto split: option.splits)
      note f2 = frame_trans [OF f1 frame_syscall [OF c2]]
      show ?thesis
        using run time c1 c2 3 f2 "1.IH"(2,3) [OF time c1 refl _ _ c2 refl] frame_trans [OF f2]
        by (auto simp: Let_def split: if_splits)
    qed
  qed
qed

lemma frame_Wait: "WaitForObservedExitAndProcessGroup p g deadline s = Some (b, s') \<Longrightarrow> frame s s'"
proof (induction p g deadline s rule: WaitForObservedExitAndProcessGroup.induct)
  case (1 p g deadline s)
  note run = "1.prems" [unfolded WaitForObservedExitAndProcessGroup.simps [of p g deadline s]]
  let ?seen = "p \<le> 0 \<or> pv_pid (sy_sup s) \<noteq> p"
  obtain a s1 where c1: "syscall s = Some (a, s1)"
    using run by (auto simp: Let_def split: option.splits)
  note f1 = frame_syscall [OF c1]
  show ?case
  proof (cases "(?seen \<and> \<not> group_exists g a) \<or> deadline \<le> sy_steady_ms s1")
    case True
    then show ?thesis using run c1 f1 by (auto simp: Let_def split: if_splits)
  next
    case False
    then obtain b' s2 where c2: "syscall s1 = Some (b', s2)"
      using run c1 by (auto simp: Let_def split: option.splits if_splits)
    have "WaitForObservedExitAndProcessGroup p g deadline s2 = Some (b, s')"
      using run c1 c2 False by (auto simp: Let_def split: if_splits)
    then have "frame s2 s'"
      using "1.IH" [OF refl c1 refl _ _ c2 refl] False by auto
    then show ?thesis
      using frame_trans [OF f1 frame_syscall [OF c2]] frame_trans by blast
  qed
qed

lemma keeps_loops [simp]:
  "keeps1 s (ReapChildBlocking p s)" "keeps s (WaitForExecConfirmation deadline bytes s)"
  "keeps s (WaitForObservedExitAndProcessGroup p g deadline s)"
  using frame_Reap frame_Confirm frame_Wait by (auto simp: keeps_def keeps1_def)

lemma keeps_start_failed [simp]: "keeps s (start_failed e s)"
  by (simp add: start_failed_def)

lemma keeps_Adopt [simp]: "keeps s (AdoptChild p s)"
proof -
  let ?f = "\<lambda>v. v\<lparr> pv_pid := p, pv_pgid := p, pv_start_time := Some (sy_steady_ms s) \<rparr>"
  have step: "keeps (locked ?f s) m \<Longrightarrow> keeps s m" for m :: "op_result op"
    by (rule keeps_frame) simp_all
  have yield: "keeps1 t (yield (t\<lparr> sy_observer := ob \<rparr>))" for t ob
    using keeps_yield [of "t\<lparr> sy_observer := ob \<rparr>"] unfolding keeps1_def by simp
  show ?thesis
    unfolding AdoptChild_def Let_def
    by (rule step) (auto split: answer.splits intro!: yield)
qed

lemma keeps_ConfirmChild [simp]: "keeps s (ConfirmChild p r s)"
proof -
  have adopt: "keeps t (AdoptChild p (close_fd fd t))" for t fd
    by (rule keeps_frame [OF _ keeps_Adopt]) simp
  have sys: "keeps t (syscall (send_signal p g (close_fd fd t)))" for t g fd
    by (rule keeps_frame [OF _ keeps_syscall]) simp
  have reap: "keeps1 t (ReapChildBlocking p (close_fd fd t))" for t fd
    by (rule keeps1_frame [OF _ keeps_loops(1)]) simp
  show ?thesis
    unfolding ConfirmChild_def Let_def by (auto intro!: adopt sys reap split: prod.splits)
qed

lemma keeps_ForkChild [simp]: "keeps s (ForkChild s)"
proof -
  have failed: "keeps t (start_failed e (close_fd a (close_fd b t)))" for t e a b
    by (simp add: start_failed_def)
  have move: "keeps t (MovePipeDescriptorsAboveStandardStreams a b (t\<lparr> sy_fds := fds \<rparr>))" for t a b fds
    by (rule keeps_frame [OF _ keeps_MovePipe]) simp
  have confirm: "keeps t (ConfirmChild p r (close_fd w (t\<lparr> sy_children := ch, sy_unreaped := un \<rparr>)))"
    for t p r w ch un
    by (rule keeps_frame [OF _ keeps_ConfirmChild]) (simp add: frame_def close_fd_def)
  show ?thesis
    unfolding ForkChild_def Let_def
    by (auto intro!: failed move confirm split: answer.splits option.splits prod.splits)
qed

lemma keeps_require: "(\<And>t. keeps t (k t)) \<Longrightarrow> keeps s (require e k s)"
  by (auto simp: require_def split: answer.splits)

lemma keeps_StartOperation [simp]: "keeps s (StartOperation s)"
proof -
  have rest: "keeps t (require e (require e' (require e' ForkChild)) (transition Starting [] t))" for t e e'
    by (rule keeps_frame [of _ "transition Starting [] t"]) (auto intro!: keeps_require)
  have failed: "keeps t (start_failed e (transition Starting [] t))" for t e
    by (simp add: start_failed_def)
  let ?s = "locked (\<lambda>v. v\<lparr> pv_desired := DRunning \<rparr>) s"
  have step: "keeps ?s m \<Longrightarrow> keeps s m" for m :: "op_result op"
    by (rule keeps_frame) simp_all
  show ?thesis
    unfolding StartOperation_def Let_def by (rule step) (auto intro!: rest failed)
qed

lemma keeps_StopOperation [simp]: "keeps s (StopOperation d s)"
proof -
  let ?s = "locked (stop_section d (NowUnixTimeMilliseconds s)) s"
  have step: "keeps ?s m \<Longrightarrow> keeps s m" for m :: "op_result op"
    by (rule keeps_frame) (simp_all add: stop_section_def Let_def)
  have failed: "keeps t (stop_failed p e t)" for t p e
    by (auto simp: stop_failed_def)
  have joined: "keeps t (stop_joined t)" for t
    by (auto simp: stop_joined_def)
  have tree: "keeps t (StopProcessTree p g t)" for t p g
    unfolding StopProcessTree_def by (auto intro!: failed joined)
  show ?thesis
    unfolding StopOperation_def Let_def by (rule step) (auto intro!: tree joined)
qed

lemma keeps_operations [simp]: "keeps s (Start s)" "keeps s (Stop s)" "keeps s (Restart s)"
proof -
  let ?s = "locked (\<lambda>v. v\<lparr> pv_desired := DRunning \<rparr>) s"
  have step: "keeps ?s m \<Longrightarrow> keeps s m" for m :: "op_result op"
    by (rule keeps_frame) simp_all
  show "keeps s (Restart s)"
    unfolding Restart_def by (rule step) auto
qed (simp_all add: Start_def Stop_def)

lemma Definition_operations:
  "Start s = Some (r, s') \<Longrightarrow> Definition s' = Definition s"
  "Stop s = Some (r, s') \<Longrightarrow> Definition s' = Definition s"
  "Restart s = Some (r, s') \<Longrightarrow> Definition s' = Definition s"
  using keeps_operations [of s] by (auto simp: keeps_def frame_def Definition_def)

lemma Definition_other [simp]:
  "Definition (SetDesiredState x s) = Definition s" "Definition (s\<lparr> sy_script := items \<rparr>) = Definition s"
  by (simp_all add: Definition_def SetDesiredState_def)

end
