(* ===== verification/Registry.thy ===== *)
theory Registry
  imports SupervisorFrame
begin

text \<open>
  \<open>ServiceRegistry\<close> (\<open>src/apps/agent/src/service/service_registry.cpp\<close>): the services of the
  configuration file, each with its supervisor, and the two operations over all of them at startup
  and shutdown. Boost's property tree is a parameter of the parser: a record of the queries the code
  makes on a node. The lemmas show that a loaded registry holds valid, distinct definitions in the
  order of the file and nothing when loading fails, that the names of the enumerations round-trip,
  and what starting and stopping all services leaves behind.
\<close>

section \<open>The property tree\<close>

text \<open>
  \<open>pt_child\<close> is \<open>get_child_optional\<close>, \<open>pt_children\<close> the iteration over the key-value pairs,
  \<open>pt_value\<close> is \<open>get_value_optional<std::string>\<close>; the others are \<open>get_optional<T>(name)\<close> for the
  types the code reads. \<open>get<T>(name, value)\<close> is documented as the optional with a default.
\<close>

record 'n ptree_api =
  pt_child :: "'n \<Rightarrow> string \<Rightarrow> 'n option"
  pt_data :: "'n \<Rightarrow> string"
  pt_children :: "'n \<Rightarrow> (string \<times> 'n) list"
  pt_value :: "'n \<Rightarrow> string option"
  pt_string :: "'n \<Rightarrow> string \<Rightarrow> string option"
  pt_bool :: "'n \<Rightarrow> string \<Rightarrow> bool option"
  pt_int :: "'n \<Rightarrow> string \<Rightarrow> int option"
  pt_u32 :: "'n \<Rightarrow> string \<Rightarrow> u32 option"
  pt_double :: "'n \<Rightarrow> string \<Rightarrow> double option"

definition value_or :: "'a option \<Rightarrow> 'a \<Rightarrow> 'a" where
  "value_or x d = (case x of None \<Rightarrow> d | Some v \<Rightarrow> v)"

section \<open>Paths\<close>

text \<open>
  The operations of \<open>std::filesystem::path\<close> on POSIX that \<open>ResolvePath\<close> uses, on the native string.
  \<open>lexically_normal\<close> reads the names between the separators with a stack of the names kept and
  whether a separator stays at the end.
\<close>

definition is_absolute :: "string \<Rightarrow> bool" where
  "is_absolute p \<longleftrightarrow> p \<noteq> [] \<and> hd p = CHR ''/''"

definition path_append :: "string \<Rightarrow> string \<Rightarrow> string" where
  "path_append base p =
     (if is_absolute p then p
      else if base = [] \<or> last base = CHR ''/'' then base @ p
      else base @ CHR ''/'' # p)"

fun split_names :: "string \<Rightarrow> string list" where
  "split_names [] = [[]]"
| "split_names (c # cs) =
     (if c = CHR ''/'' then [] # split_names cs
      else (case split_names cs of [] \<Rightarrow> [[c]] | n # ns \<Rightarrow> (c # n) # ns))"

fun normal_names :: "bool \<Rightarrow> string list \<Rightarrow> bool \<Rightarrow> string list \<Rightarrow> string list \<times> bool" where
  "normal_names absolute stack slash [] = (rev stack, slash)"
| "normal_names absolute stack slash (n # ns) =
     (if n = [] \<or> n = ''.'' then normal_names absolute stack True ns
      else if n = ''..'' then
        (if stack \<noteq> [] \<and> hd stack \<noteq> ''..'' then normal_names absolute (tl stack) True ns
         else if stack = [] \<and> absolute then normal_names absolute stack True ns
         else normal_names absolute (n # stack) False ns)
      else normal_names absolute (n # stack) False ns)"

fun join_with :: "string \<Rightarrow> string list \<Rightarrow> string" where
  "join_with sep [] = []"
| "join_with sep [x] = x"
| "join_with sep (x # y # ys) = x @ sep @ join_with sep (y # ys)"

definition lexically_normal :: "string \<Rightarrow> string" where
  "lexically_normal p =
     (if p = [] then []
      else
        let absolute = is_absolute p;
            (names, slash) = normal_names absolute [] False (split_names p)
        in if names = [] then (if absolute then ''/'' else ''.'')
           else (if absolute then ''/'' else []) @ join_with ''/'' names
             @ (if slash \<and> last names \<noteq> ''..'' then ''/'' else []))"

definition ResolvePath :: "string \<Rightarrow> string \<Rightarrow> string" where
  "ResolvePath base_dir v =
     (if is_absolute v then lexically_normal v else lexically_normal (path_append base_dir v))"

text \<open>\<open>Join\<close> over an output stream.\<close>

definition Join :: "string list \<Rightarrow> string \<Rightarrow> string" where
  "Join values separator =
     concat (map (\<lambda>i. (if 0 < i then separator else []) @ values ! i) [0..<length values])"

section \<open>Parsing a service\<close>

text \<open>A parser answers \<^term>\<open>Inl error\<close> or \<^term>\<open>Inr value\<close>.\<close>

type_synonym 'a parsed = "string + 'a"

fun parsed_bind :: "'a parsed \<Rightarrow> ('a \<Rightarrow> 'b parsed) \<Rightarrow> 'b parsed" where
  "parsed_bind (Inl e) f = Inl e"
| "parsed_bind (Inr x) f = f x"

definition ReadRequiredString :: "'n ptree_api \<Rightarrow> 'n \<Rightarrow> string \<Rightarrow> string \<Rightarrow> string parsed" where
  "ReadRequiredString api object field_name context =
     (case pt_string api object field_name of
        None \<Rightarrow> Inl (context @ ''.'' @ field_name @ '' must be a non-empty string'')
      | Some field \<Rightarrow>
          if field = [] then Inl (context @ ''.'' @ field_name @ '' must be a non-empty string'')
          else Inr field)"

fun read_arg_items :: "'n ptree_api \<Rightarrow> string \<Rightarrow> (string \<times> 'n) list \<Rightarrow> string list \<Rightarrow> string list parsed" where
  "read_arg_items api context [] args = Inr args"
| "read_arg_items api context ((key, item) # items) args =
     (if key \<noteq> [] then Inl (context @ ''.args must be a JSON array'')
      else if pt_children api item \<noteq> [] then Inl (context @ ''.args items must be strings'')
      else (case pt_value api item of
              None \<Rightarrow> Inl (context @ ''.args items must be strings'')
            | Some argument \<Rightarrow> read_arg_items api context items (args @ [argument])))"

definition ReadArgs :: "'n ptree_api \<Rightarrow> 'n \<Rightarrow> string \<Rightarrow> string list parsed" where
  "ReadArgs api object context =
     (case pt_child api object ''args'' of
        None \<Rightarrow> Inr []
      | Some args_node \<Rightarrow>
          if pt_data api args_node \<noteq> [] then Inl (context @ ''.args must be a JSON array'')
          else read_arg_items api context (pt_children api args_node) [])"

definition ReadAutoStart :: "'n ptree_api \<Rightarrow> 'n \<Rightarrow> string \<Rightarrow> bool parsed" where
  "ReadAutoStart api object context =
     (case pt_child api object ''auto_start'' of
        None \<Rightarrow> Inr False
      | Some _ \<Rightarrow>
          (case pt_bool api object ''auto_start'' of
             None \<Rightarrow> Inl (context @ ''.auto_start must be true or false'')
           | Some v \<Rightarrow> Inr v))"

definition ParseHealthCheckType :: "string \<Rightarrow> HealthCheckType option" where
  "ParseHealthCheckType v =
     (if v = ''process'' then Some CheckTypeProcess
      else if v = ''http'' then Some CheckTypeHttp
      else if v = ''tcp'' then Some CheckTypeTcp
      else if v = ''command'' then Some CheckTypeCommand
      else None)"

definition ParseHealthState :: "string \<Rightarrow> HealthState option" where
  "ParseHealthState v =
     (if v = ''healthy'' then Some Healthy
      else if v = ''unhealthy'' then Some Unhealthy
      else if v = ''unknown'' then Some HealthUnknown
      else None)"

definition ParseAlertMetric :: "string \<Rightarrow> AlertMetric option" where
  "ParseAlertMetric v =
     (if v = ''cpu_percent'' then Some CpuPercent
      else if v = ''rss_bytes'' then Some RssBytes
      else if v = ''thread_count'' then Some ThreadCount
      else if v = ''fd_count'' then Some FdCount
      else if v = ''health_state'' then Some HealthStateMetric
      else None)"

definition ParseAlertOperator :: "string \<Rightarrow> AlertOperator option" where
  "ParseAlertOperator v =
     (if v = ''>'' then Some GreaterThan
      else if v = ''>='' then Some GreaterThanOrEqual
      else if v = ''<'' then Some LessThan
      else if v = ''<='' then Some LessThanOrEqual
      else if v = ''=='' \<or> v = ''='' then Some Equal
      else if v = ''!='' then Some NotEqual
      else None)"

definition ParseAlertSeverity :: "string \<Rightarrow> AlertSeverity option" where
  "ParseAlertSeverity v =
     (if v = ''info'' then Some Info
      else if v = ''warning'' then Some Warning
      else if v = ''critical'' then Some Critical
      else None)"

definition ParseHealthCheckDefinition ::
  "'n ptree_api \<Rightarrow> 'n \<Rightarrow> string \<Rightarrow> HealthCheckDefinition parsed" where
  "ParseHealthCheckDefinition api service_node service_id =
     (case pt_child api service_node ''health_check'' of
        None \<Rightarrow> Inr default_health_check
      | Some node \<Rightarrow>
          let type_text = value_or (pt_string api node ''type'') ''process'' in
          case ParseHealthCheckType type_text of
            None \<Rightarrow> Inl (''invalid health_check.type for service '' @ service_id @ '': '' @ type_text)
          | Some type \<Rightarrow>
              let port = value_or (pt_u32 api node ''port'') 0 in
              if 65535 < port then Inl (''health_check.port out of range for service '' @ service_id)
              else
                let definition =
                  \<lparr> hc_enabled = value_or (pt_bool api node ''enabled'') True,
                    hc_type = type,
                    hc_interval_seconds = value_or (pt_u32 api node ''interval_seconds'') 5,
                    hc_timeout_milliseconds = value_or (pt_u32 api node ''timeout_milliseconds'') 1000,
                    hc_failure_threshold = value_or (pt_u32 api node ''failure_threshold'') 3,
                    hc_endpoint = value_or (pt_string api node ''endpoint'') [],
                    hc_host = value_or (pt_string api node ''host'') [],
                    hc_port = ucast port,
                    hc_command = value_or (pt_string api node ''command'') [] \<rparr>
                in if \<not> valid_HealthCheckDefinition definition
                   then Inl (''invalid health_check definition for service '' @ service_id)
                   else Inr definition)"

text \<open>The end of \<open>ParseAlertRule\<close>: the threshold, by the kind of metric, and the final check.\<close>

definition parse_threshold :: "'n ptree_api \<Rightarrow> 'n \<Rightarrow> string \<Rightarrow> AlertRule \<Rightarrow> AlertRule parsed" where
  "parse_threshold api node service_id rule =
     (if ar_metric rule = HealthStateMetric then
        (case pt_string api node ''threshold'' of
           None \<Rightarrow> Inl (''health_state alert rule '' @ ar_id rule @ '' missing threshold for service '' @ service_id)
         | Some text \<Rightarrow>
             (case ParseHealthState text of
                None \<Rightarrow> Inl (''invalid health_state threshold for service '' @ service_id @ '', rule ''
                  @ ar_id rule @ '': '' @ text)
              | Some st \<Rightarrow> Inr (rule\<lparr> ar_health_state_threshold := Some st \<rparr>)))
      else
        (case pt_double api node ''threshold'' of
           None \<Rightarrow> Inl (''numeric alert rule '' @ ar_id rule @ '' missing numeric threshold for service '' @ service_id)
         | Some v \<Rightarrow> Inr (rule\<lparr> ar_numeric_threshold := Some v \<rparr>)))"

definition ParseAlertRule :: "'n ptree_api \<Rightarrow> 'n \<Rightarrow> string \<Rightarrow> AlertRule parsed" where
  "ParseAlertRule api node service_id =
     (case pt_string api node ''id'' of
        None \<Rightarrow> Inl (''alert rule missing id for service '' @ service_id)
      | Some i \<Rightarrow>
     (case pt_string api node ''metric'' of
        None \<Rightarrow> Inl (''alert rule '' @ i @ '' missing metric for service '' @ service_id)
      | Some metric_text \<Rightarrow>
     (case ParseAlertMetric metric_text of
        None \<Rightarrow> Inl (''invalid alert metric for service '' @ service_id @ '', rule '' @ i @ '': '' @ metric_text)
      | Some metric \<Rightarrow>
     (case pt_string api node ''operator'' of
        None \<Rightarrow> Inl (''alert rule '' @ i @ '' missing operator for service '' @ service_id)
      | Some operator_text \<Rightarrow>
     (case ParseAlertOperator operator_text of
        None \<Rightarrow> Inl (''invalid alert operator for service '' @ service_id @ '', rule '' @ i @ '': '' @ operator_text)
      | Some op \<Rightarrow>
     (let severity_text = value_or (pt_string api node ''severity'') ''warning'' in
      case ParseAlertSeverity severity_text of
        None \<Rightarrow> Inl (''invalid alert severity for service '' @ service_id @ '', rule '' @ i @ '': '' @ severity_text)
      | Some severity \<Rightarrow>
          parsed_bind
            (parse_threshold api node service_id
               \<lparr> ar_id = i, ar_service_id = service_id, ar_metric = metric, ar_op = op,
                 ar_numeric_threshold = None, ar_health_state_threshold = None,
                 ar_duration_seconds = value_or (pt_u32 api node ''duration_seconds'') 0,
                 ar_severity = severity,
                 ar_enabled = value_or (pt_bool api node ''enabled'') True,
                 ar_description = value_or (pt_string api node ''description'') [] \<rparr>)
            (\<lambda>rule. if \<not> valid_AlertRule rule
              then Inl (''invalid alert rule definition for service '' @ service_id @ '', rule '' @ ar_id rule)
              else Inr rule)))))))"

fun parse_rules :: "'n ptree_api \<Rightarrow> string \<Rightarrow> (string \<times> 'n) list \<Rightarrow> string set \<Rightarrow> AlertRule list \<Rightarrow> AlertRule list parsed" where
  "parse_rules api service_id [] rule_ids rules = Inr rules"
| "parse_rules api service_id ((key, node) # items) rule_ids rules =
     (case ParseAlertRule api node service_id of
        Inl e \<Rightarrow> Inl e
      | Inr rule \<Rightarrow>
          if ar_id rule \<in> rule_ids
          then Inl (''duplicate alert rule id for service '' @ service_id @ '': '' @ ar_id rule)
          else parse_rules api service_id items (insert (ar_id rule) rule_ids) (rules @ [rule]))"

definition ParseAlertRules :: "'n ptree_api \<Rightarrow> 'n \<Rightarrow> string \<Rightarrow> AlertRule list parsed" where
  "ParseAlertRules api service_node service_id =
     (case pt_child api service_node ''alert_rules'' of
        None \<Rightarrow> Inr []
      | Some node \<Rightarrow> parse_rules api service_id (pt_children api node) {} [])"

definition ParseRecoveryPolicy :: "'n ptree_api \<Rightarrow> 'n \<Rightarrow> string \<Rightarrow> RecoveryPolicy parsed" where
  "ParseRecoveryPolicy api service_node service_id =
     (case pt_child api service_node ''recovery_policy'' of
        None \<Rightarrow> Inr default_recovery_policy
      | Some node \<Rightarrow>
          let policy =
            \<lparr> rp_enabled = value_or (pt_bool api node ''enabled'') False,
              rp_restart_on_unhealthy = value_or (pt_bool api node ''restart_on_unhealthy'') False,
              rp_restart_on_critical_alert = value_or (pt_bool api node ''restart_on_critical_alert'') False,
              rp_max_restarts = value_or (pt_u32 api node ''max_restarts'') 3,
              rp_window_seconds = value_or (pt_u32 api node ''window_seconds'') 300,
              rp_backoff_seconds = value_or (pt_u32 api node ''backoff_seconds'') 10,
              rp_startup_grace_seconds = value_or (pt_u32 api node ''startup_grace_seconds'') 10 \<rparr>
          in if \<not> valid_RecoveryPolicy policy
             then Inl (''invalid recovery_policy definition for service '' @ service_id)
             else Inr policy)"

definition ParseServiceDefinition ::
  "'n ptree_api \<Rightarrow> 'n \<Rightarrow> nat \<Rightarrow> string \<Rightarrow> ServiceDefinition parsed" where
  "ParseServiceDefinition api node index path_base_dir =
     (let context = ''services['' @ nat_to_string index @ '']'' in
      parsed_bind (ReadRequiredString api node ''id'' context) (\<lambda>service_id.
      if \<not> IsValidServiceId service_id then
        Inl (context @ ''.id is invalid: only letters, digits, '' @ quoted ''_'' @ '' and '' @ quoted ''-'' @ '' are allowed'')
      else
      parsed_bind (ReadRequiredString api node ''display_name'' context) (\<lambda>display_name.
      parsed_bind (ReadRequiredString api node ''executable'' context) (\<lambda>executable.
      parsed_bind (ReadRequiredString api node ''work_dir'' context) (\<lambda>work_dir.
      parsed_bind (ReadRequiredString api node ''log_path'' context) (\<lambda>log_path.
      parsed_bind (ReadArgs api node context) (\<lambda>args.
      parsed_bind (ReadAutoStart api node context) (\<lambda>auto_start.
      parsed_bind (ParseHealthCheckDefinition api node service_id) (\<lambda>health_check.
      parsed_bind (ParseAlertRules api node service_id) (\<lambda>alert_rules.
      parsed_bind (ParseRecoveryPolicy api node service_id) (\<lambda>recovery_policy.
        let definition =
          \<lparr> sd_id = service_id, sd_display_name = display_name,
            sd_executable = ResolvePath path_base_dir executable,
            sd_work_dir = ResolvePath path_base_dir work_dir, sd_args = args,
            sd_log_path = ResolvePath path_base_dir log_path, sd_auto_start = auto_start,
            sd_health_check = health_check, sd_alert_rules = alert_rules,
            sd_recovery_policy = recovery_policy \<rparr>
        in if \<not> valid_ServiceDefinition definition then Inl (context @ '' is not structurally valid'')
           else Inr definition)))))))))))"

section \<open>The registry\<close>

text \<open>Each supervisor is the system of its own process, as the constructor leaves it.\<close>

record registry =
  rg_supervisors :: "(string, sys) hash_map"
  rg_order :: "string list"

definition empty_registry :: registry where
  "empty_registry = \<lparr> rg_supervisors = [], rg_order = [] \<rparr>"

definition kSupportedSchemaVersion :: int where "kSupportedSchemaVersion = 1"

text \<open>The loop over the services: the supervisors and their order so far, \<open>create\<close> the constructor.\<close>

fun load_services ::
  "'n ptree_api \<Rightarrow> string \<Rightarrow> (ServiceDefinition \<Rightarrow> sys) \<Rightarrow> (string \<times> 'n) list \<Rightarrow> nat \<Rightarrow> registry \<Rightarrow> registry parsed" where
  "load_services api base create [] index r = Inr r"
| "load_services api base create ((key, node) # items) index r =
     (if key \<noteq> [] then Inl ''services must be a JSON array''
      else (case ParseServiceDefinition api node index base of
        Inl e \<Rightarrow> Inl e
      | Inr definition \<Rightarrow>
          let service_id = sd_id definition in
          if map_of (rg_supervisors r) service_id \<noteq> None then Inl (''duplicate service id: '' @ service_id)
          else load_services api base create items (index + 1)
            \<lparr> rg_supervisors = emplace service_id (create definition) (rg_supervisors r),
              rg_order = rg_order r @ [service_id] \<rparr>))"

text \<open>
  \<open>read_json\<close> answers the message of the exception or the tree. The error and the registry
  afterwards.
\<close>

definition LoadFromFile ::
  "'n ptree_api \<Rightarrow> (string \<Rightarrow> 'n parsed) \<Rightarrow> (ServiceDefinition \<Rightarrow> sys) \<Rightarrow> string \<Rightarrow> string \<Rightarrow> registry
     \<Rightarrow> string option \<times> registry" where
  "LoadFromFile api read_json create config_path path_base_dir r =
     (if rg_supervisors r \<noteq> [] then
        (Some ''ServiceRegistry is already loaded; runtime config reload is not implemented yet'', r)
      else (case read_json config_path of
        Inl what \<Rightarrow> (Some (''failed to parse config file '' @ config_path @ '': '' @ what), r)
      | Inr tree \<Rightarrow>
     (case pt_int api tree ''schema_version'' of
        None \<Rightarrow> (Some ''schema_version is required'', r)
      | Some schema_version \<Rightarrow>
          if schema_version \<noteq> kSupportedSchemaVersion then
            (Some (''unsupported schema_version: '' @ int_to_string schema_version), r)
          else
     (case pt_child api tree ''services'' of
        None \<Rightarrow> (Some ''services array is required'', r)
      | Some services_node \<Rightarrow>
          if pt_children api services_node = [] then (Some ''services array must not be empty'', r)
          else (case load_services api path_base_dir create (pt_children api services_node) 0 empty_registry of
              Inl e \<Rightarrow> (Some e, r)
            | Inr parsed \<Rightarrow> (None, parsed))))))"

definition Find :: "registry \<Rightarrow> string \<Rightarrow> sys option" where
  "Find r service_id = map_of (rg_supervisors r) service_id"

definition Size :: "registry \<Rightarrow> nat" where
  "Size r = length (rg_supervisors r)"

definition summary :: "sys \<Rightarrow> ServiceSummary" where
  "summary s = \<lparr> ss_id = sd_id (Definition s), ss_display_name = sd_display_name (Definition s),
     ss_auto_start = sd_auto_start (Definition s), ss_status = GetStatus s \<rparr>"

definition ListServices :: "registry \<Rightarrow> ServiceSummary list" where
  "ListServices r = List.map_filter (\<lambda>service_id. map_option summary (Find r service_id)) (rg_order r)"

definition put_service :: "string \<Rightarrow> sys \<Rightarrow> registry \<Rightarrow> registry" where
  "put_service service_id s r = r\<lparr> rg_supervisors := AList.update service_id s (rg_supervisors r) \<rparr>"

text \<open>
  The two loops over the services. \<open>act\<close> is the operation on one supervisor, \<^term>\<open>None\<close> for a
  service that is skipped; an exception of the operation ends the loop.
\<close>

fun for_services ::
  "(sys \<Rightarrow> op_result op option) \<Rightarrow> string \<Rightarrow> string list \<Rightarrow> string list \<Rightarrow> registry \<Rightarrow> (op_result \<times> registry) option" where
  "for_services act failed [] failures r =
     Some (if failures = [] then Done True [] else Done False (failed @ Join failures ''; ''), r)"
| "for_services act failed (service_id # ids) failures r =
     (case Find r service_id of
        None \<Rightarrow> for_services act failed ids failures r
      | Some s \<Rightarrow>
          (case act s of
             None \<Rightarrow> for_services act failed ids failures r
           | Some None \<Rightarrow> None
           | Some (Some (Raised what, s)) \<Rightarrow> Some (Raised what, put_service service_id s r)
           | Some (Some (Done succeeded error, s)) \<Rightarrow>
               for_services act failed ids
                 (if succeeded then failures else failures @ [service_id @ '': '' @ error])
                 (put_service service_id s r)))"

definition StartAutoStartServices :: "registry \<Rightarrow> (op_result \<times> registry) option" where
  "StartAutoStartServices r =
     for_services (\<lambda>s. if \<not> sd_auto_start (Definition s) then None else Some (Start s))
       ''auto-start failed: '' (rg_order r) [] r"

definition StopAll :: "registry \<Rightarrow> (op_result \<times> registry) option" where
  "StopAll r = for_services (\<lambda>s. Some (Stop s)) ''stop failed: '' (rev (rg_order r)) [] r"

section \<open>What a loaded registry holds\<close>

lemma parsed_bind_Inr: "parsed_bind p f = Inr y \<longleftrightarrow> (\<exists>x. p = Inr x \<and> f x = Inr y)"
  by (cases p) simp_all

lemma parsed_bind_Inl: "parsed_bind p f = Inl e \<longleftrightarrow> p = Inl e \<or> (\<exists>x. p = Inr x \<and> f x = Inl e)"
  by (cases p) simp_all

text \<open>Every failure has an error text.\<close>

definition explained :: "'a parsed \<Rightarrow> bool" where
  "explained p \<longleftrightarrow> p \<noteq> Inl []"

lemma explained_bind: "explained p \<Longrightarrow> (\<And>x. explained (f x)) \<Longrightarrow> explained (parsed_bind p f)"
  by (auto simp: explained_def parsed_bind_Inl)

lemma explained_simps [simp]: "explained (Inr x)" "explained (Inl e) \<longleftrightarrow> e \<noteq> []"
  by (simp_all add: explained_def)

lemma explained_readers [simp]:
  "explained (ReadRequiredString api n f c)" "explained (ReadAutoStart api n c)"
  "explained (ParseHealthCheckDefinition api n i)" "explained (ParseRecoveryPolicy api n i)"
  "explained (parse_threshold api n i rule)"
  by (simp_all add: ReadRequiredString_def ReadAutoStart_def ParseHealthCheckDefinition_def
      ParseRecoveryPolicy_def parse_threshold_def Let_def split: option.splits)

lemma explained_items [simp]: "explained (read_arg_items api c items args)"
  by (induction items arbitrary: args) (auto split: option.splits)

lemma explained_args [simp]: "explained (ReadArgs api n c)"
  by (simp add: ReadArgs_def split: option.splits)

lemma explained_rule [simp]: "explained (ParseAlertRule api n i)"
  by (auto simp: ParseAlertRule_def Let_def intro!: explained_bind split: option.splits)

lemma explained_rules [simp]: "explained (parse_rules api i items seen rules)"
proof (induction items arbitrary: seen rules)
  case (Cons item items)
  obtain key node where [simp]: "item = (key, node)" by force
  show ?case
    using Cons.IH explained_rule [of api node i] by (auto simp: explained_def Let_def split: sum.splits)
qed simp

lemma explained_ParseAlertRules [simp]: "explained (ParseAlertRules api n i)"
  by (simp add: ParseAlertRules_def split: option.splits)

lemma explained_service [simp]: "explained (ParseServiceDefinition api node index base)"
  unfolding ParseServiceDefinition_def Let_def by (auto intro!: explained_bind)

text \<open>A parsed definition is valid and carries the id of its node.\<close>

lemma ParseServiceDefinition_Inr:
  "ParseServiceDefinition api node index base = Inr d \<Longrightarrow>
     valid_ServiceDefinition d \<and> pt_string api node ''id'' = Some (sd_id d)"
  by (auto simp: ParseServiceDefinition_def Let_def parsed_bind_Inr ReadRequiredString_def
      split: if_splits option.splits)

definition loaded :: "(ServiceDefinition \<Rightarrow> sys) \<Rightarrow> registry \<Rightarrow> bool" where
  "loaded create r \<longleftrightarrow> distinct (rg_order r)
     \<and> (\<exists>ds. list_all valid_ServiceDefinition ds \<and> rg_order r = map sd_id ds
          \<and> rg_supervisors r = map (\<lambda>d. (sd_id d, create d)) ds)"

lemma loaded_empty [simp]: "loaded create empty_registry"
  by (simp add: loaded_def empty_registry_def)

lemma loaded_add:
  assumes "loaded create r" and "valid_ServiceDefinition d" and "map_of (rg_supervisors r) (sd_id d) = None"
  shows "loaded create \<lparr> rg_supervisors = emplace (sd_id d) (create d) (rg_supervisors r),
    rg_order = rg_order r @ [sd_id d] \<rparr>"
proof -
  obtain ds where ds: "distinct (rg_order r)" "list_all valid_ServiceDefinition ds"
    "rg_order r = map sd_id ds" "rg_supervisors r = map (\<lambda>d. (sd_id d, create d)) ds"
    using assms(1) by (auto simp: loaded_def)
  then have "sd_id d \<notin> set (rg_order r)"
    using assms(3) by (auto simp: map_of_eq_None_iff image_image)
  then show ?thesis
    unfolding loaded_def using ds assms(2,3)
    by (intro conjI exI [of _ "ds @ [d]"]) (simp_all add: emplace_def)
qed

lemma load_services_Inr:
  "load_services api base create items index r = Inr r' \<Longrightarrow> loaded create r \<Longrightarrow>
     loaded create r' \<and> map Some (rg_order r') = map Some (rg_order r) @ map (\<lambda>(k, n). pt_string api n ''id'') items"
proof (induction items arbitrary: index r)
  case (Cons item items)
  obtain key node where [simp]: "item = (key, node)" by force
  obtain d where d: "ParseServiceDefinition api node index base = Inr d"
    and fresh: "map_of (rg_supervisors r) (sd_id d) = None"
    and rest: "load_services api base create items (index + 1)
      \<lparr> rg_supervisors = emplace (sd_id d) (create d) (rg_supervisors r), rg_order = rg_order r @ [sd_id d] \<rparr> = Inr r'"
    using Cons.prems(1) by (auto simp: Let_def split: if_splits sum.splits)
  note valid = ParseServiceDefinition_Inr [OF d]
  from Cons.IH [OF rest loaded_add [OF Cons.prems(2) _ fresh]] valid show ?case by simp
qed simp

lemma explained_load [simp]: "explained (load_services api base create items index r)"
proof (induction items arbitrary: index r)
  case (Cons item items)
  obtain key node where [simp]: "item = (key, node)" by force
  show ?case
    using Cons.IH explained_service [of api node index base]
    by (auto simp: explained_def Let_def split: sum.splits)
qed simp

lemma LoadFromFile_cases:
  "case LoadFromFile api read_json create config_path base r of
     (Some e, r') \<Rightarrow> e \<noteq> [] \<and> r' = r
   | (None, r') \<Rightarrow> rg_supervisors r = [] \<and> loaded create r' \<and> 0 < Size r'
       \<and> (\<exists>tree services. read_json config_path = Inr tree \<and> pt_child api tree ''services'' = Some services
            \<and> map Some (rg_order r') = map (\<lambda>(k, n). pt_string api n ''id'') (pt_children api services))"
proof (cases "LoadFromFile api read_json create config_path base r")
  case (Pair e r')
  show ?thesis
  proof (cases e)
    case (Some msg)
    then show ?thesis
      using Pair explained_load [of api base create _ 0 empty_registry]
      by (auto simp: LoadFromFile_def explained_def split: if_splits sum.splits option.splits)
  next
    case None
    then obtain tree services where ok: "rg_supervisors r = []" "read_json config_path = Inr tree"
      "pt_child api tree ''services'' = Some services" "pt_children api services \<noteq> []"
      "load_services api base create (pt_children api services) 0 empty_registry = Inr r'"
      using Pair by (auto simp: LoadFromFile_def split: if_splits sum.splits option.splits)
    from load_services_Inr [OF ok(5) loaded_empty] have res: "loaded create r'"
      "map Some (rg_order r') = map (\<lambda>(k, n). pt_string api n ''id'') (pt_children api services)"
      by (simp_all add: empty_registry_def)
    have "length (rg_order r') = length (pt_children api services)"
      using arg_cong [OF res(2), of length] by simp
    then have "0 < Size r'"
      using res(1) ok(4) by (auto simp: loaded_def Size_def)
    then show ?thesis using Pair None ok res by auto
  qed
qed

lemma LoadFromFile_loaded:
  assumes "LoadFromFile api read_json create config_path base r = (None, r')"
  shows "loaded create r'"
  using LoadFromFile_cases [where api = api and read_json = read_json and create = create
      and config_path = config_path and base = base and r = r]
  by (simp add: assms)

text \<open>
  C27. Loading either explains why it failed and leaves the registry as it was, or fills an empty
  registry: one supervisor per service of the file, in the order of the file, under the id of its
  node, each made from a valid definition, and no id twice.
\<close>

theorem LoadFromFile_result:
  "case LoadFromFile api read_json create config_path base r of
     (Some e, r') \<Rightarrow> e \<noteq> [] \<and> r' = r
   | (None, r') \<Rightarrow> rg_supervisors r = [] \<and> loaded create r' \<and> 0 < Size r'
       \<and> (\<exists>tree services. read_json config_path = Inr tree \<and> pt_child api tree ''services'' = Some services
            \<and> map Some (rg_order r') = map (\<lambda>(k, n). pt_string api n ''id'') (pt_children api services))"
  by (rule LoadFromFile_cases)

section \<open>The loops over all services\<close>

text \<open>
  What the loop computes when nothing is thrown, without the loop: every listed service is acted on
  once, and the failures are listed in order.
\<close>

definition acted :: "(sys \<Rightarrow> op_result op option) \<Rightarrow> sys \<Rightarrow> sys" where
  "acted act s = (case act s of Some (Some (_, s')) \<Rightarrow> s' | _ \<Rightarrow> s)"

definition failure_of :: "(sys \<Rightarrow> op_result op option) \<Rightarrow> registry \<Rightarrow> string \<Rightarrow> string option" where
  "failure_of act r service_id =
     (case Find r service_id of
        None \<Rightarrow> None
      | Some s \<Rightarrow> (case act s of Some (Some (Done False e, _)) \<Rightarrow> Some (service_id @ '': '' @ e) | _ \<Rightarrow> None))"

lemma Find_put_service [simp]:
  "Find (put_service i s r) j = (if j = i then Some s else Find r j)"
  by (simp add: Find_def put_service_def update_conv')

lemma rg_order_put_service [simp]: "rg_order (put_service i s r) = rg_order r"
  by (simp add: put_service_def)

lemma failure_of_put: "i \<notin> set ids \<Longrightarrow>
  List.map_filter (failure_of act (put_service i s r)) ids = List.map_filter (failure_of act r) ids"
proof (induction ids)
  case (Cons j ids)
  have "failure_of act (put_service i s r) j = failure_of act r j"
    using Cons.prems by (auto simp: failure_of_def)
  with Cons show ?case
    by (cases "failure_of act r j") (simp_all add: map_filter_simps)
qed (simp add: map_filter_simps)

lemma for_services_eq:
  "for_services act failed ids failures r = Some (Done ok e, r') \<Longrightarrow> distinct ids \<Longrightarrow>
     rg_order r' = rg_order r
     \<and> (\<forall>i. Find r' i = (if i \<in> set ids then map_option (acted act) (Find r i) else Find r i))
     \<and> (\<forall>i s. i \<in> set ids \<longrightarrow> Find r i = Some s \<longrightarrow>
           act s = None \<or> (\<exists>ok e s'. act s = Some (Some (Done ok e, s'))))
     \<and> (let fs = failures @ List.map_filter (failure_of act r) ids in
          ok = (fs = []) \<and> e = (if fs = [] then [] else failed @ Join fs ''; ''))"
proof (induction ids arbitrary: failures r)
  case Nil
  then show ?case by (auto simp: map_filter_simps Let_def split: if_splits)
next
  case (Cons i ids)
  then have fresh: "i \<notin> set ids" "distinct ids" by simp_all
  show ?case
  proof (cases "Find r i")
    case None
    have "for_services act failed ids failures r = Some (Done ok e, r')"
      using Cons.prems(1) None by simp
    from Cons.IH [OF this fresh(2)] None show ?thesis
      by (auto simp: failure_of_def map_filter_simps Let_def)
  next
    case (Some s)
    show ?thesis
    proof (cases "act s")
      case None
      have "for_services act failed ids failures r = Some (Done ok e, r')"
        using Cons.prems(1) None Some by simp
      from Cons.IH [OF this fresh(2)] None Some show ?thesis
        by (auto simp: failure_of_def acted_def map_filter_simps Let_def)
    next
      case act: (Some m)
      then obtain ok' e' s' where m: "m = Some (Done ok' e', s')"
        using Cons.prems(1) Some by (cases m) (auto split: op_result.splits)
      have "for_services act failed ids (if ok' then failures else failures @ [i @ '': '' @ e'])
          (put_service i s' r) = Some (Done ok e, r')"
        using Cons.prems(1) Some act m by simp
      note IH = Cons.IH [OF this fresh(2), unfolded rg_order_put_service failure_of_put [OF fresh(1)]]
      have "List.map_filter (failure_of act r) (i # ids)
          = (if ok' then [] else [i @ '': '' @ e']) @ List.map_filter (failure_of act r) ids"
        using Some act m by (simp add: map_filter_simps failure_of_def)
      moreover have "Find r' j = (if j \<in> set (i # ids) then map_option (acted act) (Find r j) else Find r j)" for j
        using IH Some act m fresh(1) by (cases "j = i"; cases "j \<in> set ids") (simp_all add: acted_def)
      moreover have "act t = None \<or> (\<exists>ok e s'. act t = Some (Some (Done ok e, s')))" if "j \<in> set (i # ids)" "Find r j = Some t" for j t
        using IH that Some act m fresh(1) by (cases "j = i") simp_all
      ultimately show ?thesis
        using IH by (simp add: Let_def)
    qed
  qed
qed

text \<open>An action whose results all satisfy a property never leaves the loop by an exception.\<close>

lemma for_services_no_raise:
  assumes "for_services act failed ids failures r = Some (res, r')"
    and "\<And>i s what s'. i \<in> set ids \<Longrightarrow> Find r i = Some s \<Longrightarrow> act s \<noteq> Some (Some (Raised what, s'))"
    and "distinct ids"
  shows "\<exists>ok e. res = Done ok e"
  using assms
proof (induction ids arbitrary: failures r)
  case (Cons i ids)
  show ?case
  proof (cases "Find r i")
    case None
    show ?thesis
      by (rule Cons.IH [of failures r]) (use Cons.prems None in auto)
  next
    case (Some s)
    show ?thesis
    proof (cases "act s")
      case None
      show ?thesis
        by (rule Cons.IH [of failures r]) (use Cons.prems Some None in auto)
    next
      case act: (Some m)
      then obtain x s' where m: "m = Some (x, s')"
        using Cons.prems(1) Some by (cases m) auto
      then obtain ok' e' where x: "x = Done ok' e'"
        using Cons.prems(2) Some act by (cases x) auto
      have run: "for_services act failed ids (if ok' then failures else failures @ [i @ '': '' @ e'])
          (put_service i s' r) = Some (res, r')"
        using Cons.prems(1) Some act m x by simp
      show ?thesis
        by (rule Cons.IH [OF run]) (use Cons.prems(2,3) in \<open>auto split: if_splits\<close>)
    qed
  qed
qed auto

text \<open>Every service of the order has a supervisor in a state it can reach.\<close>

definition services_ok :: "(string \<Rightarrow> string) \<Rightarrow> registry \<Rightarrow> bool" where
  "services_ok absolute r \<longleftrightarrow> distinct (rg_order r)
     \<and> (\<forall>i. Find r i \<noteq> None \<longleftrightarrow> i \<in> set (rg_order r))
     \<and> (\<forall>i s. Find r i = Some s \<longrightarrow> sd_id (Definition s) = i \<and> (\<exists>d. reachable absolute d s))"

text \<open>
  C26. Stopping all services, on whatever states their supervisors have reached, throws nothing and
  leaves every service desired stopped. It answers true exactly when no service failed to stop, and
  then no service has a child or a process group; otherwise the error lists the services that did
  not stop, and every other one is gone.
\<close>

theorem StopAll_outcome:
  assumes "services_ok absolute r" and "StopAll r = Some (res, r')"
  shows "services_ok absolute r' \<and> rg_order r' = rg_order r
    \<and> (\<exists>failures. res = (if failures = [] then Done True [] else Done False (''stop failed: '' @ Join failures ''; ''))
        \<and> list_all (\<lambda>i. \<exists>s. Find r' i = Some s \<and> st_desired_state (GetStatus s) = DStopped
            \<and> (st_pid (GetStatus s) = -1 \<and> st_process_group_id (GetStatus s) = -1
               \<or> (\<exists>e. i @ '': '' @ e \<in> set failures))) (rg_order r))"
proof -
  let ?act = "\<lambda>s. Some (Stop s)"
  have ids: "distinct (rev (rg_order r))"
    using assms(1) by (simp add: services_ok_def)
  have reach: "\<exists>d. reachable absolute d s" if "Find r i = Some s" for i s
    using assms(1) that by (auto simp: services_ok_def)
  have "?act s \<noteq> Some (Some (Raised what, s'))" if "Find r i = Some s" for i s what s'
    using reach [OF that] Stop_ends by fastforce
  then obtain ok e where res: "res = Done ok e"
    using for_services_no_raise [OF _ _ ids] assms(2) unfolding StopAll_def by blast
  let ?fs = "List.map_filter (failure_of ?act r) (rev (rg_order r))"
  have eq: "rg_order r' = rg_order r"
    "Find r' i = (if i \<in> set (rg_order r) then map_option (acted ?act) (Find r i) else Find r i)"
    "ok = (?fs = [])" "e = (if ?fs = [] then [] else ''stop failed: '' @ Join ?fs ''; '')"
    "\<forall>i s. i \<in> set (rg_order r) \<longrightarrow> Find r i = Some s \<longrightarrow> (\<exists>ok e s'. Stop s = Some (Done ok e, s'))" for i
    using for_services_eq [OF _ ids, of ?act "''stop failed: ''" "[]" r ok e r'] assms(2) res
    by (simp_all add: StopAll_def Let_def)
  have one: "\<exists>s'. Find r' i = Some s' \<and> sd_id (Definition s') = i \<and> (\<exists>d. reachable absolute d s')
      \<and> st_desired_state (GetStatus s') = DStopped
      \<and> (st_pid (GetStatus s') = -1 \<and> st_process_group_id (GetStatus s') = -1
         \<or> (\<exists>e. i @ '': '' @ e \<in> set ?fs))" if i: "i \<in> set (rg_order r)" for i
  proof -
    obtain s where s: "Find r i = Some s" "sd_id (Definition s) = i"
      using assms(1) i unfolding services_ok_def by fastforce
    obtain d where d: "reachable absolute d s" using reach [OF s(1)] by blast
    obtain x s' where x: "Stop s = Some (x, s')"
      using eq(5) i s(1) by fastforce
    note out = Stop_ends [OF d x]
    have "Find r' i = Some s'"
      using eq(2) i s(1) x by (simp add: acted_def)
    moreover have "reachable absolute d s'"
      using reachable.stop [OF d x] .
    moreover have "sd_id (Definition s') = i"
      using Definition_operations(2) [OF x] s(2) by simp
    moreover have "i @ '': '' @ err \<in> set ?fs" if "x = Done False err" for err
      using i s(1) x that by (force simp: map_filter_def failure_of_def)
    ultimately show ?thesis
      using out by (cases x) (auto split: bool.splits)
  qed
  have none: "Find r' i = None" if "i \<notin> set (rg_order r)" for i
    using eq(2) [of i] that assms(1) by (auto simp: services_ok_def)
  show ?thesis
  proof (intro conjI exI [of _ ?fs])
    show "services_ok absolute r'"
      unfolding services_ok_def
    proof (intro conjI allI impI)
      show "distinct (rg_order r')" using ids eq(1) by simp
      show "(Find r' i \<noteq> None) = (i \<in> set (rg_order r'))" for i
        using one [of i] none [of i] eq(1) by fastforce
      fix i s assume "Find r' i = Some s"
      then have "i \<in> set (rg_order r)" using none [of i] by force
      with one [of i] \<open>Find r' i = Some s\<close> show "sd_id (Definition s) = i" "\<exists>d. reachable absolute d s"
        by auto
    qed
    show "res = (if ?fs = [] then Done True [] else Done False (''stop failed: '' @ Join ?fs ''; ''))"
      using res eq(3,4) by simp
    show "list_all (\<lambda>i. \<exists>s. Find r' i = Some s \<and> st_desired_state (GetStatus s) = DStopped
            \<and> (st_pid (GetStatus s) = -1 \<and> st_process_group_id (GetStatus s) = -1
               \<or> (\<exists>e. i @ '': '' @ e \<in> set ?fs))) (rg_order r)"
      unfolding list_all_iff using one by blast
  qed (rule eq(1))
qed

text \<open>
  Starting the services that start automatically leaves the others exactly as they were. Unless
  an exception of the file system library ends it, every automatic service is then desired running,
  and has a running child (or one that is gone again and recorded as such) or is named in the error;
  the answer is true exactly when none is named.
\<close>

theorem StartAutoStartServices_outcome:
  assumes "services_ok absolute r" and "StartAutoStartServices r = Some (Done ok e, r')"
  shows "rg_order r' = rg_order r
    \<and> (\<exists>failures. (ok \<longleftrightarrow> failures = []) \<and> e = (if failures = [] then [] else ''auto-start failed: '' @ Join failures ''; '')
        \<and> list_all (\<lambda>i. \<exists>s s'. Find r i = Some s \<and> Find r' i = Some s'
            \<and> (if sd_auto_start (Definition s) then
                 st_desired_state (GetStatus s') = DRunning
                 \<and> (0 < st_pid (GetStatus s') \<and> st_state (GetStatus s') = Running
                    \<or> st_pid (GetStatus s') = -1 \<and> st_state (GetStatus s') \<in> {Exited, Failed}
                    \<or> (\<exists>e. i @ '': '' @ e \<in> set failures))
               else s' = s)) (rg_order r))"
proof -
  let ?act = "\<lambda>s. if \<not> sd_auto_start (Definition s) then None else Some (Start s)"
  have ids: "distinct (rg_order r)"
    using assms(1) by (simp add: services_ok_def)
  let ?fs = "List.map_filter (failure_of ?act r) (rg_order r)"
  have run: "for_services ?act ''auto-start failed: '' (rg_order r) [] r = Some (Done ok e, r')"
    using assms(2) unfolding StartAutoStartServices_def .
  note full = for_services_eq [OF run ids, unfolded append_Nil Let_def]
  have eq: "rg_order r' = rg_order r"
    "Find r' i = (if i \<in> set (rg_order r) then map_option (acted ?act) (Find r i) else Find r i)"
    "ok = (?fs = [])" "e = (if ?fs = [] then [] else ''auto-start failed: '' @ Join ?fs ''; '')" for i
    using full by blast+
  have ended: "\<exists>ok e s'. Start s = Some (Done ok e, s')"
    if "i \<in> set (rg_order r)" "Find r i = Some s" "sd_auto_start (Definition s)" for i s
  proof -
    have "?act s = None \<or> (\<exists>ok e s'. ?act s = Some (Some (Done ok e, s')))"
      using full that(1,2) by blast
    then show ?thesis using that(3) by simp
  qed
  have one: "\<exists>s s'. Find r i = Some s \<and> Find r' i = Some s'
      \<and> (if sd_auto_start (Definition s) then
           st_desired_state (GetStatus s') = DRunning
           \<and> (0 < st_pid (GetStatus s') \<and> st_state (GetStatus s') = Running
              \<or> st_pid (GetStatus s') = -1 \<and> st_state (GetStatus s') \<in> {Exited, Failed}
              \<or> (\<exists>e. i @ '': '' @ e \<in> set ?fs))
         else s' = s)" if i: "i \<in> set (rg_order r)" for i
  proof -
    obtain s d where s: "Find r i = Some s" "reachable absolute d s"
      using assms(1) i unfolding services_ok_def by fastforce
    show ?thesis
    proof (cases "sd_auto_start (Definition s)")
      case True
      obtain ok' e' s' where x: "Start s = Some (Done ok' e', s')"
        using ended [OF i s(1) True] by blast
      have new: "Find r' i = Some s'"
        using eq(2) i s(1) x True by (simp add: acted_def)
      have named: "i @ '': '' @ e' \<in> set ?fs" if "\<not> ok'"
        using i s(1) x that True by (force simp: map_filter_def failure_of_def)
      show ?thesis
        using StartOperation_end [OF reachable_quiet [OF s(2)] x [unfolded Start_def]] s(1) new True named
        by (cases ok') (auto simp: start_refused_def start_end_def GetStatus_def Let_def)
    next
      case False
      then have "Find r' i = Some s"
        using eq(2) i s(1) by (simp add: acted_def)
      then show ?thesis using s(1) False by simp
    qed
  qed
  show ?thesis
    using eq(1,3,4) one by (intro conjI exI [of _ ?fs]) (auto simp: list_all_iff)
qed

definition new_service :: "(string \<Rightarrow> string) \<Rightarrow> millis \<Rightarrow> (int \<Rightarrow> string) \<Rightarrow> int \<Rightarrow> ServiceDefinition \<Rightarrow> sys" where
  "new_service absolute now strerror steady d = initial_sys (new_supervisor absolute now d) strerror steady []"

lemma new_service_Definition [simp]:
  "sd_id (Definition (new_service absolute now strerror steady d)) = sd_id d"
  "sd_auto_start (Definition (new_service absolute now strerror steady d)) = sd_auto_start d"
  by (simp_all add: new_service_def initial_sys_def Definition_def new_supervisor_def)

lemma new_service_reachable [simp]: "reachable absolute d (new_service absolute now strerror steady d)"
  unfolding new_service_def by (rule reachable.init)

lemma loaded_Find:
  assumes "loaded create r"
  shows "Find r i = None \<longleftrightarrow> i \<notin> set (rg_order r)"
    and "Find r i = Some s \<Longrightarrow> \<exists>d. valid_ServiceDefinition d \<and> sd_id d = i \<and> s = create d"
proof -
  obtain ds where ds: "list_all valid_ServiceDefinition ds" "rg_order r = map sd_id ds"
    "rg_supervisors r = map (\<lambda>d. (sd_id d, create d)) ds"
    using assms by (auto simp: loaded_def)
  then show "Find r i = None \<longleftrightarrow> i \<notin> set (rg_order r)"
    by (auto simp: Find_def map_of_eq_None_iff image_image)
  assume "Find r i = Some s"
  then have "(i, s) \<in> set (rg_supervisors r)"
    by (auto simp: Find_def dest: map_of_SomeD)
  then show "\<exists>d. valid_ServiceDefinition d \<and> sd_id d = i \<and> s = create d"
    using ds by (auto simp: list_all_iff)
qed

lemma map_filter_all: "\<forall>x \<in> set xs. f x \<noteq> None \<Longrightarrow> List.map_filter f xs = map (\<lambda>x. the (f x)) xs"
  by (induction xs) (auto simp: map_filter_simps)

text \<open>
  What the agent serves right after loading: one summary per configured service, in the order of
  the file, each stopped, without a process, and desired running exactly when it starts
  automatically.
\<close>

theorem loaded_services:
  assumes "LoadFromFile api read_json (new_service absolute now strerror steady) config_path base r = (None, r')"
  shows "services_ok absolute r' \<and> map ss_id (ListServices r') = rg_order r'
    \<and> list_all (\<lambda>ss. st_state (ss_status ss) = Stopped \<and> st_pid (ss_status ss) = -1
        \<and> st_desired_state (ss_status ss) = (if ss_auto_start ss then DRunning else DStopped)) (ListServices r')"
proof -
  let ?create = "new_service absolute now strerror steady"
  have loaded: "loaded ?create r'"
    by (rule LoadFromFile_loaded [OF assms])
  have find: "\<exists>d. Find r' i = Some (?create d) \<and> sd_id d = i" if "i \<in> set (rg_order r')" for i
    using loaded_Find [OF loaded, of i] that by fastforce
  have stopped: "st_state (GetStatus (?create d)) = Stopped" "st_pid (GetStatus (?create d)) = -1"
    "st_desired_state (GetStatus (?create d)) = (if sd_auto_start d then DRunning else DStopped)" for d
    by (simp_all add: new_service_def initial_sys_def new_supervisor_def GetStatus_def Let_def)
  let ?summary = "\<lambda>i. summary (the (Find r' i))"
  have list: "ListServices r' = map ?summary (rg_order r')"
  proof -
    have some: "map_option summary (Find r' i) = Some (?summary i)" if "i \<in> set (rg_order r')" for i
      using find [OF that] by auto
    then have "\<forall>i \<in> set (rg_order r'). map_option summary (Find r' i) \<noteq> None"
      by (metis option.distinct(1))
    from map_filter_all [OF this] have "ListServices r' = map (\<lambda>i. the (map_option summary (Find r' i))) (rg_order r')"
      unfolding ListServices_def .
    also have "\<dots> = map ?summary (rg_order r')"
      by (rule map_cong [OF refl]) (simp only: some option.sel)
    finally show ?thesis .
  qed
  have each: "ss_id (?summary i) = i \<and> st_state (ss_status (?summary i)) = Stopped
      \<and> st_pid (ss_status (?summary i)) = -1
      \<and> st_desired_state (ss_status (?summary i)) = (if ss_auto_start (?summary i) then DRunning else DStopped)"
    if "i \<in> set (rg_order r')" for i
    using find [OF that] stopped by (auto simp: summary_def)
  have "services_ok absolute r'"
    unfolding services_ok_def
  proof (intro conjI allI impI)
    show "distinct (rg_order r')" using loaded by (simp add: loaded_def)
    show "(Find r' i \<noteq> None) = (i \<in> set (rg_order r'))" for i
      using loaded_Find(1) [OF loaded] by simp
    fix i s assume "Find r' i = Some s"
    then obtain d where "sd_id d = i" "s = ?create d"
      using loaded_Find(2) [OF loaded] by blast
    then show "sd_id (Definition s) = i" "\<exists>d. reachable absolute d s"
      using new_service_reachable by (simp, blast)
  qed
  moreover have "map ss_id (ListServices r') = rg_order r'"
    unfolding list map_map using each by (intro map_idI) simp
  moreover have "list_all (\<lambda>ss. st_state (ss_status ss) = Stopped \<and> st_pid (ss_status ss) = -1
        \<and> st_desired_state (ss_status ss) = (if ss_auto_start ss then DRunning else DStopped)) (ListServices r')"
    unfolding list using each by (simp add: list_all_iff)
  ultimately show ?thesis by blast
qed

lemma ParseHealthCheckType_iff: "ParseHealthCheckType text = Some x \<longleftrightarrow> text = ToString_HealthCheckType x"
  by (cases x) (auto simp: ParseHealthCheckType_def)

lemma ParseHealthState_iff: "ParseHealthState text = Some x \<longleftrightarrow> text = ToString_HealthState x"
  by (cases x) (auto simp: ParseHealthState_def)

lemma ParseAlertMetric_iff: "ParseAlertMetric text = Some x \<longleftrightarrow> text = ToString_AlertMetric x"
  by (cases x) (auto simp: ParseAlertMetric_def)

lemma ParseAlertSeverity_iff: "ParseAlertSeverity text = Some x \<longleftrightarrow> text = ToString_AlertSeverity x"
  by (cases x) (auto simp: ParseAlertSeverity_def)

lemma ParseAlertOperator_iff:
  "ParseAlertOperator text = Some x \<longleftrightarrow> text = ToString_AlertOperator x \<or> x = Equal \<and> text = ''=''"
  by (cases x) (auto simp: ParseAlertOperator_def)

text \<open>
  The names the configuration uses are those the API prints: every parser of an enumeration
  reads back what \<open>ToString\<close> writes, and accepts nothing else but \<open>=\<close> for \<open>==\<close>.
\<close>

theorem enumeration_names_roundtrip:
  "ParseHealthCheckType (ToString_HealthCheckType hct) = Some hct
   \<and> ParseHealthState (ToString_HealthState hst) = Some hst
   \<and> ParseAlertMetric (ToString_AlertMetric met) = Some met
   \<and> ParseAlertOperator (ToString_AlertOperator opr) = Some opr
   \<and> ParseAlertSeverity (ToString_AlertSeverity sev) = Some sev
   \<and> (ParseAlertMetric text = Some met \<longleftrightarrow> text = ToString_AlertMetric met)
   \<and> (ParseAlertSeverity text = Some sev \<longleftrightarrow> text = ToString_AlertSeverity sev)
   \<and> (ParseAlertOperator text = Some opr \<longleftrightarrow> text = ToString_AlertOperator opr \<or> opr = Equal \<and> text = ''='')"
  by (simp add: ParseHealthCheckType_iff ParseHealthState_iff ParseAlertMetric_iff ParseAlertSeverity_iff
      ParseAlertOperator_iff)

section \<open>Witnesses\<close>

text \<open>A concrete property tree: the data of a node and its children.\<close>

datatype jtree = JNode string "(string \<times> jtree) list"

fun j_data :: "jtree \<Rightarrow> string" where "j_data (JNode d cs) = d"
fun j_children :: "jtree \<Rightarrow> (string \<times> jtree) list" where "j_children (JNode d cs) = cs"

definition j_child :: "jtree \<Rightarrow> string \<Rightarrow> jtree option" where
  "j_child n name = map_of (j_children n) name"

definition j_get :: "(string \<Rightarrow> 'a option) \<Rightarrow> jtree \<Rightarrow> string \<Rightarrow> 'a option" where
  "j_get conv n name = (case j_child n name of None \<Rightarrow> None | Some c \<Rightarrow> conv (j_data c))"

definition j_api :: "jtree ptree_api" where
  "j_api = \<lparr> pt_child = j_child, pt_data = j_data, pt_children = j_children,
     pt_value = (\<lambda>n. Some (j_data n)), pt_string = j_get Some,
     pt_bool = j_get (\<lambda>t. if t = ''true'' then Some True else if t = ''false'' then Some False else None),
     pt_int = j_get (\<lambda>t. map_option int (from_chars_all 1000 t)),
     pt_u32 = j_get (\<lambda>t. map_option of_nat (from_chars_all 4294967295 t)),
     pt_double = j_get (\<lambda>t. None) \<rparr>"

definition demo_node :: jtree where
  "demo_node = JNode [] [(''id'', JNode ''demo'' []), (''display_name'', JNode ''Demo'' []),
     (''executable'', JNode ''bin/../demo'' []), (''work_dir'', JNode ''.'' []),
     (''log_path'', JNode ''/tmp/demo.log'' []), (''auto_start'', JNode ''true'' []),
     (''args'', JNode [] [([], JNode ''--fast'' [])])]"

definition demo_config :: jtree where
  "demo_config = JNode [] [(''schema_version'', JNode ''1'' []), (''services'', JNode [] [([], demo_node)])]"

definition demo_parsed :: ServiceDefinition where
  "demo_parsed = \<lparr> sd_id = ''demo'', sd_display_name = ''Demo'', sd_executable = ''/opt/demo'',
     sd_work_dir = ''/opt/'', sd_args = [''--fast''], sd_log_path = ''/tmp/demo.log'', sd_auto_start = True,
     sd_health_check = default_health_check, sd_alert_rules = [],
     sd_recovery_policy = default_recovery_policy \<rparr>"

lemma j_get_simp [simp]:
  "j_get conv (JNode d cs) name = (case map_of cs name of None \<Rightarrow> None | Some c \<Rightarrow> conv (j_data c))"
  by (simp add: j_get_def j_child_def)

lemma demo_paths: "ResolvePath ''/opt'' ''bin/../demo'' = ''/opt/demo''" "ResolvePath ''/opt'' ''.'' = ''/opt/''"
  "ResolvePath ''/opt'' ''/tmp/demo.log'' = ''/tmp/demo.log''"
  by (simp_all add: ResolvePath_def lexically_normal_def is_absolute_def path_append_def)

lemma demo_parse: "ParseServiceDefinition j_api demo_node 0 ''/opt'' = Inr demo_parsed"
  by (simp add: ParseServiceDefinition_def demo_node_def j_api_def ReadRequiredString_def ReadArgs_def
      ReadAutoStart_def ParseHealthCheckDefinition_def ParseAlertRules_def ParseRecoveryPolicy_def
      j_child_def demo_paths demo_parsed_def valid_ServiceDefinition_def IsValidServiceId_def id_char_def
      char_between_def valid_HealthCheckDefinition_def default_health_check_def valid_RecoveryPolicy_def
      default_recovery_policy_def Let_def)

definition demo_load :: "string option \<times> registry" where
  "demo_load = LoadFromFile j_api (\<lambda>p. Inr demo_config) (new_service (\<lambda>p. p) 5 (\<lambda>n. ''E'') 0)
     ''services.json'' ''/opt'' empty_registry"

lemma demo_load_eval: "fst demo_load = None \<and> rg_order (snd demo_load) = [''demo'']"
proof -
  have "pt_int j_api demo_config ''schema_version'' = Some 1"
    by (simp add: j_api_def demo_config_def from_chars_all_def is_digit_def digits_value_def digit_val_def)
  moreover have "pt_child j_api demo_config ''services'' = Some (JNode [] [([], demo_node)])"
    by (simp add: j_api_def demo_config_def j_child_def)
  moreover have "pt_children j_api (JNode [] [([], demo_node)]) = [([], demo_node)]"
    by (simp add: j_api_def)
  ultimately show ?thesis
    by (simp add: demo_load_def LoadFromFile_def empty_registry_def kSupportedSchemaVersion_def demo_parse
        Let_def demo_parsed_def)
qed

theorem loaded_services_witness: "map ss_id (ListServices (snd demo_load)) = [''demo'']"
proof -
  have "LoadFromFile j_api (\<lambda>p. Inr demo_config) (new_service (\<lambda>p. p) 5 (\<lambda>n. ''E'') 0)
     ''services.json'' ''/opt'' empty_registry = (None, snd demo_load)"
    using demo_load_eval by (simp add: prod_eq_iff demo_load_def)
  from loaded_services [OF this] demo_load_eval show ?thesis by simp
qed

definition demo_registry :: "sys \<Rightarrow> registry" where
  "demo_registry s = \<lparr> rg_supervisors = [(''demo'', s)], rg_order = [''demo''] \<rparr>"

lemma demo_registry_ok: "reachable absolute d s \<Longrightarrow> sd_id (Definition s) = ''demo'' \<Longrightarrow> services_ok absolute (demo_registry s)"
  by (auto simp: services_ok_def demo_registry_def Find_def)

definition demo_auto :: sys where
  "demo_auto = (new_service (\<lambda>p. p) 5 (\<lambda>n. ''E'') 0 (demo_def\<lparr> sd_auto_start := True \<rparr>))
     \<lparr> sy_script := start_items \<rparr>"

lemma demo_auto_ok: "reachable (\<lambda>p. p) (demo_def\<lparr> sd_auto_start := True \<rparr>) demo_auto"
  "sd_id (Definition demo_auto) = ''demo''"
  unfolding demo_auto_def by (rule reachable.script [OF new_service_reachable]) (simp add: demo_def_def)

theorem StopAll_outcome_witness:
  "\<exists>r'. StopAll (demo_registry (demo_running\<lparr> sy_script := stop_items \<rparr>)) = Some (Done True [], r')
    \<and> map_option (\<lambda>s. st_pid (GetStatus s)) (Find r' ''demo'') = Some (-1)"
proof -
  let ?r = "demo_registry (demo_running\<lparr> sy_script := stop_items \<rparr>)"
  have "map_option fst (StopAll ?r) = Some (Done True [])"
    by (simp add: StopAll_def demo_registry_def Find_def demo_Stop)
  then obtain r' where run: "StopAll ?r = Some (Done True [], r')" by auto
  have "Definition demo_running = Definition (demo_sys start_items)"
    by (rule Definition_operations(1) [OF demo_Start])
  then have "sd_id (Definition demo_running) = ''demo''"
    by (simp add: demo_sys_def initial_sys_def Definition_def new_supervisor_def demo_def_def)
  then have "services_ok (\<lambda>p. p) ?r"
    by (intro demo_registry_ok [OF reachable.script [OF demo_running_reachable]]) simp
  from StopAll_outcome [OF this run] run show ?thesis
    by (auto simp: demo_registry_def split: if_splits)
qed

theorem StartAutoStartServices_outcome_witness:
  "\<exists>r'. StartAutoStartServices (demo_registry demo_auto) = Some (Done True [], r')
    \<and> map_option (\<lambda>s. st_desired_state (GetStatus s)) (Find r' ''demo'') = Some DRunning"
proof -
  have auto: "sd_auto_start (Definition demo_auto)"
    by (simp add: demo_auto_def)
  have "map_option fst (Start demo_auto) = Some (Done True [])"
    by code_simp
  then obtain s' where "Start demo_auto = Some (Done True [], s')" by auto
  then obtain r' where run: "StartAutoStartServices (demo_registry demo_auto) = Some (Done True [], r')"
    using auto by (simp add: StartAutoStartServices_def demo_registry_def Find_def)
  from StartAutoStartServices_outcome [OF demo_registry_ok [OF demo_auto_ok] run] run auto show ?thesis
    by (auto simp: demo_registry_def Find_def)
qed

end
