(* ===== verification/Metrics.thy ===== *)
theory Metrics
  imports Registry
begin

text \<open>
  \<open>MetricsSampler\<close> and \<open>MetricsCollector\<close> (\<open>src/apps/agent/src/metrics/\<close>): the CPU share of a
  process from two raw samples, and the collection over all services with the latest metrics and a
  bounded history of each. The platform reader is the answers it gives during a collection. The
  rounding of \<open>long double\<close> and of the conversion to \<open>double\<close> are parameters with two laws. The
  lemmas bound the CPU share and say when there is one, and what the history of a service holds
  after any sequence of collections.
\<close>

section \<open>The sampler\<close>

record ProcessRawStats =
  prs_cpu_time_ns :: u64
  prs_identity :: u64
  prs_rss_bytes :: u64
  prs_thread_count :: u64
  prs_fd_count :: u64

record SystemCapacitySnapshot =
  scs_monotonic_time_ns :: u64
  scs_logical_cpu_count :: u32

record CpuBaseline =
  cb_pid :: int
  cb_identity :: u64
  cb_cpu_time_ns :: u64
  cb_monotonic_time_ns :: u64
  cb_logical_cpu_count :: u32

type_synonym sampler = "string \<rightharpoonup> CpuBaseline"

text \<open>
  Arithmetic of \<open>long double\<close>: the exact result, rounded. Operands that are not finite give a NaN
  here; the code tests \<open>isfinite\<close> before it looks at the value.
\<close>

type_synonym rounding = "rat \<Rightarrow> double"

fun ld_mul :: "rounding \<Rightarrow> double \<Rightarrow> double \<Rightarrow> double" where
  "ld_mul rnd (Fin a) (Fin b) = rnd (a * b)"
| "ld_mul rnd _ _ = NaN"

fun ld_div :: "rounding \<Rightarrow> double \<Rightarrow> double \<Rightarrow> double" where
  "ld_div rnd (Fin a) (Fin b) = rnd (a / b)"
| "ld_div rnd _ _ = NaN"

fun ld_cast :: "rounding \<Rightarrow> double \<Rightarrow> double" where
  "ld_cast rnd (Fin a) = rnd a"
| "ld_cast rnd x = x"

definition ld_of_nat :: "rounding \<Rightarrow> nat \<Rightarrow> double" where
  "ld_of_nat rnd n = rnd (of_nat n)"

definition cpu_share :: "rounding \<Rightarrow> rounding \<Rightarrow> u64 \<Rightarrow> u64 \<Rightarrow> u32 \<Rightarrow> double option" where
  "cpu_share ld dbl cpu_delta wall_delta cpus =
     (let capacity = ld_mul ld (ld_of_nat ld (unat wall_delta)) (ld_of_nat ld (unat cpus)) in
      if \<not> isfinite capacity \<or> double_le capacity (Fin 0) then None
      else
        let percent = ld_div ld (ld_mul ld (ld_of_nat ld (unat cpu_delta)) (Fin 100)) capacity in
        if \<not> isfinite percent \<or> double_less percent (Fin 0) \<or> double_less (Fin 100) percent then None
        else Some (ld_cast dbl percent))"

definition Sample ::
  "rounding \<Rightarrow> rounding \<Rightarrow> string \<Rightarrow> int \<Rightarrow> ProcessRawStats \<Rightarrow> SystemCapacitySnapshot \<Rightarrow> millis \<Rightarrow> sampler
     \<Rightarrow> ServiceMetrics parsed \<times> sampler" where
  "Sample ld dbl service_id pid stats capacity now baselines =
     (if \<not> IsValidServiceId service_id then (Inl (''invalid service_id: '' @ service_id), baselines)
      else if pid \<le> 0 then (Inl ''pid must be greater than zero'', baselines)
      else if now < 0 then (Inl ''collected_at_unix_ms must not be negative'', baselines)
      else if scs_monotonic_time_ns capacity = 0 then
        (Inl ''monotonic_time_ns must be greater than zero'', baselines)
      else if scs_logical_cpu_count capacity = 0 then
        (Inl ''logical_cpu_count must be greater than zero'', baselines)
      else
        let metrics = \<lparr> sm_service_id = service_id, sm_available = True, sm_pid = pid,
              sm_collected_at_unix_ms = now, sm_cpu_percent = None,
              sm_rss_bytes = Some (prs_rss_bytes stats), sm_thread_count = Some (prs_thread_count stats),
              sm_fd_count = Some (prs_fd_count stats) \<rparr>;
            current = \<lparr> cb_pid = pid, cb_identity = prs_identity stats,
              cb_cpu_time_ns = prs_cpu_time_ns stats,
              cb_monotonic_time_ns = scs_monotonic_time_ns capacity,
              cb_logical_cpu_count = scs_logical_cpu_count capacity \<rparr>;
            baselines' = baselines(service_id \<mapsto> current)
        in case baselines service_id of
             None \<Rightarrow> (Inr metrics, baselines')
           | Some previous \<Rightarrow>
               if (cb_pid previous \<noteq> pid \<or> cb_identity previous \<noteq> prs_identity stats)
                  \<or> cb_logical_cpu_count previous \<noteq> scs_logical_cpu_count capacity
                  \<or> prs_cpu_time_ns stats < cb_cpu_time_ns previous
                  \<or> scs_monotonic_time_ns capacity \<le> cb_monotonic_time_ns previous
               then (Inr metrics, baselines')
               else
                 (Inr (metrics\<lparr> sm_cpu_percent := cpu_share ld dbl
                     (prs_cpu_time_ns stats - cb_cpu_time_ns previous)
                     (scs_monotonic_time_ns capacity - cb_monotonic_time_ns previous)
                     (scs_logical_cpu_count capacity) \<rparr>), baselines'))"

definition sampler_ForgetService :: "string \<Rightarrow> sampler \<Rightarrow> sampler" where
  "sampler_ForgetService service_id baselines = baselines(service_id := None)"

definition sampler_Clear :: "sampler \<Rightarrow> sampler" where
  "sampler_Clear baselines = Map.empty"

interpretation sampler_store:
  service_store sampler_ForgetService "\<lambda>m sid. m sid" None "\<lambda>_. True"
  by unfold_locales (simp_all add: sampler_ForgetService_def)

section \<open>The worker thread\<close>

text \<open>
  \<open>MetricsCollector\<close> and \<open>HealthMonitor\<close> start and stop their thread in the same way: \<open>joinable\<close>
  stands for the \<open>std::jthread\<close>, \<open>stop_requested\<close> for the atomic flag. The thread may fail to start
  with a message. A stop from the worker itself cannot join and leaves it to the owner.
\<close>

record worker =
  wk_joinable :: bool
  wk_stop_requested :: bool

definition new_worker :: worker where
  "new_worker = \<lparr> wk_joinable = False, wk_stop_requested = False \<rparr>"

definition start_worker :: "string \<Rightarrow> string option \<Rightarrow> worker \<Rightarrow> string option \<times> worker" where
  "start_worker name thread_error w =
     (if wk_joinable w then (Some (name @ '' is already running''), w)
      else
        let w = w\<lparr> wk_stop_requested := False \<rparr> in
        case thread_error of
          Some what \<Rightarrow> (Some (''failed to start '' @ name @ '': '' @ what), w)
        | None \<Rightarrow> (None, w\<lparr> wk_joinable := True \<rparr>))"

definition stop_worker :: "bool \<Rightarrow> worker \<Rightarrow> worker" where
  "stop_worker on_worker w =
     (let w = w\<lparr> wk_stop_requested := True \<rparr> in
      if \<not> wk_joinable w then w
      else if on_worker then w
      else w\<lparr> wk_joinable := False \<rparr>)"

definition worker_running :: "worker \<Rightarrow> bool" where
  "worker_running w \<longleftrightarrow> wk_joinable w \<and> \<not> wk_stop_requested w"

section \<open>The collector\<close>

record collector =
  mc_interval_ms :: int
  mc_history_capacity :: nat
  mc_has_reader :: bool
  mc_sampler :: sampler
  mc_latest :: "(string, ServiceMetrics) hash_map"
  mc_history :: "(string, ServiceMetrics list) hash_map"
  mc_worker :: worker

definition new_collector :: "int \<Rightarrow> nat \<Rightarrow> bool \<Rightarrow> collector" where
  "new_collector interval capacity has_reader =
     \<lparr> mc_interval_ms = interval, mc_history_capacity = capacity, mc_has_reader = has_reader,
       mc_sampler = Map.empty, mc_latest = [], mc_history = [], mc_worker = new_worker \<rparr>"

definition collector_Start :: "string option \<Rightarrow> collector \<Rightarrow> string option \<times> collector" where
  "collector_Start thread_error c =
     (if mc_interval_ms c \<le> 0 then (Some ''metrics collection interval must be greater than zero'', c)
      else if mc_history_capacity c = 0 then
        (Some ''metrics history capacity must be greater than zero'', c)
      else if \<not> mc_has_reader c then (Some ''platform metrics reader is not available'', c)
      else
        let (e, w) = start_worker ''metrics collector'' thread_error (mc_worker c)
        in (e, c\<lparr> mc_worker := w \<rparr>))"

definition collector_Stop :: "bool \<Rightarrow> collector \<Rightarrow> collector" where
  "collector_Stop on_worker c = c\<lparr> mc_worker := stop_worker on_worker (mc_worker c) \<rparr>"

definition collector_IsRunning :: "collector \<Rightarrow> bool" where
  "collector_IsRunning c = worker_running (mc_worker c)"

definition GetLatest :: "string \<Rightarrow> collector \<Rightarrow> ServiceMetrics option" where
  "GetLatest service_id c = map_of (mc_latest c) service_id"

definition GetHistory :: "string \<Rightarrow> nat \<Rightarrow> collector \<Rightarrow> ServiceMetrics list option" where
  "GetHistory service_id limit c =
     (case map_of (mc_history c) service_id of
        None \<Rightarrow> None
      | Some history \<Rightarrow>
          if limit = 0 \<or> history = [] then Some []
          else
            let start_index = (if limit < length history then length history - limit else 0)
            in Some (map (\<lambda>i. history ! i) [start_index..<length history]))"

definition MakeUnavailableMetrics :: "string \<Rightarrow> int \<Rightarrow> millis \<Rightarrow> ServiceMetrics" where
  "MakeUnavailableMetrics service_id pid now =
     \<lparr> sm_service_id = service_id, sm_available = False, sm_pid = pid, sm_collected_at_unix_ms = now,
       sm_cpu_percent = None, sm_rss_bytes = None, sm_thread_count = None, sm_fd_count = None \<rparr>"

definition service_running :: "ServiceSummary \<Rightarrow> bool" where
  "service_running ss \<longleftrightarrow> st_state (ss_status ss) = Running \<and> 0 < st_pid (ss_status ss)"

text \<open>One service of the loop of \<open>CollectOnce\<close>: its metrics and the sampler.\<close>

definition collect_service ::
  "rounding \<Rightarrow> rounding \<Rightarrow> (int \<Rightarrow> ProcessRawStats option) \<Rightarrow> SystemCapacitySnapshot option \<Rightarrow> millis
     \<Rightarrow> ServiceSummary \<Rightarrow> sampler \<Rightarrow> ServiceMetrics \<times> sampler" where
  "collect_service ld dbl read_stats system_capacity now service sampler =
     (let service_id = ss_id service;
          pid = st_pid (ss_status service);
          unavailable = (\<lambda>p. (MakeUnavailableMetrics service_id p now, sampler_ForgetService service_id sampler))
      in if \<not> service_running service then unavailable (-1)
         else case system_capacity of
           None \<Rightarrow> unavailable pid
         | Some capacity \<Rightarrow>
             (case read_stats pid of
                None \<Rightarrow> unavailable pid
              | Some stats \<Rightarrow>
                  (case Sample ld dbl service_id pid stats capacity now sampler of
                     (Inl e, sampler) \<Rightarrow>
                       (MakeUnavailableMetrics service_id pid now, sampler_ForgetService service_id sampler)
                   | (Inr metrics, sampler) \<Rightarrow> (metrics, sampler))))"

fun collect_services ::
  "rounding \<Rightarrow> rounding \<Rightarrow> (int \<Rightarrow> ProcessRawStats option) \<Rightarrow> SystemCapacitySnapshot option \<Rightarrow> millis
     \<Rightarrow> ServiceSummary list \<Rightarrow> sampler \<Rightarrow> (string, ServiceMetrics) hash_map
     \<Rightarrow> (string, ServiceMetrics) hash_map \<times> sampler" where
  "collect_services ld dbl read_stats capacity now [] sampler next_metrics = (next_metrics, sampler)"
| "collect_services ld dbl read_stats capacity now (service # services) sampler next_metrics =
     (let (metrics, sampler) = collect_service ld dbl read_stats capacity now service sampler
      in collect_services ld dbl read_stats capacity now services sampler
           (emplace (ss_id service) metrics next_metrics))"

definition push_history ::
  "nat \<Rightarrow> string \<times> ServiceMetrics \<Rightarrow> (string, ServiceMetrics list) hash_map \<Rightarrow> (string, ServiceMetrics list) hash_map" where
  "push_history capacity kv h =
     AList.update (fst kv)
       (push_bounded capacity (snd kv) (case map_of h (fst kv) of None \<Rightarrow> [] | Some xs \<Rightarrow> xs)) h"

text \<open>The block under \<open>metrics_mutex_\<close>.\<close>

definition store_metrics :: "(string, ServiceMetrics) hash_map \<Rightarrow> collector \<Rightarrow> collector" where
  "store_metrics next_metrics c =
     c\<lparr> mc_history := erase_if (\<lambda>kv. map_of next_metrics (fst kv) = None)
          (fold (push_history (mc_history_capacity c)) next_metrics (mc_history c)),
        mc_latest := next_metrics \<rparr>"

text \<open>
  What one collection sees: the services listed, the clock, and the answers of the reader. The
  capacity is read only when a service runs.
\<close>

record collection =
  cn_services :: "ServiceSummary list"
  cn_now :: millis
  cn_capacity :: "SystemCapacitySnapshot option"
  cn_stats :: "int \<Rightarrow> ProcessRawStats option"

definition CollectOnce :: "rounding \<Rightarrow> rounding \<Rightarrow> collection \<Rightarrow> collector \<Rightarrow> collector" where
  "CollectOnce ld dbl cn c =
     (let has_running_service = list_ex service_running (cn_services cn);
          system_capacity = (if has_running_service then cn_capacity cn else None);
          (next_metrics, sampler) = collect_services ld dbl (cn_stats cn) system_capacity (cn_now cn)
            (cn_services cn) (mc_sampler c) []
      in store_metrics next_metrics (c\<lparr> mc_sampler := sampler \<rparr>))"

text \<open>The thread: what it sees at the head of each turn is whether a stop was requested.\<close>

fun collector_Run :: "rounding \<Rightarrow> rounding \<Rightarrow> (bool \<times> collection) list \<Rightarrow> collector \<Rightarrow> collector" where
  "collector_Run ld dbl [] c = c"
| "collector_Run ld dbl ((stop, cn) # turns) c =
     (if stop then c else collector_Run ld dbl turns (CollectOnce ld dbl cn c))"

section \<open>Samples\<close>

text \<open>What the bounds need of the conversion to \<open>double\<close>: monotone, exact at 0 and 100.\<close>

definition rounds_percent :: "rounding \<Rightarrow> bool" where
  "rounds_percent dbl \<longleftrightarrow> (\<forall>a b. a \<le> b \<longrightarrow> double_le (dbl a) (dbl b)) \<and> dbl 0 = Fin 0 \<and> dbl 100 = Fin 100"

definition percent_ok :: "double option \<Rightarrow> bool" where
  "percent_ok p = (case p of None \<Rightarrow> True
     | Some c \<Rightarrow> isfinite c \<and> \<not> double_less c (Fin 0) \<and> \<not> double_less (Fin 100) c)"

lemma cast_percent:
  assumes "rounds_percent dbl" and "isfinite p" "\<not> double_less p (Fin 0)" "\<not> double_less (Fin 100) p"
  shows "percent_ok (Some (ld_cast dbl p))"
proof -
  obtain q where q: "p = Fin q" "0 \<le> q" "q \<le> 100"
    using assms(2-4) by (cases p) auto
  have mono: "\<And>a b. a \<le> b \<Longrightarrow> double_le (dbl a) (dbl b)" and exact: "dbl 0 = Fin 0" "dbl 100 = Fin 100"
    using assms(1) by (simp_all add: rounds_percent_def)
  have "double_le (Fin 0) (dbl q)" "double_le (dbl q) (Fin 100)"
    using mono [OF q(2)] mono [OF q(3)] by (simp_all add: exact)
  then show ?thesis
    unfolding q(1) percent_ok_def by (cases "dbl q") (auto simp: double_le_def)
qed

lemma cpu_share_ok: "rounds_percent dbl \<Longrightarrow> percent_ok (cpu_share ld dbl cpu wall cpus)"
  unfolding cpu_share_def Let_def by (auto intro: cast_percent) (simp_all add: percent_ok_def)

lemma percent_ok_None [simp]: "percent_ok None"
  by (simp add: percent_ok_def)

lemma valid_available_metrics:
  assumes "IsValidServiceId (sm_service_id m)" "0 < sm_pid m" "0 \<le> sm_collected_at_unix_ms m"
    "percent_ok (sm_cpu_percent m)" "sm_available m"
    "sm_rss_bytes m \<noteq> None" "sm_thread_count m \<noteq> None" "sm_fd_count m \<noteq> None"
  shows "valid_ServiceMetrics m"
  using assms by (auto simp: valid_ServiceMetrics_def percent_ok_def split: option.splits)

definition comparable :: "CpuBaseline \<Rightarrow> int \<Rightarrow> ProcessRawStats \<Rightarrow> SystemCapacitySnapshot \<Rightarrow> bool" where
  "comparable previous pid stats capacity \<longleftrightarrow> cb_pid previous = pid \<and> cb_identity previous = prs_identity stats
     \<and> cb_logical_cpu_count previous = scs_logical_cpu_count capacity
     \<and> cb_cpu_time_ns previous \<le> prs_cpu_time_ns stats
     \<and> cb_monotonic_time_ns previous < scs_monotonic_time_ns capacity"

lemma Sample_Inr:
  assumes "Sample ld dbl sid pid stats capacity now bs = (Inr m, bs')"
  shows "IsValidServiceId sid \<and> 0 < pid \<and> 0 \<le> now \<and> sm_service_id m = sid \<and> sm_available m \<and> sm_pid m = pid
    \<and> sm_collected_at_unix_ms m = now \<and> sm_rss_bytes m = Some (prs_rss_bytes stats)
    \<and> sm_thread_count m = Some (prs_thread_count stats) \<and> sm_fd_count m = Some (prs_fd_count stats)
    \<and> sm_cpu_percent m = (case bs sid of None \<Rightarrow> None | Some previous \<Rightarrow>
        if comparable previous pid stats capacity then
          cpu_share ld dbl (prs_cpu_time_ns stats - cb_cpu_time_ns previous)
            (scs_monotonic_time_ns capacity - cb_monotonic_time_ns previous) (scs_logical_cpu_count capacity)
        else None)"
  using assms
  by (auto simp: Sample_def Let_def comparable_def not_less not_le split: if_splits option.splits)

lemma Sample_percent:
  assumes "Sample ld dbl sid pid stats capacity now bs = (Inr m, bs')" and "rounds_percent dbl"
  shows "valid_ServiceMetrics m"
proof -
  have "percent_ok (sm_cpu_percent m)"
    using Sample_Inr [OF assms(1)] cpu_share_ok [OF assms(2)] by (auto split: option.splits)
  then show ?thesis
    using Sample_Inr [OF assms(1)] by (intro valid_available_metrics) auto
qed

text \<open>
  C32. A sample that succeeds is structurally valid, so a CPU share lies between 0 and 100, whatever
  the counters are; and there is a share only against a baseline of the same process (pid and start
  time) and the same number of processors, with neither counter running backwards.
\<close>

theorem Sample_cpu_bounds:
  assumes "Sample ld dbl sid pid stats capacity now bs = (Inr m, bs')" and "rounds_percent dbl"
  shows "valid_ServiceMetrics m \<and> percent_ok (sm_cpu_percent m)
    \<and> (sm_cpu_percent m = None \<or> (\<exists>previous. bs sid = Some previous \<and> comparable previous pid stats capacity))"
proof (intro conjI)
  show "percent_ok (sm_cpu_percent m)"
    using Sample_Inr [OF assms(1)] cpu_share_ok [OF assms(2)] by (auto split: option.splits)
  show "sm_cpu_percent m = None \<or> (\<exists>previous. bs sid = Some previous \<and> comparable previous pid stats capacity)"
    using Sample_Inr [OF assms(1)] by (auto split: option.splits if_splits)
qed (rule Sample_percent [OF assms])

section \<open>One collection\<close>

text \<open>What the metrics of a listed service look like.\<close>

definition metrics_ok :: "millis \<Rightarrow> ServiceSummary \<Rightarrow> ServiceMetrics \<Rightarrow> bool" where
  "metrics_ok now service m \<longleftrightarrow> sm_service_id m = ss_id service \<and> sm_collected_at_unix_ms m = now
     \<and> (sm_available m \<longrightarrow> service_running service)
     \<and> sm_pid m = (if service_running service then st_pid (ss_status service) else -1)"

lemma MakeUnavailable_valid [simp]:
  "valid_ServiceMetrics (MakeUnavailableMetrics sid pid now) \<longleftrightarrow> IsValidServiceId sid \<and> -1 \<le> pid \<and> 0 \<le> now"
  by (auto simp: MakeUnavailableMetrics_def valid_ServiceMetrics_def HasAnyMetricValue_def)

lemma MakeUnavailable_ok [simp]:
  "metrics_ok now service (MakeUnavailableMetrics (ss_id service) pid now)
     \<longleftrightarrow> pid = (if service_running service then st_pid (ss_status service) else -1)"
  by (auto simp: metrics_ok_def MakeUnavailableMetrics_def)

lemma collect_service_ok:
  assumes "collect_service ld dbl read cap now service sampler = (m, sampler')"
  shows "metrics_ok now service m"
    "rounds_percent dbl \<Longrightarrow> IsValidServiceId (ss_id service) \<Longrightarrow> 0 \<le> now \<Longrightarrow> valid_ServiceMetrics m"
proof -
  have "metrics_ok now service m
    \<and> (rounds_percent dbl \<longrightarrow> IsValidServiceId (ss_id service) \<longrightarrow> 0 \<le> now \<longrightarrow> valid_ServiceMetrics m)"
  proof (cases "\<exists>capacity stats. service_running service \<and> cap = Some capacity
      \<and> read (st_pid (ss_status service)) = Some stats
      \<and> Sample ld dbl (ss_id service) (st_pid (ss_status service)) stats capacity now sampler = (Inr m, sampler')")
    case True
    then show ?thesis
      using Sample_Inr Sample_percent by (fastforce simp: metrics_ok_def)
  next
    case False
    then have "m = MakeUnavailableMetrics (ss_id service)
        (if service_running service then st_pid (ss_status service) else -1) now"
      using assms
      by (auto simp: collect_service_def Let_def split: if_splits option.splits sum.splits prod.splits)
    then show ?thesis by (auto simp: service_running_def)
  qed
  then show "metrics_ok now service m"
    "rounds_percent dbl \<Longrightarrow> IsValidServiceId (ss_id service) \<Longrightarrow> 0 \<le> now \<Longrightarrow> valid_ServiceMetrics m"
    by simp_all
qed

definition metrics_for ::
  "rounding \<Rightarrow> rounding \<Rightarrow> collection \<Rightarrow> sampler \<Rightarrow> (string, ServiceMetrics) hash_map \<times> sampler" where
  "metrics_for ld dbl cn sampler =
     collect_services ld dbl (cn_stats cn)
       (if list_ex service_running (cn_services cn) then cn_capacity cn else None) (cn_now cn)
       (cn_services cn) sampler []"

lemma CollectOnce_eq:
  "CollectOnce ld dbl cn c =
     store_metrics (fst (metrics_for ld dbl cn (mc_sampler c)))
       (c\<lparr> mc_sampler := snd (metrics_for ld dbl cn (mc_sampler c)) \<rparr>)"
  by (simp add: CollectOnce_def metrics_for_def Let_def case_prod_beta)

lemma collect_services_map:
  assumes "collect_services ld dbl read cap now services sampler next = (next', sampler')" and "wf_map next"
    and "list_all P services"
    and "\<And>service s m s'. service \<in> set services \<Longrightarrow> P service \<Longrightarrow>
           collect_service ld dbl read cap now service s = (m, s') \<Longrightarrow> Q service m"
    and "list_all (\<lambda>(k, m). \<exists>service. ss_id service = k \<and> Q service m) next"
  shows "wf_map next' \<and> fst ` set next' = fst ` set next \<union> ss_id ` set services
    \<and> list_all (\<lambda>(k, m). \<exists>service. ss_id service = k \<and> Q service m) next'"
  using assms
proof (induction services arbitrary: sampler "next")
  case Nil
  then show ?case by simp
next
  case (Cons service services)
  obtain m s' where m: "collect_service ld dbl read cap now service sampler = (m, s')"
    by force
  have run: "collect_services ld dbl read cap now services s' (emplace (ss_id service) m next) = (next', sampler')"
    using Cons.prems(1) m by simp
  have "Q service m"
    using Cons.prems(3,4) m by auto
  then have new: "list_all (\<lambda>(k, m). \<exists>service. ss_id service = k \<and> Q service m) (emplace (ss_id service) m next)"
    using Cons.prems(5) by (auto simp: emplace_def)
  have keys: "fst ` set (emplace (ss_id service) m next) = insert (ss_id service) (fst ` set next)"
    by (auto simp: emplace_def map_of_eq_None_iff image_iff)
  have "wf_map next' \<and> fst ` set next' = fst ` set (emplace (ss_id service) m next) \<union> ss_id ` set services
    \<and> list_all (\<lambda>(k, m). \<exists>service. ss_id service = k \<and> Q service m) next'"
    by (rule Cons.IH [OF run wf_map_emplace [OF Cons.prems(2)] _ _ new]) (use Cons.prems(3,4) in auto)
  then show ?case by (auto simp: keys)
qed

lemma metrics_for_wf:
  "wf_map (fst (metrics_for ld dbl cn sampler))
   \<and> (map_of (fst (metrics_for ld dbl cn sampler)) sid \<noteq> None \<longleftrightarrow> sid \<in> ss_id ` set (cn_services cn))"
proof -
  obtain n s' where n: "metrics_for ld dbl cn sampler = (n, s')" by force
  from collect_services_map [OF n [unfolded metrics_for_def], of "\<lambda>_. True" "\<lambda>_ _. True"]
  have "wf_map n" "fst ` set n = ss_id ` set (cn_services cn)"
    by (simp_all add: list_all_iff)
  then show ?thesis
    by (simp add: n map_of_eq_None_iff)
qed

text \<open>
  C40. After a collection there are metrics of exactly the services listed, each structurally valid,
  carrying the time of the collection and the pid of its process; metrics are available only for a
  service that runs.
\<close>

theorem CollectOnce_latest:
  assumes "rounds_percent dbl" and "0 \<le> cn_now cn"
    and "list_all (\<lambda>service. IsValidServiceId (ss_id service)) (cn_services cn)"
  shows "(GetLatest sid (CollectOnce ld dbl cn c) \<noteq> None \<longleftrightarrow> sid \<in> ss_id ` set (cn_services cn))
    \<and> list_all (\<lambda>(k, m). valid_ServiceMetrics m
         \<and> list_ex (\<lambda>service. ss_id service = k \<and> metrics_ok (cn_now cn) service m) (cn_services cn))
        (mc_latest (CollectOnce ld dbl cn c))"
proof -
  obtain n s' where n: "metrics_for ld dbl cn (mc_sampler c) = (n, s')" by force
  have latest: "mc_latest (CollectOnce ld dbl cn c) = n"
    by (simp add: CollectOnce_eq n store_metrics_def)
  let ?Q = "\<lambda>service m. service \<in> set (cn_services cn) \<and> valid_ServiceMetrics m \<and> metrics_ok (cn_now cn) service m"
  have "list_all (\<lambda>(k, m). \<exists>service. ss_id service = k \<and> ?Q service m) n"
    using collect_services_map [OF n [unfolded metrics_for_def], of "\<lambda>s. IsValidServiceId (ss_id s)" ?Q]
      collect_service_ok assms by (auto simp: wf_map_Nil)
  moreover have "(map_of n sid \<noteq> None) = (sid \<in> ss_id ` set (cn_services cn))"
    using metrics_for_wf [of ld dbl cn "mc_sampler c" sid] by (simp add: n)
  ultimately show ?thesis
    unfolding GetLatest_def latest by (fastforce simp: list_all_iff list_ex_iff)
qed

section \<open>The history\<close>

lemma map_of_push_history:
  assumes "wf_map next"
  shows "map_of (fold (push_history cap) next h) k =
    (case map_of next k of None \<Rightarrow> map_of h k
     | Some m \<Rightarrow> Some (push_bounded cap m (case map_of h k of None \<Rightarrow> [] | Some xs \<Rightarrow> xs)))"
  using assms
proof (induction "next" arbitrary: h)
  case (Cons kv "next")
  obtain k' m where kv: "kv = (k', m)" by force
  have wf: "wf_map next" and fresh: "map_of next k' = None"
    using Cons.prems by (auto simp: wf_map_def kv map_of_eq_None_iff)
  show ?case
    unfolding fold.simps comp_apply Cons.IH [OF wf]
    using fresh by (auto simp: kv push_history_def update_conv' split: option.splits)
qed simp

lemma wf_push_history: "wf_map h \<Longrightarrow> wf_map (fold (push_history cap) next h)"
  by (induction "next" arbitrary: h) (simp_all add: push_history_def)

lemma store_metrics_lookup:
  assumes "wf_map next" and "wf_map (mc_history c)"
  shows "wf_map (mc_history (store_metrics next c))"
    "map_of (mc_history (store_metrics next c)) k =
      (case map_of next k of None \<Rightarrow> None
       | Some m \<Rightarrow> Some (push_bounded (mc_history_capacity c) m
           (case map_of (mc_history c) k of None \<Rightarrow> [] | Some xs \<Rightarrow> xs)))"
  using assms wf_push_history map_of_push_history [OF assms(1)]
  by (auto simp: store_metrics_def map_of_erase_if split: option.splits)

text \<open>
  The metrics each collection of a sequence produces, and the trail of one service: those of the
  collections since it was last absent.
\<close>

fun reports :: "rounding \<Rightarrow> rounding \<Rightarrow> collection list \<Rightarrow> sampler \<Rightarrow> (string, ServiceMetrics) hash_map list" where
  "reports ld dbl [] sampler = []"
| "reports ld dbl (cn # cns) sampler =
     (let (n, sampler) = metrics_for ld dbl cn sampler in n # reports ld dbl cns sampler)"

definition trail :: "string \<Rightarrow> (string, ServiceMetrics) hash_map list \<Rightarrow> ServiceMetrics list" where
  "trail sid ns = map (\<lambda>n. the (map_of n sid)) (rev (takeWhile (\<lambda>n. map_of n sid \<noteq> None) (rev ns)))"

lemma trail_snoc: "trail sid (ns @ [n]) = (case map_of n sid of None \<Rightarrow> [] | Some m \<Rightarrow> trail sid ns @ [m])"
  by (auto simp: trail_def split: option.splits)

lemma reports_snoc:
  "reports ld dbl (cns @ [cn]) sampler =
     reports ld dbl cns sampler @ [fst (metrics_for ld dbl cn (mc_sampler (fold (CollectOnce ld dbl) cns (c\<lparr> mc_sampler := sampler \<rparr>))))]"
proof (induction cns arbitrary: sampler c)
  case (Cons cn' cns)
  have "CollectOnce ld dbl cn' (c\<lparr> mc_sampler := sampler \<rparr>)
      = (store_metrics (fst (metrics_for ld dbl cn' sampler)) c)\<lparr> mc_sampler := snd (metrics_for ld dbl cn' sampler) \<rparr>"
    by (simp add: CollectOnce_eq store_metrics_def)
  then show ?case
    by (simp add: Let_def case_prod_beta Cons.IH [where c = "store_metrics (fst (metrics_for ld dbl cn' sampler)) c"])
qed (simp add: Let_def case_prod_beta)

lemma CollectOnce_capacity [simp]: "mc_history_capacity (CollectOnce ld dbl cn c) = mc_history_capacity c"
  by (simp add: CollectOnce_eq store_metrics_def)

lemma fold_CollectOnce_capacity [simp]:
  "mc_history_capacity (fold (CollectOnce ld dbl) cns c) = mc_history_capacity c"
  by (induction cns arbitrary: c) simp_all

lemma collections_history:
  "wf_map (mc_history (fold (CollectOnce ld dbl) cns (new_collector interval capacity has_reader)))
    \<and> map_of (mc_history (fold (CollectOnce ld dbl) cns (new_collector interval capacity has_reader))) sid =
        (let t = trail sid (reports ld dbl cns Map.empty)
         in if t = [] then None else Some (drop (length t - capacity) t))"
proof (induction cns rule: rev_induct)
  case Nil
  then show ?case by (simp add: new_collector_def trail_def)
next
  case (snoc cn cns)
  let ?ini = "new_collector interval capacity has_reader"
  let ?c = "fold (CollectOnce ld dbl) cns ?ini"
  let ?n = "fst (metrics_for ld dbl cn (mc_sampler ?c))"
  let ?t = "trail sid (reports ld dbl cns Map.empty)"
  have "?ini\<lparr> mc_sampler := Map.empty \<rparr> = ?ini"
    by (simp add: new_collector_def)
  then have reports: "reports ld dbl (cns @ [cn]) Map.empty = reports ld dbl cns Map.empty @ [?n]"
    using reports_snoc [of ld dbl cns cn Map.empty ?ini] by simp
  have n: "wf_map ?n"
    using metrics_for_wf by blast
  have old: "(case map_of (mc_history ?c) sid of None \<Rightarrow> [] | Some xs \<Rightarrow> xs) = drop (length ?t - capacity) ?t"
    using snoc.IH by (simp add: Let_def)
  have push: "push_bounded capacity m (drop (length ?t - capacity) ?t) = drop (Suc (length ?t) - capacity) (?t @ [m])" for m
    by (cases "capacity \<le> length ?t") (simp_all add: push_bounded_eq Suc_diff_le)
  let ?s = "?c\<lparr> mc_sampler := snd (metrics_for ld dbl cn (mc_sampler ?c)) \<rparr>"
  have "wf_map (mc_history ?s)"
    using snoc.IH by simp
  note look = store_metrics_lookup [OF n this]
  have cap': "mc_history_capacity ?s = capacity"
    by (simp add: new_collector_def)
  have old': "(case map_of (mc_history ?s) sid of None \<Rightarrow> [] | Some xs \<Rightarrow> xs) = drop (length ?t - capacity) ?t"
    using old by simp
  have step: "fold (CollectOnce ld dbl) (cns @ [cn]) ?ini = store_metrics ?n ?s"
    by (simp add: CollectOnce_eq)
  have "map_of (mc_history (store_metrics ?n ?s)) sid =
      (case map_of ?n sid of None \<Rightarrow> None
       | Some m \<Rightarrow> Some (drop (Suc (length ?t) - capacity) (?t @ [m])))"
    unfolding look(2) cap' old' push ..
  then show ?case
    unfolding step reports trail_snoc using look(1) by (simp add: Let_def split: option.splits)
qed

lemma GetHistory_eq:
  "GetHistory sid limit c = map_option (\<lambda>h. drop (length h - limit) h) (map_of (mc_history c) sid)"
proof -
  have slice: "map (\<lambda>i. xs ! i) [k..<length xs] = drop k xs" if "k \<le> length xs" for xs :: "ServiceMetrics list" and k
    using that by (metis drop_map drop_upt map_nth plus_nat.add_0)
  show ?thesis
    using slice [OF diff_le_self] slice [OF le0]
    by (auto simp: GetHistory_def Let_def split: option.splits)
qed

text \<open>
  C30. The history refines the sequence of collections: asked for a service, the collector answers the
  newest metrics, at most the capacity and at most the limit, of the collections since the service
  was last absent, oldest first; and nothing when the last collection did not list it.
\<close>

theorem GetHistory_refines_collections:
  "GetHistory sid limit (fold (CollectOnce ld dbl) cns (new_collector interval capacity has_reader)) =
     (let t = trail sid (reports ld dbl cns Map.empty)
      in if t = [] then None else Some (drop (length t - min limit capacity) t))"
proof -
  have "drop (length (drop (n - capacity) t) - limit) (drop (n - capacity) t) = drop (n - min limit capacity) t"
    if "n = length t" for n and t :: "ServiceMetrics list"
    using that by (auto simp: min_def intro!: arg_cong [of _ _ "\<lambda>k. drop k t"])
  then show ?thesis
    using collections_history [of ld dbl cns interval capacity has_reader sid]
    by (simp add: GetHistory_eq Let_def)
qed

section \<open>Witnesses\<close>

lemma rounds_percent_exact: "rounds_percent Fin"
  by (auto simp: rounds_percent_def double_le_def)

definition demo_stats :: "nat \<Rightarrow> ProcessRawStats" where
  "demo_stats cpu = \<lparr> prs_cpu_time_ns = of_nat cpu, prs_identity = 7, prs_rss_bytes = 4096,
     prs_thread_count = 1, prs_fd_count = 3 \<rparr>"

definition demo_capacity :: "nat \<Rightarrow> SystemCapacitySnapshot" where
  "demo_capacity t = \<lparr> scs_monotonic_time_ns = of_nat t, scs_logical_cpu_count = 2 \<rparr>"

definition demo_baselines :: sampler where
  "demo_baselines = snd (Sample Fin Fin ''demo'' 100 (demo_stats 1000) (demo_capacity 5000) 1 Map.empty)"

lemma demo_sample:
  "map_option (\<lambda>m. sm_cpu_percent m) (case Sample Fin Fin ''demo'' 100 (demo_stats 1500) (demo_capacity 6000) 2 demo_baselines
     of (Inr m, _) \<Rightarrow> Some m | _ \<Rightarrow> None) = Some (Some (Fin 25))"
  by (simp add: demo_baselines_def Sample_def demo_stats_def demo_capacity_def Let_def IsValidServiceId_def
      id_char_def char_between_def cpu_share_def ld_of_nat_def double_le_def)

theorem Sample_cpu_bounds_witness:
  "\<exists>m bs'. Sample Fin Fin ''demo'' 100 (demo_stats 1500) (demo_capacity 6000) 2 demo_baselines = (Inr m, bs')
     \<and> sm_cpu_percent m = Some (Fin 25) \<and> valid_ServiceMetrics m"
proof -
  obtain m bs' where m: "Sample Fin Fin ''demo'' 100 (demo_stats 1500) (demo_capacity 6000) 2 demo_baselines = (Inr m, bs')"
    "sm_cpu_percent m = Some (Fin 25)"
    using demo_sample by (auto split: prod.splits sum.splits)
  with Sample_cpu_bounds [OF m(1) rounds_percent_exact] show ?thesis by blast
qed

definition demo_collection :: collection where
  "demo_collection = \<lparr> cn_services = [\<lparr> ss_id = ''demo'', ss_display_name = ''Demo'', ss_auto_start = False,
     ss_status = status_of Running 100 \<rparr>], cn_now = 5, cn_capacity = Some (demo_capacity 5000),
     cn_stats = (\<lambda>pid. Some (demo_stats 1000)) \<rparr>"

theorem CollectOnce_latest_witness:
  "GetLatest ''demo'' (CollectOnce Fin Fin demo_collection (new_collector 1000 3 True)) \<noteq> None
   \<and> GetLatest ''other'' (CollectOnce Fin Fin demo_collection (new_collector 1000 3 True)) = None"
proof -
  have "0 \<le> cn_now demo_collection"
    "list_all (\<lambda>service. IsValidServiceId (ss_id service)) (cn_services demo_collection)"
    by (simp_all add: demo_collection_def IsValidServiceId_def id_char_def char_between_def)
  note latest = CollectOnce_latest [OF rounds_percent_exact this]
  show ?thesis
    using latest [of "''demo''" Fin "new_collector 1000 3 True"] latest [of "''other''" Fin "new_collector 1000 3 True"]
    by (simp add: demo_collection_def)
qed

end
