(* ===== verification/Monitor.thy ===== *)
theory Monitor
  imports AlertManager HealthCheck Recovery Registry Metrics
begin

text \<open>
  \<open>HealthMonitor\<close> (\<open>src/apps/agent/src/health/health_monitor.cpp\<close>): one round over all services that
  composes the health checker, the alert evaluator, the alert manager and the recovery manager, and
  forgets the services that are gone. The lemmas say what a round publishes, that nothing of a
  forgotten service is left in any component, and which services a round may restart.
\<close>

section \<open>The monitor\<close>

record monitor =
  hm_interval_ms :: int
  hm_checker :: checker
  hm_rules :: rule_states
  hm_alerts :: alert_manager
  hm_recovery :: recovery_manager
  hm_latest :: "(string, HealthStatus) hash_map"
  hm_worker :: worker

definition new_monitor :: "int \<Rightarrow> nat \<Rightarrow> nat \<Rightarrow> u32 \<Rightarrow> monitor" where
  "new_monitor interval alert_capacity event_capacity cooldown =
     \<lparr> hm_interval_ms = interval, hm_checker = Map.empty, hm_rules = Map.empty,
       hm_alerts = new_AlertManager alert_capacity,
       hm_recovery = new_RecoveryManager event_capacity cooldown, hm_latest = [],
       hm_worker = new_worker \<rparr>"

definition monitor_Start :: "string option \<Rightarrow> monitor \<Rightarrow> string option \<times> monitor" where
  "monitor_Start thread_error hm =
     (if hm_interval_ms hm \<le> 0 then (Some ''health monitor interval must be greater than zero'', hm)
      else
        let (e, w) = start_worker ''health monitor'' thread_error (hm_worker hm)
        in (e, hm\<lparr> hm_worker := w \<rparr>))"

definition monitor_Stop :: "bool \<Rightarrow> monitor \<Rightarrow> monitor" where
  "monitor_Stop on_worker hm = hm\<lparr> hm_worker := stop_worker on_worker (hm_worker hm) \<rparr>"

definition monitor_IsRunning :: "monitor \<Rightarrow> bool" where
  "monitor_IsRunning hm = worker_running (hm_worker hm)"

text \<open>
  What the first loop of \<open>CheckOnce\<close> builds: the state of the checker and of the evaluator, the
  health of each service, and all evaluations.
\<close>

record round =
  rd_checker :: checker
  rd_rules :: rule_states
  rd_health :: "(string, HealthStatus) hash_map"
  rd_evaluations :: "AlertEvaluation list"

definition check_service ::
  "registry \<Rightarrow> (string \<Rightarrow> ServiceMetrics option) \<Rightarrow> millis \<Rightarrow> ServiceSummary \<Rightarrow> round \<Rightarrow> round" where
  "check_service r latest_metrics now service rd =
     (case Find r (ss_id service) of
        None \<Rightarrow>
          rd\<lparr> rd_health := emplace (ss_id service)
            \<lparr> hs_service_id = ss_id service, hs_state = HealthUnknown,
              hs_reason = ''service supervisor was not found'', hs_consecutive_failures = 0,
              hs_checked_at_unix_ms = now \<rparr> (rd_health rd) \<rparr>
      | Some s \<Rightarrow>
          let d = Definition s;
              (health, checker) = Check d (ss_status service) now (rd_checker rd);
              metrics = latest_metrics (sd_id d);
              (evaluations, rules) = Evaluate d metrics health now (rd_rules rd)
          in \<lparr> rd_checker = checker, rd_rules = rules, rd_health = emplace (sd_id d) health (rd_health rd),
               rd_evaluations = rd_evaluations rd @ evaluations \<rparr>)"

text \<open>The second loop: recovery, service by service. An exception leaves it.\<close>

fun recover_services ::
  "millis \<Rightarrow> (string, HealthStatus) hash_map \<Rightarrow> alert_manager \<Rightarrow> ServiceSummary list \<Rightarrow> recovery_manager \<Rightarrow> registry
     \<Rightarrow> (string option \<times> recovery_manager \<times> registry) option" where
  "recover_services now health alerts [] rm r = Some (None, rm, r)"
| "recover_services now health alerts (service # services) rm r =
     (case Find r (ss_id service) of
        None \<Rightarrow> recover_services now health alerts services rm r
      | Some s \<Rightarrow>
          (case map_of health (ss_id service) of
             None \<Rightarrow> recover_services now health alerts services rm r
           | Some hstatus \<Rightarrow>
               (case EvaluateAndRecover hstatus (GetAlertsForService (ss_id service) False alerts) now rm s of
                  None \<Rightarrow> None
                | Some ((RecoveryRaised what, rm), s) \<Rightarrow> Some (Some what, rm, put_service (ss_id service) s r)
                | Some ((Recovered events, rm), s) \<Rightarrow>
                    recover_services now health alerts services rm (put_service (ss_id service) s r))))"

definition forget_service :: "string \<Rightarrow> monitor \<Rightarrow> monitor" where
  "forget_service service_id hm =
     hm\<lparr> hm_checker := checker_ForgetService service_id (hm_checker hm),
         hm_rules := evaluator_ForgetService service_id (hm_rules hm),
         hm_alerts := alerts_ForgetService service_id (hm_alerts hm),
         hm_recovery := recovery_ForgetService service_id (hm_recovery hm) \<rparr>"

text \<open>
  One round: the services as \<open>ListServices\<close> returned them, the latest metrics, the clock and the
  registry. An exception of a restart leaves the health of the last round published; nothing in
  \<open>Run\<close> catches it.
\<close>

definition CheckOnce ::
  "ServiceSummary list \<Rightarrow> (string \<Rightarrow> ServiceMetrics option) \<Rightarrow> millis \<Rightarrow> registry \<Rightarrow> monitor
     \<Rightarrow> (string option \<times> monitor \<times> registry) option" where
  "CheckOnce services latest_metrics now r hm =
     (let rd = fold (check_service r latest_metrics now) services
            \<lparr> rd_checker = hm_checker hm, rd_rules = hm_rules hm, rd_health = [], rd_evaluations = [] \<rparr>;
          hm = hm\<lparr> hm_checker := rd_checker rd, hm_rules := rd_rules rd,
                   hm_alerts := fst (ApplyEvaluations (rd_evaluations rd) (hm_alerts hm)) \<rparr>
      in case recover_services now (rd_health rd) (hm_alerts hm) services (hm_recovery hm) r of
           None \<Rightarrow> None
         | Some (Some what, rm, r) \<Rightarrow> Some (Some what, hm\<lparr> hm_recovery := rm \<rparr>, r)
         | Some (None, rm, r) \<Rightarrow>
             let gone = filter (\<lambda>i. i \<notin> ss_id ` set services) (map fst (hm_latest hm))
             in Some (None, (fold forget_service gone (hm\<lparr> hm_recovery := rm \<rparr>))\<lparr> hm_latest := rd_health rd \<rparr>, r))"

text \<open>The thread, as long as no stop is requested: the inputs of each turn.\<close>

fun monitor_Run ::
  "(bool \<times> (string \<Rightarrow> ServiceMetrics option) \<times> millis) list \<Rightarrow> registry \<Rightarrow> monitor
     \<Rightarrow> (string option \<times> monitor \<times> registry) option" where
  "monitor_Run [] r hm = Some (None, hm, r)"
| "monitor_Run ((stop, latest_metrics, now) # turns) r hm =
     (if stop then Some (None, hm, r)
      else case CheckOnce (ListServices r) latest_metrics now r hm of
        None \<Rightarrow> None
      | Some (Some what, hm, r) \<Rightarrow> Some (Some what, hm, r)
      | Some (None, hm, r) \<Rightarrow> monitor_Run turns r hm)"

definition GetLatestHealth :: "string \<Rightarrow> monitor \<Rightarrow> HealthStatus option" where
  "GetLatestHealth service_id hm = map_of (hm_latest hm) service_id"

definition GetAllHealth :: "monitor \<Rightarrow> HealthStatus list" where
  "GetAllHealth hm = sort_by (\<lambda>a b. hs_service_id a < hs_service_id b) (map_values (hm_latest hm))"

text \<open>The queries and the acknowledgement pass through to the component that has the data.\<close>

definition monitor_GetActiveAlerts :: "monitor \<Rightarrow> AlertEvent list" where
  "monitor_GetActiveAlerts hm = GetActiveAlerts (hm_alerts hm)"

definition monitor_GetRecentResolvedAlerts :: "nat \<Rightarrow> monitor \<Rightarrow> AlertEvent list" where
  "monitor_GetRecentResolvedAlerts limit hm = GetRecentResolvedAlerts limit (hm_alerts hm)"

definition monitor_GetAlertsForService :: "string \<Rightarrow> bool \<Rightarrow> monitor \<Rightarrow> AlertEvent list" where
  "monitor_GetAlertsForService service_id include_resolved hm =
     GetAlertsForService service_id include_resolved (hm_alerts hm)"

definition monitor_GetAlert :: "string \<Rightarrow> monitor \<Rightarrow> AlertEvent option" where
  "monitor_GetAlert alert_id hm = GetAlert alert_id (hm_alerts hm)"

definition AcknowledgeAlertAndGet :: "string \<Rightarrow> monitor \<Rightarrow> AlertEvent option \<times> monitor" where
  "AcknowledgeAlertAndGet alert_id hm =
     (let (r, am) = AcknowledgeAndGet alert_id (hm_alerts hm) in (r, hm\<lparr> hm_alerts := am \<rparr>))"

definition AcknowledgeAlert :: "string \<Rightarrow> monitor \<Rightarrow> bool \<times> monitor" where
  "AcknowledgeAlert alert_id hm =
     (let (r, am) = Acknowledge alert_id (hm_alerts hm) in (r, hm\<lparr> hm_alerts := am \<rparr>))"

definition GetRecentRecoveryEvents :: "nat \<Rightarrow> monitor \<Rightarrow> RecoveryEvent list" where
  "GetRecentRecoveryEvents limit hm = GetRecentEvents limit (hm_recovery hm)"

definition GetRecoveryEventsForService :: "string \<Rightarrow> nat \<Rightarrow> monitor \<Rightarrow> RecoveryEvent list" where
  "GetRecoveryEventsForService service_id limit hm = GetEventsForService service_id limit (hm_recovery hm)"

section \<open>The first loop\<close>

definition health_entry :: "millis \<Rightarrow> string \<times> HealthStatus \<Rightarrow> bool" where
  "health_entry now kv \<longleftrightarrow> hs_service_id (snd kv) = fst kv \<and> hs_checked_at_unix_ms (snd kv) = now"

lemma check_service_health:
  assumes "services_ok absolute r"
  shows "\<exists>h. rd_health (check_service r metrics now service rd) = emplace (ss_id service) h (rd_health rd)
    \<and> health_entry now (ss_id service, h)"
proof (cases "Find r (ss_id service)")
  case None
  then show ?thesis by (auto simp: check_service_def health_entry_def)
next
  case (Some s)
  then have "sd_id (Definition s) = ss_id service"
    using assms unfolding services_ok_def by blast
  then show ?thesis
    using Some by (auto simp: check_service_def health_entry_def Let_def case_prod_beta)
qed

lemma emplace_keys: "fst ` set (emplace k v m) = insert k (fst ` set m)"
  by (auto simp: emplace_def map_of_eq_None_iff image_iff)

lemma check_services_health:
  assumes "services_ok absolute r" and "wf_map (rd_health rd)" and "list_all (health_entry now) (rd_health rd)"
  shows "wf_map (rd_health (fold (check_service r metrics now) services rd))
    \<and> fst ` set (rd_health (fold (check_service r metrics now) services rd)) = fst ` set (rd_health rd) \<union> ss_id ` set services
    \<and> list_all (health_entry now) (rd_health (fold (check_service r metrics now) services rd))"
  using assms(2,3)
proof (induction services arbitrary: rd)
  case (Cons service services)
  obtain h where h: "rd_health (check_service r metrics now service rd) = emplace (ss_id service) h (rd_health rd)"
    "health_entry now (ss_id service, h)"
    using check_service_health [OF assms(1)] by blast
  have "list_all (health_entry now) (emplace (ss_id service) h (rd_health rd))"
    using h(2) Cons.prems(2) by (auto simp: emplace_def)
  with Cons.IH [of "check_service r metrics now service rd"] Cons.prems(1) show ?case
    by (auto simp: h(1) emplace_keys)
qed simp

section \<open>The second loop\<close>

text \<open>What recovery did to one service: nothing, or one evaluation of its supervisor.\<close>

definition recovered ::
  "millis \<Rightarrow> (string, HealthStatus) hash_map \<Rightarrow> alert_manager \<Rightarrow> registry \<Rightarrow> registry \<Rightarrow> string \<Rightarrow> bool" where
  "recovered now health alerts r r' i \<longleftrightarrow> Find r' i = Find r i
     \<or> (\<exists>s s' h rm res. Find r i = Some s \<and> Find r' i = Some s' \<and> map_of health i = Some h
          \<and> EvaluateAndRecover h (GetAlertsForService i False alerts) now rm s = Some (res, s'))"

lemma recover_services_each:
  assumes "recover_services now health alerts services rm r = Some (raised, rm', r')"
    and "distinct (map ss_id services)"
  shows "rg_order r' = rg_order r \<and> (\<forall>i. recovered now health alerts r r' i)
    \<and> (\<forall>i. i \<notin> ss_id ` set services \<longrightarrow> Find r' i = Find r i)"
  using assms
proof (induction services arbitrary: rm r)
  case (Cons service services)
  let ?i = "ss_id service"
  have dist: "distinct (map ss_id services)" "?i \<notin> ss_id ` set services"
    using Cons.prems(2) by auto
  show ?case
  proof (cases "Find r ?i = None \<or> map_of health ?i = None")
    case True
    have "recover_services now health alerts services rm r = Some (raised, rm', r')"
      using Cons.prems(1) True by (auto split: option.splits)
    from Cons.IH [OF this dist(1)] show ?thesis by auto
  next
    case False
    then obtain s h where s: "Find r ?i = Some s" and h: "map_of health ?i = Some h" by auto
    obtain res rm1 s1 where call: "EvaluateAndRecover h (GetAlertsForService ?i False alerts) now rm s = Some ((res, rm1), s1)"
      using Cons.prems(1) s h by (auto split: option.splits)
    let ?r1 = "put_service ?i s1 r"
    have own: "recovered now health alerts r r2 ?i" if "Find r2 ?i = Some s1" for r2
      unfolding recovered_def using s h call that by blast
    show ?thesis
    proof (cases res)
      case (RecoveryRaised what)
      then have "r' = ?r1"
        using Cons.prems(1) s h call by simp
      then show ?thesis
        using own [of r'] by (auto simp: recovered_def)
    next
      case (Recovered events)
      then have "recover_services now health alerts services rm1 ?r1 = Some (raised, rm', r')"
        using Cons.prems(1) s h call by simp
      note rest = Cons.IH [OF this dist(1)]
      have "recovered now health alerts r r' i" for i
      proof (cases "i = ?i")
        case True
        then show ?thesis using own [of r'] rest dist(2) by simp
      next
        case False
        have "recovered now health alerts ?r1 r' i" using rest by blast
        then show ?thesis using False by (simp add: recovered_def)
      qed
      then show ?thesis using rest by auto
    qed
  qed
qed (auto simp: recovered_def)

lemma recovered_ok:
  assumes "services_ok absolute r" and "rg_order r' = rg_order r"
    and "\<forall>i. recovered now health alerts r r' i"
  shows "services_ok absolute r'"
proof -
  have each: "sd_id (Definition s') = i \<and> (\<exists>d. reachable absolute d s')" if s': "Find r' i = Some s'" for i s'
  proof (cases "Find r' i = Find r i")
    case True
    then show ?thesis using assms(1) s' unfolding services_ok_def by force
  next
    case False
    then obtain s h rm x rm' where s: "Find r i = Some s"
      "EvaluateAndRecover h (GetAlertsForService i False alerts) now rm s = Some ((x, rm'), s')"
      using assms(3) s' unfolding recovered_def by (metis option.inject prod.collapse)
    obtain d where d: "reachable absolute d s" and id: "sd_id (Definition s) = i"
      using assms(1) s(1) unfolding services_ok_def by blast
    from EvaluateAndRecover_sys [OF s(2)] show ?thesis
      using d id reachable.start [OF d] reachable.restart [OF d] Definition_operations [of s _ s']
      by metis
  qed
  moreover have "Find r' i \<noteq> None \<longleftrightarrow> Find r i \<noteq> None" for i
    using assms(3) unfolding recovered_def by (metis option.distinct(1))
  ultimately show ?thesis
    using assms(1,2) unfolding services_ok_def by metis
qed

section \<open>What a round leaves\<close>

lemma CheckOnce_None:
  assumes "CheckOnce services metrics now r hm = Some (None, hm', r')"
  obtains rd rm where
    "rd = fold (check_service r metrics now) services
       \<lparr> rd_checker = hm_checker hm, rd_rules = hm_rules hm, rd_health = [], rd_evaluations = [] \<rparr>"
    "recover_services now (rd_health rd) (fst (ApplyEvaluations (rd_evaluations rd) (hm_alerts hm))) services
       (hm_recovery hm) r = Some (None, rm, r')"
    "hm' = (fold forget_service (filter (\<lambda>i. i \<notin> ss_id ` set services) (map fst (hm_latest hm)))
       (hm\<lparr> hm_checker := rd_checker rd, hm_rules := rd_rules rd,
          hm_alerts := fst (ApplyEvaluations (rd_evaluations rd) (hm_alerts hm)), hm_recovery := rm \<rparr>))
       \<lparr> hm_latest := rd_health rd \<rparr>"
  using assms unfolding CheckOnce_def Let_def
  by (auto split: option.splits prod.splits intro: that [OF refl])

lemma fold_forget_service:
  "hm_checker (fold forget_service sids hm) = fold checker_ForgetService sids (hm_checker hm)"
  "hm_rules (fold forget_service sids hm) = fold evaluator_ForgetService sids (hm_rules hm)"
  "hm_alerts (fold forget_service sids hm) = fold alerts_ForgetService sids (hm_alerts hm)"
  "hm_recovery (fold forget_service sids hm) = fold recovery_ForgetService sids (hm_recovery hm)"
  by (induction sids arbitrary: hm) (simp_all add: forget_service_def)

text \<open>
  A round that completes publishes the health of exactly the services it listed: one status per
  service, under its own id, with the time of the round; \<open>GetAllHealth\<close> lists them in the order of
  their ids, each once. The registry keeps its services, in states their supervisors can reach.
\<close>

theorem CheckOnce_publishes:
  assumes "CheckOnce services metrics now r hm = Some (None, hm', r')" and "services_ok absolute r"
    and "distinct (map ss_id services)"
  shows "services_ok absolute r' \<and> rg_order r' = rg_order r
    \<and> map hs_service_id (GetAllHealth hm') = sort (map ss_id services)
    \<and> list_all (\<lambda>h. hs_checked_at_unix_ms h = now \<and> GetLatestHealth (hs_service_id h) hm' = Some h) (GetAllHealth hm')"
proof -
  obtain rd rm where rd: "rd = fold (check_service r metrics now) services
       \<lparr> rd_checker = hm_checker hm, rd_rules = hm_rules hm, rd_health = [], rd_evaluations = [] \<rparr>"
    and rec: "recover_services now (rd_health rd) (fst (ApplyEvaluations (rd_evaluations rd) (hm_alerts hm))) services
       (hm_recovery hm) r = Some (None, rm, r')"
    and latest: "hm_latest hm' = rd_health rd"
    using assms(1) by (rule CheckOnce_None) simp
  note each = recover_services_each [OF rec assms(3)]
  have health: "wf_map (rd_health rd)" "fst ` set (rd_health rd) = ss_id ` set services"
    "list_all (health_entry now) (rd_health rd)"
    using check_services_health [OF assms(2), of "\<lparr> rd_checker = hm_checker hm, rd_rules = hm_rules hm,
      rd_health = [], rd_evaluations = [] \<rparr>" now metrics services] by (simp_all add: rd)
  have ids: "map hs_service_id (map_values (rd_health rd)) = map fst (rd_health rd)"
    using health(3) by (auto simp: map_values_def list_all_iff health_entry_def)
  have all: "GetAllHealth hm' = sort_key hs_service_id (map_values (rd_health rd))"
    unfolding GetAllHealth_def latest by (rule sort_by_key) simp
  have "map hs_service_id (GetAllHealth hm') = sort (map ss_id services)"
  proof (rule sorted_distinct_set_unique)
    have "distinct (map hs_service_id (map_values (rd_health rd)))"
      using health(1) by (simp add: ids wf_map_def)
    then show "distinct (map hs_service_id (GetAllHealth hm'))"
      unfolding all by (simp add: distinct_map)
    show "set (map hs_service_id (GetAllHealth hm')) = set (sort (map ss_id services))"
      unfolding all using arg_cong [OF ids, of set] health(2) by simp
  qed (simp_all add: all assms(3))
  moreover have "list_all (\<lambda>h. hs_checked_at_unix_ms h = now \<and> GetLatestHealth (hs_service_id h) hm' = Some h) (GetAllHealth hm')"
    using health(1,3) unfolding all GetLatestHealth_def latest
    by (auto simp: list_all_iff map_values_def health_entry_def map_of_mem [symmetric])
  ultimately show ?thesis
    using recovered_ok [OF assms(2)] each by blast
qed

text \<open>What each component holds of a service.\<close>

definition monitor_of_service ::
  "monitor \<Rightarrow> string \<Rightarrow> u32 option \<times> (string \<Rightarrow> millis option option)
     \<times> ((string \<times> AlertEvent) list \<times> AlertEvent list) \<times> (recovery_state option \<times> RecoveryEvent list)" where
  "monitor_of_service hm sid = (hm_checker hm sid, rules_of_service (hm_rules hm) sid,
     alerts_of_service (hm_alerts hm) sid, recovery_of_service (hm_recovery hm) sid)"

definition nothing_held ::
  "u32 option \<times> (string \<Rightarrow> millis option option) \<times> ((string \<times> AlertEvent) list \<times> AlertEvent list)
     \<times> (recovery_state option \<times> RecoveryEvent list)" where
  "nothing_held = (None, (\<lambda>_. None), ([], []), (None, []))"

interpretation monitor_store:
  service_store forget_service monitor_of_service nothing_held IsValidServiceId
proof unfold_locales
  fix sid other :: string and s :: monitor
  assume ok: "IsValidServiceId sid"
  show "monitor_of_service (forget_service sid s) sid = nothing_held"
    using checker_store.forget_same [of sid] evaluator_store.forget_same [OF ok]
      alert_store.forget_same [of sid] recovery_store.forget_same [of sid]
    by (simp add: monitor_of_service_def forget_service_def nothing_held_def)
  assume ok': "IsValidServiceId other" "other \<noteq> sid"
  show "monitor_of_service (forget_service sid s) other = monitor_of_service s other"
    using checker_store.forget_other [OF TrueI TrueI ok'(2)] evaluator_store.forget_other [OF ok ok']
      alert_store.forget_other [OF TrueI TrueI ok'(2)] recovery_store.forget_other [OF TrueI TrueI ok'(2)]
    by (simp add: monitor_of_service_def forget_service_def)
qed

text \<open>
  C28. A service that is gone is forgotten: after a round that did not list it, no component of the
  monitor holds anything of a service whose health was published before, and what they hold of a
  listed service is not affected by the forgetting.
\<close>

theorem CheckOnce_forgets:
  assumes "CheckOnce services metrics now r hm = Some (None, hm', r')"
    and "list_all (\<lambda>kv. IsValidServiceId (fst kv)) (hm_latest hm)"
    and "GetLatestHealth sid hm \<noteq> None" and "sid \<notin> ss_id ` set services"
  shows "monitor_of_service hm' sid = nothing_held \<and> GetAlertsForService sid True (hm_alerts hm') = []
    \<and> GetRecoveryEventsForService sid limit hm' = []"
proof -
  let ?gone = "filter (\<lambda>i. i \<notin> ss_id ` set services) (map fst (hm_latest hm))"
  obtain hm1 h where hm': "hm' = (fold forget_service ?gone hm1)\<lparr> hm_latest := h \<rparr>"
    using assms(1) by (rule CheckOnce_None) blast
  have in_gone: "sid \<in> set ?gone"
    using assms(3,4) by (force simp: GetLatestHealth_def dest!: map_of_SomeD)
  have valid: "\<forall>i \<in> set ?gone. IsValidServiceId i"
    using assms(2) by (auto simp: list_all_iff)
  then have "monitor_of_service (fold forget_service ?gone hm1) sid = nothing_held"
    using monitor_store.forget_all [OF valid, of sid hm1] in_gone by (simp only: if_True)
  then have held: "monitor_of_service hm' sid = nothing_held"
    by (simp add: hm' monitor_of_service_def)
  then have "alerts_of_service (hm_alerts hm') sid = ([], [])" "recovery_of_service (hm_recovery hm') sid = (None, [])"
    by (simp_all add: monitor_of_service_def nothing_held_def)
  then have alerts: "filter (\<lambda>e. ev_service_id e = sid) (map_values (am_active (hm_alerts hm'))) = []"
    "filter (\<lambda>e. ev_service_id e = sid) (am_resolved (hm_alerts hm')) = []"
    and events: "filter (\<lambda>e. re_service_id e = sid) (rm_events (hm_recovery hm')) = []"
    by (auto simp: alerts_of_service_def recovery_of_service_def map_values_def filter_empty_conv)
  have "collect_events sid limit es = []" if "filter (\<lambda>e. re_service_id e = sid) es = []" for limit es
    using that by (induction es arbitrary: limit) (auto split: if_splits)
  moreover have "filter (\<lambda>e. re_service_id e = sid) (rev (rm_events (hm_recovery hm'))) = []"
    using events by (simp add: rev_filter [symmetric])
  ultimately have "GetRecoveryEventsForService sid limit hm' = []"
    by (simp add: GetRecoveryEventsForService_def GetEventsForService_def)
  moreover have "GetAlertsForService sid True (hm_alerts hm') = []"
    using alerts by (simp add: GetAlertsForService_def SortAlertsForDisplay_def sort_by_def)
  ultimately show ?thesis using held by blast
qed

lemma active_alerts_of_service:
  "GetAlertsForService sid False am = SortAlertsForDisplay (map snd (fst (alerts_of_service am sid)))"
  by (simp add: GetAlertsForService_def alerts_of_service_def map_values_def filter_map comp_def case_prod_unfold)

text \<open>
  C17. What a round may restart: the supervisor of a service changes only if the operator wants the
  service running and its policy is enabled and valid, and only if the round found the service
  unhealthy or a critical alert of it is active after the round's evaluations. A service that is not
  listed is left alone.
\<close>

theorem CheckOnce_restarts:
  assumes "CheckOnce services metrics now r hm = Some (None, hm', r')" and "distinct (map ss_id services)"
    and "services_ok absolute r" and "Find r sid = Some s" and "Find r' sid = Some s'" and "s' \<noteq> s"
    and "list_all (\<lambda>kv. IsValidServiceId (fst kv)) (hm_latest hm)" and "IsValidServiceId sid"
  shows "sid \<in> ss_id ` set services \<and> GetDesiredState s = DRunning
    \<and> rp_enabled (sd_recovery_policy (Definition s)) \<and> valid_RecoveryPolicy (sd_recovery_policy (Definition s))
    \<and> ((\<exists>h. GetLatestHealth sid hm' = Some h \<and> hs_state h = Unhealthy)
       \<or> list_ex (\<lambda>a. ev_state a = AlertActive \<and> ev_severity a = Critical) (GetAlertsForService sid False (hm_alerts hm')))"
proof -
  let ?gone = "filter (\<lambda>i. i \<notin> ss_id ` set services) (map fst (hm_latest hm))"
  obtain rd :: round and rm where rec0: "recover_services now (rd_health rd)
       (fst (ApplyEvaluations (rd_evaluations rd) (hm_alerts hm))) services (hm_recovery hm) r = Some (None, rm, r')"
    and end0: "hm' = (fold forget_service ?gone
       (hm\<lparr> hm_checker := rd_checker rd, hm_rules := rd_rules rd,
          hm_alerts := fst (ApplyEvaluations (rd_evaluations rd) (hm_alerts hm)), hm_recovery := rm \<rparr>))
       \<lparr> hm_latest := rd_health rd \<rparr>"
    using assms(1) by (rule CheckOnce_None) blast
  define hm1 where "hm1 = hm\<lparr> hm_checker := rd_checker rd, hm_rules := rd_rules rd,
    hm_alerts := fst (ApplyEvaluations (rd_evaluations rd) (hm_alerts hm)), hm_recovery := rm \<rparr>"
  have rec: "recover_services now (rd_health rd) (hm_alerts hm1) services (hm_recovery hm) r = Some (None, rm, r')"
    and hm': "hm' = (fold forget_service ?gone hm1)\<lparr> hm_latest := rd_health rd \<rparr>"
    using rec0 end0 by (simp_all add: hm1_def)
  note each = recover_services_each [OF rec assms(2)]
  have listed: "sid \<in> ss_id ` set services"
    using each assms(4-6) by force
  have "recovered now (rd_health rd) (hm_alerts hm1) r r' sid"
    using each by blast
  then obtain h rm1 x rm2 where h: "map_of (rd_health rd) sid = Some h"
    and call: "EvaluateAndRecover h (GetAlertsForService sid False (hm_alerts hm1)) now rm1 s = Some ((x, rm2), s')"
    using assms(4-6) unfolding recovered_def by (metis option.inject prod.collapse)
  have "\<forall>i \<in> set ?gone. IsValidServiceId i"
    using assms(7) by (auto simp: list_all_iff)
  from monitor_store.forget_all [OF this assms(8), of hm1] listed
  have "monitor_of_service (fold forget_service ?gone hm1) sid = monitor_of_service hm1 sid"
    by simp
  then have "fst (alerts_of_service (hm_alerts hm') sid) = fst (alerts_of_service (hm_alerts hm1) sid)"
    by (simp add: hm' monitor_of_service_def)
  then have "GetAlertsForService sid False (hm_alerts hm') = GetAlertsForService sid False (hm_alerts hm1)"
    by (simp add: active_alerts_of_service)
  then show ?thesis
    using recovery_acts [OF call assms(6)] listed h
    by (auto simp: Let_def list_ex_iff GetLatestHealth_def hm')
qed

section \<open>Witnesses\<close>

definition demo_sick :: sys where
  "demo_sick = (new_service (\<lambda>p. p) 5 (\<lambda>n. ''E'') 0
     (demo_def\<lparr> sd_auto_start := True, sd_recovery_policy := demo_policy,
        sd_health_check := default_health_check\<lparr> hc_failure_threshold := 1 \<rparr> \<rparr>))
     \<lparr> sy_script := start_items \<rparr>"

definition demo_monitor :: monitor where
  "demo_monitor = (new_monitor 1000 5 5 10)\<lparr> hm_latest := [(''gone'', demo_unhealthy)] \<rparr>"

definition demo_services :: "ServiceSummary list" where
  "demo_services = ListServices (demo_registry demo_sick)"

definition demo_round :: "string option \<times> monitor \<times> registry" where
  "demo_round = the (CheckOnce demo_services (\<lambda>_. None) 9 (demo_registry demo_sick) demo_monitor)"

lemma demo_sick_ok: "services_ok (\<lambda>p. p) (demo_registry demo_sick)"
  unfolding demo_sick_def
  by (rule demo_registry_ok [OF reachable.script [OF new_service_reachable]]) (simp add: demo_def_def)

lemma demo_services_ids: "map ss_id demo_services = [''demo'']"
  by (simp add: demo_services_def ListServices_def demo_registry_def Find_def map_filter_simps summary_def
      demo_sick_def demo_def_def)

lemma demo_round_eval:
  "map_option (\<lambda>(e, hm, r). (e, map_option (\<lambda>s. length (sy_script s)) (Find r ''demo'')))
     (CheckOnce demo_services (\<lambda>_. None) 9 (demo_registry demo_sick) demo_monitor) = Some (None, Some 0)"
  by code_simp

lemma demo_round_eq:
  obtains hm' r' s' where
    "CheckOnce demo_services (\<lambda>_. None) 9 (demo_registry demo_sick) demo_monitor = Some (None, hm', r')"
    "demo_round = (None, hm', r')" "Find r' ''demo'' = Some s'" "s' \<noteq> demo_sick"
proof -
  have "length (sy_script demo_sick) \<noteq> 0"
    by (simp add: demo_sick_def start_items_def)
  then show thesis
    using demo_round_eval that by (fastforce simp: demo_round_def)
qed

theorem CheckOnce_publishes_witness:
  "map hs_service_id (GetAllHealth (fst (snd demo_round))) = [''demo'']"
proof -
  obtain hm' r' where run: "CheckOnce demo_services (\<lambda>_. None) 9 (demo_registry demo_sick) demo_monitor = Some (None, hm', r')"
    and res: "demo_round = (None, hm', r')"
    by (rule demo_round_eq)
  have "distinct (map ss_id demo_services)" by (simp add: demo_services_ids)
  from CheckOnce_publishes [OF run demo_sick_ok this] show ?thesis
    by (simp add: res demo_services_ids)
qed

theorem CheckOnce_forgets_witness: "monitor_of_service (fst (snd demo_round)) ''gone'' = nothing_held"
proof -
  obtain hm' r' where run: "CheckOnce demo_services (\<lambda>_. None) 9 (demo_registry demo_sick) demo_monitor = Some (None, hm', r')"
    and res: "demo_round = (None, hm', r')"
    by (rule demo_round_eq)
  have "list_all (\<lambda>kv. IsValidServiceId (fst kv)) (hm_latest demo_monitor)" "GetLatestHealth ''gone'' demo_monitor \<noteq> None"
    by (simp_all add: demo_monitor_def GetLatestHealth_def IsValidServiceId_def id_char_def char_between_def)
  moreover have "''gone'' \<notin> ss_id ` set demo_services"
    using arg_cong [OF demo_services_ids, of set] by simp
  ultimately have "monitor_of_service hm' ''gone'' = nothing_held"
    using CheckOnce_forgets [OF run] by blast
  then show ?thesis by (simp add: res)
qed

theorem CheckOnce_restarts_witness: "GetDesiredState demo_sick = DRunning"
proof -
  obtain hm' r' s' where run: "CheckOnce demo_services (\<lambda>_. None) 9 (demo_registry demo_sick) demo_monitor = Some (None, hm', r')"
    and s': "Find r' ''demo'' = Some s'" "s' \<noteq> demo_sick"
    by (rule demo_round_eq)
  have "distinct (map ss_id demo_services)" by (simp add: demo_services_ids)
  moreover have "Find (demo_registry demo_sick) ''demo'' = Some demo_sick"
    by (simp add: demo_registry_def Find_def)
  moreover have "list_all (\<lambda>kv. IsValidServiceId (fst kv)) (hm_latest demo_monitor)" "IsValidServiceId ''demo''"
    by (simp_all add: demo_monitor_def IsValidServiceId_def id_char_def char_between_def)
  ultimately show ?thesis
    using CheckOnce_restarts [OF run _ demo_sick_ok _ s'] by blast
qed

end
