(* ===== verification/Json.thy ===== *)
theory Json
  imports Doubles
begin

text \<open>
  JSON texts: \<open>JsonEscape\<close> (\<open>src/apps/agent/src/api/http_json.cpp\<close>), the values the agent prints as a
  datatype with its printer, and a reader of the grammar of RFC 8259 restricted to texts without
  white space between tokens, which is UTF-8. Numbers are kept as their text. The round trip at the
  end says that the reader recovers every printed value whose numbers follow the grammar and whose
  strings are UTF-8, and rejects the text of one with another string.
\<close>

section \<open>Escaping\<close>

definition hex_digit :: "nat \<Rightarrow> char" where
  "hex_digit d = ''0123456789abcdef'' ! d"

definition quote_char :: char where "quote_char = CHR 0x22"
definition backslash :: char where "backslash = CHR 0x5C"

definition escape_char :: "char \<Rightarrow> string" where
  "escape_char c =
     (if c = quote_char then [backslash, quote_char]
      else if c = backslash then [backslash, backslash]
      else if c = CHR 0x08 then [backslash, CHR ''b'']
      else if c = CHR 0x0C then [backslash, CHR ''f'']
      else if c = CHR 0x0A then [backslash, CHR ''n'']
      else if c = CHR 0x0D then [backslash, CHR ''r'']
      else if c = CHR 0x09 then [backslash, CHR ''t'']
      else if (of_char c :: nat) < 32 then
        backslash # ''u00'' @ [hex_digit (of_char c div 16), hex_digit (of_char c mod 16)]
      else [c])"

definition JsonEscape :: "string \<Rightarrow> string" where
  "JsonEscape value = concat (map escape_char value)"

section \<open>UTF-8\<close>

text \<open>
  The well-formed byte sequences of the Unicode standard: no overlong form, no surrogate, nothing
  past \<open>U+10FFFF\<close>. RFC 8259 (section 8.1) asks for them in a text that is exchanged.
\<close>

definition continuation :: "nat \<Rightarrow> bool" where
  "continuation b \<longleftrightarrow> 128 \<le> b \<and> b \<le> 191"

fun utf8_bytes :: "nat list \<Rightarrow> bool" where
  "utf8_bytes [] = True"
| "utf8_bytes (a # s) =
     (if a < 128 then utf8_bytes s
      else (case s of
              [] \<Rightarrow> False
            | b # t \<Rightarrow>
                if 194 \<le> a \<and> a \<le> 223 then continuation b \<and> utf8_bytes t
                else (case t of
                        [] \<Rightarrow> False
                      | c # u \<Rightarrow>
                          if 224 \<le> a \<and> a \<le> 239 then
                            continuation b \<and> (a = 224 \<longrightarrow> 160 \<le> b) \<and> (a = 237 \<longrightarrow> b \<le> 159)
                            \<and> continuation c \<and> utf8_bytes u
                          else (case u of
                                  [] \<Rightarrow> False
                                | d # w \<Rightarrow>
                                    240 \<le> a \<and> a \<le> 244 \<and> continuation b \<and> (a = 240 \<longrightarrow> 144 \<le> b)
                                    \<and> (a = 244 \<longrightarrow> b \<le> 143) \<and> continuation c \<and> continuation d
                                    \<and> utf8_bytes w))))"

definition valid_utf8 :: "string \<Rightarrow> bool" where
  "valid_utf8 s \<longleftrightarrow> utf8_bytes (map of_char s)"

text \<open>An ASCII character starts afresh: it is no part of what precedes it.\<close>

declare utf8_bytes.simps(2) [simp del]

lemma utf8_bytes_append_ascii: "c < 128 \<Longrightarrow> utf8_bytes (s @ c # t) \<longleftrightarrow> utf8_bytes s \<and> utf8_bytes t"
proof (induction s rule: utf8_bytes.induct)
  case (2 a s)
  note head = utf8_bytes.simps(2) [of a]
  have low: "\<not> continuation c"
    using "2.prems" by (simp add: continuation_def)
  show ?case
  proof (cases "a < 128")
    case True
    then show ?thesis
      using "2.IH"(1) [OF True] "2.prems" by (simp add: head)
  next
    case a: False
    show ?thesis
    proof (cases s)
      case Nil
      then show ?thesis
        using a low by (cases t; cases "tl t") (simp_all add: head)
    next
      case b: (Cons b u)
      show ?thesis
      proof (cases "194 \<le> a \<and> a \<le> 223")
        case True
        then show ?thesis
          using a b "2.IH"(2) [OF a b True] "2.prems" by (simp add: head)
      next
        case a2: False
        show ?thesis
        proof (cases u)
          case Nil
          then show ?thesis
            using a a2 b low by (cases t) (auto simp: head)
        next
          case d: (Cons d v)
          show ?thesis
          proof (cases "224 \<le> a \<and> a \<le> 239")
            case True
            then show ?thesis
              using a a2 b d "2.IH"(3) [OF a b a2 d True] "2.prems" by (simp add: head)
          next
            case a3: False
            then show ?thesis
              using a a2 b d low "2.IH"(4) [OF a b a2 d a3] "2.prems" by (cases v) (auto simp: head)
          qed
        qed
      qed
    qed
  qed
qed (simp add: utf8_bytes.simps(2))

declare utf8_bytes.simps(2) [simp]

lemma utf8_bytes_ascii: "list_all (\<lambda>b. b < 128) s \<Longrightarrow> utf8_bytes (s @ t) = utf8_bytes t"
  by (induction s) simp_all

text \<open>Replacing ASCII characters by ASCII texts neither makes nor mends an error.\<close>

lemma utf8_bytes_replace:
  assumes "\<And>b. b < 128 \<Longrightarrow> f b \<noteq> [] \<and> list_all (\<lambda>b. b < 128) (f b)" and "\<And>b. 128 \<le> b \<Longrightarrow> f b = [b]"
  shows "utf8_bytes (concat (map f s)) = utf8_bytes s"
proof (induction s rule: length_induct)
  case (1 s)
  have same: "concat (map f a) = a" if "\<forall>b \<in> set a. 128 \<le> b" for a
    using that assms(2) by (induction a) auto
  show ?case
  proof (cases "\<exists>b \<in> set s. b < 128")
    case True
    then obtain a c t where s: "s = a @ c # t" "c < 128" "\<forall>b \<in> set a. \<not> b < 128"
      by (rule split_list_first_propE)
    obtain x xs where f: "f c = x # xs" "x < 128" "list_all (\<lambda>b. b < 128) xs"
      using assms(1) [OF s(2)] by (cases "f c") auto
    have "utf8_bytes (concat (map f t)) = utf8_bytes t"
      using "1.IH" by (simp add: s(1))
    then show ?thesis
      using s(2,3) f same [of a] by (simp add: s(1) not_less utf8_bytes_append_ascii utf8_bytes_ascii)
  next
    case False
    then show ?thesis using same [of s] by (simp add: not_less)
  qed
qed

lemma valid_utf8_simps [simp]:
  "valid_utf8 []" "(of_char c :: nat) < 128 \<Longrightarrow> valid_utf8 (c # s) = valid_utf8 s"
  by (simp_all add: valid_utf8_def)

lemma valid_utf8_append_ascii:
  "(of_char c :: nat) < 128 \<Longrightarrow> valid_utf8 (s @ c # t) \<longleftrightarrow> valid_utf8 s \<and> valid_utf8 t"
  by (simp add: valid_utf8_def utf8_bytes_append_ascii)

lemma ascii_utf8: "list_all (\<lambda>c. (of_char c :: nat) < 128) s \<Longrightarrow> valid_utf8 s"
  unfolding valid_utf8_def by (induction s) simp_all

lemma hex_digit_ascii: "d < 16 \<Longrightarrow> (of_char (hex_digit d) :: nat) < 128"
proof -
  have "list_all (\<lambda>d. (of_char (hex_digit d) :: nat) < 128) [0..<16]"
    by (simp add: upt_rec hex_digit_def)
  then show "d < 16 \<Longrightarrow> ?thesis"
    by (simp add: list_all_iff)
qed

lemma escape_char_utf8:
  "(of_char c :: nat) < 128 \<Longrightarrow> escape_char c \<noteq> [] \<and> list_all (\<lambda>c. (of_char c :: nat) < 128) (escape_char c)"
  "128 \<le> (of_char c :: nat) \<Longrightarrow> escape_char c = [c]"
proof -
  show "(of_char c :: nat) < 128 \<Longrightarrow> escape_char c \<noteq> [] \<and> list_all (\<lambda>c. (of_char c :: nat) < 128) (escape_char c)"
    by (simp add: escape_char_def quote_char_def backslash_def hex_digit_ascii)
  assume "128 \<le> (of_char c :: nat)"
  moreover from this have "c \<noteq> quote_char" "c \<noteq> backslash" "c \<noteq> CHR 0x08" "c \<noteq> CHR 0x0C" "c \<noteq> CHR 0x0A"
    "c \<noteq> CHR 0x0D" "c \<noteq> CHR 0x09"
    by (auto simp: quote_char_def backslash_def)
  ultimately show "escape_char c = [c]"
    by (simp add: escape_char_def)
qed

lemma JsonEscape_utf8 [simp]: "valid_utf8 (JsonEscape s) = valid_utf8 s"
proof -
  define f where "f = (\<lambda>b :: nat. if b < 256 then map of_char (escape_char (char_of b)) else [b])"
  have "map of_char (JsonEscape s) = concat (map f (map of_char s))"
    by (induction s) (simp_all add: JsonEscape_def f_def)
  moreover have "utf8_bytes (concat (map f t)) = utf8_bytes t" for t
  proof (rule utf8_bytes_replace)
    show "f b \<noteq> [] \<and> list_all (\<lambda>b. b < 128) (f b)" if "b < 128" for b
      using that escape_char_utf8(1) [of "char_of b"] by (simp add: f_def list_all_iff)
    show "f b = [b]" if "128 \<le> b" for b
      using that escape_char_utf8(2) [of "char_of b"] by (simp add: f_def)
  qed
  ultimately show ?thesis
    by (metis valid_utf8_def)
qed

section \<open>Values and their text\<close>

datatype json =
    JNull
  | JBool bool
  | JNum string
  | JStr string
  | JArr "json list"
  | JObj "(string \<times> json) list"

fun comma_separated :: "string list \<Rightarrow> string" where
  "comma_separated [] = []"
| "comma_separated [x] = x"
| "comma_separated (x # y # ys) = x @ CHR '','' # comma_separated (y # ys)"

definition string_text :: "string \<Rightarrow> string" where
  "string_text s = quote_char # JsonEscape s @ [quote_char]"

fun render :: "json \<Rightarrow> string" where
  "render JNull = ''null''"
| "render (JBool b) = (if b then ''true'' else ''false'')"
| "render (JNum s) = s"
| "render (JStr s) = string_text s"
| "render (JArr js) = CHR ''['' # comma_separated (map render js) @ '']''"
| "render (JObj ms) =
     CHR ''{'' # comma_separated (map (\<lambda>(k, v). string_text k @ CHR '':'' # render v) ms) @ ''}''"

abbreviation member_text :: "string \<times> json \<Rightarrow> string" where
  "member_text m \<equiv> string_text (fst m) @ CHR '':'' # render (snd m)"

lemma render_JObj: "render (JObj ms) = CHR ''{'' # comma_separated (map member_text ms) @ ''}''"
  by (simp add: case_prod_beta')

section \<open>The grammar of numbers\<close>

text \<open>\<open>number = [ minus ] int [ frac ] [ exp ]\<close>, each part as a function of the text it starts.\<close>

definition number_char :: "char \<Rightarrow> bool" where
  "number_char c \<longleftrightarrow> is_digit c \<or> c = CHR ''-'' \<or> c = CHR ''+'' \<or> c = CHR ''.'' \<or> c = CHR ''e'' \<or> c = CHR ''E''"

definition json_digits :: "string \<Rightarrow> bool" where
  "json_digits s \<longleftrightarrow> s \<noteq> [] \<and> list_all is_digit s"

definition json_int :: "string \<Rightarrow> bool" where
  "json_int s \<longleftrightarrow> json_digits s \<and> (hd s = CHR ''0'' \<longrightarrow> length s = 1)"

definition json_exp :: "string \<Rightarrow> bool" where
  "json_exp s \<longleftrightarrow>
     s = [] \<or> (hd s = CHR ''e'' \<or> hd s = CHR ''E'')
       \<and> json_digits (if tl s \<noteq> [] \<and> (hd (tl s) = CHR ''+'' \<or> hd (tl s) = CHR ''-'') then tl (tl s) else tl s)"

definition json_frac_exp :: "string \<Rightarrow> bool" where
  "json_frac_exp s \<longleftrightarrow>
     (if s \<noteq> [] \<and> hd s = CHR ''.'' then
        json_digits (takeWhile is_digit (tl s)) \<and> json_exp (dropWhile is_digit (tl s))
      else json_exp s)"

definition json_number :: "string \<Rightarrow> bool" where
  "json_number s \<longleftrightarrow>
     (let t = (if s \<noteq> [] \<and> hd s = CHR ''-'' then tl s else s)
      in json_int (takeWhile is_digit t) \<and> json_frac_exp (dropWhile is_digit t))"

text \<open>The values whose text is JSON: every number follows the grammar.\<close>

fun json_ok :: "json \<Rightarrow> bool" where
  "json_ok (JNum s) = json_number s"
| "json_ok (JArr js) = list_all json_ok js"
| "json_ok (JObj ms) = list_all (\<lambda>(k, v). json_ok v) ms"
| "json_ok _ = True"

text \<open>The values all of whose strings are UTF-8.\<close>

fun json_utf8 :: "json \<Rightarrow> bool" where
  "json_utf8 (JStr s) = valid_utf8 s"
| "json_utf8 (JArr js) = list_all json_utf8 js"
| "json_utf8 (JObj ms) = list_all (\<lambda>(k, v). valid_utf8 k \<and> json_utf8 v) ms"
| "json_utf8 _ = True"

section \<open>The reader\<close>

definition hex_value :: "char \<Rightarrow> nat option" where
  "hex_value c =
     (if is_digit c then Some (digit_val c)
      else if 97 \<le> (of_char c :: nat) \<and> (of_char c :: nat) \<le> 102 then Some (of_char c - 87)
      else if 65 \<le> (of_char c :: nat) \<and> (of_char c :: nat) \<le> 70 then Some (of_char c - 55)
      else None)"

text \<open>
  One character of a string: the escapes of the grammar, a \<open>\u\<close> escape only when it names an ASCII
  character. Other bytes from \<open>0x20\<close> on stand for themselves.
\<close>

definition read_escape :: "string \<Rightarrow> (char \<times> string) option" where
  "read_escape s =
     (if s = [] then None
      else if hd s = quote_char \<or> hd s = backslash \<or> hd s = CHR ''/'' then Some (hd s, tl s)
      else if hd s = CHR ''b'' then Some (CHR 0x08, tl s)
      else if hd s = CHR ''f'' then Some (CHR 0x0C, tl s)
      else if hd s = CHR ''n'' then Some (CHR 0x0A, tl s)
      else if hd s = CHR ''r'' then Some (CHR 0x0D, tl s)
      else if hd s = CHR ''t'' then Some (CHR 0x09, tl s)
      else if hd s = CHR ''u'' \<and> 5 \<le> length s then
        (case (hex_value (s ! 1), hex_value (s ! 2), hex_value (s ! 3), hex_value (s ! 4)) of
           (Some a, Some b, Some c, Some d) \<Rightarrow>
             (let v = ((a * 16 + b) * 16 + c) * 16 + d
              in if v < 128 then Some (char_of v, drop 5 s) else None)
         | _ \<Rightarrow> None)
      else None)"

definition read_char :: "string \<Rightarrow> (char \<times> string) option" where
  "read_char s =
     (if s = [] then None
      else if hd s = backslash then read_escape (tl s)
      else if (of_char (hd s) :: nat) < 32 then None
      else Some (hd s, tl s))"

lemma read_escape_shorter: "read_escape s = Some (c, r) \<Longrightarrow> length r < length s"
  by (cases s) (auto simp: read_escape_def Let_def split: if_splits option.splits)

lemma read_char_shorter: "read_char s = Some (c, r) \<Longrightarrow> length r < length s"
  by (cases s) (auto simp: read_char_def dest: read_escape_shorter split: if_splits)

text \<open>The characters of a string up to its closing quote.\<close>

function read_string :: "string \<Rightarrow> (string \<times> string) option" where
  "read_string s =
     (if s \<noteq> [] \<and> hd s = quote_char then Some ([], tl s)
      else (case read_char s of
              None \<Rightarrow> None
            | Some (c, r) \<Rightarrow> map_option (\<lambda>(t, r). (c # t, r)) (read_string r)))"
  by pat_completeness auto
termination
  by (relation "measure length") (auto dest: read_char_shorter)

declare read_string.simps [simp del]

definition read_number :: "string \<Rightarrow> (json \<times> string) option" where
  "read_number s =
     (let t = takeWhile number_char s
      in if json_number t then Some (JNum t, dropWhile number_char s) else None)"

text \<open>
  A value, the items of an array and the members of an object, with fuel. Each call reads a
  character of its own or hands over to one that does, so the length of the text is enough.
\<close>

fun read_value :: "nat \<Rightarrow> string \<Rightarrow> (json \<times> string) option"
  and read_items :: "nat \<Rightarrow> string \<Rightarrow> (json list \<times> string) option"
  and read_members :: "nat \<Rightarrow> string \<Rightarrow> ((string \<times> json) list \<times> string) option" where
  "read_value 0 s = None"
| "read_value (Suc n) s =
     (if starts_with s ''null'' then Some (JNull, drop 4 s)
      else if starts_with s ''true'' then Some (JBool True, drop 4 s)
      else if starts_with s ''false'' then Some (JBool False, drop 5 s)
      else if starts_with s [quote_char] then map_option (\<lambda>(t, r). (JStr t, r)) (read_string (tl s))
      else if starts_with s ''[]'' then Some (JArr [], drop 2 s)
      else if starts_with s ''['' then map_option (\<lambda>(js, r). (JArr js, r)) (read_items n (tl s))
      else if starts_with s ''{}'' then Some (JObj [], drop 2 s)
      else if starts_with s ''{'' then map_option (\<lambda>(ms, r). (JObj ms, r)) (read_members n (tl s))
      else read_number s)"
| "read_items 0 s = None"
| "read_items (Suc n) s =
     (case read_value n s of
        None \<Rightarrow> None
      | Some (j, r) \<Rightarrow>
          if starts_with r '','' then map_option (\<lambda>(js, r). (j # js, r)) (read_items n (tl r))
          else if starts_with r '']'' then Some ([j], tl r)
          else None)"
| "read_members 0 s = None"
| "read_members (Suc n) s =
     (if \<not> starts_with s [quote_char] then None
      else (case read_string (tl s) of
              None \<Rightarrow> None
            | Some (k, r) \<Rightarrow>
                if \<not> starts_with r '':'' then None
                else (case read_value n (tl r) of
                        None \<Rightarrow> None
                      | Some (j, r) \<Rightarrow>
                          if starts_with r '','' then
                            map_option (\<lambda>(ms, r). ((k, j) # ms, r)) (read_members n (tl r))
                          else if starts_with r ''}'' then Some ([(k, j)], tl r)
                          else None)))"

text \<open>A text is read as a whole, and only when it is UTF-8.\<close>

definition read_json :: "string \<Rightarrow> json option" where
  "read_json s =
     (if valid_utf8 s then (case read_value (length s) s of Some (j, []) \<Rightarrow> Some j | _ \<Rightarrow> None) else None)"

section \<open>The reader recovers strings\<close>

lemma hex_value_hex_digit: "d < 16 \<Longrightarrow> hex_value (hex_digit d) = Some d"
proof -
  assume "d < 16"
  moreover have "list_all (\<lambda>d. hex_value (hex_digit d) = Some d) [0..<16]"
    by (simp add: upt_rec hex_digit_def hex_value_def is_digit_def digit_val_def)
  ultimately show ?thesis
    by (simp add: list_all_iff)
qed

lemma of_char_marks [simp]: "(of_char quote_char :: nat) = 34" "(of_char backslash :: nat) = 92"
  by (simp_all add: quote_char_def backslash_def)

lemma read_char_escape: "read_char (escape_char c @ r) = Some (c, r)"
proof (cases "(of_char c :: nat) < 32 \<and> c \<noteq> CHR 0x08 \<and> c \<noteq> CHR 0x09 \<and> c \<noteq> CHR 0x0A \<and> c \<noteq> CHR 0x0C \<and> c \<noteq> CHR 0x0D")
  case True
  then have "c \<noteq> quote_char" "c \<noteq> backslash"
    using of_char_marks by (auto simp del: of_char_marks)
  then have *: "escape_char c = backslash # ''u00'' @ [hex_digit (of_char c div 16), hex_digit (of_char c mod 16)]"
    using True by (simp add: escape_char_def)
  have "hex_value (CHR ''0'') = Some 0"
    by (simp add: hex_value_def is_digit_def digit_val_def)
  moreover have "hex_value (hex_digit (of_char c div 16)) = Some (of_char c div 16)"
    "hex_value (hex_digit (of_char c mod 16)) = Some (of_char c mod 16)"
    using True by (auto intro: hex_value_hex_digit)
  moreover have "(of_char c :: nat) div 16 * 16 + of_char c mod 16 = of_char c"
    by simp
  ultimately show ?thesis
    using True by (simp add: * read_char_def read_escape_def backslash_def quote_char_def del: div_mult_mod_eq)
next
  case False
  then show ?thesis
    by (auto simp: escape_char_def read_char_def read_escape_def backslash_def quote_char_def)
qed

lemma escape_char_hd: "escape_char c \<noteq> []" "hd (escape_char c) \<noteq> quote_char"
  by (auto simp: escape_char_def backslash_def quote_char_def)

lemma read_JsonEscape: "read_string (JsonEscape s @ quote_char # r) = Some (s, r)"
proof (induction s)
  case Nil
  show ?case by (subst read_string.simps) (simp add: JsonEscape_def)
next
  case (Cons c s)
  let ?rest = "JsonEscape s @ quote_char # r"
  have "JsonEscape (c # s) @ quote_char # r = escape_char c @ ?rest"
    by (simp add: JsonEscape_def)
  moreover have "read_string (escape_char c @ ?rest) = Some (c # s, r)"
    using escape_char_hd [of c] Cons.IH
    by (subst read_string.simps) (simp add: read_char_escape hd_append)
  ultimately show ?case by simp
qed

lemma read_string_text: "read_string (tl (string_text s @ r)) = Some (s, r)"
  by (simp add: string_text_def read_JsonEscape)

section \<open>The reader recovers numbers\<close>

lemma json_digits_number_chars: "json_digits s \<Longrightarrow> list_all number_char s"
  by (auto simp: json_digits_def number_char_def list_all_iff)

lemma json_exp_number_chars: "json_exp s \<Longrightarrow> list_all number_char s"
proof (cases s)
  case (Cons c t)
  assume "json_exp s"
  then have c: "number_char c"
    and d: "json_digits (if t \<noteq> [] \<and> (hd t = CHR ''+'' \<or> hd t = CHR ''-'') then tl t else t)"
    by (auto simp: Cons json_exp_def number_char_def)
  have "list_all number_char t"
  proof (cases "t \<noteq> [] \<and> (hd t = CHR ''+'' \<or> hd t = CHR ''-'')")
    case True
    with d show ?thesis
      by (cases t) (auto dest: json_digits_number_chars simp: number_char_def)
  next
    case False
    with d show ?thesis by (simp add: json_digits_number_chars)
  qed
  with c show ?thesis by (simp add: Cons)
qed simp

lemma list_all_split: "list_all P (takeWhile Q s) \<Longrightarrow> list_all P (dropWhile Q s) \<Longrightarrow> list_all P s"
  by (metis list_all_append takeWhile_dropWhile_id)

lemma json_frac_exp_number_chars: "json_frac_exp s \<Longrightarrow> list_all number_char s"
proof (cases "s \<noteq> [] \<and> hd s = CHR ''.''")
  case True
  assume "json_frac_exp s"
  then have "list_all number_char (tl s)"
    using True
    by (auto simp: json_frac_exp_def
        intro: list_all_split [OF json_digits_number_chars json_exp_number_chars])
  with True show ?thesis
    by (cases s) (simp_all add: number_char_def)
next
  case False
  assume "json_frac_exp s"
  with False show ?thesis
    by (auto simp: json_frac_exp_def intro: json_exp_number_chars split: if_splits)
qed

lemma json_number_chars: "json_number s \<Longrightarrow> s \<noteq> [] \<and> list_all number_char s"
proof -
  assume n: "json_number s"
  define t where "t = (if s \<noteq> [] \<and> hd s = CHR ''-'' then tl s else s)"
  have t: "json_digits (takeWhile is_digit t)" "json_frac_exp (dropWhile is_digit t)"
    using n by (auto simp: json_number_def json_int_def t_def Let_def)
  then have "list_all number_char t"
    by (rule list_all_split [OF json_digits_number_chars json_frac_exp_number_chars])
  moreover have "t \<noteq> []"
    using t(1) by (auto simp: json_digits_def)
  ultimately have "list_all number_char t" "t \<noteq> []" by simp_all
  then show ?thesis
    by (cases s) (auto simp: t_def number_char_def split: if_splits)
qed

definition ends_number :: "string \<Rightarrow> bool" where
  "ends_number r \<longleftrightarrow> r = [] \<or> \<not> number_char (hd r)"

lemma read_number_text:
  "json_number s \<Longrightarrow> ends_number r \<Longrightarrow> read_number (s @ r) = Some (JNum s, r)"
proof -
  assume n: "json_number s" and r: "ends_number r"
  have all: "\<forall>c \<in> set s. number_char c"
    using json_number_chars [OF n] by (simp add: list_all_iff)
  have "takeWhile number_char r = []" "dropWhile number_char r = r"
    using r by (cases r; simp add: ends_number_def)+
  then show ?thesis
    using n all by (simp add: read_number_def takeWhile_append2 dropWhile_append2)
qed

lemma json_number_no_token:
  assumes "json_number s"
  shows "hd (s @ r) \<noteq> quote_char" "hd (s @ r) \<noteq> CHR ''['' " "hd (s @ r) \<noteq> CHR ''{''"
    "hd (s @ r) \<noteq> CHR ''n''" "hd (s @ r) \<noteq> CHR ''t''" "hd (s @ r) \<noteq> CHR ''f''" "s @ r \<noteq> []"
proof -
  have "s \<noteq> []" "number_char (hd s)"
    using json_number_chars [OF assms] by (cases s; simp)+
  then show "hd (s @ r) \<noteq> quote_char" "hd (s @ r) \<noteq> CHR ''['' " "hd (s @ r) \<noteq> CHR ''{''"
    "hd (s @ r) \<noteq> CHR ''n''" "hd (s @ r) \<noteq> CHR ''t''" "hd (s @ r) \<noteq> CHR ''f''" "s @ r \<noteq> []"
    by (auto simp: number_char_def is_digit_def quote_char_def)
qed

section \<open>The reader recovers values\<close>

lemma starts_with_simps [simp]:
  "starts_with s []"
  "\<not> starts_with [] (d # p)"
  "starts_with (c # s) (d # p) \<longleftrightarrow> c = d \<and> starts_with s p"
  by (auto simp: starts_with_def)

lemma starts_with_hd: "starts_with s (d # p) \<Longrightarrow> s \<noteq> [] \<and> hd s = d"
  by (cases s) auto

lemma ends_number_tokens [simp]:
  "ends_number []" "ends_number (CHR '','' # r)" "ends_number (CHR '']'' # r)" "ends_number (CHR ''}'' # r)"
  by (simp_all add: ends_number_def number_char_def is_digit_def)

lemma comma_separated_Cons:
  "xs \<noteq> [] \<Longrightarrow> comma_separated (x # xs) = x @ CHR '','' # comma_separated xs"
  by (cases xs) auto

definition reads_back :: "json \<Rightarrow> bool" where
  "reads_back j \<longleftrightarrow>
     (\<forall>n r. length (render j) \<le> n \<longrightarrow> ends_number r \<longrightarrow> read_value n (render j @ r) = Some (j, r))"

lemma reads_backD:
  "reads_back j \<Longrightarrow> length (render j) \<le> n \<Longrightarrow> ends_number r \<Longrightarrow> read_value n (render j @ r) = Some (j, r)"
  by (simp add: reads_back_def)

lemma reads_backI:
  assumes "\<And>m r. length (render j) \<le> Suc m \<Longrightarrow> ends_number r \<Longrightarrow> read_value (Suc m) (render j @ r) = Some (j, r)"
    and "render j \<noteq> []"
  shows "reads_back j"
  unfolding reads_back_def
proof (intro allI impI)
  fix n r
  assume n: "length (render j) \<le> n" "ends_number r"
  then obtain m where "n = Suc m"
    using assms(2) by (cases n) auto
  with assms(1) n show "read_value n (render j @ r) = Some (j, r)" by blast
qed

lemma read_items_back:
  "list_all reads_back js \<Longrightarrow> js \<noteq> [] \<Longrightarrow> length (comma_separated (map render js)) < n \<Longrightarrow>
   read_items n (comma_separated (map render js) @ CHR '']'' # r) = Some (js, r)"
proof (induction js arbitrary: n)
  case (Cons j js)
  obtain m where n: "n = Suc m"
    using Cons.prems by (cases n) auto
  show ?case
  proof (cases "js = []")
    case True
    then show ?thesis
      using Cons.prems by (simp add: n reads_backD)
  next
    case False
    then have "comma_separated (map render (j # js)) = render j @ CHR '','' # comma_separated (map render js)"
      by (simp add: comma_separated_Cons)
    then show ?thesis
      using Cons.prems Cons.IH [of m] False by (simp add: n reads_backD)
  qed
qed simp

lemma read_members_back:
  "list_all (\<lambda>m. reads_back (snd m)) ms \<Longrightarrow> ms \<noteq> [] \<Longrightarrow>
   length (comma_separated (map member_text ms)) < n \<Longrightarrow>
   read_members n (comma_separated (map member_text ms) @ CHR ''}'' # r) = Some (ms, r)"
proof (induction ms arbitrary: n)
  case (Cons m ms)
  obtain k j where m: "m = (k, j)" by (cases m)
  obtain l where n: "n = Suc l"
    using Cons.prems by (cases n) auto
  have key: "starts_with (string_text k @ s) [quote_char]" "read_string (tl (string_text k @ s)) = Some (k, s)" for s
    by (simp add: string_text_def) (rule read_string_text)
  show ?case
  proof (cases "ms = []")
    case True
    then show ?thesis
      using Cons.prems by (simp add: n m key reads_backD)
  next
    case False
    then have "comma_separated (map member_text (m # ms))
        = string_text k @ CHR '':'' # render j @ CHR '','' # comma_separated (map member_text ms)"
      by (simp add: m comma_separated_Cons)
    then show ?thesis
      using Cons.prems Cons.IH [of l] False by (simp add: n m key reads_backD)
  qed
qed simp

lemma read_value_number:
  assumes "json_number s" and "ends_number r"
  shows "read_value (Suc n) (s @ r) = Some (JNum s, r)"
proof -
  have "\<not> starts_with (s @ r) (d # p)"
    if "d \<in> {CHR ''n'', CHR ''t'', CHR ''f'', quote_char, CHR ''['', CHR ''{''}" for d p
    using that starts_with_hd [of "s @ r" d p] json_number_no_token [OF assms(1), of r] by blast
  then show ?thesis
    using read_number_text [OF assms] by simp
qed

lemma length_render: "json_ok j \<Longrightarrow> 0 < length (render j)"
  by (cases j) (auto simp: string_text_def dest: json_number_chars)

lemma comma_separated_hd:
  "xs \<noteq> [] \<Longrightarrow> hd xs \<noteq> [] \<Longrightarrow> comma_separated xs \<noteq> [] \<and> hd (comma_separated xs) = hd (hd xs)"
  by (cases xs rule: comma_separated.cases) auto

lemma render_hd: "json_ok j \<Longrightarrow> render j \<noteq> [] \<and> hd (render j) \<noteq> CHR '']''"
proof (cases j)
  case (JNum s)
  assume "json_ok j"
  then have "s \<noteq> []" "number_char (hd s)"
    using json_number_chars [of s] by (cases s; simp add: JNum)+
  then show ?thesis
    by (auto simp: JNum number_char_def is_digit_def)
qed (simp_all add: string_text_def quote_char_def)

lemma json_reads_back: "json_ok j \<Longrightarrow> reads_back j"
proof (induction j)
  case (JStr t)
  have "read_value (Suc m) (render (JStr t) @ r) = Some (JStr t, r)" for m r
    using read_string_text [of t r] by (simp add: string_text_def quote_char_def)
  then show ?case
    by (intro reads_backI) (simp_all add: string_text_def)
next
  case (JNum t)
  then show ?case
    by (intro reads_backI) (simp_all add: read_value_number json_number_chars del: read_value.simps)
next
  case (JArr js)
  then have ok: "list_all reads_back js"
    by (auto simp: list_all_iff)
  have "read_value (Suc m) (render (JArr js) @ r) = Some (JArr js, r)"
    if "length (render (JArr js)) \<le> Suc m" for m r
  proof (cases "js = []")
    case False
    then have "comma_separated (map render js) \<noteq> []" "hd (comma_separated (map render js)) \<noteq> CHR '']''"
      using comma_separated_hd [of "map render js"] render_hd [of "hd js"] JArr.prems
      by (cases js; simp)+
    then have "\<not> starts_with (render (JArr js) @ r) ''[]''"
      by (cases "comma_separated (map render js)") auto
    then show ?thesis
      using read_items_back [OF ok False, of m r] that by (simp add: quote_char_def)
  qed (simp add: quote_char_def)
  then show ?case
    by (rule reads_backI) simp_all
next
  case (JObj ms)
  then have ok: "list_all (\<lambda>m. reads_back (snd m)) ms"
    by (auto simp: list_all_iff)
  have "read_value (Suc m) (render (JObj ms) @ r) = Some (JObj ms, r)"
    if "length (render (JObj ms)) \<le> Suc m" for m r
  proof (cases "ms = []")
    case False
    then have "comma_separated (map member_text ms) \<noteq> []" "hd (comma_separated (map member_text ms)) = quote_char"
      using comma_separated_hd [of "map member_text ms"] by (cases ms; simp add: string_text_def)+
    then have "\<not> starts_with (CHR ''{'' # comma_separated (map member_text ms) @ ''}'' @ r) ''{}''"
      by (cases "comma_separated (map member_text ms)") (auto simp: quote_char_def)
    then show ?thesis
      using read_members_back [OF ok False, of m r] that
      by (simp add: render_JObj quote_char_def del: render.simps(6))
  qed (simp add: quote_char_def)
  then show ?case
    by (rule reads_backI) simp_all
qed (auto intro!: reads_backI split: if_splits)

text \<open>A printed value is UTF-8 when its strings are, and otherwise it is not.\<close>

lemma comma_separated_utf8: "valid_utf8 (comma_separated xs) \<longleftrightarrow> list_all valid_utf8 xs"
  by (induction xs rule: comma_separated.induct) (simp_all add: valid_utf8_append_ascii)

lemma string_text_utf8 [simp]: "valid_utf8 (string_text s) = valid_utf8 s"
  by (simp add: string_text_def valid_utf8_append_ascii)

lemma number_chars_ascii: "list_all number_char s \<Longrightarrow> valid_utf8 s"
  by (rule ascii_utf8) (auto simp: list_all_iff number_char_def is_digit_def)

lemma render_utf8: "json_ok j \<Longrightarrow> valid_utf8 (render j) = json_utf8 j"
proof (induction j)
  case (JNum t)
  then show ?case by (simp add: number_chars_ascii json_number_chars)
next
  case (JArr js)
  then show ?case
    by (simp add: valid_utf8_append_ascii comma_separated_utf8 list_all_iff)
next
  case (JObj ms)
  have "valid_utf8 (member_text m) \<longleftrightarrow> valid_utf8 (fst m) \<and> json_utf8 (snd m)" if "m \<in> set ms" for m
  proof -
    have "json_ok (snd m)"
      using that JObj.prems by (auto simp: list_all_iff)
    then have "valid_utf8 (render (snd m)) = json_utf8 (snd m)"
      using that by (intro JObj.IH [of m]) (auto simp: snds.simps)
    then show ?thesis
      by (simp add: valid_utf8_append_ascii)
  qed
  then show ?case
    by (simp add: render_JObj valid_utf8_append_ascii comma_separated_utf8 list_all_iff case_prod_beta del: render.simps(6))
qed simp_all

text \<open>
  What the reader makes of a printed value: that value, when its strings are UTF-8; otherwise the
  text is not JSON.
\<close>

lemma read_json_render: "json_ok j \<Longrightarrow> read_json (render j) = (if json_utf8 j then Some j else None)"
  using reads_backD [OF json_reads_back, of j "length (render j)" "[]"] by (simp add: read_json_def render_utf8)

section \<open>Printed numbers follow the grammar\<close>

lemma digit_char_neq_0: "0 < d \<Longrightarrow> d < 10 \<Longrightarrow> digit_char d \<noteq> CHR ''0''"
proof
  assume d: "0 < d" "d < 10" and "digit_char d = CHR ''0''"
  then have "(of_char (digit_char d) :: nat) = 48" by simp
  with d show False by (simp add: of_char_digit_char)
qed

lemma nat_to_string_hd: "0 < n \<Longrightarrow> hd (nat_to_string n) \<noteq> CHR ''0''"
proof (induction n rule: nat_to_string.induct)
  case (1 n)
  show ?case
  proof (cases "n < 10")
    case True
    then show ?thesis
      using 1 by (subst nat_to_string.simps) (simp add: digit_char_neq_0)
  next
    case False
    then show ?thesis
      using 1 by (subst nat_to_string.simps) (simp add: hd_append)
  qed
qed

lemma json_int_nat: "json_int (nat_to_string n)"
  using nat_to_string_digits [of n] nat_to_string_hd [of n]
  by (cases "n = 0") (auto simp: json_int_def json_digits_def list_all_iff nat_to_string.simps)

lemma json_int_take: "json_int s \<Longrightarrow> json_int (take (Suc k) s)"
  by (cases s) (auto simp: json_int_def json_digits_def list_all_iff dest: in_set_takeD)

lemma digit_not_mark: "is_digit c \<Longrightarrow> c \<noteq> CHR ''-'' \<and> c \<noteq> CHR ''+'' \<and> c \<noteq> CHR ''.'' \<and> c \<noteq> CHR ''e''"
  by (auto simp: is_digit_def)

lemma split_digits:
  "list_all is_digit ds \<Longrightarrow> t = [] \<or> \<not> is_digit (hd t) \<Longrightarrow>
   takeWhile is_digit (ds @ t) = ds \<and> dropWhile is_digit (ds @ t) = t"
  by (cases t) (auto simp: list_all_iff takeWhile_append2 dropWhile_append2 takeWhile_tail)

text \<open>A number from its parts: sign, integral part, fraction and exponent.\<close>

lemma json_number_parts:
  assumes "json_int w" and "json_frac_exp t" and "t = [] \<or> \<not> is_digit (hd t)"
    and "sign = [] \<or> sign = ''-''"
  shows "json_number (sign @ w @ t)"
proof -
  have "list_all is_digit w" "w \<noteq> []"
    using assms(1) by (simp_all add: json_int_def json_digits_def)
  then have "hd (w @ t) \<noteq> CHR ''-''" "takeWhile is_digit (w @ t) = w" "dropWhile is_digit (w @ t) = t"
    using split_digits [OF _ assms(3), of w] digit_not_mark [of "hd w"] by (cases w; simp)+
  moreover from this assms(1,2) have "json_int (takeWhile is_digit (w @ t))" "json_frac_exp (dropWhile is_digit (w @ t))"
    by (simp_all only:)
  moreover have "json_number (sign @ u)"
    if "hd u \<noteq> CHR ''-''" "json_int (takeWhile is_digit u)" "json_frac_exp (dropWhile is_digit u)" for u
    using that assms(4) by (auto simp: json_number_def)
  ultimately show ?thesis by blast
qed

lemma json_number_int: "json_number (int_to_string i)"
proof -
  have "json_number ((if i < 0 then ''-'' else []) @ nat_to_string (nat \<bar>i\<bar>) @ [])"
    by (intro json_number_parts json_int_nat) (auto simp: json_frac_exp_def json_exp_def)
  then show ?thesis
    by (simp add: int_to_string_def split: if_splits)
qed

lemma json_number_nat: "json_number (nat_to_string n)"
  using json_number_int [of "int n"] by (simp add: int_to_string_def)

lemma json_exp_exponent_text: "json_exp (exponent_text e)"
  using nat_to_string_digits [of "nat \<bar>e\<bar>"]
  by (auto simp: exponent_text_def json_exp_def json_digits_def list_all_iff Let_def is_digit_def)

lemma exponent_text_hd: "exponent_text e \<noteq> [] \<and> \<not> is_digit (hd (exponent_text e))"
  by (simp add: exponent_text_def Let_def is_digit_def)

lemma json_number_fraction:
  assumes "json_int w" and "list_all is_digit f" and "e = [] \<or> e = exponent_text x"
    and "sign = [] \<or> sign = ''-''"
  shows "json_number (sign @ with_fraction w f @ e)"
proof -
  define g where "g = strip_zeros f"
  have g: "list_all is_digit g"
    using assms(2) by (auto simp: g_def strip_zeros_def list_all_iff dest: set_dropWhileD)
  have e: "json_exp e" "e = [] \<or> \<not> is_digit (hd e)" "e = [] \<or> hd e \<noteq> CHR ''.''"
    using assms(3) json_exp_exponent_text [of x] exponent_text_hd [of x]
    by (auto simp: json_exp_def exponent_text_def Let_def)
  define t where "t = (if g = [] then e else CHR ''.'' # g @ e)"
  have "json_frac_exp t"
    using e g split_digits [OF g e(2)] by (auto simp: t_def json_frac_exp_def json_digits_def)
  moreover have "t = [] \<or> \<not> is_digit (hd t)"
    using e by (auto simp: t_def is_digit_def)
  ultimately have "json_number (sign @ w @ t)"
    by (intro json_number_parts assms(1,4))
  moreover have "with_fraction w f @ e = w @ t"
    by (simp add: with_fraction_def t_def g_def Let_def)
  ultimately show ?thesis by simp
qed

lemma json_number_format_positive:
  assumes "sign = [] \<or> sign = ''-''"
  shows "json_number (sign @ format_positive n d)"
proof -
  obtain m e where me: "significand n d = (m, e)" by (cases "significand n d")
  let ?ds = "nat_to_string m"
  have digits: "list_all is_digit (drop k ?ds)" "list_all is_digit (replicate k (CHR ''0'') @ ?ds)" for k
    using nat_to_string_digits [of m] by (auto simp: list_all_iff is_digit_def dest: in_set_dropD)
  have zero: "json_int ''0''"
    using json_int_nat [of 0] by (simp add: nat_to_string.simps digit_char_def)
  show ?thesis
    using json_number_fraction [OF json_int_take [OF json_int_nat [of m], of 0] digits(1) [of 1] disjI2 [OF refl] assms]
      json_number_fraction [OF zero digits(2) disjI1 [OF refl] assms]
      json_number_fraction [OF json_int_take [OF json_int_nat [of m], of "nat e"] digits(1) [of "nat e + 1"] disjI1 [OF refl] assms]
    by (simp add: format_positive_def me Let_def)
qed

lemma json_number_double: "isfinite x \<Longrightarrow> json_number (FormatDouble x)"
proof (cases x)
  case (Fin r)
  show ?thesis
    using json_number_format_positive [of "if r < 0 then ''-'' else []"] json_number_nat [of 0]
    by (auto simp: Fin format_rat_def nat_to_string.simps digit_char_def split: prod.splits)
qed simp_all

end
