(* ===== verification/Api.thy ===== *)
theory Api
  imports Json Monitor LogReader
begin

text \<open>
  The HTTP API of the agent (\<open>src/apps/agent/src/api/agent_api.cpp\<close> and the response helpers of
  \<open>http_json.cpp\<close>): routing, query parameters, the JSON bodies as the code prints them piece by
  piece, and \<open>AgentApi::Handle\<close> on the state of the registry, the collector and the monitor. The
  lemmas show that every body is the text of a JSON object, which requests change the agent and how,
  and that query limits stay in their range.
\<close>

section \<open>Requests and responses\<close>

text \<open>
  The parts of Boost.Beast's messages the code reads and writes. \<open>version()\<close> and \<open>keep_alive()\<close> of
  a request are answers of the library. A field is set by replacing what it held.
\<close>

datatype verb = VGet | VPost | VOther string

record HttpRequest =
  rq_method :: verb
  rq_target :: string
  rq_version :: nat
  rq_keep_alive :: bool

datatype http_status =
    status_ok | status_bad_request | status_not_found | status_method_not_allowed | status_conflict
  | status_payload_too_large | status_request_header_fields_too_large
  | status_internal_server_error | status_service_unavailable

fun status_code :: "http_status \<Rightarrow> nat" where
  "status_code status_ok = 200"
| "status_code status_bad_request = 400"
| "status_code status_not_found = 404"
| "status_code status_method_not_allowed = 405"
| "status_code status_conflict = 409"
| "status_code status_payload_too_large = 413"
| "status_code status_request_header_fields_too_large = 431"
| "status_code status_internal_server_error = 500"
| "status_code status_service_unavailable = 503"

record HttpResponse =
  rs_status :: http_status
  rs_version :: nat
  rs_keep_alive :: bool
  rs_fields :: "(string \<times> string) list"
  rs_body :: string

definition set_field :: "string \<Rightarrow> string \<Rightarrow> HttpResponse \<Rightarrow> HttpResponse" where
  "set_field name value r = r\<lparr> rs_fields := filter (\<lambda>f. fst f \<noteq> name) (rs_fields r) @ [(name, value)] \<rparr>"

definition MakeJsonResponse :: "http_status \<Rightarrow> string \<Rightarrow> HttpResponse" where
  "MakeJsonResponse status body =
     (let r = \<lparr> rs_status = status, rs_version = 11, rs_keep_alive = True, rs_fields = [], rs_body = [] \<rparr>;
          r = set_field ''Content-Type'' ''application/json; charset=utf-8'' r;
          r = set_field ''Cache-Control'' ''no-store'' r
      in set_field ''Content-Length'' (nat_to_string (length body)) (r\<lparr> rs_body := body \<rparr>))"

definition MakeErrorResponse :: "http_status \<Rightarrow> string \<Rightarrow> string \<Rightarrow> HttpResponse" where
  "MakeErrorResponse status err message =
     MakeJsonResponse status
       (''{\"error\":\"'' @ JsonEscape err @ ''\",\"message\":\"'' @ JsonEscape message @ ''\"}'')"

section \<open>Targets\<close>

definition kServicesPath :: string where "kServicesPath = ''/api/v1/services''"
definition kServicePathPrefix :: string where "kServicePathPrefix = ''/api/v1/services/''"
definition kDefaultTailLimit :: nat where "kDefaultTailLimit = 100"
definition kMaxTailLimit :: nat where "kMaxTailLimit = 500"
definition kDefaultHistoryLimit :: nat where "kDefaultHistoryLimit = 300"
definition kMaxHistoryLimit :: nat where "kMaxHistoryLimit = 300"
definition kDefaultAlertResolvedLimit :: nat where "kDefaultAlertResolvedLimit = 100"
definition kMaxAlertResolvedLimit :: nat where "kMaxAlertResolvedLimit = 500"
definition kDefaultRecoveryEventLimit :: nat where "kDefaultRecoveryEventLimit = 100"
definition kMaxRecoveryEventLimit :: nat where "kMaxRecoveryEventLimit = 500"

definition PathOnly :: "string \<Rightarrow> string" where
  "PathOnly target = (case find_char (CHR ''?'') target of None \<Rightarrow> target | Some n \<Rightarrow> take n target)"

record ServiceRoute =
  sr_service_id :: string
  sr_action :: string

definition ParseServiceRoute :: "string \<Rightarrow> ServiceRoute option" where
  "ParseServiceRoute path =
     (if \<not> starts_with path kServicePathPrefix then None
      else
        let suffix = drop (length kServicePathPrefix) path in
        case find_char (CHR ''/'') suffix of
          None \<Rightarrow> None
        | Some n \<Rightarrow>
            if n = 0 \<or> length suffix \<le> n + 1 then None
            else Some \<lparr> sr_service_id = take n suffix, sr_action = drop (n + 1) suffix \<rparr>)"

text \<open>
  The loop shared by the two query parsers: the value of the first pair with the expected key, found
  between the \<open>&\<close> separators of what follows the question mark.
\<close>

function find_pair :: "string \<Rightarrow> string \<Rightarrow> string option" where
  "find_pair expected_key remaining =
     (if remaining = [] then None
      else
        let pair = (case find_char (CHR ''&'') remaining of None \<Rightarrow> remaining | Some n \<Rightarrow> take n remaining);
            found = (case find_char (CHR ''='') pair of
                       None \<Rightarrow> None
                     | Some e \<Rightarrow> if take e pair = expected_key then Some (drop (e + 1) pair) else None)
        in case found of
             Some v \<Rightarrow> Some v
           | None \<Rightarrow>
               (case find_char (CHR ''&'') remaining of
                  None \<Rightarrow> None
                | Some n \<Rightarrow> find_pair expected_key (drop (n + 1) remaining)))"
  by pat_completeness auto
termination
  by (relation "measure (\<lambda>(_, remaining). length remaining)") auto

declare find_pair.simps [simp del]

definition query_value :: "string \<Rightarrow> string \<Rightarrow> string option" where
  "query_value target expected_key =
     (case find_char (CHR ''?'') target of
        None \<Rightarrow> None
      | Some n \<Rightarrow> find_pair expected_key (drop (n + 1) target))"

text \<open>\<open>std::size_t\<close> has 64 bits; \<open>std::clamp(parsed, 1, maximum_value)\<close>.\<close>

definition ParseBoundedPositiveQueryParameter :: "string \<Rightarrow> string \<Rightarrow> nat \<Rightarrow> nat \<Rightarrow> nat" where
  "ParseBoundedPositiveQueryParameter target expected_key default_value maximum_value =
     (case query_value target expected_key of
        None \<Rightarrow> default_value
      | Some v \<Rightarrow>
          (case from_chars_all (2 ^ 64 - 1) v of
             None \<Rightarrow> default_value
           | Some parsed \<Rightarrow> if parsed < 1 then 1 else if maximum_value < parsed then maximum_value else parsed))"

definition ParseBooleanQueryParameter :: "string \<Rightarrow> string \<Rightarrow> bool \<Rightarrow> bool" where
  "ParseBooleanQueryParameter target expected_key default_value =
     (case query_value target expected_key of
        None \<Rightarrow> default_value
      | Some v \<Rightarrow> v = ''true'' \<or> v = ''1'' \<or> v = ''yes'')"

definition ParseTailLimit :: "string \<Rightarrow> nat" where
  "ParseTailLimit target = ParseBoundedPositiveQueryParameter target ''tail'' kDefaultTailLimit kMaxTailLimit"

definition ParseHistoryLimit :: "string \<Rightarrow> nat" where
  "ParseHistoryLimit target =
     ParseBoundedPositiveQueryParameter target ''limit'' kDefaultHistoryLimit kMaxHistoryLimit"

definition ParseAlertResolvedLimit :: "string \<Rightarrow> nat" where
  "ParseAlertResolvedLimit target =
     ParseBoundedPositiveQueryParameter target ''limit'' kDefaultAlertResolvedLimit kMaxAlertResolvedLimit"

definition ParseRecoveryEventLimit :: "string \<Rightarrow> nat" where
  "ParseRecoveryEventLimit target =
     ParseBoundedPositiveQueryParameter target ''limit'' kDefaultRecoveryEventLimit kMaxRecoveryEventLimit"

definition ParseIncludeResolved :: "string \<Rightarrow> bool" where
  "ParseIncludeResolved target = ParseBooleanQueryParameter target ''include_resolved'' False"

section \<open>Bodies\<close>

text \<open>Each function returns what it appends to the stream.\<close>

definition bool_text :: "bool \<Rightarrow> string" where
  "bool_text b = (if b then ''true'' else ''false'')"

definition optional_int_text :: "int option \<Rightarrow> string" where
  "optional_int_text v = (case v of None \<Rightarrow> ''null'' | Some i \<Rightarrow> int_to_string i)"

definition AppendStatusFields :: "ServiceStatus \<Rightarrow> string" where
  "AppendStatusFields status =
     ''\"state\":\"'' @ ToString_ServiceState (st_state status) @
     ''\",\"desired_state\":\"'' @ ToString_DesiredState (st_desired_state status) @
     ''\",\"pid\":'' @ int_to_string (st_pid status) @
     '',\"uptime_seconds\":'' @ int_to_string (st_uptime status) @
     '',\"last_exit_code\":'' @ optional_int_text (st_exit_code status) @
     '',\"process_group_id\":'' @ int_to_string (st_process_group_id status) @
     '',\"last_exit_kind\":\"'' @ ToString_ProcessExitKind (st_last_exit_kind status) @
     ''\",\"last_exit_signal\":'' @ optional_int_text (st_last_exit_signal status) @
     '',\"last_error\":\"'' @ JsonEscape (st_last_error status) @
     ''\",\"last_transition_at_unix_ms\":'' @ int_to_string (st_last_transition_at_unix_ms status)"

definition AppendOptionalDouble :: "double option \<Rightarrow> string" where
  "AppendOptionalDouble v = (case v of None \<Rightarrow> ''null'' | Some x \<Rightarrow> FormatDouble x)"

definition AppendOptionalUint64 :: "u64 option \<Rightarrow> string" where
  "AppendOptionalUint64 v = (case v of None \<Rightarrow> ''null'' | Some w \<Rightarrow> nat_to_string (unat w))"

definition AppendOptionalString :: "string option \<Rightarrow> string" where
  "AppendOptionalString v = (case v of None \<Rightarrow> ''null'' | Some s \<Rightarrow> ''\"'' @ JsonEscape s @ ''\"'')"

definition AppendHealthStatusJson :: "HealthStatus \<Rightarrow> string" where
  "AppendHealthStatusJson status =
     ''{\"service_id\":\"'' @ JsonEscape (hs_service_id status) @
     ''\",\"state\":\"'' @ ToString_HealthState (hs_state status) @
     ''\",\"reason\":\"'' @ JsonEscape (hs_reason status) @
     ''\",\"consecutive_failures\":'' @ nat_to_string (unat (hs_consecutive_failures status)) @
     '',\"checked_at_unix_ms\":'' @ int_to_string (hs_checked_at_unix_ms status) @ ''}''"

definition AppendAlertEventJson :: "AlertEvent \<Rightarrow> string" where
  "AppendAlertEventJson event =
     ''{\"id\":\"'' @ JsonEscape (ev_id event) @
     ''\",\"service_id\":\"'' @ JsonEscape (ev_service_id event) @
     ''\",\"rule_id\":\"'' @ JsonEscape (ev_rule_id event) @
     ''\",\"severity\":\"'' @ ToString_AlertSeverity (ev_severity event) @
     ''\",\"state\":\"'' @ ToString_AlertEventState (ev_state event) @
     ''\",\"message\":\"'' @ JsonEscape (ev_message event) @
     ''\",\"first_triggered_at_unix_ms\":'' @ int_to_string (ev_first_triggered_at_unix_ms event) @
     '',\"last_triggered_at_unix_ms\":'' @ int_to_string (ev_last_triggered_at_unix_ms event) @
     '',\"resolved_at_unix_ms\":'' @ optional_int_text (ev_resolved_at_unix_ms event) @
     '',\"trigger_count\":'' @ nat_to_string (unat (ev_trigger_count event)) @
     '',\"acknowledged\":'' @ bool_text (ev_acknowledged event) @ ''}''"

definition AppendRecoveryEventJson :: "RecoveryEvent \<Rightarrow> string" where
  "AppendRecoveryEventJson event =
     ''{\"service_id\":\"'' @ JsonEscape (re_service_id event) @
     ''\",\"type\":\"'' @ ToString_RecoveryEventType (re_type event) @
     ''\",\"occurred_at_unix_ms\":'' @ int_to_string (re_occurred_at_unix_ms event) @
     '',\"reason\":\"'' @ JsonEscape (re_reason event) @
     ''\",\"alert_event_id\":'' @ AppendOptionalString (re_alert_event_id event) @
     '',\"restart_count_in_window\":'' @ nat_to_string (unat (re_restart_count_in_window event)) @ ''}''"

text \<open>The loops over an index that write a comma before every element but the first.\<close>

definition append_array :: "('a \<Rightarrow> string) \<Rightarrow> 'a list \<Rightarrow> string" where
  "append_array item xs =
     ''['' @ concat (map (\<lambda>i. (if 0 < i then '','' else []) @ item (xs ! i)) [0..<length xs]) @ '']''"

definition AppendAlertArrayJson :: "AlertEvent list \<Rightarrow> string" where
  "AppendAlertArrayJson alerts = append_array AppendAlertEventJson alerts"

definition AppendRecoveryEventArrayJson :: "RecoveryEvent list \<Rightarrow> string" where
  "AppendRecoveryEventArrayJson events = append_array AppendRecoveryEventJson events"

section \<open>The responses\<close>

record agent =
  ag_registry :: registry
  ag_collector :: collector
  ag_monitor :: monitor

definition service_item :: "ServiceSummary \<Rightarrow> string" where
  "service_item s =
     ''{\"id\":\"'' @ JsonEscape (ss_id s) @ ''\",\"display_name\":\"'' @ JsonEscape (ss_display_name s) @
     ''\",\"auto_start\":'' @ bool_text (ss_auto_start s) @ '','' @ AppendStatusFields (ss_status s) @ ''}''"

definition MakeServiceListResponse :: "agent \<Rightarrow> HttpResponse" where
  "MakeServiceListResponse a =
     MakeJsonResponse status_ok
       (''{\"services\":'' @ append_array service_item (ListServices (ag_registry a)) @ ''}'')"

definition MakeStatusResponse :: "sys \<Rightarrow> HttpResponse" where
  "MakeStatusResponse supervisor =
     (let d = Definition supervisor; status = GetStatus supervisor in
      MakeJsonResponse status_ok
        (''{\"id\":\"'' @ JsonEscape (sd_id d) @ ''\",\"name\":\"'' @ JsonEscape (sd_id d) @
         ''\",\"display_name\":\"'' @ JsonEscape (sd_display_name d) @
         ''\",\"auto_start\":'' @ bool_text (sd_auto_start d) @ '','' @ AppendStatusFields status @ ''}''))"

datatype api_result = Answered HttpResponse | ApiRaised string

text \<open>
  The supervisor's operation may throw; the route of the caller names one of the three actions. Between
  a successful operation and the \<open>GetStatus\<close> of its answer the supervisor is unlocked, and its
  observer and the clocks may go on.
\<close>

definition MakeActionResponse :: "sys \<Rightarrow> string \<Rightarrow> (api_result \<times> sys) option" where
  "MakeActionResponse supervisor action =
     (let respond = (\<lambda>(r, s).
        case r of
          Done True _ \<Rightarrow> map_option (\<lambda>s. (Answered (MakeStatusResponse s), s)) (yield s)
        | Done False err \<Rightarrow> Some (Answered (MakeErrorResponse status_conflict ''service_action_failed'' err), s)
        | Raised what \<Rightarrow> Some (ApiRaised what, s))
      in if action = ''start'' then Option.bind (Start supervisor) respond
         else if action = ''stop'' then Option.bind (Stop supervisor) respond
         else if action = ''restart'' then Option.bind (Restart supervisor) respond
         else Some (Answered (MakeErrorResponse status_internal_server_error ''unknown_action''
                ''unsupported internal action''), supervisor))"

definition MakeLogsResponse :: "(string \<Rightarrow> log_file) \<Rightarrow> sys \<Rightarrow> nat \<Rightarrow> HttpResponse" where
  "MakeLogsResponse files supervisor tail =
     (let d = Definition supervisor;
          (lines, err) = ReadLastLines (sd_log_path d) (files (sd_log_path d)) tail
      in if err \<noteq> [] then MakeErrorResponse status_internal_server_error ''log_read_failed'' err
         else MakeJsonResponse status_ok
           (''{\"id\":\"'' @ JsonEscape (sd_id d) @ ''\",\"name\":\"'' @ JsonEscape (sd_id d) @
            ''\",\"lines\":'' @ append_array (\<lambda>line. ''\"'' @ JsonEscape line @ ''\"'') lines @ ''}''))"

text \<open>The fields after the service id, the same in a snapshot and in a point of the history.\<close>

definition metric_fields :: "ServiceMetrics \<Rightarrow> string" where
  "metric_fields m =
     ''\"available\":'' @ bool_text (sm_available m) @ '',\"pid\":'' @ int_to_string (sm_pid m) @
     '',\"collected_at_unix_ms\":'' @ int_to_string (sm_collected_at_unix_ms m) @
     '',\"cpu_percent\":'' @ AppendOptionalDouble (sm_cpu_percent m) @
     '',\"rss_bytes\":'' @ AppendOptionalUint64 (sm_rss_bytes m) @
     '',\"thread_count\":'' @ AppendOptionalUint64 (sm_thread_count m) @
     '',\"fd_count\":'' @ AppendOptionalUint64 (sm_fd_count m) @ ''}''"

definition MakeMetricsResponse :: "agent \<Rightarrow> sys \<Rightarrow> HttpResponse" where
  "MakeMetricsResponse a supervisor =
     (let d = Definition supervisor in
      case GetLatest (sd_id d) (ag_collector a) of
        None \<Rightarrow> MakeErrorResponse status_service_unavailable ''metrics_not_ready''
                  ''metrics collector has not produced a snapshot yet''
      | Some m \<Rightarrow>
          if sm_service_id m \<noteq> sd_id d \<or> \<not> valid_ServiceMetrics m then
            MakeErrorResponse status_internal_server_error ''invalid_metrics_cache''
              ''metrics collector returned an invalid cached snapshot''
          else MakeJsonResponse status_ok
            (''{\"service_id\":\"'' @ JsonEscape (sm_service_id m) @ ''\",'' @ metric_fields m))"

definition MakeMetricsHistoryResponse :: "agent \<Rightarrow> sys \<Rightarrow> nat \<Rightarrow> HttpResponse" where
  "MakeMetricsHistoryResponse a supervisor limit =
     (let d = Definition supervisor in
      case GetHistory (sd_id d) limit (ag_collector a) of
        None \<Rightarrow> MakeErrorResponse status_service_unavailable ''metrics_not_ready''
                  ''metrics collector has not produced a history snapshot yet''
      | Some history \<Rightarrow>
          if list_ex (\<lambda>m. sm_service_id m \<noteq> sd_id d \<or> \<not> valid_ServiceMetrics m) history then
            MakeErrorResponse status_internal_server_error ''invalid_metrics_cache''
              ''metrics collector returned an invalid history point''
          else MakeJsonResponse status_ok
            (''{\"service_id\":\"'' @ JsonEscape (sd_id d) @ ''\",\"points\":'' @
             append_array (\<lambda>m. ''{'' @ metric_fields m) history @ ''}''))"

definition MakeHealthResponse :: "agent \<Rightarrow> sys \<Rightarrow> HttpResponse" where
  "MakeHealthResponse a supervisor =
     (let d = Definition supervisor in
      case GetLatestHealth (sd_id d) (ag_monitor a) of
        None \<Rightarrow> MakeErrorResponse status_service_unavailable ''health_not_ready''
                  ''health monitor has not produced a status snapshot yet''
      | Some h \<Rightarrow>
          if \<not> valid_HealthStatus h \<or> hs_service_id h \<noteq> sd_id d then
            MakeErrorResponse status_internal_server_error ''invalid_health_cache''
              ''health monitor returned an invalid cached status''
          else MakeJsonResponse status_ok (AppendHealthStatusJson h))"

definition MakeServiceAlertsResponse :: "agent \<Rightarrow> sys \<Rightarrow> bool \<Rightarrow> HttpResponse" where
  "MakeServiceAlertsResponse a supervisor include_resolved =
     (let d = Definition supervisor;
          alerts = monitor_GetAlertsForService (sd_id d) include_resolved (ag_monitor a)
      in MakeJsonResponse status_ok
           (''{\"service_id\":\"'' @ JsonEscape (sd_id d) @
            ''\",\"include_resolved\":'' @ bool_text include_resolved @
            '',\"alerts\":'' @ AppendAlertArrayJson alerts @ ''}''))"

definition MakeAllAlertsResponse :: "agent \<Rightarrow> bool \<Rightarrow> nat \<Rightarrow> HttpResponse" where
  "MakeAllAlertsResponse a include_resolved resolved_limit =
     (let alerts = monitor_GetActiveAlerts (ag_monitor a);
          alerts = (if include_resolved
                    then alerts @ monitor_GetRecentResolvedAlerts resolved_limit (ag_monitor a) else alerts)
      in MakeJsonResponse status_ok
           (''{\"include_resolved\":'' @ bool_text include_resolved @
            '',\"alerts\":'' @ AppendAlertArrayJson alerts @ ''}''))"

definition MakeActiveAlertsResponse :: "agent \<Rightarrow> HttpResponse" where
  "MakeActiveAlertsResponse a =
     MakeJsonResponse status_ok
       (''{\"alerts\":'' @ AppendAlertArrayJson (monitor_GetActiveAlerts (ag_monitor a)) @ ''}'')"

definition MakeAcknowledgeAlertResponse :: "agent \<Rightarrow> string \<Rightarrow> HttpResponse \<times> agent" where
  "MakeAcknowledgeAlertResponse a alert_id =
     (if \<not> IsValidAlertEventId alert_id then
        (MakeErrorResponse status_bad_request ''invalid_alert_id'' ''alert_id has an invalid format'', a)
      else
        let (alert, m) = AcknowledgeAlertAndGet alert_id (ag_monitor a); a = a\<lparr> ag_monitor := m \<rparr> in
        case alert of
          None \<Rightarrow> (MakeErrorResponse status_not_found ''alert_not_found''
                    (''alert does not exist: '' @ alert_id), a)
        | Some event \<Rightarrow>
            (MakeJsonResponse status_ok
               (''{\"acknowledged\":true,\"alert\":'' @ AppendAlertEventJson event @ ''}''), a))"

definition MakeServiceRecoveryEventsResponse :: "agent \<Rightarrow> sys \<Rightarrow> nat \<Rightarrow> HttpResponse" where
  "MakeServiceRecoveryEventsResponse a supervisor limit =
     (let d = Definition supervisor;
          events = GetRecoveryEventsForService (sd_id d) limit (ag_monitor a)
      in MakeJsonResponse status_ok
           (''{\"service_id\":\"'' @ JsonEscape (sd_id d) @
            ''\",\"events\":'' @ AppendRecoveryEventArrayJson events @ ''}''))"

definition MakeAllRecoveryEventsResponse :: "agent \<Rightarrow> nat \<Rightarrow> HttpResponse" where
  "MakeAllRecoveryEventsResponse a limit =
     MakeJsonResponse status_ok
       (''{\"events\":'' @ AppendRecoveryEventArrayJson (GetRecentRecoveryEvents limit (ag_monitor a)) @ ''}'')"

definition MakeMethodNotAllowed :: "string \<Rightarrow> HttpResponse" where
  "MakeMethodNotAllowed allow =
     set_field ''Allow'' allow
       (MakeErrorResponse status_method_not_allowed ''method_not_allowed''
          ''request method is not allowed for this route'')"

section \<open>Handling a request\<close>

definition answer :: "HttpResponse \<Rightarrow> agent \<Rightarrow> (api_result \<times> agent) option" where
  "answer response a = Some (Answered response, a)"

text \<open>A route for one method: anything else is answered with the method that is allowed.\<close>

definition only ::
  "verb \<Rightarrow> string \<Rightarrow> HttpRequest \<Rightarrow> agent \<Rightarrow> (api_result \<times> agent) option \<Rightarrow> (api_result \<times> agent) option" where
  "only method name request a result =
     (if rq_method request \<noteq> method then answer (MakeMethodNotAllowed name) a else result)"

definition HandleService ::
  "(string \<Rightarrow> log_file) \<Rightarrow> HttpRequest \<Rightarrow> agent \<Rightarrow> string \<Rightarrow> sys \<Rightarrow> string \<Rightarrow> (api_result \<times> agent) option" where
  "HandleService files request a service_id supervisor action =
     (let target = rq_target request; get = only VGet ''GET'' request a in
      if action = ''status'' then get (answer (MakeStatusResponse supervisor) a)
      else if action = ''logs'' then get (answer (MakeLogsResponse files supervisor (ParseTailLimit target)) a)
      else if action = ''metrics/history'' then
        get (answer (MakeMetricsHistoryResponse a supervisor (ParseHistoryLimit target)) a)
      else if action = ''metrics'' then get (answer (MakeMetricsResponse a supervisor) a)
      else if action = ''health'' then get (answer (MakeHealthResponse a supervisor) a)
      else if action = ''alerts'' then
        get (answer (MakeServiceAlertsResponse a supervisor (ParseIncludeResolved target)) a)
      else if action = ''recovery-events'' then
        get (answer (MakeServiceRecoveryEventsResponse a supervisor (ParseRecoveryEventLimit target)) a)
      else if action = ''start'' \<or> action = ''stop'' \<or> action = ''restart'' then
        only VPost ''POST'' request a
          (map_option (\<lambda>(r, s). (r, a\<lparr> ag_registry := put_service service_id s (ag_registry a) \<rparr>))
             (MakeActionResponse supervisor action))
      else answer (MakeErrorResponse status_not_found ''not_found'' ''service action not found'') a)"

text \<open>
  \<open>path.size() - prefix.size() - suffix.size()\<close> wraps for the path \<open>/api/v1/alerts/ack\<close>, where the
  suffix overlaps the prefix; \<open>substr\<close> then takes all that is left.
\<close>

definition size_minus :: "nat \<Rightarrow> nat \<Rightarrow> nat" where
  "size_minus a b = (if b \<le> a then a - b else a + 2 ^ 64 - b)"

definition alert_id_of_path :: "string \<Rightarrow> string" where
  "alert_id_of_path path =
     take (size_minus (size_minus (length path) (length ''/api/v1/alerts/'')) (length ''/ack''))
       (drop (length ''/api/v1/alerts/'') path)"

definition Handle :: "(string \<Rightarrow> log_file) \<Rightarrow> HttpRequest \<Rightarrow> agent \<Rightarrow> (api_result \<times> agent) option" where
  "Handle files request a =
     (let target = rq_target request; path = PathOnly target; get = only VGet ''GET'' request a in
      if path = ''/api/v1/alerts'' then
        get (answer (MakeAllAlertsResponse a (ParseIncludeResolved target) (ParseAlertResolvedLimit target)) a)
      else if path = ''/api/v1/alerts/active'' then get (answer (MakeActiveAlertsResponse a) a)
      else if starts_with path ''/api/v1/alerts/'' \<and> ends_with path ''/ack'' then
        only VPost ''POST'' request a
          (let (response, a) = MakeAcknowledgeAlertResponse a (alert_id_of_path path) in answer response a)
      else if path = ''/api/v1/recovery-events'' then
        get (answer (MakeAllRecoveryEventsResponse a (ParseRecoveryEventLimit target)) a)
      else if path = kServicesPath then get (answer (MakeServiceListResponse a) a)
      else
        case ParseServiceRoute path of
          None \<Rightarrow> answer (MakeErrorResponse status_not_found ''not_found'' ''route not found'') a
        | Some route \<Rightarrow>
            if \<not> IsValidServiceId (sr_service_id route) then
              answer (MakeErrorResponse status_bad_request ''invalid_service_id''
                (''service_id may contain only letters, digits, '' @ [CHR 0x27, CHR ''_'', CHR 0x27]
                 @ '' and '' @ [CHR 0x27, CHR ''-'', CHR 0x27])) a
            else
              case Find (ag_registry a) (sr_service_id route) of
                None \<Rightarrow> answer (MakeErrorResponse status_not_found ''service_not_found''
                          (''service does not exist: '' @ sr_service_id route)) a
              | Some supervisor \<Rightarrow>
                  HandleService files request a (sr_service_id route) supervisor (sr_action route))"

section \<open>The values behind the bodies\<close>

definition int_json :: "int \<Rightarrow> json" where
  "int_json i = JNum (int_to_string i)"

definition nat_json :: "nat \<Rightarrow> json" where
  "nat_json n = JNum (nat_to_string n)"

definition optional_json :: "('a \<Rightarrow> json) \<Rightarrow> 'a option \<Rightarrow> json" where
  "optional_json f v = (case v of None \<Rightarrow> JNull | Some x \<Rightarrow> f x)"

definition status_members :: "ServiceStatus \<Rightarrow> (string \<times> json) list" where
  "status_members st =
     [(''state'', JStr (ToString_ServiceState (st_state st))),
      (''desired_state'', JStr (ToString_DesiredState (st_desired_state st))),
      (''pid'', int_json (st_pid st)),
      (''uptime_seconds'', int_json (st_uptime st)),
      (''last_exit_code'', optional_json int_json (st_exit_code st)),
      (''process_group_id'', int_json (st_process_group_id st)),
      (''last_exit_kind'', JStr (ToString_ProcessExitKind (st_last_exit_kind st))),
      (''last_exit_signal'', optional_json int_json (st_last_exit_signal st)),
      (''last_error'', JStr (st_last_error st)),
      (''last_transition_at_unix_ms'', int_json (st_last_transition_at_unix_ms st))]"

definition summary_json :: "ServiceSummary \<Rightarrow> json" where
  "summary_json s =
     JObj ([(''id'', JStr (ss_id s)), (''display_name'', JStr (ss_display_name s)),
            (''auto_start'', JBool (ss_auto_start s))] @ status_members (ss_status s))"

definition service_json :: "sys \<Rightarrow> json" where
  "service_json s =
     JObj ([(''id'', JStr (sd_id (Definition s))), (''name'', JStr (sd_id (Definition s))),
            (''display_name'', JStr (sd_display_name (Definition s))),
            (''auto_start'', JBool (sd_auto_start (Definition s)))] @ status_members (GetStatus s))"

definition health_json :: "HealthStatus \<Rightarrow> json" where
  "health_json h =
     JObj [(''service_id'', JStr (hs_service_id h)), (''state'', JStr (ToString_HealthState (hs_state h))),
           (''reason'', JStr (hs_reason h)),
           (''consecutive_failures'', nat_json (unat (hs_consecutive_failures h))),
           (''checked_at_unix_ms'', int_json (hs_checked_at_unix_ms h))]"

definition alert_json :: "AlertEvent \<Rightarrow> json" where
  "alert_json e =
     JObj [(''id'', JStr (ev_id e)), (''service_id'', JStr (ev_service_id e)),
           (''rule_id'', JStr (ev_rule_id e)), (''severity'', JStr (ToString_AlertSeverity (ev_severity e))),
           (''state'', JStr (ToString_AlertEventState (ev_state e))), (''message'', JStr (ev_message e)),
           (''first_triggered_at_unix_ms'', int_json (ev_first_triggered_at_unix_ms e)),
           (''last_triggered_at_unix_ms'', int_json (ev_last_triggered_at_unix_ms e)),
           (''resolved_at_unix_ms'', optional_json int_json (ev_resolved_at_unix_ms e)),
           (''trigger_count'', nat_json (unat (ev_trigger_count e))),
           (''acknowledged'', JBool (ev_acknowledged e))]"

definition recovery_json :: "RecoveryEvent \<Rightarrow> json" where
  "recovery_json e =
     JObj [(''service_id'', JStr (re_service_id e)), (''type'', JStr (ToString_RecoveryEventType (re_type e))),
           (''occurred_at_unix_ms'', int_json (re_occurred_at_unix_ms e)), (''reason'', JStr (re_reason e)),
           (''alert_event_id'', optional_json JStr (re_alert_event_id e)),
           (''restart_count_in_window'', nat_json (unat (re_restart_count_in_window e)))]"

definition metric_members :: "ServiceMetrics \<Rightarrow> (string \<times> json) list" where
  "metric_members m =
     [(''available'', JBool (sm_available m)), (''pid'', int_json (sm_pid m)),
      (''collected_at_unix_ms'', int_json (sm_collected_at_unix_ms m)),
      (''cpu_percent'', optional_json (\<lambda>x. JNum (FormatDouble x)) (sm_cpu_percent m)),
      (''rss_bytes'', optional_json (\<lambda>w. nat_json (unat w)) (sm_rss_bytes m)),
      (''thread_count'', optional_json (\<lambda>w. nat_json (unat w)) (sm_thread_count m)),
      (''fd_count'', optional_json (\<lambda>w. nat_json (unat w)) (sm_fd_count m))]"

definition error_json :: "string \<Rightarrow> string \<Rightarrow> json" where
  "error_json code message = JObj [(''error'', JStr code), (''message'', JStr message)]"

text \<open>Text without quotes, backslashes and control characters is not changed by escaping.\<close>

definition plain :: "string \<Rightarrow> bool" where
  "plain s \<longleftrightarrow> list_all (\<lambda>c. escape_char c = [c]) s"

lemma JsonEscape_plain: "plain s \<Longrightarrow> JsonEscape s = s"
  by (induction s) (simp_all add: plain_def JsonEscape_def)

lemma escape_plain_char [simp]:
  "32 \<le> (of_char c :: nat) \<Longrightarrow> (of_char c :: nat) \<noteq> 34 \<Longrightarrow> (of_char c :: nat) \<noteq> 92 \<Longrightarrow> escape_char c = [c]"
  by (auto simp: escape_char_def)

lemma plain_simps [simp]: "plain []" "plain (c # s) \<longleftrightarrow> escape_char c = [c] \<and> plain s"
  by (simp_all add: plain_def)

lemma plain_names [simp]:
  "plain (ToString_ServiceState x)" "plain (ToString_DesiredState d)" "plain (ToString_ProcessExitKind k)"
  "plain (ToString_HealthState h)" "plain (ToString_AlertSeverity v)" "plain (ToString_AlertEventState e)"
  "plain (ToString_RecoveryEventType r)"
  by ((cases x; simp), (cases d; simp), (cases k; simp), (cases h; simp), (cases v; simp),
      (cases e; simp), (cases r; simp))

lemma key_text: "plain k \<Longrightarrow> string_text k = CHR 0x22 # k @ [CHR 0x22]"
  by (simp add: string_text_def quote_char_def JsonEscape_plain)

lemmas print_simps = key_text string_text_def quote_char_def JsonEscape_plain bool_text_def

lemma optional_texts:
  "optional_int_text v = render (optional_json int_json v)"
  "AppendOptionalUint64 w = render (optional_json (\<lambda>w. nat_json (unat w)) w)"
  "AppendOptionalDouble x = render (optional_json (\<lambda>x. JNum (FormatDouble x)) x)"
  "AppendOptionalString s = render (optional_json JStr s)"
  by ((cases v; simp add: optional_int_text_def optional_json_def int_json_def),
      (cases w; simp add: AppendOptionalUint64_def optional_json_def nat_json_def),
      (cases x; simp add: AppendOptionalDouble_def optional_json_def),
      (cases s; simp add: AppendOptionalString_def optional_json_def string_text_def quote_char_def))

lemma AppendStatusFields_members:
  "AppendStatusFields st = comma_separated (map member_text (status_members st))"
  by (simp add: AppendStatusFields_def status_members_def optional_texts int_json_def key_text JsonEscape_plain)
    (simp add: string_text_def quote_char_def)

lemma metric_fields_members:
  "metric_fields m = comma_separated (map member_text (metric_members m)) @ ''}''"
  by (simp add: metric_fields_def metric_members_def optional_texts int_json_def key_text bool_text_def)

text \<open>What the objects of the bodies print as, an array from what its items print as.\<close>

lemma append_array_text:
  assumes "\<And>x. x \<in> set xs \<Longrightarrow> item x = render (f x)"
  shows "append_array item xs = render (JArr (map f xs))"
proof -
  have "concat (map (\<lambda>i. (if 0 < i then '','' else []) @ item (xs ! i)) [0..<length xs])
      = comma_separated (map item xs)"
  proof (induction xs rule: rev_induct)
    case (snoc x ys)
    have comma: "comma_separated (zs @ [z]) = (if zs = [] then z else comma_separated zs @ CHR '','' # z)" for zs z
      by (induction zs rule: comma_separated.induct) auto
    have eq: "map (\<lambda>i. (if 0 < i then '','' else []) @ item ((ys @ [x]) ! i)) [0..<length ys]
        = map (\<lambda>i. (if 0 < i then '','' else []) @ item (ys ! i)) [0..<length ys]"
      by (simp add: nth_append)
    show ?case
      using snoc.IH by (simp add: eq comma)
  qed simp
  moreover have "map item xs = map (render \<circ> f) xs"
    using assms by simp
  ultimately show ?thesis
    by (simp add: append_array_def)
qed

lemma item_texts:
  "AppendHealthStatusJson h = render (health_json h)"
  "AppendAlertEventJson e = render (alert_json e)"
  "AppendRecoveryEventJson r = render (recovery_json r)"
  "''{\"error\":\"'' @ JsonEscape c @ ''\",\"message\":\"'' @ JsonEscape m @ ''\"}'' = render (error_json c m)"
  by (simp_all add: AppendHealthStatusJson_def health_json_def AppendAlertEventJson_def alert_json_def
      AppendRecoveryEventJson_def recovery_json_def error_json_def optional_texts int_json_def nat_json_def
      key_text JsonEscape_plain bool_text_def)
    (simp_all add: string_text_def quote_char_def)

lemma comma_separated_append:
  "xs \<noteq> [] \<Longrightarrow> ys \<noteq> [] \<Longrightarrow> comma_separated (xs @ ys) = comma_separated xs @ CHR '','' # comma_separated ys"
  by (induction xs rule: comma_separated.induct) (auto simp: comma_separated_Cons)

lemma service_item_text: "service_item s = render (summary_json s)"
  unfolding service_item_def summary_json_def AppendStatusFields_members
  by (simp add: render_JObj key_text bool_text_def comma_separated_append status_members_def del: render.simps(6))
    (simp add: string_text_def quote_char_def)

lemma array_texts:
  "append_array service_item ss = render (JArr (map summary_json ss))"
  "AppendAlertArrayJson es = render (JArr (map alert_json es))"
  "AppendRecoveryEventArrayJson rs = render (JArr (map recovery_json rs))"
  "append_array (\<lambda>line. ''\"'' @ JsonEscape line @ ''\"'') ls = render (JArr (map JStr ls))"
  "append_array (\<lambda>m. ''{'' @ metric_fields m) ms = render (JArr (map (\<lambda>m. JObj (metric_members m)) ms))"
  unfolding AppendAlertArrayJson_def AppendRecoveryEventArrayJson_def
  by (rule append_array_text, simp add: service_item_text item_texts metric_fields_members render_JObj
      string_text_def quote_char_def del: render.simps(6))+

text \<open>Every response as the JSON object it carries.\<close>

definition json_response :: "http_status \<Rightarrow> (string \<times> json) list \<Rightarrow> HttpResponse" where
  "json_response status ms = MakeJsonResponse status (render (JObj ms))"

lemma MakeErrorResponse_json:
  "MakeErrorResponse status c m = json_response status [(''error'', JStr c), (''message'', JStr m)]"
  unfolding MakeErrorResponse_def json_response_def item_texts(4) error_json_def ..

lemma responses_json:
  "MakeServiceListResponse a
     = json_response status_ok [(''services'', JArr (map summary_json (ListServices (ag_registry a))))]"
  "MakeServiceAlertsResponse a v include_resolved
     = json_response status_ok
         [(''service_id'', JStr (sd_id (Definition v))), (''include_resolved'', JBool include_resolved),
          (''alerts'', JArr (map alert_json
             (monitor_GetAlertsForService (sd_id (Definition v)) include_resolved (ag_monitor a))))]"
  "MakeAllAlertsResponse a include_resolved n
     = json_response status_ok
         [(''include_resolved'', JBool include_resolved),
          (''alerts'', JArr (map alert_json (monitor_GetActiveAlerts (ag_monitor a)
             @ (if include_resolved then monitor_GetRecentResolvedAlerts n (ag_monitor a) else []))))]"
  "MakeActiveAlertsResponse a
     = json_response status_ok [(''alerts'', JArr (map alert_json (monitor_GetActiveAlerts (ag_monitor a))))]"
  "MakeServiceRecoveryEventsResponse a v n
     = json_response status_ok
         [(''service_id'', JStr (sd_id (Definition v))),
          (''events'', JArr (map recovery_json (GetRecoveryEventsForService (sd_id (Definition v)) n (ag_monitor a))))]"
  "MakeAllRecoveryEventsResponse a n
     = json_response status_ok
         [(''events'', JArr (map recovery_json (GetRecentRecoveryEvents n (ag_monitor a))))]"
  by (simp_all add: MakeServiceListResponse_def MakeServiceAlertsResponse_def MakeAllAlertsResponse_def
      MakeActiveAlertsResponse_def MakeServiceRecoveryEventsResponse_def MakeAllRecoveryEventsResponse_def
      json_response_def array_texts key_text JsonEscape_plain bool_text_def string_text_def quote_char_def Let_def)

lemma service_responses_json:
  "MakeStatusResponse v = MakeJsonResponse status_ok (render (service_json v))"
  "MakeLogsResponse files v n =
     (let d = Definition v; (lines, err) = ReadLastLines (sd_log_path d) (files (sd_log_path d)) n
      in if err \<noteq> [] then MakeErrorResponse status_internal_server_error ''log_read_failed'' err
         else json_response status_ok [(''id'', JStr (sd_id d)), (''name'', JStr (sd_id d)),
                (''lines'', JArr (map JStr lines))])"
  "MakeJsonResponse status_ok (''{\"service_id\":\"'' @ JsonEscape i @ ''\",'' @ metric_fields m)
     = json_response status_ok ((''service_id'', JStr i) # metric_members m)"
  "MakeJsonResponse status_ok (''{\"service_id\":\"'' @ JsonEscape i @ ''\",\"points\":'' @
       append_array (\<lambda>m. ''{'' @ metric_fields m) history @ ''}'')
     = json_response status_ok [(''service_id'', JStr i), (''points'', JArr (map (\<lambda>m. JObj (metric_members m)) history))]"
  "MakeJsonResponse status_ok (''{\"acknowledged\":true,\"alert\":'' @ AppendAlertEventJson event @ ''}'')
     = json_response status_ok [(''acknowledged'', JBool True), (''alert'', alert_json event)]"
  unfolding MakeStatusResponse_def MakeLogsResponse_def json_response_def array_texts
  by (simp_all add: service_json_def AppendStatusFields_members key_text bool_text_def item_texts JsonEscape_plain
      metric_fields_members comma_separated_append comma_separated_Cons status_members_def metric_members_def Let_def render_JObj
      case_prod_beta del: render.simps(6))
    (simp_all add: string_text_def quote_char_def)

section \<open>Every body is JSON\<close>

definition well_formed :: "HttpResponse \<Rightarrow> bool" where
  "well_formed r \<longleftrightarrow>
     (\<exists>ms. json_ok (JObj ms) \<and> rs_body r = render (JObj ms))
     \<and> map_of (rs_fields r) ''Content-Type'' = Some ''application/json; charset=utf-8''
     \<and> map_of (rs_fields r) ''Cache-Control'' = Some ''no-store''
     \<and> map_of (rs_fields r) ''Content-Length'' = Some (nat_to_string (length (rs_body r)))"

lemma well_formed_json: "json_ok (JObj ms) \<Longrightarrow> well_formed (MakeJsonResponse status (render (JObj ms)))"
  unfolding well_formed_def
  by (intro conjI exI [of _ ms]) (simp_all add: MakeJsonResponse_def set_field_def Let_def del: render.simps(6))

lemma json_ok_numbers [simp]:
  "json_ok (int_json i)" "json_ok (nat_json n)"
  by (simp_all add: int_json_def nat_json_def json_number_int json_number_nat)

lemma json_ok_optional [simp]: "(\<And>x. json_ok (f x)) \<Longrightarrow> json_ok (optional_json f v)"
  by (cases v) (simp_all add: optional_json_def)

lemma json_ok_items [simp]:
  "json_ok (summary_json s)" "json_ok (service_json v)" "json_ok (health_json h)" "json_ok (alert_json e)"
  "json_ok (recovery_json r)"
  by (simp_all add: summary_json_def service_json_def status_members_def health_json_def alert_json_def recovery_json_def)

lemma json_ok_metrics:
  "valid_ServiceMetrics m \<Longrightarrow> list_all (\<lambda>(k, v). json_ok v) (metric_members m)"
  by (auto simp: metric_members_def valid_ServiceMetrics_def optional_json_def json_number_double
      split: option.splits if_splits)

lemma well_formed_response: "list_all (\<lambda>(k, v). json_ok v) ms \<Longrightarrow> well_formed (json_response status ms)"
  unfolding json_response_def by (rule well_formed_json) simp

lemma well_formed_error: "well_formed (MakeErrorResponse status c m)"
  unfolding MakeErrorResponse_json by (rule well_formed_response) simp

lemma well_formed_object: "j = JObj ms \<Longrightarrow> json_ok j \<Longrightarrow> well_formed (MakeJsonResponse status (render j))"
  by (simp only: well_formed_json)

lemma list_all_map_True: "(\<And>x. P (f x)) \<Longrightarrow> list_all P (map f xs)"
  by (simp add: list_all_iff)

lemma well_formed_responses:
  "well_formed (MakeServiceListResponse a)" "well_formed (MakeServiceAlertsResponse a v b)"
  "well_formed (MakeAllAlertsResponse a b n)" "well_formed (MakeActiveAlertsResponse a)"
  "well_formed (MakeServiceRecoveryEventsResponse a v n)" "well_formed (MakeAllRecoveryEventsResponse a n)"
  "well_formed (MakeStatusResponse v)" "well_formed (MakeLogsResponse files v n)"
  unfolding responses_json service_responses_json
  by (simp_all add: well_formed_response list_all_map_True well_formed_error Let_def case_prod_beta)
    (auto intro!: well_formed_object [OF service_json_def])

lemma map_of_set_field:
  "map_of (rs_fields (set_field name v r)) k = (if k = name then Some v else map_of (rs_fields r) k)"
proof -
  have "map_of (filter (\<lambda>f. fst f \<noteq> name) fs @ [(name, v)]) k = (if k = name then Some v else map_of fs k)" for fs
    by (induction fs) (auto simp: map_add_def split: option.splits)
  then show ?thesis by (simp add: set_field_def)
qed

lemma well_formed_set_field:
  "well_formed r \<Longrightarrow> name \<notin> {''Content-Type'', ''Cache-Control'', ''Content-Length''} \<Longrightarrow> well_formed (set_field name v r)"
proof -
  have "rs_body (set_field name v r) = rs_body r"
    by (simp add: set_field_def)
  then show "well_formed r \<Longrightarrow> name \<notin> {''Content-Type'', ''Cache-Control'', ''Content-Length''} \<Longrightarrow> ?thesis"
    unfolding well_formed_def map_of_set_field by (auto simp del: render.simps json_ok.simps)
qed

lemma well_formed_not_allowed: "well_formed (MakeMethodNotAllowed name)"
  unfolding MakeMethodNotAllowed_def by (rule well_formed_set_field [OF well_formed_error]) simp

lemma well_formed_metrics:
  "well_formed (MakeMetricsResponse a v)" "well_formed (MakeMetricsHistoryResponse a v n)"
proof -
  show "well_formed (MakeMetricsResponse a v)"
    unfolding MakeMetricsResponse_def service_responses_json Let_def
    by (auto split: option.split intro!: well_formed_error well_formed_response simp: json_ok_metrics)
  have "list_all (\<lambda>(k, v). json_ok v) [(''service_id'', JStr i), (''points'', JArr (map (\<lambda>m. JObj (metric_members m)) h))]"
    if "\<not> list_ex (\<lambda>m. sm_service_id m \<noteq> i \<or> \<not> valid_ServiceMetrics m) h" for i h
  proof -
    have "json_ok (JObj (metric_members m))" if "m \<in> set h" for m
      using that \<open>\<not> list_ex _ h\<close> by (simp add: list_ex_iff json_ok_metrics)
    then have "list_all json_ok (map (\<lambda>m. JObj (metric_members m)) h)"
      by (simp add: list_all_iff del: json_ok.simps)
    then show ?thesis by simp
  qed
  then show "well_formed (MakeMetricsHistoryResponse a v n)"
    unfolding MakeMetricsHistoryResponse_def service_responses_json Let_def
    by (auto split: option.split intro!: well_formed_error well_formed_response)
qed

lemma well_formed_health: "well_formed (MakeHealthResponse a v)"
  unfolding MakeHealthResponse_def item_texts Let_def
  by (auto split: option.split intro!: well_formed_error well_formed_object [OF health_json_def])

lemma well_formed_acknowledge: "well_formed (fst (MakeAcknowledgeAlertResponse a i))"
  unfolding MakeAcknowledgeAlertResponse_def service_responses_json Let_def
  by (auto split: option.split prod.split intro!: well_formed_error well_formed_response)

definition action_operation :: "string \<Rightarrow> sys \<Rightarrow> op_result op" where
  "action_operation action v =
     (if action = ''start'' then Start v else if action = ''stop'' then Stop v else Restart v)"

text \<open>
  How the result of an operation on a supervisor is answered: \<open>s\<close> is the state it left, \<open>t\<close> the one
  the answer is made from.
\<close>

definition answers_from :: "op_result \<Rightarrow> sys \<Rightarrow> sys \<Rightarrow> bool" where
  "answers_from r s t \<longleftrightarrow> (case r of Done True _ \<Rightarrow> yield s = Some t | _ \<Rightarrow> t = s)"

definition action_answer :: "op_result \<Rightarrow> sys \<Rightarrow> api_result" where
  "action_answer r t =
     (case r of
        Done succeeded err \<Rightarrow>
          Answered (if succeeded then MakeJsonResponse status_ok (render (service_json t))
                    else MakeErrorResponse status_conflict ''service_action_failed'' err)
      | Raised what \<Rightarrow> ApiRaised what)"

lemma respond_answers:
  "Option.bind m (\<lambda>(r, s).
        case r of
          Done True _ \<Rightarrow> map_option (\<lambda>s. (Answered (MakeStatusResponse s), s)) (yield s)
        | Done False err \<Rightarrow> Some (Answered (MakeErrorResponse status_conflict ''service_action_failed'' err), s)
        | Raised what \<Rightarrow> Some (ApiRaised what, s)) = Some (x, t)
     \<longleftrightarrow> (\<exists>r s. m = Some (r, s) \<and> answers_from r s t \<and> x = action_answer r t)"
proof (cases m)
  case (Some rs)
  obtain r s where rs: "rs = (r, s)" by (cases rs)
  show ?thesis
  proof (cases r)
    case (Done succeeded err)
    then show ?thesis
      by (cases succeeded) (auto simp: Some rs answers_from_def action_answer_def service_responses_json)
  qed (auto simp: Some rs answers_from_def action_answer_def)
qed simp

lemma MakeActionResponse_operation:
  "action \<in> {''start'', ''stop'', ''restart''} \<Longrightarrow>
   MakeActionResponse v action = Some (x, t) \<longleftrightarrow>
     (\<exists>r s. action_operation action v = Some (r, s) \<and> answers_from r s t \<and> x = action_answer r t)"
  unfolding MakeActionResponse_def Let_def respond_answers [symmetric]
  by (auto simp: action_operation_def)

lemma well_formed_action:
  assumes "MakeActionResponse v action = Some (Answered r, t)"
  shows "well_formed r"
proof (cases "action \<in> {''start'', ''stop'', ''restart''}")
  case True
  then obtain x where "Answered r = action_answer x t"
    using assms by (auto simp: MakeActionResponse_operation)
  then show ?thesis
    using well_formed_responses(7) [of t]
    by (auto simp: action_answer_def well_formed_error service_responses_json split: op_result.splits if_splits)
next
  case False
  with assms show ?thesis
    by (auto simp: MakeActionResponse_def well_formed_error)
qed

lemmas answers_well_formed = well_formed_responses well_formed_metrics well_formed_health
  well_formed_error well_formed_not_allowed

section \<open>What a request can do\<close>

definition every_result ::
  "(api_result \<Rightarrow> agent \<Rightarrow> bool) \<Rightarrow> (api_result \<times> agent) option \<Rightarrow> bool" where
  "every_result P result \<longleftrightarrow> (case result of None \<Rightarrow> True | Some (x, b) \<Rightarrow> P x b)"

lemma every_resultI:
  "P (Answered r) a \<Longrightarrow> every_result P (answer r a)"
  "(rq_method request \<noteq> m \<Longrightarrow> P (Answered (MakeMethodNotAllowed name)) a) \<Longrightarrow>
     (rq_method request = m \<Longrightarrow> every_result P result) \<Longrightarrow> every_result P (only m name request a result)"
  "(c \<Longrightarrow> every_result P x) \<Longrightarrow> (\<not> c \<Longrightarrow> every_result P y) \<Longrightarrow> every_result P (if c then x else y)"
  by (auto simp: every_result_def answer_def only_def)

lemma every_result_option:
  "(v = None \<Longrightarrow> every_result P x) \<Longrightarrow> (\<And>w. v = Some w \<Longrightarrow> every_result P (f w)) \<Longrightarrow>
     every_result P (case v of None \<Rightarrow> x | Some w \<Rightarrow> f w)"
  by (cases v) auto

text \<open>The outcomes of a request: an answer that changes nothing, an acknowledgement, an action.\<close>

definition acknowledges :: "HttpRequest \<Rightarrow> agent \<Rightarrow> api_result \<Rightarrow> agent \<Rightarrow> bool" where
  "acknowledges request a x b \<longleftrightarrow>
     rq_method request = VPost
     \<and> starts_with (PathOnly (rq_target request)) ''/api/v1/alerts/''
     \<and> ends_with (PathOnly (rq_target request)) ''/ack''
     \<and> (x, b) = apfst Answered (MakeAcknowledgeAlertResponse a (alert_id_of_path (PathOnly (rq_target request))))"

definition acts :: "HttpRequest \<Rightarrow> agent \<Rightarrow> api_result \<Rightarrow> agent \<Rightarrow> bool" where
  "acts request a x b \<longleftrightarrow>
     (\<exists>i action v s. rq_method request = VPost \<and> IsValidServiceId i
        \<and> PathOnly (rq_target request) = kServicePathPrefix @ i @ ''/'' @ action
        \<and> action \<in> {''start'', ''stop'', ''restart''} \<and> Find (ag_registry a) i = Some v
        \<and> MakeActionResponse v action = Some (x, s) \<and> b = a\<lparr> ag_registry := put_service i s (ag_registry a) \<rparr>)"

lemma acts_operation:
  assumes "acts request a x b"
  obtains i action v r s t where "PathOnly (rq_target request) = kServicePathPrefix @ i @ ''/'' @ action"
    "action \<in> {''start'', ''stop'', ''restart''}" "rq_method request = VPost"
    "Find (ag_registry a) i = Some v" "action_operation action v = Some (r, s)" "answers_from r s t" "x = action_answer r t"
    "b = a\<lparr> ag_registry := put_service i t (ag_registry a) \<rparr>"
proof -
  from assms obtain i action v t where act: "PathOnly (rq_target request) = kServicePathPrefix @ i @ ''/'' @ action"
    "action \<in> {''start'', ''stop'', ''restart''}" "rq_method request = VPost" "Find (ag_registry a) i = Some v"
    "MakeActionResponse v action = Some (x, t)" "b = a\<lparr> ag_registry := put_service i t (ag_registry a) \<rparr>"
    unfolding acts_def by (elim exE conjE) (rule that)
  from act(5) obtain r s where "action_operation action v = Some (r, s)" "answers_from r s t" "x = action_answer r t"
    unfolding MakeActionResponse_operation [OF act(2)] by (elim exE conjE)
  then show thesis
    by (rule that [OF act(1-4) _ _ _ act(6)])
qed

definition outcome :: "HttpRequest \<Rightarrow> agent \<Rightarrow> api_result \<Rightarrow> agent \<Rightarrow> bool" where
  "outcome request a x b \<longleftrightarrow>
     (\<exists>r. x = Answered r \<and> well_formed r \<and> b = a) \<or> acknowledges request a x b \<or> acts request a x b"

lemma outcome_answer: "well_formed r \<Longrightarrow> outcome request a (Answered r) a"
  by (auto simp: outcome_def)

lemma ParseServiceRoute_Some:
  "ParseServiceRoute path = Some route \<Longrightarrow>
     path = kServicePathPrefix @ sr_service_id route @ ''/'' @ sr_action route
     \<and> sr_service_id route \<noteq> [] \<and> sr_action route \<noteq> []"
proof -
  assume r: "ParseServiceRoute path = Some route"
  define suffix where "suffix = drop (length kServicePathPrefix) path"
  from r obtain n where n: "find_char (CHR ''/'') suffix = Some n" "n \<noteq> 0" "n + 1 < length suffix"
    and route: "route = \<lparr> sr_service_id = take n suffix, sr_action = drop (n + 1) suffix \<rparr>"
    and path: "starts_with path kServicePathPrefix"
    by (auto simp: ParseServiceRoute_def suffix_def Let_def split: if_splits option.splits)
  from n(1) have "suffix = take n suffix @ CHR ''/'' # drop (n + 1) suffix"
    using id_take_nth_drop [of n suffix] by (simp add: find_char_Some)
  moreover have "path = kServicePathPrefix @ suffix"
    using path by (auto simp: starts_with_iff suffix_def)
  ultimately show ?thesis
    using n by (auto simp: route)
qed

lemma HandleService_outcome:
  assumes "Find (ag_registry a) i = Some v" and "IsValidServiceId i"
    and "PathOnly (rq_target request) = kServicePathPrefix @ i @ ''/'' @ action"
  shows "every_result (outcome request a) (HandleService files request a i v action)"
proof -
  have "every_result (outcome request a)
      (map_option (\<lambda>(r, s). (r, a\<lparr> ag_registry := put_service i s (ag_registry a) \<rparr>)) (MakeActionResponse v action))"
    if "rq_method request = VPost" "action = ''start'' \<or> action = ''stop'' \<or> action = ''restart''"
    using that assms unfolding every_result_def outcome_def acts_def
    by (cases "MakeActionResponse v action") auto
  then show ?thesis
    unfolding HandleService_def Let_def
    by (intro every_resultI outcome_answer answers_well_formed)
qed

lemma Handle_outcome: "every_result (outcome request a) (Handle files request a)"
proof -
  have "every_result (outcome request a)
      (let (response, a) = MakeAcknowledgeAlertResponse a (alert_id_of_path (PathOnly (rq_target request)))
       in answer response a)"
    if "rq_method request = VPost"
      "starts_with (PathOnly (rq_target request)) ''/api/v1/alerts/'' \<and> ends_with (PathOnly (rq_target request)) ''/ack''"
    using that unfolding every_result_def outcome_def acknowledges_def answer_def
    by (auto split: prod.split)
  then show ?thesis
    unfolding Handle_def Let_def [of "rq_target request"] Let_def [of "PathOnly _"]
      Let_def [of "only VGet ''GET'' request a"]
    by (intro every_resultI every_result_option outcome_answer answers_well_formed)
      (auto intro!: HandleService_outcome dest: ParseServiceRoute_Some)
qed

lemma Find_put: "Find (put_service i s r) j = (if j = i then Some s else Find r j)"
  by (simp add: Find_def put_service_def update_conv)

lemma put_order: "rg_order (put_service i s r) = rg_order r"
  by (simp add: put_service_def)

lemma services_ok_put:
  assumes "services_ok absolute r" and "Find r i = Some v"
    and "\<And>d. reachable absolute d v \<Longrightarrow> reachable absolute d s" and "Definition s = Definition v"
  shows "services_ok absolute (put_service i s r)"
  unfolding services_ok_def
proof (intro conjI allI impI)
  show "distinct (rg_order (put_service i s r))"
    using assms(1) by (simp add: services_ok_def put_order)
  show "Find (put_service i s r) j \<noteq> None \<longleftrightarrow> j \<in> set (rg_order (put_service i s r))" for j
    using assms(1,2) unfolding services_ok_def by (auto simp: Find_put put_order)
  have old: "sd_id (Definition v) = i" "\<exists>d. reachable absolute d v"
    using assms(1,2) unfolding services_ok_def by blast+
  show "sd_id (Definition u) = j" "\<exists>d. reachable absolute d u" if "Find (put_service i s r) j = Some u" for j u
  proof -
    have "j = i \<and> u = s \<or> Find r j = Some u"
      using that by (simp add: Find_put split: if_splits)
    then consider "j = i" "u = s" | "Find r j = Some u"
      by blast
    then have "sd_id (Definition u) = j \<and> (\<exists>d. reachable absolute d u)"
    proof cases
      case 1
      with old(1) assms(4) have "sd_id (Definition u) = j" by simp
      moreover obtain d where "reachable absolute d v"
        using old(2) ..
      then have "reachable absolute d u"
        using assms(3) 1 by blast
      ultimately show ?thesis by blast
    next
      case 2
      then show ?thesis
        using assms(1) unfolding services_ok_def by blast
    qed
    then show "sd_id (Definition u) = j" "\<exists>d. reachable absolute d u" by auto
  qed
qed

lemma action_operation_keeps:
  "action_operation action v = Some (r, s) \<Longrightarrow>
     Definition s = Definition v \<and> (reachable absolute d v \<longrightarrow> reachable absolute d s)"
  unfolding action_operation_def
  by (auto split: if_splits dest: Definition_operations intro: reachable.start reachable.stop reachable.restart)

lemma answers_from_keeps:
  assumes "answers_from r s t"
  shows "Definition t = Definition s \<and> (reachable absolute d s \<longrightarrow> reachable absolute d t)"
proof -
  have steps: "reachable absolute d (fold apply_event es u)" if "reachable absolute d u" for es u
    using that by (induction es arbitrary: u) (auto intro: reachable.event)
  have "Definition t = Definition s \<and> (reachable absolute d s \<longrightarrow> reachable absolute d t)" if "yield s = Some t"
  proof
    show "Definition t = Definition s"
      using keeps_yield [of s] that by (simp add: keeps1_def frame_def Definition_def)
    show "reachable absolute d s \<longrightarrow> reachable absolute d t"
      using that by (auto simp: yield_def syscall_def intro: steps reachable.script split: list.splits)
  qed
  with assms show ?thesis
    by (auto simp: answers_from_def split: op_result.splits bool.splits)
qed

lemma answered_acknowledgement:
  "(Answered r, b) = apfst Answered (MakeAcknowledgeAlertResponse a i) \<Longrightarrow> well_formed r"
  using well_formed_acknowledge [of a i] by (cases "MakeAcknowledgeAlertResponse a i") simp

lemma acknowledgement_effect:
  "snd (MakeAcknowledgeAlertResponse a i)
     = (if IsValidAlertEventId i then a\<lparr> ag_monitor := snd (AcknowledgeAlertAndGet i (ag_monitor a)) \<rparr> else a)"
  by (simp add: MakeAcknowledgeAlertResponse_def Let_def case_prod_beta split: option.split)

text \<open>
  C24. Every request that is answered is answered with one JSON object: the body is the text of an
  object, and a reader of RFC 8259 gets exactly that object from it - nothing in a service, an alert, a
  log line or an error breaks out of its string - as long as every string in it is UTF-8. When one
  is not, the body is not JSON and is refused. The header names the type and the length.
\<close>

theorem Handle_responds_json:
  assumes "Handle files request a = Some (Answered r, b)"
  shows "(\<exists>ms. rs_body r = render (JObj ms)
        \<and> read_json (rs_body r) = (if json_utf8 (JObj ms) then Some (JObj ms) else None))
    \<and> map_of (rs_fields r) ''Content-Type'' = Some ''application/json; charset=utf-8''
    \<and> map_of (rs_fields r) ''Content-Length'' = Some (nat_to_string (length (rs_body r)))"
proof -
  consider "well_formed r" | "acknowledges request a (Answered r) b" | "acts request a (Answered r) b"
    using Handle_outcome [of request a files] assms by (auto simp: every_result_def outcome_def)
  then have "well_formed r"
    by cases (auto simp: acknowledges_def acts_def dest: well_formed_action
        intro: answered_acknowledgement)
  then obtain ms where "json_ok (JObj ms)" "rs_body r = render (JObj ms)"
    and "map_of (rs_fields r) ''Content-Type'' = Some ''application/json; charset=utf-8''"
    "map_of (rs_fields r) ''Content-Length'' = Some (nat_to_string (length (rs_body r)))"
    unfolding well_formed_def by blast
  then show ?thesis
    using read_json_render by metis
qed

text \<open>
  C8. Only a \<open>POST\<close> changes the agent, and only in two ways: it acknowledges one alert, or it runs
  \<open>Start\<close>, \<open>Stop\<close> or \<open>Restart\<close> on the supervisor of the service its path names. Then every other
  service and every other component stays as it was, each service is still in a state it can reach,
  and the answer says what the operation said: when it succeeded the status of the service right
  after it (the observer may have stepped in between), its error with status 409 when it did not.
\<close>

theorem Handle_effects:
  assumes "Handle files request a = Some (x, b)" and "services_ok absolute (ag_registry a)"
  shows "b = a
    \<or> rq_method request = VPost
      \<and> (\<exists>alert_id. b = a\<lparr> ag_monitor := snd (AcknowledgeAlertAndGet alert_id (ag_monitor a)) \<rparr>)
    \<or> rq_method request = VPost
      \<and> (\<exists>i action v r s t. PathOnly (rq_target request) = ''/api/v1/services/'' @ i @ ''/'' @ action
          \<and> Find (ag_registry a) i = Some v
          \<and> (action = ''start'' \<and> Start v = Some (r, s) \<or> action = ''stop'' \<and> Stop v = Some (r, s)
             \<or> action = ''restart'' \<and> Restart v = Some (r, s))
          \<and> answers_from r s t
          \<and> b = a\<lparr> ag_registry := put_service i t (ag_registry a) \<rparr>
          \<and> services_ok absolute (ag_registry b)
          \<and> x = (case r of
                   Done True _ \<Rightarrow> Answered (MakeJsonResponse status_ok (render (service_json t)))
                 | Done False e \<Rightarrow> Answered (MakeErrorResponse status_conflict ''service_action_failed'' e)
                 | Raised what \<Rightarrow> ApiRaised what))"
proof -
  consider "b = a" | "acknowledges request a x b" | "acts request a x b"
    using Handle_outcome [of request a files] assms(1) by (auto simp: every_result_def outcome_def)
  then show ?thesis
  proof cases
    case 2
    then have "b = snd (MakeAcknowledgeAlertResponse a (alert_id_of_path (PathOnly (rq_target request))))"
      "rq_method request = VPost"
      by (auto simp: acknowledges_def prod_eq_iff)
    then show ?thesis
      unfolding acknowledgement_effect by (cases "IsValidAlertEventId (alert_id_of_path (PathOnly (rq_target request)))") auto
  next
    case 3
    then obtain i action v r s t where act: "PathOnly (rq_target request) = kServicePathPrefix @ i @ ''/'' @ action"
      "action \<in> {''start'', ''stop'', ''restart''}" "rq_method request = VPost"
      "Find (ag_registry a) i = Some v" "action_operation action v = Some (r, s)" "answers_from r s t" "x = action_answer r t"
      "b = a\<lparr> ag_registry := put_service i t (ag_registry a) \<rparr>"
      by (rule acts_operation)
    have "services_ok absolute (ag_registry b)"
      using services_ok_put [OF assms(2) act(4), of t] action_operation_keeps [OF act(5)] answers_from_keeps [OF act(6)] act(8)
      by simp
    moreover have "action = ''start'' \<and> Start v = Some (r, s) \<or> action = ''stop'' \<and> Stop v = Some (r, s)
        \<or> action = ''restart'' \<and> Restart v = Some (r, s)"
      using act(2,5) by (auto simp: action_operation_def)
    moreover have "x = (case r of
                   Done True _ \<Rightarrow> Answered (MakeJsonResponse status_ok (render (service_json t)))
                 | Done False e \<Rightarrow> Answered (MakeErrorResponse status_conflict ''service_action_failed'' e)
                 | Raised what \<Rightarrow> ApiRaised what)"
      using act(7) by (simp add: action_answer_def split: op_result.split bool.split)
    moreover have "PathOnly (rq_target request) = ''/api/v1/services/'' @ i @ ''/'' @ action"
      using act(1) by (simp only: kServicePathPrefix_def)
    ultimately show ?thesis
      using act(3,4,6,8)
      by - (rule disjI2, rule disjI2, rule conjI, assumption,
          rule exI [of _ i], rule exI [of _ action], rule exI [of _ v], rule exI [of _ r], rule exI [of _ s], rule exI [of _ t],
          (rule conjI, assumption)+, assumption)
  qed simp
qed

text \<open>The path that only seems to have an alert id.\<close>

lemma alert_id_of_path_wraps: "alert_id_of_path ''/api/v1/alerts/ack'' = ''ack''"
  by (simp add: alert_id_of_path_def size_minus_def)

section \<open>Witnesses\<close>

definition demo_agent :: "sys \<Rightarrow> agent" where
  "demo_agent s = \<lparr> ag_registry = demo_registry s, ag_collector = new_collector 1000 10 True,
     ag_monitor = new_monitor 1000 5 5 10 \<rparr>"

definition demo_request :: "verb \<Rightarrow> string \<Rightarrow> HttpRequest" where
  "demo_request m target = \<lparr> rq_method = m, rq_target = target, rq_version = 11, rq_keep_alive = True \<rparr>"

lemma demo_id: "sd_id (Definition demo_running) = ''demo''"
  by (simp add: Definition_operations(1) [OF demo_Start]) (simp add: Definition_def demo_sys_def initial_sys_def new_supervisor_def demo_def_def)

lemma demo_list: "Handle files (demo_request VGet ''/api/v1/services?x'') a = Some (Answered (MakeServiceListResponse a), a)"
  by (simp add: Handle_def demo_request_def PathOnly_def kServicesPath_def only_def answer_def starts_with_def)

lemma demo_unknown_route:
  "Handle files (demo_request VGet ''/'') a = Some (Answered (MakeErrorResponse status_not_found ''not_found'' ''route not found''), a)"
  by (simp add: Handle_def demo_request_def PathOnly_def kServicesPath_def kServicePathPrefix_def ParseServiceRoute_def
      answer_def starts_with_def)

theorem Handle_responds_json_witness:
  "\<exists>ms. rs_body (MakeErrorResponse status_not_found ''not_found'' ''route not found'') = render (JObj ms)
     \<and> read_json (render (JObj ms)) = Some (JObj ms)"
proof -
  have "read_json (rs_body (MakeErrorResponse status_not_found ''not_found'' ''route not found'')) \<noteq> None"
    by code_simp
  with Handle_responds_json [OF demo_unknown_route] show ?thesis
    by (metis (full_types))
qed

text \<open>The stop of the running demo service, with one more moment for the answer.\<close>

definition demo_halted :: sys where
  "demo_halted = snd (the (Stop (demo_running\<lparr> sy_script := stop_items @ [([], Ret 0)] \<rparr>)))"

definition demo_answered :: sys where
  "demo_answered = demo_halted\<lparr> sy_script := [] \<rparr>"

lemma demo_halted:
  "Stop (demo_running\<lparr> sy_script := stop_items @ [([], Ret 0)] \<rparr>) = Some (Done True [], demo_halted)"
  "yield demo_halted = Some demo_answered"
proof -
  have "map_option fst (Stop (demo_running\<lparr> sy_script := stop_items @ [([], Ret 0)] \<rparr>)) = Some (Done True [])
      \<and> sy_script demo_halted = [([], Ret 0)]"
    by code_simp
  then show "Stop (demo_running\<lparr> sy_script := stop_items @ [([], Ret 0)] \<rparr>) = Some (Done True [], demo_halted)"
    "yield demo_halted = Some demo_answered"
    by (auto simp: demo_halted_def yield_def syscall_def demo_answered_def)
qed

lemma demo_stop_request:
  "Handle files (demo_request VPost ''/api/v1/services/demo/stop'') (demo_agent (demo_running\<lparr> sy_script := stop_items @ [([], Ret 0)] \<rparr>))
     = Some (Answered (MakeJsonResponse status_ok (render (service_json demo_answered))), demo_agent demo_answered)"
proof -
  have route: "ParseServiceRoute ''/api/v1/services/demo/stop'' = Some \<lparr> sr_service_id = ''demo'', sr_action = ''stop'' \<rparr>"
    by (simp add: ParseServiceRoute_def kServicePathPrefix_def starts_with_def)
  have id: "IsValidServiceId ''demo''"
    by (simp add: IsValidServiceId_def id_char_def char_between_def)
  have find: "Find (ag_registry (demo_agent s)) ''demo'' = Some s" for s
    by (simp add: demo_agent_def demo_registry_def Find_def)
  have put: "(demo_agent s)\<lparr> ag_registry := put_service ''demo'' t (ag_registry (demo_agent s)) \<rparr> = demo_agent t" for s t
    by (simp add: demo_agent_def demo_registry_def put_service_def)
  have path: "PathOnly ''/api/v1/services/demo/stop'' = ''/api/v1/services/demo/stop''"
    by (simp add: PathOnly_def)
  have "\<not> starts_with ''/api/v1/services/demo/stop'' ''/api/v1/alerts/''"
    by (simp add: starts_with_def)
  moreover have "MakeActionResponse (demo_running\<lparr> sy_script := stop_items @ [([], Ret 0)] \<rparr>) ''stop''
      = Some (Answered (MakeJsonResponse status_ok (render (service_json demo_answered))), demo_answered)"
    by (simp add: MakeActionResponse_def demo_halted service_responses_json)
  ultimately show ?thesis
    by (simp add: Handle_def demo_request_def path route id find kServicesPath_def HandleService_def only_def put)
qed

theorem Handle_effects_witness:
  "services_ok (\<lambda>p. p) (ag_registry (demo_agent demo_answered))"
proof -
  have "services_ok (\<lambda>p. p) (ag_registry (demo_agent (demo_running\<lparr> sy_script := stop_items @ [([], Ret 0)] \<rparr>)))"
    using demo_registry_ok [OF reachable.script [OF demo_running_reachable], of "stop_items @ [([], Ret 0)]"] demo_id
    by (simp add: demo_agent_def)
  from Handle_effects [OF demo_stop_request this] this show ?thesis
    by auto
qed

end
