(* ===== verification/Client.thy ===== *)
theory Client
  imports Api
begin

text \<open>
  The desktop's client of the agent (\<open>src/apps/desktop/src/api/agent_client.cpp\<close>): the requests it
  sends, how it treats a reply, and the parsers of the snapshots it shows. Qt is a parameter: its
  JSON reader, the value of a number, and the conversions of a double to an integer. The lemmas
  connect it with the agent: what the agent prints is what the client reads.
\<close>

section \<open>Qt\<close>

text \<open>
  \<open>qt_from_json\<close> is \<open>QJsonDocument::fromJson\<close>, \<^term>\<open>None\<close> for a parse error; \<open>qt_double\<close> is
  \<open>QJsonValue::toDouble\<close> of a number, given its text; \<open>qt_int64\<close>, \<open>qt_uint64\<close> and \<open>qt_uint32\<close> are
  \<open>static_cast\<close> from a double with an integral value, which C++ leaves undefined out of the range of
  the target. \<open>QString\<close>s are their UTF-8 bytes. Of an object the code only asks \<open>value(key)\<close>,
  so the order Qt keeps the members in cannot be seen; the model keeps that of the text.
\<close>

record qt_api =
  qt_from_json :: "string \<Rightarrow> json option"
  qt_double :: "string \<Rightarrow> double"
  qt_int64 :: "int \<Rightarrow> int"
  qt_uint64 :: "int \<Rightarrow> u64"
  qt_uint32 :: "int \<Rightarrow> u32"

type_synonym members = "(string \<times> json) list"

definition field :: "members \<Rightarrow> string \<Rightarrow> json option" where
  "field object key = map_of object key"

fun isString :: "json option \<Rightarrow> bool" where
  "isString (Some (JStr _)) = True"
| "isString _ = False"

fun isDouble :: "json option \<Rightarrow> bool" where
  "isDouble (Some (JNum _)) = True"
| "isDouble _ = False"

fun isBool :: "json option \<Rightarrow> bool" where
  "isBool (Some (JBool _)) = True"
| "isBool _ = False"

fun isArray :: "json option \<Rightarrow> bool" where
  "isArray (Some (JArr _)) = True"
| "isArray _ = False"

fun toString :: "json option \<Rightarrow> string" where
  "toString (Some (JStr s)) = s"
| "toString _ = []"

fun toBool :: "json option \<Rightarrow> bool" where
  "toBool (Some (JBool b)) = b"
| "toBool _ = False"

fun toArray :: "json option \<Rightarrow> json list" where
  "toArray (Some (JArr js)) = js"
| "toArray _ = []"

fun toDouble :: "qt_api \<Rightarrow> json option \<Rightarrow> double" where
  "toDouble qt (Some (JNum t)) = qt_double qt t"
| "toDouble qt _ = Fin 0"

section \<open>Numbers\<close>

text \<open>
  An integer read from a double: \<open>isfinite\<close>, \<open>floor(parsed) == parsed\<close> and the two bounds, both of
  them doubles; the limits \<open>2 ^ 63 - 1\<close> and \<open>2 ^ 64 - 1\<close> round up when they are converted.
\<close>

definition integral :: "double \<Rightarrow> rat \<Rightarrow> rat \<Rightarrow> int option" where
  "integral parsed minimum maximum =
     (case parsed of
        Fin r \<Rightarrow> if of_int \<lfloor>r\<rfloor> \<noteq> r \<or> r < minimum \<or> maximum < r then None else Some \<lfloor>r\<rfloor>
      | _ \<Rightarrow> None)"

definition ParseRequiredInt64 :: "qt_api \<Rightarrow> json option \<Rightarrow> int \<Rightarrow> int option" where
  "ParseRequiredInt64 qt v minimum =
     (if \<not> isDouble v then None
      else map_option (qt_int64 qt) (integral (toDouble qt v) (of_int minimum) (2 ^ 63)))"

definition ParseOptionalDouble :: "qt_api \<Rightarrow> json option \<Rightarrow> rat \<Rightarrow> rat \<Rightarrow> double option option" where
  "ParseOptionalDouble qt v minimum maximum =
     (if v = Some JNull then Some None
      else if \<not> isDouble v then None
      else (let parsed = toDouble qt v in
            if \<not> isfinite parsed \<or> double_less parsed (Fin minimum) \<or> double_less (Fin maximum) parsed then None
            else Some (Some parsed)))"

definition ParseOptionalUInt64 :: "qt_api \<Rightarrow> json option \<Rightarrow> u64 option option" where
  "ParseOptionalUInt64 qt v =
     (if v = Some JNull then Some None
      else if \<not> isDouble v then None
      else map_option (\<lambda>i. Some (qt_uint64 qt i)) (integral (toDouble qt v) 0 (2 ^ 64)))"

definition ParseRequiredUInt32 :: "qt_api \<Rightarrow> json option \<Rightarrow> u32 option" where
  "ParseRequiredUInt32 qt v =
     (if \<not> isDouble v then None
      else map_option (qt_uint32 qt) (integral (toDouble qt v) 0 (2 ^ 32 - 1)))"

definition ParseOptionalInt64 :: "qt_api \<Rightarrow> json option \<Rightarrow> int \<Rightarrow> int option option" where
  "ParseOptionalInt64 qt v minimum =
     (if v = Some JNull then Some None else map_option Some (ParseRequiredInt64 qt v minimum))"

definition ParseOptionalInt :: "qt_api \<Rightarrow> json option \<Rightarrow> int option option" where
  "ParseOptionalInt qt v =
     (if v = None \<or> v = Some JNull then Some None
      else (case ParseRequiredInt64 qt v (- (2 ^ 31)) of
              None \<Rightarrow> None
            | Some parsed \<Rightarrow> if 2 ^ 31 - 1 < parsed then None else Some (Some parsed)))"

definition ParseOptionalString :: "json option \<Rightarrow> string option option" where
  "ParseOptionalString v =
     (if v = Some JNull then Some None else if \<not> isString v then None else Some (Some (toString v)))"

section \<open>Snapshots\<close>

record AgentError =
  er_http_status :: int
  er_code :: string
  er_message :: string

definition MakeClientError :: "string \<Rightarrow> string \<Rightarrow> AgentError" where
  "MakeClientError code message = \<lparr> er_http_status = 0, er_code = code, er_message = message \<rparr>"

record ServiceSnapshot =
  sn_id :: string
  sn_display_name :: string
  sn_state :: string
  sn_desired_state :: string
  sn_auto_start :: bool
  sn_pid :: int
  sn_process_group_id :: int
  sn_uptime_seconds :: int
  sn_last_transition_at_unix_ms :: int
  sn_last_exit_code :: "int option"
  sn_last_exit_signal :: "int option"
  sn_last_exit_kind :: string
  sn_last_error :: string

record ServiceMetricsSnapshot =
  mn_service_id :: string
  mn_available :: bool
  mn_pid :: int
  mn_collected_at_unix_ms :: int
  mn_cpu_percent :: "double option"
  mn_rss_bytes :: "u64 option"
  mn_thread_count :: "u64 option"
  mn_fd_count :: "u64 option"

record HealthSnapshot =
  hn_service_id :: string
  hn_state :: string
  hn_reason :: string
  hn_consecutive_failures :: u32
  hn_checked_at_unix_ms :: int

record AlertSnapshot =
  an_id :: string
  an_service_id :: string
  an_rule_id :: string
  an_severity :: string
  an_state :: string
  an_message :: string
  an_first_triggered_at_unix_ms :: int
  an_last_triggered_at_unix_ms :: int
  an_resolved_at_unix_ms :: "int option"
  an_trigger_count :: u32
  an_acknowledged :: bool

record RecoveryEventSnapshot =
  rn_service_id :: string
  rn_type :: string
  rn_reason :: string
  rn_occurred_at_unix_ms :: int
  rn_alert_event_id :: "string option"
  rn_restart_count_in_window :: u32

text \<open>A field older agents do not send: its default when it is missing.\<close>

definition or_default :: "json option \<Rightarrow> 'a \<Rightarrow> 'a option \<Rightarrow> 'a option" where
  "or_default v d parsed = (if v = None then Some d else parsed)"

definition ParseServiceSnapshot :: "qt_api \<Rightarrow> members \<Rightarrow> ServiceSnapshot option" where
  "ParseServiceSnapshot qt object =
     (let get = field object in
      if \<not> isString (get ''id'') \<or> toString (get ''id'') = [] \<or> \<not> isString (get ''state'')
         \<or> \<not> isString (get ''desired_state'') \<or> \<not> isString (get ''display_name'')
         \<or> \<not> isBool (get ''auto_start'') \<or> \<not> isDouble (get ''pid'') \<or> \<not> isDouble (get ''uptime_seconds'')
      then None
      else do {
        pid \<leftarrow> ParseRequiredInt64 qt (get ''pid'') (-1);
        uptime \<leftarrow> ParseRequiredInt64 qt (get ''uptime_seconds'') 0;
        exit_code \<leftarrow> ParseOptionalInt qt (get ''last_exit_code'');
        pgid \<leftarrow> or_default (get ''process_group_id'') (-1) (ParseRequiredInt64 qt (get ''process_group_id'') (-1));
        exit_kind \<leftarrow> or_default (get ''last_exit_kind'') ''none''
          (if \<not> isString (get ''last_exit_kind'') then None else Some (toString (get ''last_exit_kind'')));
        exit_signal \<leftarrow> ParseOptionalInt qt (get ''last_exit_signal'');
        last_error \<leftarrow> or_default (get ''last_error'') []
          (if \<not> isString (get ''last_error'') then None else Some (toString (get ''last_error'')));
        transition \<leftarrow> or_default (get ''last_transition_at_unix_ms'') 0
          (ParseRequiredInt64 qt (get ''last_transition_at_unix_ms'') 0);
        Some \<lparr> sn_id = toString (get ''id''), sn_display_name = toString (get ''display_name''),
          sn_state = toString (get ''state''), sn_desired_state = toString (get ''desired_state''),
          sn_auto_start = toBool (get ''auto_start''), sn_pid = pid, sn_process_group_id = pgid,
          sn_uptime_seconds = uptime, sn_last_transition_at_unix_ms = transition,
          sn_last_exit_code = exit_code, sn_last_exit_signal = exit_signal,
          sn_last_exit_kind = exit_kind, sn_last_error = last_error \<rparr>
      })"

definition ParseServiceMetricsValues :: "qt_api \<Rightarrow> members \<Rightarrow> string \<Rightarrow> ServiceMetricsSnapshot option" where
  "ParseServiceMetricsValues qt object service_id =
     (let get = field object in
      if service_id = [] \<or> \<not> isBool (get ''available'') then None
      else do {
        pid \<leftarrow> ParseRequiredInt64 qt (get ''pid'') (-1);
        collected \<leftarrow> ParseRequiredInt64 qt (get ''collected_at_unix_ms'') 0;
        cpu \<leftarrow> ParseOptionalDouble qt (get ''cpu_percent'') 0 100;
        rss \<leftarrow> ParseOptionalUInt64 qt (get ''rss_bytes'');
        threads \<leftarrow> ParseOptionalUInt64 qt (get ''thread_count'');
        fds \<leftarrow> ParseOptionalUInt64 qt (get ''fd_count'');
        (let available = toBool (get ''available'');
             snapshot = \<lparr> mn_service_id = service_id, mn_available = available, mn_pid = pid,
               mn_collected_at_unix_ms = collected, mn_cpu_percent = cpu, mn_rss_bytes = rss,
               mn_thread_count = threads, mn_fd_count = fds \<rparr>
         in if \<not> available then
              (if cpu \<noteq> None \<or> rss \<noteq> None \<or> threads \<noteq> None \<or> fds \<noteq> None then None else Some snapshot)
            else if pid \<le> 0 \<or> rss = None \<or> threads = None \<or> fds = None then None
            else Some snapshot)
      })"

definition ParseServiceMetricsSnapshot :: "qt_api \<Rightarrow> members \<Rightarrow> ServiceMetricsSnapshot option" where
  "ParseServiceMetricsSnapshot qt object =
     (let service_id = field object ''service_id'' in
      if \<not> isString service_id \<or> toString service_id = [] then None
      else ParseServiceMetricsValues qt object (toString service_id))"

definition ParseHealthSnapshot :: "qt_api \<Rightarrow> members \<Rightarrow> HealthSnapshot option" where
  "ParseHealthSnapshot qt object =
     (let get = field object in
      if \<not> isString (get ''service_id'') \<or> \<not> isString (get ''state'') \<or> \<not> isString (get ''reason'') then None
      else do {
        failures \<leftarrow> ParseRequiredUInt32 qt (get ''consecutive_failures'');
        checked \<leftarrow> ParseRequiredInt64 qt (get ''checked_at_unix_ms'') 0;
        Some \<lparr> hn_service_id = toString (get ''service_id''), hn_state = toString (get ''state''),
          hn_reason = toString (get ''reason''), hn_consecutive_failures = failures,
          hn_checked_at_unix_ms = checked \<rparr>
      })"

definition ParseAlertSnapshot :: "qt_api \<Rightarrow> members \<Rightarrow> AlertSnapshot option" where
  "ParseAlertSnapshot qt object =
     (let get = field object in
      if \<not> isString (get ''id'') \<or> \<not> isString (get ''service_id'') \<or> \<not> isString (get ''rule_id'')
         \<or> \<not> isString (get ''severity'') \<or> \<not> isString (get ''state'') \<or> \<not> isString (get ''message'')
         \<or> \<not> isBool (get ''acknowledged'')
      then None
      else do {
        first \<leftarrow> ParseRequiredInt64 qt (get ''first_triggered_at_unix_ms'') 0;
        latest \<leftarrow> ParseRequiredInt64 qt (get ''last_triggered_at_unix_ms'') 0;
        resolved \<leftarrow> ParseOptionalInt64 qt (get ''resolved_at_unix_ms'') 0;
        count \<leftarrow> ParseRequiredUInt32 qt (get ''trigger_count'');
        Some \<lparr> an_id = toString (get ''id''), an_service_id = toString (get ''service_id''),
          an_rule_id = toString (get ''rule_id''), an_severity = toString (get ''severity''),
          an_state = toString (get ''state''), an_message = toString (get ''message''),
          an_first_triggered_at_unix_ms = first, an_last_triggered_at_unix_ms = latest,
          an_resolved_at_unix_ms = resolved, an_trigger_count = count,
          an_acknowledged = toBool (get ''acknowledged'') \<rparr>
      })"

definition ParseRecoveryEventSnapshot :: "qt_api \<Rightarrow> members \<Rightarrow> RecoveryEventSnapshot option" where
  "ParseRecoveryEventSnapshot qt object =
     (let get = field object in
      if \<not> isString (get ''service_id'') \<or> \<not> isString (get ''type'') \<or> \<not> isString (get ''reason'') then None
      else do {
        occurred \<leftarrow> ParseRequiredInt64 qt (get ''occurred_at_unix_ms'') 0;
        alert \<leftarrow> ParseOptionalString (get ''alert_event_id'');
        count \<leftarrow> ParseRequiredUInt32 qt (get ''restart_count_in_window'');
        Some \<lparr> rn_service_id = toString (get ''service_id''), rn_type = toString (get ''type''),
          rn_reason = toString (get ''reason''), rn_occurred_at_unix_ms = occurred,
          rn_alert_event_id = alert, rn_restart_count_in_window = count \<rparr>
      })"

section \<open>Requests and replies\<close>

text \<open>
  The path and the query items of a URL below the base URL; what \<open>QNetworkReply\<close> reports when it has
  finished. An operation is the request it sends and what its callback is given for the reply.
\<close>

record client_url =
  cu_path :: string
  cu_query :: "(string \<times> string) list"

record reply =
  rp_error :: "string option"
  rp_http_status :: int
  rp_body :: string

type_synonym 'a client_op = "(verb \<times> client_url) \<times> (reply \<Rightarrow> AgentError + 'a)"

definition BuildUrl :: "string \<Rightarrow> client_url" where
  "BuildUrl path = \<lparr> cu_path = path, cu_query = [] \<rparr>"

definition BuildServiceUrl :: "string \<Rightarrow> string \<Rightarrow> client_url" where
  "BuildServiceUrl service_id action = BuildUrl (''/api/v1/services/'' @ service_id @ ''/'' @ action)"

definition setQuery :: "(string \<times> string) list \<Rightarrow> client_url \<Rightarrow> client_url" where
  "setQuery query url = url\<lparr> cu_query := query \<rparr>"

definition ParseError :: "int \<Rightarrow> members \<Rightarrow> string \<Rightarrow> AgentError" where
  "ParseError http_status object fallback_message =
     (let code = toString (field object ''error''); message = toString (field object ''message'') in
      \<lparr> er_http_status = http_status,
        er_code = (if code = [] then (if http_status = 0 then ''network_error'' else ''http_error'') else code),
        er_message = (if message = [] then fallback_message else message) \<rparr>)"

definition HandleReply :: "qt_api \<Rightarrow> reply \<Rightarrow> AgentError + members" where
  "HandleReply qt r =
     (let parsed = (case qt_from_json qt (rp_body r) of Some (JObj ms) \<Rightarrow> Some ms | _ \<Rightarrow> None);
          object = (case parsed of Some ms \<Rightarrow> ms | None \<Rightarrow> []);
          status = rp_http_status r
      in case rp_error r of
           Some text \<Rightarrow> Inl (ParseError status object text)
         | None \<Rightarrow>
             if status < 200 \<or> 300 \<le> status then
               Inl (ParseError status object ''Agent returned a non-success HTTP status'')
             else (case parsed of
                     None \<Rightarrow> Inl (MakeClientError ''invalid_json'' ''Agent returned invalid JSON'')
                   | Some ms \<Rightarrow> Inr ms))"

definition SendJsonRequest :: "qt_api \<Rightarrow> verb \<Rightarrow> client_url \<Rightarrow> (members \<Rightarrow> AgentError + 'a) \<Rightarrow> 'a client_op" where
  "SendJsonRequest qt method url callback =
     ((method, url), \<lambda>r. case HandleReply qt r of Inl e \<Rightarrow> Inl e | Inr object \<Rightarrow> callback object)"

abbreviation invalid_response :: "string \<Rightarrow> AgentError + 'a" where
  "invalid_response message \<equiv> Inl (MakeClientError ''invalid_response'' message)"

definition RequestStatus :: "qt_api \<Rightarrow> verb \<Rightarrow> string \<Rightarrow> string \<Rightarrow> ServiceSnapshot client_op" where
  "RequestStatus qt method service_id action =
     SendJsonRequest qt method (BuildServiceUrl service_id action) (\<lambda>object.
       case ParseServiceSnapshot qt object of
         None \<Rightarrow> invalid_response ''Agent status response has an invalid structure''
       | Some snapshot \<Rightarrow> Inr snapshot)"

text \<open>\<open>GetStatus\<close>, \<open>StartService\<close>, \<open>StopService\<close> and \<open>RestartService\<close> of the client.\<close>

definition client_GetStatus :: "qt_api \<Rightarrow> string \<Rightarrow> ServiceSnapshot client_op" where
  "client_GetStatus qt service_id = RequestStatus qt VGet service_id ''status''"

definition StartService :: "qt_api \<Rightarrow> string \<Rightarrow> ServiceSnapshot client_op" where
  "StartService qt service_id = RequestStatus qt VPost service_id ''start''"

definition StopService :: "qt_api \<Rightarrow> string \<Rightarrow> ServiceSnapshot client_op" where
  "StopService qt service_id = RequestStatus qt VPost service_id ''stop''"

definition RestartService :: "qt_api \<Rightarrow> string \<Rightarrow> ServiceSnapshot client_op" where
  "RestartService qt service_id = RequestStatus qt VPost service_id ''restart''"

text \<open>
  The loops over the items of an array. An item that is no object, or whose parser rejects it, ends
  the loop with an error; \<open>accept\<close> is the test the code makes on a parsed item and the ones before it.
\<close>

fun read_each ::
  "string \<Rightarrow> string \<Rightarrow> (members \<Rightarrow> 'a option) \<Rightarrow> ('a list \<Rightarrow> 'a \<Rightarrow> string option) \<Rightarrow> json list \<Rightarrow> 'a list
     \<Rightarrow> AgentError + 'a list" where
  "read_each not_object invalid parse reject [] acc = Inr acc"
| "read_each not_object invalid parse reject (j # js) acc =
     (case j of
        JObj ms \<Rightarrow>
          (case parse ms of
             None \<Rightarrow> invalid_response invalid
           | Some x \<Rightarrow>
               (case reject acc x of
                  Some message \<Rightarrow> invalid_response message
                | None \<Rightarrow> read_each not_object invalid parse reject js (acc @ [x])))
      | _ \<Rightarrow> invalid_response not_object)"

definition GetServices :: "qt_api \<Rightarrow> ServiceSnapshot list client_op" where
  "GetServices qt =
     SendJsonRequest qt VGet (BuildUrl kServicesPath) (\<lambda>object.
       if \<not> isArray (field object ''services'') then
         invalid_response ''Agent services response does not contain a services array''
       else read_each ''Agent services response contains a non-object item''
         ''Agent services response contains an invalid service'' (ParseServiceSnapshot qt)
         (\<lambda>acc x. if sn_id x \<in> set (map sn_id acc)
                   then Some ''Agent services response contains duplicate service ids'' else None)
         (toArray (field object ''services'')) [])"

definition GetLogs :: "qt_api \<Rightarrow> string \<Rightarrow> int \<Rightarrow> string list client_op" where
  "GetLogs qt service_id tail =
     SendJsonRequest qt VGet (setQuery [(''tail'', int_to_string tail)] (BuildServiceUrl service_id ''logs'')) (\<lambda>object.
       if \<not> isArray (field object ''lines'') then
         invalid_response ''Agent logs response does not contain a lines array''
       else Inr (map (\<lambda>v. toString (Some v)) (filter (\<lambda>v. isString (Some v)) (toArray (field object ''lines'')))))"

definition GetMetrics :: "qt_api \<Rightarrow> string \<Rightarrow> ServiceMetricsSnapshot client_op" where
  "GetMetrics qt service_id =
     SendJsonRequest qt VGet (BuildServiceUrl service_id ''metrics'') (\<lambda>object.
       case ParseServiceMetricsSnapshot qt object of
         None \<Rightarrow> invalid_response ''Agent metrics response has an invalid structure''
       | Some metrics \<Rightarrow>
           if mn_service_id metrics \<noteq> service_id then
             invalid_response ''Agent metrics response service_id does not match the request''
           else Inr metrics)"

definition GetMetricsHistory :: "qt_api \<Rightarrow> string \<Rightarrow> int \<Rightarrow> ServiceMetricsSnapshot list client_op" where
  "GetMetricsHistory qt service_id limit =
     SendJsonRequest qt VGet (setQuery [(''limit'', int_to_string limit)] (BuildServiceUrl service_id ''metrics/history''))
       (\<lambda>object.
         if \<not> isString (field object ''service_id'') \<or> toString (field object ''service_id'') \<noteq> service_id
            \<or> \<not> isArray (field object ''points'')
         then invalid_response ''Agent metrics history response has an invalid structure''
         else read_each ''Agent metrics history contains a non-object point''
           ''Agent metrics history contains an invalid point'' (\<lambda>ms. ParseServiceMetricsValues qt ms service_id)
           (\<lambda>acc x. if mn_collected_at_unix_ms x < (if acc = [] then -1 else mn_collected_at_unix_ms (last acc))
                     then Some ''Agent metrics history contains an invalid point'' else None)
           (toArray (field object ''points'')) [])"

definition GetHealth :: "qt_api \<Rightarrow> string \<Rightarrow> HealthSnapshot client_op" where
  "GetHealth qt service_id =
     SendJsonRequest qt VGet (BuildServiceUrl service_id ''health'') (\<lambda>object.
       case ParseHealthSnapshot qt object of
         None \<Rightarrow> invalid_response ''Agent health response has an invalid structure''
       | Some health \<Rightarrow>
           if hn_service_id health \<noteq> service_id then
             invalid_response ''Agent health response has an invalid structure''
           else Inr health)"

definition GetServiceAlerts :: "qt_api \<Rightarrow> string \<Rightarrow> bool \<Rightarrow> AlertSnapshot list client_op" where
  "GetServiceAlerts qt service_id include_resolved =
     SendJsonRequest qt VGet
       (setQuery [(''include_resolved'', if include_resolved then ''true'' else ''false'')]
          (BuildServiceUrl service_id ''alerts'')) (\<lambda>object.
       if toString (field object ''service_id'') \<noteq> service_id \<or> \<not> isArray (field object ''alerts'') then
         invalid_response ''Agent alerts response has an invalid structure''
       else read_each ''Agent alerts response contains a non-object item''
         ''Agent alerts response contains an invalid alert'' (ParseAlertSnapshot qt)
         (\<lambda>acc x. if an_service_id x \<noteq> service_id
                   then Some ''Agent alerts response contains an invalid alert'' else None)
         (toArray (field object ''alerts'')) [])"

definition client_AcknowledgeAlert :: "qt_api \<Rightarrow> string \<Rightarrow> AlertSnapshot client_op" where
  "client_AcknowledgeAlert qt alert_id =
     SendJsonRequest qt VPost (BuildUrl (''/api/v1/alerts/'' @ alert_id @ ''/ack'')) (\<lambda>object.
       case field object ''alert'' of
         Some (JObj ms) \<Rightarrow>
           (case ParseAlertSnapshot qt ms of
              None \<Rightarrow> invalid_response ''Agent acknowledge response contains an invalid alert''
            | Some alert \<Rightarrow> Inr alert)
       | _ \<Rightarrow> invalid_response ''Agent acknowledge response does not contain alert object'')"

definition GetServiceRecoveryEvents :: "qt_api \<Rightarrow> string \<Rightarrow> int \<Rightarrow> RecoveryEventSnapshot list client_op" where
  "GetServiceRecoveryEvents qt service_id limit =
     SendJsonRequest qt VGet (setQuery [(''limit'', int_to_string limit)] (BuildServiceUrl service_id ''recovery-events''))
       (\<lambda>object.
         if toString (field object ''service_id'') \<noteq> service_id \<or> \<not> isArray (field object ''events'') then
           invalid_response ''Agent recovery-events response has an invalid structure''
         else read_each ''Agent recovery-events response contains a non-object item''
           ''Agent recovery-events response contains an invalid event'' (ParseRecoveryEventSnapshot qt)
           (\<lambda>acc x. if rn_service_id x \<noteq> service_id
                     then Some ''Agent recovery-events response contains an invalid event'' else None)
           (toArray (field object ''events'')) [])"

section \<open>What is relied on of Qt\<close>

text \<open>
  The kind of values the agent's replies about services are made of: UTF-8 strings, integers a double
  holds exactly, no key twice, and no deeper than \<open>d\<close>.
\<close>

definition exact_integer :: "string \<Rightarrow> bool" where
  "exact_integer t \<longleftrightarrow> (\<exists>i. t = int_to_string i \<and> - (2 ^ 53) \<le> i \<and> i \<le> 2 ^ 53)"

fun portable :: "nat \<Rightarrow> json \<Rightarrow> bool" where
  "portable d (JStr s) = valid_utf8 s"
| "portable d (JNum t) = exact_integer t"
| "portable d (JArr js) = (0 < d \<and> list_all (portable (d - 1)) js)"
| "portable d (JObj ms) =
     (0 < d \<and> distinct (map fst ms) \<and> list_all (\<lambda>(k, v). valid_utf8 k \<and> portable (d - 1) v) ms)"
| "portable d _ = True"

lemma portable_json_ok: "portable d j \<Longrightarrow> json_ok j \<and> json_utf8 j"
proof (induction j arbitrary: d)
  case (JNum t)
  then show ?case by (auto simp: exact_integer_def json_number_int)
next
  case (JArr js)
  then show ?case by (auto simp: list_all_iff)
next
  case (JObj ms)
  then show ?case by (fastforce simp: list_all_iff)
qed simp_all

text \<open>The snapshots the client should show.\<close>

definition status_snapshot :: "string \<Rightarrow> string \<Rightarrow> bool \<Rightarrow> ServiceStatus \<Rightarrow> ServiceSnapshot" where
  "status_snapshot i display auto st =
     \<lparr> sn_id = i, sn_display_name = display, sn_state = ToString_ServiceState (st_state st),
       sn_desired_state = ToString_DesiredState (st_desired_state st), sn_auto_start = auto,
       sn_pid = st_pid st, sn_process_group_id = st_process_group_id st, sn_uptime_seconds = st_uptime st,
       sn_last_transition_at_unix_ms = st_last_transition_at_unix_ms st,
       sn_last_exit_code = st_exit_code st, sn_last_exit_signal = st_last_exit_signal st,
       sn_last_exit_kind = ToString_ProcessExitKind (st_last_exit_kind st), sn_last_error = st_last_error st \<rparr>"

definition shown_service :: "ServiceSummary \<Rightarrow> ServiceSnapshot" where
  "shown_service s = status_snapshot (ss_id s) (ss_display_name s) (ss_auto_start s) (ss_status s)"

definition shown_health :: "HealthStatus \<Rightarrow> HealthSnapshot" where
  "shown_health h =
     \<lparr> hn_service_id = hs_service_id h, hn_state = ToString_HealthState (hs_state h), hn_reason = hs_reason h,
       hn_consecutive_failures = hs_consecutive_failures h, hn_checked_at_unix_ms = hs_checked_at_unix_ms h \<rparr>"

definition shown_alert :: "AlertEvent \<Rightarrow> AlertSnapshot" where
  "shown_alert e =
     \<lparr> an_id = ev_id e, an_service_id = ev_service_id e, an_rule_id = ev_rule_id e,
       an_severity = ToString_AlertSeverity (ev_severity e), an_state = ToString_AlertEventState (ev_state e),
       an_message = ev_message e, an_first_triggered_at_unix_ms = ev_first_triggered_at_unix_ms e,
       an_last_triggered_at_unix_ms = ev_last_triggered_at_unix_ms e,
       an_resolved_at_unix_ms = ev_resolved_at_unix_ms e, an_trigger_count = ev_trigger_count e,
       an_acknowledged = ev_acknowledged e \<rparr>"

definition shown_recovery :: "RecoveryEvent \<Rightarrow> RecoveryEventSnapshot" where
  "shown_recovery e =
     \<lparr> rn_service_id = re_service_id e, rn_type = ToString_RecoveryEventType (re_type e), rn_reason = re_reason e,
       rn_occurred_at_unix_ms = re_occurred_at_unix_ms e, rn_alert_event_id = re_alert_event_id e,
       rn_restart_count_in_window = re_restart_count_in_window e \<rparr>"

text \<open>
  What survives the trip: integers a double holds exactly, exit codes and signals of an \<open>int\<close>, text
  in UTF-8.
\<close>

definition fits_time :: "int \<Rightarrow> bool" where
  "fits_time t \<longleftrightarrow> 0 \<le> t \<and> t \<le> 2 ^ 53"

definition fits_int :: "int option \<Rightarrow> bool" where
  "fits_int v \<longleftrightarrow> (case v of None \<Rightarrow> True | Some i \<Rightarrow> - (2 ^ 31) \<le> i \<and> i < 2 ^ 31)"

definition fits_status :: "ServiceStatus \<Rightarrow> bool" where
  "fits_status st \<longleftrightarrow> -1 \<le> st_pid st \<and> st_pid st \<le> 2 ^ 53 \<and> -1 \<le> st_process_group_id st
     \<and> st_process_group_id st \<le> 2 ^ 53 \<and> fits_time (st_uptime st) \<and> fits_time (st_last_transition_at_unix_ms st)
     \<and> fits_int (st_exit_code st) \<and> fits_int (st_last_exit_signal st) \<and> valid_utf8 (st_last_error st)"

definition fits_service :: "ServiceSummary \<Rightarrow> bool" where
  "fits_service s \<longleftrightarrow> ss_id s \<noteq> [] \<and> valid_utf8 (ss_id s) \<and> valid_utf8 (ss_display_name s) \<and> fits_status (ss_status s)"

definition fits_health :: "HealthStatus \<Rightarrow> bool" where
  "fits_health h \<longleftrightarrow> valid_utf8 (hs_service_id h) \<and> valid_utf8 (hs_reason h) \<and> fits_time (hs_checked_at_unix_ms h)"

definition fits_alert :: "AlertEvent \<Rightarrow> bool" where
  "fits_alert e \<longleftrightarrow> valid_utf8 (ev_id e) \<and> valid_utf8 (ev_service_id e) \<and> valid_utf8 (ev_rule_id e)
     \<and> valid_utf8 (ev_message e) \<and> fits_time (ev_first_triggered_at_unix_ms e)
     \<and> fits_time (ev_last_triggered_at_unix_ms e) \<and> pred_option fits_time (ev_resolved_at_unix_ms e)"

definition fits_recovery :: "RecoveryEvent \<Rightarrow> bool" where
  "fits_recovery e \<longleftrightarrow> valid_utf8 (re_service_id e) \<and> valid_utf8 (re_reason e) \<and> fits_time (re_occurred_at_unix_ms e)
     \<and> pred_option valid_utf8 (re_alert_event_id e)"

lemma names_utf8 [simp]:
  "valid_utf8 (ToString_ServiceState x)" "valid_utf8 (ToString_DesiredState d)"
  "valid_utf8 (ToString_ProcessExitKind k)" "valid_utf8 (ToString_HealthState h)"
  "valid_utf8 (ToString_AlertSeverity v)" "valid_utf8 (ToString_AlertEventState e)"
  "valid_utf8 (ToString_RecoveryEventType r)"
  by (rule ascii_utf8, (cases x; simp), rule ascii_utf8, (cases d; simp), rule ascii_utf8, (cases k; simp),
      rule ascii_utf8, (cases h; simp), rule ascii_utf8, (cases v; simp), rule ascii_utf8, (cases e; simp),
      rule ascii_utf8, (cases r; simp))

text \<open>The value of an integer's text.\<close>

definition reference_double :: "string \<Rightarrow> double" where
  "reference_double t =
     (if t \<noteq> [] \<and> hd t = CHR ''-'' then Fin (- of_nat (digits_value (tl t))) else Fin (of_nat (digits_value t)))"

lemma reference_double_int: "reference_double (int_to_string i) = Fin (of_int i)"
proof (cases "i < 0")
  case True
  then show ?thesis
    by (simp add: reference_double_def int_to_string_def of_nat_nat)
next
  case False
  have "hd (nat_to_string (nat i)) \<noteq> CHR ''-''"
    using nat_to_string_digits [of "nat i"] nat_to_string_not_Nil [of "nat i"] digit_not_mark
    by (metis list.set_sel(1))
  then show ?thesis
    using False by (simp add: reference_double_def int_to_string_def of_nat_nat)
qed

lemma portable_int [simp]: "portable d (int_json i) \<longleftrightarrow> - (2 ^ 53) \<le> i \<and> i \<le> 2 ^ 53"
proof -
  have "int_to_string i = int_to_string j \<Longrightarrow> i = j" for j
    by (metis reference_double_int double.inject(1) of_int_eq_iff)
  then show ?thesis
    by (auto simp: int_json_def exact_integer_def)
qed

lemma portable_u32 [simp]: "portable d (nat_json (unat (w :: u32)))"
proof -
  have "uint w < 2 ^ 32"
    using unsigned_less [of w, where ?'a = int] by simp
  then show ?thesis
    by (auto simp: nat_json_def exact_integer_def int_to_string_def intro!: exI [of _ "uint w"])
qed

lemma portable_optional [simp]:
  "portable d (optional_json f v) \<longleftrightarrow> (case v of None \<Rightarrow> True | Some x \<Rightarrow> portable d (f x))"
  by (simp add: optional_json_def split: option.split)

lemma portable_items:
  "0 < d \<Longrightarrow> fits_service s \<Longrightarrow> portable d (summary_json s)"
  "0 < d \<Longrightarrow> fits_health h \<Longrightarrow> portable d (health_json h)"
  "0 < d \<Longrightarrow> fits_alert e \<Longrightarrow> portable d (alert_json e)"
  "0 < d \<Longrightarrow> fits_recovery r \<Longrightarrow> portable d (recovery_json r)"
  by (auto simp: fits_service_def fits_status_def summary_json_def status_members_def fits_health_def
      health_json_def fits_alert_def alert_json_def fits_recovery_def recovery_json_def option.pred_set
      fits_time_def fits_int_def split: option.split)

text \<open>A response as the client receives it; an HTTP error status is an error of the reply.\<close>

definition delivered :: "HttpResponse \<Rightarrow> reply \<Rightarrow> bool" where
  "delivered r p \<longleftrightarrow> rp_http_status p = int (status_code (rs_status r)) \<and> rp_body p = rs_body r
     \<and> (rp_error p = None \<longleftrightarrow> status_code (rs_status r) < 400)"

lemma portable_service: "0 < d \<Longrightarrow> fits_service (summary v) \<Longrightarrow> portable d (service_json v)"
  by (auto simp: fits_service_def fits_status_def fits_time_def fits_int_def summary_def service_json_def status_members_def
      split: option.split)

lemma read_each_all:
  assumes "\<And>x. x \<in> set xs \<Longrightarrow> \<exists>ms. f x = JObj ms \<and> parse ms = Some (g x)"
    and "\<And>ys x zs. xs = ys @ x # zs \<Longrightarrow> reject (acc @ map g ys) (g x) = None"
  shows "read_each n m parse reject (map f xs) acc = Inr (acc @ map g xs)"
  using assms
proof (induction xs arbitrary: acc)
  case (Cons x xs)
  obtain ms where ms: "f x = JObj ms" "parse ms = Some (g x)"
    using Cons.prems(1) [of x] by auto
  have none: "reject acc (g x) = None"
    using Cons.prems(2) [of "[]" x xs] by simp
  have "read_each n m parse reject (map f xs) (acc @ [g x]) = Inr ((acc @ [g x]) @ map g xs)"
  proof (rule Cons.IH)
    show "\<exists>ms. f y = JObj ms \<and> parse ms = Some (g y)" if "y \<in> set xs" for y
      using Cons.prems(1) [of y] that by simp
    show "reject ((acc @ [g x]) @ map g ys) (g y) = None" if "xs = ys @ y # zs" for ys y zs
      using Cons.prems(2) [of "x # ys" y zs] that by simp
  qed
  then show ?case
    using ms none by simp
qed simp

locale qt_reader =
  fixes qt :: qt_api
  assumes from_json: "\<And>ms. portable 8 (JObj ms) \<Longrightarrow> length (render (JObj ms)) < 2 ^ 26 \<Longrightarrow>
      qt_from_json qt (render (JObj ms)) = Some (JObj ms)"
    and double_of_int: "\<And>i. - (2 ^ 53) \<le> i \<Longrightarrow> i \<le> 2 ^ 53 \<Longrightarrow> qt_double qt (int_to_string i) = Fin (of_int i)"
    and cast_int64: "\<And>i. - (2 ^ 63) \<le> i \<Longrightarrow> i < 2 ^ 63 \<Longrightarrow> qt_int64 qt i = i"
    and cast_uint32: "\<And>i. 0 \<le> i \<Longrightarrow> i < 2 ^ 32 \<Longrightarrow> qt_uint32 qt i = word_of_int i"
begin

lemma integral_int [simp]:
  "integral (Fin (of_int i)) m x = (if of_int i < m \<or> x < of_int i then None else Some i)"
  by (simp add: integral_def)

lemma read_int:
  "m \<le> i \<Longrightarrow> - (2 ^ 53) \<le> i \<Longrightarrow> i \<le> 2 ^ 53 \<Longrightarrow> ParseRequiredInt64 qt (Some (int_json i)) m = Some i"
proof -
  assume i: "m \<le> i" "- (2 ^ 53) \<le> i" "i \<le> 2 ^ 53"
  then have "\<not> (of_int i :: rat) < of_int m" "\<not> 2 ^ 63 < (of_int i :: rat)"
    using of_int_le_iff [of i "2 ^ 63", where 'a = rat] by auto
  then show ?thesis
    using i by (simp add: ParseRequiredInt64_def int_json_def double_of_int cast_int64)
qed

lemma read_nat32: "n < 2 ^ 32 \<Longrightarrow> ParseRequiredUInt32 qt (Some (nat_json n)) = Some (of_nat n)"
proof -
  assume n: "n < 2 ^ 32"
  have "nat_to_string n = int_to_string (int n)"
    by (simp add: int_to_string_def)
  moreover have "qt_double qt (int_to_string (int n)) = Fin (of_int (int n))"
    using n by (intro double_of_int) simp_all
  moreover have "(of_int (int n) :: rat) \<le> of_int (2 ^ 32 - 1)"
    unfolding of_int_le_iff using n by simp
  moreover have "qt_uint32 qt (int n) = of_nat n"
    using n by (subst cast_uint32) simp_all
  ultimately show ?thesis
    by (simp add: ParseRequiredUInt32_def nat_json_def not_less del: of_int_of_nat_eq)
qed

lemma read_u32: "ParseRequiredUInt32 qt (Some (nat_json (unat (w :: u32)))) = Some w"
  using unsigned_less [of w, where ?'a = nat] by (subst read_nat32) simp_all

lemma read_optional:
  "(\<And>i. v = Some i \<Longrightarrow> - (2 ^ 31) \<le> i \<and> i < 2 ^ 31) \<Longrightarrow> ParseOptionalInt qt (Some (optional_json int_json v)) = Some v"
proof (cases v)
  case (Some i)
  assume "\<And>i. v = Some i \<Longrightarrow> - (2 ^ 31) \<le> i \<and> i < 2 ^ 31"
  then have "- (2 ^ 31) \<le> i" "i < 2 ^ 31" using Some by auto
  moreover from this have "ParseRequiredInt64 qt (Some (int_json i)) (- (2 ^ 31)) = Some i"
    by (intro read_int) simp_all
  ultimately show ?thesis
    by (simp add: ParseOptionalInt_def Some optional_json_def int_json_def)
qed (simp add: ParseOptionalInt_def optional_json_def)

lemma read_optional_time:
  "(\<And>t. v = Some t \<Longrightarrow> 0 \<le> t \<and> t \<le> 2 ^ 53) \<Longrightarrow> ParseOptionalInt64 qt (Some (optional_json int_json v)) 0 = Some v"
proof (cases v)
  case (Some i)
  assume "\<And>t. v = Some t \<Longrightarrow> 0 \<le> t \<and> t \<le> 2 ^ 53"
  then have "ParseRequiredInt64 qt (Some (int_json i)) 0 = Some i"
    using Some by (intro read_int) fastforce+
  then show ?thesis
    by (simp add: ParseOptionalInt64_def Some optional_json_def int_json_def)
qed (simp add: ParseOptionalInt64_def optional_json_def)

lemma isDouble_int [simp]: "isDouble (Some (int_json i))"
  by (simp add: int_json_def)

lemma read_status:
  assumes "fits_status st" and "i \<noteq> []" and "field ms ''id'' = Some (JStr i)"
    and "field ms ''display_name'' = Some (JStr display)" and "field ms ''auto_start'' = Some (JBool auto)"
    and rest: "\<And>k v. map_of (status_members st) k = Some v \<Longrightarrow> field ms k = Some v"
  shows "ParseServiceSnapshot qt ms = Some (status_snapshot i display auto st)"
proof -
  have keys: "field ms ''state'' = Some (JStr (ToString_ServiceState (st_state st)))"
    "field ms ''desired_state'' = Some (JStr (ToString_DesiredState (st_desired_state st)))"
    "field ms ''pid'' = Some (int_json (st_pid st))"
    "field ms ''uptime_seconds'' = Some (int_json (st_uptime st))"
    "field ms ''last_exit_code'' = Some (optional_json int_json (st_exit_code st))"
    "field ms ''process_group_id'' = Some (int_json (st_process_group_id st))"
    "field ms ''last_exit_kind'' = Some (JStr (ToString_ProcessExitKind (st_last_exit_kind st)))"
    "field ms ''last_exit_signal'' = Some (optional_json int_json (st_last_exit_signal st))"
    "field ms ''last_error'' = Some (JStr (st_last_error st))"
    "field ms ''last_transition_at_unix_ms'' = Some (int_json (st_last_transition_at_unix_ms st))"
    by (rule rest, simp add: status_members_def)+
  have "ParseRequiredInt64 qt (Some (int_json (st_pid st))) (-1) = Some (st_pid st)"
    "ParseRequiredInt64 qt (Some (int_json (st_process_group_id st))) (-1) = Some (st_process_group_id st)"
    "ParseRequiredInt64 qt (Some (int_json (st_uptime st))) 0 = Some (st_uptime st)"
    "ParseRequiredInt64 qt (Some (int_json (st_last_transition_at_unix_ms st))) 0
      = Some (st_last_transition_at_unix_ms st)"
    using assms(1) by (simp_all add: fits_status_def fits_time_def read_int)
  moreover have "ParseOptionalInt qt (Some (optional_json int_json (st_exit_code st))) = Some (st_exit_code st)"
    "ParseOptionalInt qt (Some (optional_json int_json (st_last_exit_signal st))) = Some (st_last_exit_signal st)"
    using assms(1) by (auto intro!: read_optional simp: fits_status_def fits_int_def)
  ultimately show ?thesis
    using assms(2) by (simp add: ParseServiceSnapshot_def Let_def or_default_def keys assms(3-5) status_snapshot_def)
qed

lemma read_service:
  "fits_service s \<Longrightarrow> summary_json s = JObj ms \<Longrightarrow> ParseServiceSnapshot qt ms = Some (shown_service s)"
  unfolding shown_service_def
  by (rule read_status) (auto simp: fits_service_def summary_json_def field_def status_members_def)

lemma read_service_status:
  assumes "fits_service (summary v)" and "service_json v = JObj ms"
  shows "ParseServiceSnapshot qt ms = Some (shown_service (summary v))"
  unfolding shown_service_def
  by (rule read_status) (use assms in \<open>auto simp: fits_service_def summary_def service_json_def field_def status_members_def\<close>)

lemma read_health:
  "fits_health h \<Longrightarrow> health_json h = JObj ms \<Longrightarrow> ParseHealthSnapshot qt ms = Some (shown_health h)"
  by (auto simp: health_json_def ParseHealthSnapshot_def Let_def field_def fits_health_def fits_time_def
      read_int read_u32 shown_health_def)

lemma read_alert:
  "fits_alert e \<Longrightarrow> alert_json e = JObj ms \<Longrightarrow> ParseAlertSnapshot qt ms = Some (shown_alert e)"
  by (auto simp: alert_json_def ParseAlertSnapshot_def Let_def field_def fits_alert_def fits_time_def
      read_int read_u32 read_optional_time option.pred_set shown_alert_def)

lemma read_recovery:
  "fits_recovery e \<Longrightarrow> recovery_json e = JObj ms \<Longrightarrow> ParseRecoveryEventSnapshot qt ms = Some (shown_recovery e)"
  by (auto simp: recovery_json_def ParseRecoveryEventSnapshot_def Let_def field_def fits_recovery_def fits_time_def
      read_int read_u32 shown_recovery_def ParseOptionalString_def optional_json_def split: option.splits)

lemma read_reply:
  "portable 8 (JObj ms) \<Longrightarrow> delivered (json_response status_ok ms) p \<Longrightarrow> length (rp_body p) < 2 ^ 26 \<Longrightarrow>
     HandleReply qt p = Inr ms"
proof -
  assume ms: "portable 8 (JObj ms)" and got: "delivered (json_response status_ok ms) p" and size: "length (rp_body p) < 2 ^ 26"
  have "rp_body p = render (JObj ms)" "rp_http_status p = 200" "rp_error p = None"
    using got by (simp_all add: delivered_def json_response_def MakeJsonResponse_def set_field_def Let_def del: render.simps)
  moreover from this have "qt_from_json qt (rp_body p) = Some (JObj ms)"
    using from_json [OF ms] size by (simp only:)
  ultimately show ?thesis
    by (simp add: HandleReply_def Let_def del: render.simps)
qed

lemma read_error_reply:
  assumes "valid_utf8 code" "valid_utf8 message" "code \<noteq> []" "message \<noteq> []" "300 \<le> status_code status"
    and "delivered (MakeErrorResponse status code message) p" and "length (rp_body p) < 2 ^ 26"
  shows "HandleReply qt p = Inl \<lparr> er_http_status = int (status_code status), er_code = code, er_message = message \<rparr>"
proof -
  have "qt_from_json qt (rp_body p) = Some (JObj [(''error'', JStr code), (''message'', JStr message)])"
  proof -
    let ?ms = "[(''error'', JStr code), (''message'', JStr message)]"
    have "rp_body p = render (JObj ?ms)"
      using assms(6) by (simp add: delivered_def MakeErrorResponse_json json_response_def MakeJsonResponse_def set_field_def
          Let_def del: render.simps)
    moreover have "portable 8 (JObj ?ms)"
      using assms(1,2) by simp
    ultimately show ?thesis
      using from_json [of ?ms] assms(7) by (simp only:)
  qed
  moreover have "rp_http_status p = int (status_code status)"
    using assms(6) by (simp add: delivered_def MakeErrorResponse_def MakeJsonResponse_def set_field_def Let_def)
  ultimately show ?thesis
    using assms(3-5) by (simp add: HandleReply_def ParseError_def field_def Let_def split: option.split)
qed

lemma read_services:
  assumes "list_all fits_service ss" and "distinct (map ss_id ss)"
    and "delivered (json_response status_ok [(''services'', JArr (map summary_json ss))]) p"
    and "length (rp_body p) < 2 ^ 26"
  shows "snd (GetServices qt) p = Inr (map shown_service ss)"
proof -
  have "portable 8 (JObj [(''services'', JArr (map summary_json ss))])"
    using assms(1) by (simp add: list_all_iff portable_items)
  from read_reply [OF this assms(3,4)]
  have "HandleReply qt p = Inr [(''services'', JArr (map summary_json ss))]" .
  moreover have "read_each n m (ParseServiceSnapshot qt)
      (\<lambda>acc x. if sn_id x \<in> set (map sn_id acc) then Some dup else None) (map summary_json ss) []
      = Inr ([] @ map shown_service ss)" for n m dup
  proof (rule read_each_all)
    show "\<exists>ms. summary_json s = JObj ms \<and> ParseServiceSnapshot qt ms = Some (shown_service s)" if "s \<in> set ss" for s
      using that assms(1) read_service [of s] by (auto simp: list_all_iff summary_json_def)
    show "(if sn_id (shown_service s) \<in> set (map sn_id ([] @ map shown_service ys)) then Some dup else None) = None"
      if "ss = ys @ s # zs" for ys s zs
      using assms(2) by (auto simp: that shown_service_def status_snapshot_def)
  qed
  ultimately show ?thesis
    by (simp add: GetServices_def SendJsonRequest_def field_def)
qed

lemma read_action:
  "portable 8 (service_json v) \<Longrightarrow> fits_service (summary v) \<Longrightarrow>
   delivered (MakeJsonResponse status_ok (render (service_json v))) p \<Longrightarrow> length (rp_body p) < 2 ^ 26 \<Longrightarrow>
   snd (RequestStatus qt m i action) p = Inr (shown_service (summary v))"
proof -
  obtain ms where ms: "service_json v = JObj ms"
    by (simp add: service_json_def)
  assume "portable 8 (service_json v)" "fits_service (summary v)"
    "delivered (MakeJsonResponse status_ok (render (service_json v))) p" "length (rp_body p) < 2 ^ 26"
  then show ?thesis
    using read_reply [of ms p] read_service_status [OF _ ms]
    by (simp add: ms json_response_def RequestStatus_def SendJsonRequest_def)
qed

end

section \<open>A reader of the interface\<close>

text \<open>The reference reader with exact conversions of the integers is such a Qt.\<close>

definition reference_qt :: qt_api where
  "reference_qt = \<lparr> qt_from_json = read_json, qt_double = reference_double, qt_int64 = (\<lambda>i. i),
     qt_uint64 = word_of_int, qt_uint32 = word_of_int \<rparr>"

interpretation reference: qt_reader reference_qt
proof
  show "qt_from_json reference_qt (render (JObj ms)) = Some (JObj ms)" if "portable 8 (JObj ms)" for ms
    using read_json_render [of "JObj ms"] portable_json_ok [OF that] by (simp add: reference_qt_def del: render.simps)
qed (simp_all add: reference_qt_def reference_double_int)

section \<open>From a click to the agent and back\<close>

definition query_text :: "(string \<times> string) list \<Rightarrow> string" where
  "query_text items = join_with ''&'' (map (\<lambda>(k, v). k @ ''='' @ v) items)"

definition target_text :: "client_url \<Rightarrow> string" where
  "target_text url = cu_path url @ (if cu_query url = [] then [] else ''?'' @ query_text (cu_query url))"

definition sends :: "'a client_op \<Rightarrow> HttpRequest \<Rightarrow> bool" where
  "sends op request \<longleftrightarrow> rq_method request = fst (fst op) \<and> rq_target request = target_text (snd (fst op))"

lemma id_char_not_mark: "id_char c \<Longrightarrow> c \<noteq> CHR ''/'' \<and> c \<noteq> CHR ''?''"
  by (auto simp: id_char_def char_between_def)

lemma Handle_service_route:
  assumes "IsValidServiceId i" and "action \<noteq> []" and "Find (ag_registry a) i = Some v"
    and "PathOnly (rq_target request) = ''/api/v1/services/'' @ i @ ''/'' @ action"
  shows "Handle files request a = HandleService files request a i v action"
proof -
  have "CHR ''/'' \<notin> set i"
    using assms(1) id_char_not_mark by (auto simp: IsValidServiceId_def)
  then have "find_char (CHR ''/'') (i @ CHR ''/'' # action) = Some (length i)"
    by (rule find_char_append)
  moreover have "i \<noteq> []"
    using assms(1) by (simp add: IsValidServiceId_def)
  ultimately have "ParseServiceRoute (''/api/v1/services/'' @ i @ ''/'' @ action)
      = Some \<lparr> sr_service_id = i, sr_action = action \<rparr>"
    using assms(2) by (simp add: ParseServiceRoute_def kServicePathPrefix_def Let_def)
  then show ?thesis
    using assms by (simp add: Handle_def Let_def kServicesPath_def)
qed

lemma PathOnly_no_query: "CHR ''?'' \<notin> set path \<Longrightarrow> PathOnly path = path"
  by (simp add: PathOnly_def find_char_None [THEN iffD2])

lemma ListServices_ids:
  assumes "services_ok absolute r"
  shows "map ss_id (ListServices r) = rg_order r \<and> distinct (map ss_id (ListServices r))"
proof -
  have "map ss_id (List.map_filter (\<lambda>i. map_option summary (Find r i)) is) = is"
    if "\<forall>i \<in> set is. \<exists>s. Find r i = Some s \<and> sd_id (Definition s) = i" for "is"
    using that by (induction "is") (auto simp: List.map_filter_def summary_def)
  moreover have "\<forall>i \<in> set (rg_order r). \<exists>s. Find r i = Some s \<and> sd_id (Definition s) = i"
    using assms unfolding services_ok_def by blast
  ultimately show ?thesis
    using assms by (simp add: ListServices_def services_ok_def)
qed

text \<open>
  C15. What the list of services shows is what the registry holds: the agent's answer to the client's
  request is accepted, with one snapshot per service in the agent's order, each field the service's
  own. The client relies on Qt reading the objects the agent prints, of less than 64 MiB, and exact
  integers, the values on fitting a double.
\<close>

theorem GetServices_shows_registry:
  assumes from_json: "\<And>ms. portable 8 (JObj ms) \<Longrightarrow> length (render (JObj ms)) < 2 ^ 26 \<Longrightarrow>
      qt_from_json qt (render (JObj ms)) = Some (JObj ms)"
    and double_of_int: "\<And>i. - (2 ^ 53) \<le> i \<Longrightarrow> i \<le> 2 ^ 53 \<Longrightarrow> qt_double qt (int_to_string i) = Fin (of_int i)"
    and cast_int64: "\<And>i. - (2 ^ 63) \<le> i \<Longrightarrow> i < 2 ^ 63 \<Longrightarrow> qt_int64 qt i = i"
    and cast_uint32: "\<And>i. 0 \<le> i \<Longrightarrow> i < 2 ^ 32 \<Longrightarrow> qt_uint32 qt i = word_of_int i"
    and ok: "services_ok absolute (ag_registry a)" and fits: "list_all fits_service (ListServices (ag_registry a))"
    and sent: "sends (GetServices qt) request" and handled: "Handle files request a = Some (Answered r, b)"
    and got: "delivered r p" and size: "length (rp_body p) < 2 ^ 26"
  shows "snd (GetServices qt) p = Inr (map shown_service (ListServices (ag_registry a))) \<and> b = a"
proof -
  have qt: "qt_reader qt"
    using from_json double_of_int cast_int64 cast_uint32 by (rule qt_reader.intro)
  have "rq_method request = VGet" "rq_target request = ''/api/v1/services''"
    using sent by (simp_all add: sends_def GetServices_def SendJsonRequest_def BuildUrl_def target_text_def kServicesPath_def)
  then have *: "r = MakeServiceListResponse a \<and> b = a"
    using handled by (auto simp: Handle_def PathOnly_def kServicesPath_def only_def answer_def starts_with_def)
  have "delivered (json_response status_ok [(''services'', JArr (map summary_json (ListServices (ag_registry a))))]) p"
    using got * responses_json(1) [of a] by simp
  from qt_reader.read_services [OF qt fits ListServices_ids [OF ok, THEN conjunct2] this size] show ?thesis
    using * by simp
qed

text \<open>
  C4. A click on start, stop or restart: the agent runs that operation on that service. When it
  succeeds the client shows the status of the service right after it, when it fails the client shows
  the operation's own error, with the agent's status 409. The client relies on Qt reading the objects
  the agent prints, of less than 64 MiB.
\<close>

theorem action_reaches_service_and_back:
  assumes from_json: "\<And>ms. portable 8 (JObj ms) \<Longrightarrow> length (render (JObj ms)) < 2 ^ 26 \<Longrightarrow>
      qt_from_json qt (render (JObj ms)) = Some (JObj ms)"
    and double_of_int: "\<And>i. - (2 ^ 53) \<le> i \<Longrightarrow> i \<le> 2 ^ 53 \<Longrightarrow> qt_double qt (int_to_string i) = Fin (of_int i)"
    and cast_int64: "\<And>i. - (2 ^ 63) \<le> i \<Longrightarrow> i < 2 ^ 63 \<Longrightarrow> qt_int64 qt i = i"
    and cast_uint32: "\<And>i. 0 \<le> i \<Longrightarrow> i < 2 ^ 32 \<Longrightarrow> qt_uint32 qt i = word_of_int i"
    and click: "(op, operation) \<in> {(StartService qt i, Start), (StopService qt i, Stop), (RestartService qt i, Restart)}"
    and id: "IsValidServiceId i" and found: "Find (ag_registry a) i = Some v"
    and sent: "sends op request" and handled: "Handle files request a = Some (Answered r, b)"
    and got: "delivered r p" and size: "length (rp_body p) < 2 ^ 26"
  shows "\<exists>res s t. operation v = Some (res, s) \<and> answers_from res s t
    \<and> b = a\<lparr> ag_registry := put_service i t (ag_registry a) \<rparr>
    \<and> (case res of
         Done True _ \<Rightarrow> fits_service (summary t) \<longrightarrow> snd op p = Inr (shown_service (summary t))
       | Done False e \<Rightarrow> valid_utf8 e \<and> e \<noteq> [] \<longrightarrow>
           snd op p = Inl \<lparr> er_http_status = 409, er_code = ''service_action_failed'', er_message = e \<rparr>
       | Raised _ \<Rightarrow> False)"
proof -
  have qt: "qt_reader qt"
    using from_json double_of_int cast_int64 cast_uint32 by (rule qt_reader.intro)
  obtain action where op: "op = RequestStatus qt VPost i action" "operation = action_operation action"
    and action: "action \<in> {''start'', ''stop'', ''restart''}"
    using click by (auto simp: StartService_def StopService_def RestartService_def action_operation_def fun_eq_iff)
  have "rq_target request = ''/api/v1/services/'' @ i @ ''/'' @ action" and post: "rq_method request = VPost"
    using sent by (simp_all add: op sends_def RequestStatus_def SendJsonRequest_def BuildServiceUrl_def BuildUrl_def target_text_def)
  moreover from this have "PathOnly (rq_target request) = rq_target request"
    using action id id_char_not_mark by (intro PathOnly_no_query) (auto simp: IsValidServiceId_def)
  ultimately have "Handle files request a = HandleService files request a i v action"
    using action by (intro Handle_service_route [OF id _ found]) auto
  also have "\<dots> = map_option (\<lambda>(x, t). (x, a\<lparr> ag_registry := put_service i t (ag_registry a) \<rparr>)) (MakeActionResponse v action)"
    using action post by (auto simp: HandleService_def only_def)
  finally obtain t where "MakeActionResponse v action = Some (Answered r, t)"
    "b = a\<lparr> ag_registry := put_service i t (ag_registry a) \<rparr>"
    using handled by (cases "MakeActionResponse v action") auto
  then obtain res s where s: "action_operation action v = Some (res, s)" "answers_from res s t" "Answered r = action_answer res t"
    "b = a\<lparr> ag_registry := put_service i t (ag_registry a) \<rparr>"
    unfolding MakeActionResponse_operation [OF action] by blast
  have "case res of
         Done True _ \<Rightarrow> fits_service (summary t) \<longrightarrow> snd op p = Inr (shown_service (summary t))
       | Done False e \<Rightarrow> valid_utf8 e \<and> e \<noteq> [] \<longrightarrow>
           snd op p = Inl \<lparr> er_http_status = 409, er_code = ''service_action_failed'', er_message = e \<rparr>
       | Raised _ \<Rightarrow> False"
    using s(3) got size qt_reader.read_action [OF qt portable_service, of t p VPost i action]
      qt_reader.read_error_reply [OF qt, of "''service_action_failed''" _ status_conflict p]
    by (auto simp: action_answer_def op(1) RequestStatus_def SendJsonRequest_def split: op_result.splits bool.splits)
  with s(1,2,4) op(2) show ?thesis by blast
qed

section \<open>Edges\<close>

text \<open>
  The upper bounds are compared as doubles: the first value above each range is let through to a
  conversion that C++ leaves undefined. A byte that is no UTF-8 passes \<open>JsonEscape\<close> unchanged, so a
  log line with one makes the whole reply unreadable.
\<close>

lemma integers_past_the_range:
  "qt_double qt t = Fin (2 ^ 63) \<Longrightarrow> ParseRequiredInt64 qt (Some (JNum t)) 0 = Some (qt_int64 qt (2 ^ 63))"
  "qt_double qt t = Fin (2 ^ 64) \<Longrightarrow> ParseOptionalUInt64 qt (Some (JNum t)) = Some (Some (qt_uint64 qt (2 ^ 64)))"
  by (simp_all add: ParseRequiredInt64_def ParseOptionalUInt64_def integral_def)

lemma escape_keeps_bytes: "JsonEscape [CHR 0xFF] = [CHR 0xFF]" "\<not> valid_utf8 [CHR 0xFF]"
  by (simp_all add: JsonEscape_def escape_char_def quote_char_def backslash_def valid_utf8_def)

section \<open>Witnesses\<close>

definition deliver :: "HttpResponse \<Rightarrow> reply" where
  "deliver r = \<lparr> rp_error = (if status_code (rs_status r) < 400 then None else Some ''error''),
     rp_http_status = int (status_code (rs_status r)), rp_body = rs_body r \<rparr>"

lemma delivered_deliver: "delivered r (deliver r)"
  by (simp add: delivered_def deliver_def)

definition client_request :: "'a client_op \<Rightarrow> HttpRequest" where
  "client_request op = demo_request (fst (fst op)) (target_text (snd (fst op)))"

lemma sends_client_request: "sends op (client_request op)"
  by (simp add: sends_def client_request_def demo_request_def)

lemma demo_idle_ok: "services_ok (\<lambda>p. p) (ag_registry (demo_agent (demo_sys items)))"
proof -
  have "sd_id (Definition (demo_sys items)) = ''demo''"
    by (simp add: Definition_def demo_sys_def initial_sys_def new_supervisor_def demo_def_def)
  from demo_registry_ok [OF demo_sys_reachable this] show ?thesis
    by (simp add: demo_agent_def)
qed

lemma demo_summaries:
  "list_all fits_service (ListServices (ag_registry (demo_agent (demo_sys []))))"
  "map sn_state (map shown_service (ListServices (ag_registry (demo_agent (demo_sys []))))) = [''Stopped'']"
  by code_simp+

theorem GetServices_shows_registry_witness:
  "\<exists>services. snd (GetServices reference_qt) (deliver (MakeServiceListResponse (demo_agent (demo_sys [])))) = Inr services
     \<and> map sn_state services = [''Stopped'']"
proof -
  let ?a = "demo_agent (demo_sys [])"
  have size: "length (rp_body (deliver (MakeServiceListResponse ?a))) < 2 ^ 26"
  proof -
    have "length (rs_body (MakeServiceListResponse ?a)) < 1000"
      by code_simp
    then show ?thesis
      by (simp add: deliver_def)
  qed
  have "Handle (\<lambda>_. demo_file) (client_request (GetServices reference_qt)) ?a = Some (Answered (MakeServiceListResponse ?a), ?a)"
    by (simp add: client_request_def demo_request_def GetServices_def SendJsonRequest_def BuildUrl_def target_text_def
        Handle_def PathOnly_def kServicesPath_def only_def answer_def starts_with_def)
  from GetServices_shows_registry [OF reference.from_json reference.double_of_int reference.cast_int64
      reference.cast_uint32 demo_idle_ok demo_summaries(1) sends_client_request this delivered_deliver size]
  show ?thesis
    using demo_summaries(2) by simp
qed

theorem action_reaches_service_and_back_witness:
  "snd (StopService reference_qt ''demo'') (deliver (MakeJsonResponse status_ok (render (service_json demo_answered))))
     = Inr (shown_service (summary demo_answered))"
proof -
  have request: "client_request (StopService reference_qt ''demo'') = demo_request VPost ''/api/v1/services/demo/stop''"
    by (simp add: client_request_def StopService_def RequestStatus_def SendJsonRequest_def BuildServiceUrl_def BuildUrl_def target_text_def)
  have find: "Find (ag_registry (demo_agent s)) ''demo'' = Some s" for s
    by (simp add: demo_agent_def demo_registry_def Find_def)
  have id: "IsValidServiceId ''demo''"
    by (simp add: IsValidServiceId_def id_char_def char_between_def)
  have size: "length (rp_body (deliver (MakeJsonResponse status_ok (render (service_json demo_answered))))) < 2 ^ 26"
  proof -
    have "length (render (service_json demo_answered)) < 1000"
      by code_simp
    then show ?thesis
      by (simp add: deliver_def MakeJsonResponse_def set_field_def Let_def)
  qed
  have fits: "fits_service (summary demo_answered)"
    by code_simp
  from action_reaches_service_and_back [OF reference.from_json reference.double_of_int reference.cast_int64
      reference.cast_uint32 _ id find sends_client_request [of "StopService reference_qt ''demo''", unfolded request] demo_stop_request
      delivered_deliver size, of Stop]
  show ?thesis
    using demo_halted fits by (auto simp: answers_from_def)
qed

end
