(* ===== verification/Executor.thy ===== *)
theory Executor
  imports Prelude "HOL-Library.Multiset"
begin

text \<open>
  \<open>BoundedRequestExecutor\<close> (\<open>src/apps/agent/src/api/bounded_request_executor.cpp\<close>): a pool of worker
  threads behind a bounded queue. Each critical section under \<open>mutex_\<close> is one function on the
  object's state; a step relation interleaves them with the threads of \<open>WorkerLoop\<close>. The theorems
  say that the bound holds, that every accepted task runs exactly once and in order, that no task is
  lost by waiting, and that a wait ends.
\<close>

section \<open>The object\<close>

text \<open>
  A task is any value, threads are numbers. \<open>in_flight_count_\<close> is a 64-bit \<open>size_t\<close>, so that taking
  one from zero wraps.
\<close>

record 'a executor =
  ex_worker_count :: nat
  ex_capacity :: u64
  ex_tasks :: "'a list"
  ex_workers :: "nat list"
  ex_in_flight :: u64
  ex_accepting :: bool
  ex_stop_requested :: bool

definition new_executor :: "nat \<Rightarrow> u64 \<Rightarrow> string + 'a executor" where
  "new_executor worker_count capacity =
     (if worker_count = 0 \<or> capacity = 0 then
        Inl ''request executor worker count and capacity must be greater than zero''
      else Inr \<lparr> ex_worker_count = worker_count, ex_capacity = capacity, ex_tasks = [], ex_workers = [],
             ex_in_flight = 0, ex_accepting = False, ex_stop_requested = False \<rparr>)"

text \<open>
  \<open>Start\<close>: the threads that were created and the error of the first one that could not be. On an
  error the ones that exist are told to stop and joined, and find nothing to do.
\<close>

definition executor_Start :: "nat list \<Rightarrow> string option \<Rightarrow> 'a executor \<Rightarrow> string option \<times> 'a executor" where
  "executor_Start threads failure e =
     (if ex_accepting e \<or> ex_workers e \<noteq> [] \<or> ex_tasks e \<noteq> [] \<or> ex_in_flight e \<noteq> 0 then
        (Some ''request executor is already running or has not finished stopping'', e)
      else case failure of
             None \<Rightarrow> (None, e\<lparr> ex_workers := threads, ex_accepting := True, ex_stop_requested := False \<rparr>)
           | Some what \<Rightarrow> (Some what, e\<lparr> ex_workers := [], ex_accepting := False, ex_stop_requested := False \<rparr>))"

definition TrySubmit :: "'a option \<Rightarrow> 'a executor \<Rightarrow> (string + bool) \<times> 'a executor" where
  "TrySubmit task e =
     (case task of
        None \<Rightarrow> (Inl ''request executor task must not be empty'', e)
      | Some t \<Rightarrow>
          if \<not> ex_accepting e \<or> ex_stop_requested e \<or> ex_capacity e \<le> ex_in_flight e then (Inr False, e)
          else (Inr True, e\<lparr> ex_tasks := ex_tasks e @ [t], ex_in_flight := ex_in_flight e + 1 \<rparr>))"

definition executor_RequestStop :: "'a executor \<Rightarrow> 'a executor" where
  "executor_RequestStop e = e\<lparr> ex_accepting := False, ex_stop_requested := True \<rparr>"

text \<open>The two critical sections of \<open>Wait\<close>; between them it joins the threads it has taken over.\<close>

definition executor_wait_begin :: "nat \<Rightarrow> 'a executor \<Rightarrow> (string + nat list) \<times> 'a executor" where
  "executor_wait_begin this_thread e =
     (let e = executor_RequestStop e in
      if this_thread \<in> set (ex_workers e) then (Inl ''request executor worker cannot wait for itself'', e)
      else (Inr (ex_workers e), e\<lparr> ex_workers := [] \<rparr>))"

definition executor_wait_end :: "'a executor \<Rightarrow> 'a executor" where
  "executor_wait_end e = e\<lparr> ex_tasks := [], ex_in_flight := 0, ex_stop_requested := False \<rparr>"

definition InFlightCount :: "'a executor \<Rightarrow> nat" where
  "InFlightCount e = unat (ex_in_flight e)"

definition IsWorkerThread :: "nat \<Rightarrow> 'a executor \<Rightarrow> bool" where
  "IsWorkerThread this_thread e \<longleftrightarrow> this_thread \<in> set (ex_workers e)"

text \<open>The two critical sections of \<open>WorkerLoop\<close>: what it does next, and the end of a task.\<close>

datatype 'a next_action = RunTask 'a | LeaveLoop | WaitAgain

definition worker_next :: "'a executor \<Rightarrow> 'a next_action \<times> 'a executor" where
  "worker_next e =
     (case ex_tasks e of
        [] \<Rightarrow> (if ex_stop_requested e then LeaveLoop else WaitAgain, e)
      | t # ts \<Rightarrow> (RunTask t, e\<lparr> ex_tasks := ts \<rparr>))"

definition worker_done :: "'a executor \<Rightarrow> 'a executor" where
  "worker_done e = e\<lparr> ex_in_flight := ex_in_flight e - 1 \<rparr>"

section \<open>Threads\<close>

text \<open>
  A pool is the object, the state of every thread it ever created, and the threads a wait is joining.
  The last three fields record what happened: the tasks accepted, begun and ended, in order.
\<close>

datatype 'a worker_state = Idle | Busy 'a | Gone

record 'a pool =
  po_executor :: "'a executor"
  po_threads :: "'a worker_state list"
  po_joining :: "nat list option"
  po_accepted :: "'a list"
  po_begun :: "'a list"
  po_ended :: "'a list"

definition new_pool :: "'a executor \<Rightarrow> 'a pool" where
  "new_pool e = \<lparr> po_executor = e, po_threads = [], po_joining = None, po_accepted = [], po_begun = [], po_ended = [] \<rparr>"

text \<open>
  What a thread does on its own. A task may end with an exception, which the loop catches: both ends
  are the same step.
\<close>

inductive worker_step :: "'a pool \<Rightarrow> 'a pool \<Rightarrow> bool" where
  take: "worker_step p (p\<lparr> po_executor := e, po_threads := (po_threads p)[i := Busy t], po_begun := po_begun p @ [t] \<rparr>)"
    if "i < length (po_threads p)" and "po_threads p ! i = Idle" and "worker_next (po_executor p) = (RunTask t, e)"
| leave: "worker_step p (p\<lparr> po_threads := (po_threads p)[i := Gone] \<rparr>)"
    if "i < length (po_threads p)" and "po_threads p ! i = Idle" and "worker_next (po_executor p) = (LeaveLoop, e)"
| finish: "worker_step p (p\<lparr> po_executor := worker_done (po_executor p), po_threads := (po_threads p)[i := Idle],
      po_ended := po_ended p @ [t] \<rparr>)"
    if "i < length (po_threads p)" and "po_threads p ! i = Busy t"

text \<open>
  What the owner does. As \<open>HttpServer\<close> does, it starts the pool and waits for it one at a time:
  neither while a wait is joining.
\<close>

inductive pool_step :: "'a pool \<Rightarrow> 'a pool \<Rightarrow> bool" where
  worker: "pool_step p q" if "worker_step p q"
| start: "pool_step p (p\<lparr> po_executor := e, po_threads := po_threads p @ replicate (ex_worker_count (po_executor p)) Idle \<rparr>)"
    if "po_joining p = None"
      and "executor_Start [length (po_threads p)..<length (po_threads p) + ex_worker_count (po_executor p)] None
             (po_executor p) = (None, e)"
| start_failed: "pool_step p (p\<lparr> po_executor := e \<rparr>)"
    if "po_joining p = None" and "executor_Start threads (Some what) (po_executor p) = (x, e)"
| submit: "pool_step p (p\<lparr> po_executor := e, po_accepted := po_accepted p @ [t] \<rparr>)"
    if "TrySubmit (Some t) (po_executor p) = (Inr True, e)"
| refuse: "pool_step p (p\<lparr> po_executor := e \<rparr>)"
    if "TrySubmit (Some t) (po_executor p) = (Inr False, e)"
| stop: "pool_step p (p\<lparr> po_executor := executor_RequestStop (po_executor p) \<rparr>)"
| wait_begin: "pool_step p (p\<lparr> po_executor := e, po_joining := Some threads \<rparr>)"
    if "po_joining p = None" and "executor_wait_begin this_thread (po_executor p) = (Inr threads, e)"
| wait_refused: "pool_step p (p\<lparr> po_executor := e \<rparr>)"
    if "executor_wait_begin this_thread (po_executor p) = (Inl what, e)"
| wait_end: "pool_step p (p\<lparr> po_executor := executor_wait_end (po_executor p), po_joining := None \<rparr>)"
    if "po_joining p = Some threads" and "\<forall>i \<in> set threads. po_threads p ! i = Gone"

inductive pool_reachable :: "'a pool \<Rightarrow> bool" where
  init: "pool_reachable (new_pool e)" if "new_executor n c = Inr e"
| step: "pool_reachable q" if "pool_reachable p" and "pool_step p q"

inductive_cases worker_stepE: "worker_step p q"
inductive_cases pool_stepE: "pool_step p q"

section \<open>What every step keeps\<close>

fun busy_task :: "'a worker_state \<Rightarrow> 'a list" where
  "busy_task (Busy t) = [t]"
| "busy_task _ = []"

definition busy_tasks :: "'a pool \<Rightarrow> 'a list" where
  "busy_tasks p = concat (map busy_task (po_threads p))"

text \<open>The threads someone is responsible for: those of the object and those a wait is joining.\<close>

definition owned :: "'a pool \<Rightarrow> nat list" where
  "owned p = ex_workers (po_executor p) @ (case po_joining p of None \<Rightarrow> [] | Some threads \<Rightarrow> threads)"

definition counted :: "'a pool \<Rightarrow> bool" where
  "counted p \<longleftrightarrow>
     unat (ex_in_flight (po_executor p)) = length (ex_tasks (po_executor p)) + length (busy_tasks p)
     \<and> ex_in_flight (po_executor p) \<le> ex_capacity (po_executor p)
     \<and> po_accepted p = po_begun p @ ex_tasks (po_executor p)
     \<and> mset (po_begun p) = mset (po_ended p) + mset (busy_tasks p)"

definition manned :: "'a pool \<Rightarrow> bool" where
  "manned p \<longleftrightarrow>
     (\<forall>i < length (po_threads p). po_threads p ! i \<noteq> Gone \<longrightarrow> i \<in> set (owned p))
     \<and> (\<forall>i \<in> set (owned p). i < length (po_threads p))
     \<and> (ex_accepting (po_executor p) \<or> ex_tasks (po_executor p) \<noteq> [] \<longrightarrow>
          owned p \<noteq> [] \<and> (\<forall>i \<in> set (owned p). po_threads p ! i \<noteq> Gone))
     \<and> (ex_accepting (po_executor p) \<longrightarrow> \<not> ex_stop_requested (po_executor p))
     \<and> (po_joining p \<noteq> None \<longrightarrow> ex_stop_requested (po_executor p) \<and> ex_workers (po_executor p) = [])
     \<and> 0 < ex_worker_count (po_executor p)"

lemma busy_task_update:
  "i < length ws \<Longrightarrow> ws ! i = w \<Longrightarrow>
   mset (concat (map busy_task (ws[i := v]))) + mset (busy_task w) = mset (concat (map busy_task ws)) + mset (busy_task v)"
proof (induction ws arbitrary: i)
  case (Cons x ws)
  then show ?case by (cases i) (auto simp: ac_simps)
qed simp

lemma busy_tasks_update:
  "i < length (po_threads p) \<Longrightarrow> po_threads p ! i = w \<Longrightarrow>
   mset (concat (map busy_task ((po_threads p)[i := v]))) + mset (busy_task w) = mset (busy_tasks p) + mset (busy_task v)"
  unfolding busy_tasks_def by (rule busy_task_update)

lemma in_flight_positive:
  "unat (w :: u64) = Suc n \<Longrightarrow> unat (w - 1) = n"
proof -
  assume "unat w = Suc n"
  then have "1 \<le> w" by (simp add: word_le_nat_alt)
  then have "unat (w - 1) = unat w - unat (1 :: u64)" by (rule unat_sub)
  with \<open>unat w = Suc n\<close> show ?thesis by simp
qed

lemma below_capacity: "(w :: u64) < c \<Longrightarrow> unat (w + 1) = unat w + 1 \<and> w + 1 \<le> c"
proof -
  assume "w < c"
  then have "unat w < unat c" by (simp add: word_less_nat_alt)
  moreover from this have "unat (w + 1) = unat w + 1"
    using unsigned_less [of c, where ?'a = nat] by (simp add: unat_word_ariths)
  ultimately show ?thesis by (simp add: word_le_nat_alt)
qed

lemma busy_lengths: "mset xs = mset ys + mset zs \<Longrightarrow> length xs = length ys + length zs"
  by (metis mset_append length_append mset_eq_length)

lemma worker_step_counted: "worker_step p q \<Longrightarrow> counted p \<Longrightarrow> counted q"
proof (induction rule: worker_step.induct)
  case (take i p t e)
  then have e: "ex_tasks (po_executor p) = t # ex_tasks e" "ex_in_flight e = ex_in_flight (po_executor p)"
    "ex_capacity e = ex_capacity (po_executor p)"
    by (auto simp: worker_next_def split: list.splits if_splits)
  have m: "mset (concat (map busy_task ((po_threads p)[i := Busy t]))) = mset (busy_tasks p) + mset [t]"
    using busy_tasks_update [of i p Idle "Busy t"] take.hyps by simp
  from take.prems e m busy_lengths [OF m] show ?case
    unfolding counted_def by (simp add: busy_tasks_def)
next
  case (leave i p e)
  have m: "mset (concat (map busy_task ((po_threads p)[i := Gone]))) = mset (busy_tasks p) + mset []"
    using busy_tasks_update [of i p Idle Gone] leave.hyps by simp
  from leave.prems m busy_lengths [OF m] show ?case
    unfolding counted_def by (simp add: busy_tasks_def)
next
  case (finish i p t)
  have m: "mset (busy_tasks p) = mset (concat (map busy_task ((po_threads p)[i := Idle]))) + mset [t]"
    using busy_tasks_update [of i p "Busy t" Idle] finish.hyps by simp
  have unat: "unat (ex_in_flight (po_executor p) - 1) = unat (ex_in_flight (po_executor p)) - 1"
    using finish.prems busy_lengths [OF m] in_flight_positive [of "ex_in_flight (po_executor p)"]
    by (auto simp: counted_def)
  with finish.prems m busy_lengths [OF m] show ?case
    unfolding counted_def word_le_nat_alt by (simp add: worker_done_def busy_tasks_def)
qed

lemma manned_update:
  assumes m: "manned p" and i: "i < length (po_threads p)" "po_threads p ! i \<noteq> Gone"
    and e: "ex_workers e = ex_workers (po_executor p)" "ex_accepting e = ex_accepting (po_executor p)"
      "ex_stop_requested e = ex_stop_requested (po_executor p)" "ex_worker_count e = ex_worker_count (po_executor p)"
    and tasks: "ex_tasks e \<noteq> [] \<Longrightarrow> ex_tasks (po_executor p) \<noteq> []"
    and gone: "v = Gone \<Longrightarrow> ex_tasks e = [] \<and> \<not> ex_accepting e"
    and q: "po_executor q = e" "po_threads q = (po_threads p)[i := v]" "po_joining q = po_joining p"
  shows "manned q"
proof -
  have owned: "owned q = owned p"
    using e q by (simp add: owned_def)
  have "i \<in> set (owned p)"
    using m i unfolding manned_def by blast
  have "po_threads q ! j \<noteq> Gone \<longrightarrow> j \<in> set (owned q)" if "j < length (po_threads q)" for j
    using that m \<open>i \<in> set (owned p)\<close> unfolding manned_def owned q(2) by (cases "j = i") auto
  moreover have "\<forall>j \<in> set (owned q). j < length (po_threads q)"
    using m unfolding manned_def owned q(2) by simp
  moreover have "owned q \<noteq> [] \<and> (\<forall>j \<in> set (owned q). po_threads q ! j \<noteq> Gone)"
    if "ex_accepting e \<or> ex_tasks e \<noteq> []"
  proof -
    have "v \<noteq> Gone" using gone that by blast
    have "owned p \<noteq> [] \<and> (\<forall>j \<in> set (owned p). po_threads p ! j \<noteq> Gone)"
      using m that e(2) tasks unfolding manned_def by blast
    with \<open>v \<noteq> Gone\<close> i(1) show ?thesis
      unfolding owned q(2) by (auto simp: nth_list_update)
  qed
  ultimately show ?thesis
    using m e unfolding manned_def q(1,3) by simp
qed

lemma worker_step_manned: "worker_step p q \<Longrightarrow> manned p \<Longrightarrow> manned q"
proof (induction rule: worker_step.induct)
  case (take i p t e)
  then have e: "ex_tasks (po_executor p) = t # ex_tasks e" "ex_workers e = ex_workers (po_executor p)"
    "ex_accepting e = ex_accepting (po_executor p)" "ex_stop_requested e = ex_stop_requested (po_executor p)"
    "ex_worker_count e = ex_worker_count (po_executor p)"
    by (auto simp: worker_next_def split: list.splits if_splits)
  show ?case
    by (rule manned_update [where v = "Busy t", OF take.prems take.hyps(1) _ e(2-5)]) (simp_all add: take.hyps e(1))
next
  case (leave i p e)
  then have e: "ex_tasks (po_executor p) = []" "ex_stop_requested (po_executor p)"
    by (auto simp: worker_next_def split: list.splits if_splits)
  then have "\<not> ex_accepting (po_executor p)"
    using leave.prems by (auto simp: manned_def)
  then show ?case
    by (intro manned_update [where v = Gone, OF leave.prems leave.hyps(1)]) (simp_all add: leave.hyps e)
next
  case (finish i p t)
  show ?case
    by (rule manned_update [where v = Idle and e = "worker_done (po_executor p)", OF finish.prems finish.hyps(1)])
      (simp_all add: finish.hyps worker_done_def)
qed

lemma not_manned_idle:
  "manned p \<Longrightarrow> \<forall>i \<in> set (owned p). po_threads p ! i = Gone \<Longrightarrow>
     ex_tasks (po_executor p) = [] \<and> busy_tasks p = [] \<and> \<not> ex_accepting (po_executor p)"
proof -
  assume m: "manned p" and gone: "\<forall>i \<in> set (owned p). po_threads p ! i = Gone"
  have none: "ex_tasks (po_executor p) = [] \<and> \<not> ex_accepting (po_executor p)"
    using m gone unfolding manned_def by (metis last_in_set)
  have "w = Gone" if "w \<in> set (po_threads p)" for w
    using that m gone unfolding manned_def by (metis in_set_conv_nth)
  then have "busy_tasks p = []"
    by (fastforce simp: busy_tasks_def)
  with none show ?thesis by simp
qed

lemma request_stop_ok:
  "counted p \<and> manned p \<Longrightarrow>
     counted (p\<lparr> po_executor := executor_RequestStop (po_executor p) \<rparr>)
     \<and> manned (p\<lparr> po_executor := executor_RequestStop (po_executor p) \<rparr>)"
  by (auto simp: counted_def manned_def busy_tasks_def owned_def executor_RequestStop_def)

lemma pool_step_ok: "pool_step p q \<Longrightarrow> counted p \<and> manned p \<Longrightarrow> counted q \<and> manned q"
proof (induction rule: pool_step.induct)
  case (worker p q)
  then show ?case
    using worker_step_counted worker_step_manned by blast
next
  case (start p e)
  let ?n = "length (po_threads p)"
  have e: "\<not> ex_accepting (po_executor p)" "ex_workers (po_executor p) = []" "ex_tasks (po_executor p) = []"
    "ex_in_flight (po_executor p) = 0"
    "e = (po_executor p)\<lparr> ex_workers := [?n..<?n + ex_worker_count (po_executor p)], ex_accepting := True,
       ex_stop_requested := False \<rparr>"
    using start.hyps by (auto simp: executor_Start_def split: if_splits)
  have owned: "owned p = []"
    using e start.hyps by (simp add: owned_def)
  have "busy_tasks p = []"
    using not_manned_idle [of p] start.prems owned by simp
  then show ?case
    using start.prems start.hyps(1) e owned unfolding counted_def manned_def
    by (auto simp: busy_tasks_def owned_def nth_append)
next
  case (start_failed p threads what x e)
  then have "e = po_executor p \<or> e = (po_executor p)\<lparr> ex_workers := [], ex_accepting := False, ex_stop_requested := False \<rparr>
      \<and> ex_workers (po_executor p) = []"
    by (auto simp: executor_Start_def split: if_splits)
  then show ?case
    using start_failed.prems start_failed.hyps(1) by (auto simp: counted_def manned_def busy_tasks_def owned_def)
next
  case (submit t p e)
  then have t: "ex_accepting (po_executor p)" "\<not> ex_stop_requested (po_executor p)"
    "ex_in_flight (po_executor p) < ex_capacity (po_executor p)"
    "e = (po_executor p)\<lparr> ex_tasks := ex_tasks (po_executor p) @ [t], ex_in_flight := ex_in_flight (po_executor p) + 1 \<rparr>"
    by (auto simp: TrySubmit_def split: if_splits)
  then have "unat (ex_in_flight (po_executor p) + 1) = unat (ex_in_flight (po_executor p)) + 1"
    "ex_in_flight (po_executor p) + 1 \<le> ex_capacity (po_executor p)"
    using below_capacity [of "ex_in_flight (po_executor p)" "ex_capacity (po_executor p)"] by simp_all
  with t submit.prems show ?case
    by (auto simp: counted_def manned_def busy_tasks_def owned_def)
next
  case (refuse t p e)
  then have "e = po_executor p"
    by (auto simp: TrySubmit_def split: if_splits)
  with refuse show ?case by simp
next
  case (stop p)
  then show ?case by (rule request_stop_ok)
next
  case (wait_begin p this_thread threads e)
  then show ?case
    by (auto simp: counted_def manned_def busy_tasks_def owned_def executor_wait_begin_def executor_RequestStop_def
        Let_def split: if_splits)
next
  case (wait_refused this_thread p what e)
  then have "e = executor_RequestStop (po_executor p)"
    by (simp add: executor_wait_begin_def Let_def split: if_splits)
  with request_stop_ok [OF wait_refused.prems] show ?case by simp
next
  case (wait_end p threads)
  then have "owned p = threads"
    by (simp add: manned_def owned_def)
  then have "ex_tasks (po_executor p) = []" "busy_tasks p = []" "\<not> ex_accepting (po_executor p)"
    using not_manned_idle [of p] wait_end by auto
  then show ?case
    using wait_end by (auto simp: counted_def manned_def busy_tasks_def owned_def executor_wait_end_def)
qed

lemma pool_reachable_ok: "pool_reachable p \<Longrightarrow> counted p \<and> manned p"
proof (induction rule: pool_reachable.induct)
  case (init n c e)
  then show ?case
    by (auto simp: new_executor_def new_pool_def counted_def manned_def busy_tasks_def owned_def split: if_splits)
qed (rule pool_step_ok)

section \<open>The bound, the order and the end of a wait\<close>

text \<open>
  C6. At every moment the tasks in flight are the queued and the running ones, never more than the
  capacity. Tasks are begun in the order in which they were accepted, each once; every task begun is
  running or has ended. When the threads a wait joins are gone, every accepted task has ended: the
  clearing of the queue at the end of the wait drops nothing.
\<close>

theorem executor_runs_accepted_tasks:
  assumes "pool_reachable p"
  shows "InFlightCount (po_executor p) = length (ex_tasks (po_executor p)) + length (busy_tasks p)
    \<and> ex_in_flight (po_executor p) \<le> ex_capacity (po_executor p)
    \<and> po_accepted p = po_begun p @ ex_tasks (po_executor p)
    \<and> mset (po_begun p) = mset (po_ended p) + mset (busy_tasks p)
    \<and> (\<forall>threads. po_joining p = Some threads \<and> list_all (\<lambda>i. po_threads p ! i = Gone) threads \<longrightarrow>
         ex_tasks (po_executor p) = [] \<and> mset (po_ended p) = mset (po_accepted p))"
proof -
  have ok: "counted p" "manned p"
    using pool_reachable_ok [OF assms] by auto
  have "ex_tasks (po_executor p) = [] \<and> mset (po_ended p) = mset (po_accepted p)"
    if "po_joining p = Some threads" "list_all (\<lambda>i. po_threads p ! i = Gone) threads" for threads
  proof -
    have "owned p = threads"
      using ok(2) that(1) by (simp add: manned_def owned_def)
    then have "ex_tasks (po_executor p) = []" "busy_tasks p = []"
      using not_manned_idle [OF ok(2)] that(2) by (simp_all add: list_all_iff)
    with ok(1) show ?thesis by (simp add: counted_def)
  qed
  with ok(1) show ?thesis
    unfolding counted_def InFlightCount_def by blast
qed

text \<open>How much the threads still have to do: queued tasks weigh three, running ones two, an idle thread one.\<close>

fun state_effort :: "'a worker_state \<Rightarrow> nat" where
  "state_effort Idle = 1"
| "state_effort (Busy t) = 2"
| "state_effort Gone = 0"

definition effort :: "'a pool \<Rightarrow> nat" where
  "effort p = 3 * length (ex_tasks (po_executor p)) + sum_list (map state_effort (po_threads p))"

lemma state_effort_update:
  "i < length ws \<Longrightarrow> sum_list (map state_effort (ws[i := v])) + state_effort (ws ! i)
     = sum_list (map state_effort ws) + state_effort v"
proof (induction ws arbitrary: i)
  case (Cons w ws)
  then show ?case by (cases i) auto
qed simp

lemma worker_step_effort: "worker_step p q \<Longrightarrow> effort q < effort p"
proof (induction rule: worker_step.induct)
  case (take i p t e)
  then show ?case
    using state_effort_update [of i "po_threads p" "Busy t"]
    by (auto simp: effort_def worker_next_def split: list.splits if_splits)
next
  case (leave i p e)
  then show ?case
    using state_effort_update [of i "po_threads p" Gone] by (auto simp: effort_def)
next
  case (finish i p t)
  then show ?case
    using state_effort_update [of i "po_threads p" Idle] by (auto simp: effort_def worker_done_def)
qed

lemma worker_step_joining: "worker_step p q \<Longrightarrow> po_joining q = po_joining p"
  by (auto elim: worker_step.cases)

lemma joining_progress:
  assumes "pool_reachable p" and "po_joining p = Some threads" and "i \<in> set threads" and "po_threads p ! i \<noteq> Gone"
  shows "\<exists>q. worker_step p q"
proof -
  have m: "manned p"
    using pool_reachable_ok [OF assms(1)] by simp
  then have i: "i < length (po_threads p)" and stop: "ex_stop_requested (po_executor p)"
    using assms(2,3) by (auto simp: manned_def owned_def)
  show ?thesis
  proof (cases "po_threads p ! i")
    case Idle
    then show ?thesis
    proof (cases "ex_tasks (po_executor p)")
      case Nil
      then show ?thesis
        using worker_step.leave [OF i Idle] stop by (auto simp: worker_next_def)
    next
      case (Cons t ts)
      then show ?thesis
        using worker_step.take [OF i Idle] by (fastforce simp: worker_next_def)
    qed
  next
    case (Busy t)
    then show ?thesis using worker_step.finish [OF i] by blast
  qed (use assms(4) in simp)
qed

lemma worker_steps_effort: "(worker_step ^^ n) p q \<Longrightarrow> n + effort q \<le> effort p"
proof (induction n arbitrary: q)
  case (Suc n)
  then obtain r where "(worker_step ^^ n) p r" "worker_step r q" by auto
  with Suc.IH [of r] worker_step_effort [of r q] show ?case by simp
qed auto

lemma wait_can_end:
  assumes "pool_reachable p" and "po_joining p = Some threads"
  shows "\<exists>q. worker_step\<^sup>*\<^sup>* p q \<and> pool_reachable q \<and> po_joining q = Some threads
      \<and> list_all (\<lambda>i. po_threads q ! i = Gone) threads"
  using assms
proof (induction "effort p" arbitrary: p rule: less_induct)
  case less
  show ?case
  proof (cases "list_all (\<lambda>i. po_threads p ! i = Gone) threads")
    case True
    then show ?thesis using less.prems by blast
  next
    case False
    then obtain r where r: "worker_step p r"
      using joining_progress [OF less.prems] by (auto simp: list_all_iff)
    with less.prems have "pool_reachable r" "po_joining r = Some threads"
      using pool_reachable.step pool_step.worker worker_step_joining by metis+
    from less.hyps [OF worker_step_effort [OF r] this] r show ?thesis
      by (meson converse_rtranclp_into_rtranclp)
  qed
qed

text \<open>
  A wait ends. Whatever state the pool is in when the wait begins to join, the threads can take
  at most \<open>effort p\<close> more steps; as long as one of them is not gone some thread can take a step; and
  when none can, the wait is over with every accepted task ended. Each task is assumed to return.
\<close>

theorem executor_wait_ends:
  assumes "pool_reachable p" and "po_joining p = Some threads"
  shows "((worker_step ^^ n) p q \<longrightarrow> n \<le> effort p)
    \<and> (\<exists>q. worker_step\<^sup>*\<^sup>* p q \<and> list_all (\<lambda>i. po_threads q ! i = Gone) threads
        \<and> mset (po_ended q) = mset (po_accepted q) \<and> ex_tasks (po_executor q) = [])"
proof -
  obtain q where q: "worker_step\<^sup>*\<^sup>* p q" "pool_reachable q" "po_joining q = Some threads"
    "list_all (\<lambda>i. po_threads q ! i = Gone) threads"
    using wait_can_end [OF assms] by blast
  have ok: "counted q" "manned q"
    using pool_reachable_ok [OF q(2)] by auto
  have "owned q = threads"
    using ok(2) q(3) by (simp add: manned_def owned_def)
  then have "ex_tasks (po_executor q) = []" "busy_tasks q = []"
    using not_manned_idle [OF ok(2)] q(4) by (simp_all add: list_all_iff)
  with ok(1) q(1,4) worker_steps_effort [of n p] show ?thesis
    unfolding counted_def by fastforce
qed

text \<open>
  A second \<open>Wait\<close> while the first is joining takes over no threads and finishes at once: it clears the
  count under a running task, whose end then wraps it around, and takes back the stop request, so
  that the thread the first wait joins goes back to waiting for tasks. \<open>HttpServer\<close> keeps a flag that
  lets one wait run at a time.
\<close>

lemma second_wait_wraps:
  assumes "ex_tasks e = []" and "0 < length (ex_workers e)" and "this_thread \<notin> set (ex_workers e)"
  shows "\<exists>e1 e2. executor_wait_begin this_thread e = (Inr (ex_workers e), e1)
    \<and> executor_wait_begin this_thread e1 = (Inr [], e2)
    \<and> InFlightCount (worker_done (executor_wait_end e2)) = 2 ^ 64 - 1
    \<and> fst (worker_next (worker_done (executor_wait_end e2))) = WaitAgain"
  using assms
  by (simp add: executor_wait_begin_def executor_RequestStop_def Let_def executor_wait_end_def worker_done_def
      InFlightCount_def worker_next_def unsigned_minus_1_eq_mask mask_eq_exp_minus_1)

section \<open>Witnesses\<close>

definition demo_executor :: "nat executor" where
  "demo_executor = \<lparr> ex_worker_count = 1, ex_capacity = 1, ex_tasks = [], ex_workers = [], ex_in_flight = 0,
     ex_accepting = False, ex_stop_requested = False \<rparr>"

text \<open>One thread running the only task the capacity allows, and a wait joining it.\<close>

definition demo_pool :: "nat pool" where
  "demo_pool = \<lparr> po_executor = demo_executor\<lparr> ex_in_flight := 1, ex_stop_requested := True \<rparr>,
     po_threads = [Busy 7], po_joining = Some [0], po_accepted = [7], po_begun = [7], po_ended = [] \<rparr>"

lemma demo_pool_reachable: "pool_reachable demo_pool"
proof -
  let ?e = demo_executor
  let ?e1 = "?e\<lparr> ex_workers := [0], ex_accepting := True \<rparr>"
  let ?e2 = "?e1\<lparr> ex_tasks := [7], ex_in_flight := 1 \<rparr>"
  have "pool_reachable (new_pool ?e)"
    by (rule pool_reachable.init [of 1 1]) (simp add: new_executor_def demo_executor_def)
  from pool_reachable.step [OF this pool_step.start, of ?e1]
  have "pool_reachable ((new_pool ?e)\<lparr> po_executor := ?e1, po_threads := [Idle] \<rparr>)"
    by (simp add: new_pool_def demo_executor_def executor_Start_def)
  from pool_reachable.step [OF this pool_step.submit, of 7 ?e2]
  have "pool_reachable ((new_pool ?e)\<lparr> po_executor := ?e2, po_threads := [Idle], po_accepted := [7] \<rparr>)"
    by (simp add: new_pool_def demo_executor_def TrySubmit_def)
  from pool_reachable.step [OF this pool_step.worker [OF worker_step.take], of 0 7 "?e2\<lparr> ex_tasks := [] \<rparr>"]
  have "pool_reachable ((new_pool ?e)\<lparr> po_executor := ?e2\<lparr> ex_tasks := [] \<rparr>, po_threads := [Busy 7], po_accepted := [7],
      po_begun := [7] \<rparr>)"
    by (simp add: new_pool_def demo_executor_def worker_next_def)
  from pool_reachable.step [OF this pool_step.wait_begin, of 9 "[0]" "?e\<lparr> ex_in_flight := 1, ex_stop_requested := True \<rparr>"]
  show ?thesis
    by (simp add: new_pool_def demo_executor_def demo_pool_def executor_wait_begin_def executor_RequestStop_def Let_def)
qed

theorem executor_runs_accepted_tasks_witness:
  "InFlightCount (po_executor demo_pool) = length (busy_tasks demo_pool) \<and> InFlightCount (po_executor demo_pool) = 1"
  using executor_runs_accepted_tasks [OF demo_pool_reachable]
  by (simp add: demo_pool_def demo_executor_def busy_tasks_def)

theorem executor_wait_ends_witness:
  "\<exists>q. worker_step\<^sup>*\<^sup>* demo_pool q \<and> mset (po_ended q) = mset (po_accepted q)"
  using executor_wait_ends [OF demo_pool_reachable, of "[0]" 0 demo_pool] by (auto simp: demo_pool_def)

end
