(* ===== verification/Session.thy ===== *)
theory Session
  imports Api
begin

text \<open>
  \<open>HttpSession\<close> (\<open>src/apps/agent/src/api/http_session.cpp\<close>) and the options of the server: one
  connection as a state machine of handlers, run one at a time on the connection's strand. Boost's
  reads and writes are the completions they deliver, the request executor what it answers to a
  submission. The theorem is the protocol a client sees: at most one response per request, in order,
  no more requests than the options allow, and what may still happen after the connection was
  announced closed.
\<close>

section \<open>Options\<close>

record HttpServerOptions =
  op_bind_address :: string
  op_port :: u16
  op_io_thread_count :: nat
  op_handler_thread_count :: nat
  op_max_connections :: nat
  op_max_in_flight_requests :: nat
  op_max_header_bytes :: nat
  op_max_body_bytes :: nat
  op_max_requests_per_connection :: nat
  op_read_timeout :: int
  op_write_timeout :: int
  op_idle_timeout :: int
  op_shutdown_grace_period :: int

text \<open>Timeouts are in seconds, the grace period in milliseconds.\<close>

definition default_server_options :: HttpServerOptions where
  "default_server_options = \<lparr> op_bind_address = ''127.0.0.1'', op_port = 18081, op_io_thread_count = 1,
     op_handler_thread_count = 4, op_max_connections = 128, op_max_in_flight_requests = 64,
     op_max_header_bytes = 16 * 1024, op_max_body_bytes = 1024 * 1024, op_max_requests_per_connection = 100,
     op_read_timeout = 5, op_write_timeout = 15, op_idle_timeout = 30, op_shutdown_grace_period = 5000 \<rparr>"

section \<open>Errors of a read or a write\<close>

text \<open>The error codes the code distinguishes; \<open>message\<close> in the handlers is their text.\<close>

datatype net_error =
    operation_aborted | eof | end_of_stream | timed_out | header_limit | body_limit
  | unexpected_body | bad_line_ending | bad_method | bad_target | bad_version | bad_field | bad_value
  | bad_content_length | bad_transfer_encoding | bad_chunk | bad_chunk_extension | bad_obs_fold
  | multiple_content_length | other_error int

definition IsExpectedSessionClose :: "net_error \<Rightarrow> bool" where
  "IsExpectedSessionClose e \<longleftrightarrow> e \<in> {operation_aborted, eof, end_of_stream, timed_out}"

definition IsMalformedRequest :: "net_error \<Rightarrow> bool" where
  "IsMalformedRequest e \<longleftrightarrow>
     e \<in> {unexpected_body, bad_line_ending, bad_method, bad_target, bad_version, bad_field, bad_value,
          bad_content_length, bad_transfer_encoding, bad_chunk, bad_chunk_extension, bad_obs_fold,
          multiple_content_length}"

section \<open>The session\<close>

datatype session_state = SReading | SHandling | SWriting | SClosed

text \<open>
  What a session does to the outside, kept in order for stating properties, and what it is waiting
  for: the completion of an asynchronous operation, or a function handed to the strand. A write
  carries whether the socket was open when it was started.
\<close>

datatype session_effect =
    ReadStarted int nat nat
  | Received HttpRequest
  | WriteStarted HttpResponse int
  | SocketClosed
  | SessionClosed
  | ErrorLogged string

datatype pending =
    PendingStart | PendingRead | PendingTask HttpRequest | PendingPost HttpResponse | PendingWrite bool
  | PendingClose | PendingDrain

record session =
  se_options :: HttpServerOptions
  se_state :: session_state
  se_request_count :: nat
  se_request_version :: nat
  se_request_keep_alive :: bool
  se_close_after_response :: bool
  se_drain_requested :: bool
  se_close_handler :: bool
  se_effects :: "session_effect list"
  se_pending :: "pending list"

definition new_session :: "HttpServerOptions \<Rightarrow> session" where
  "new_session options = \<lparr> se_options = options, se_state = SReading, se_request_count = 0,
     se_request_version = 11, se_request_keep_alive = False, se_close_after_response = True,
     se_drain_requested = False, se_close_handler = True, se_effects = [], se_pending = [] \<rparr>"

definition emits :: "session_effect \<Rightarrow> session \<Rightarrow> session" where
  "emits x s = s\<lparr> se_effects := se_effects s @ [x] \<rparr>"

definition awaits :: "pending \<Rightarrow> session \<Rightarrow> session" where
  "awaits x s = s\<lparr> se_pending := se_pending s @ [x] \<rparr>"

definition CloseWithoutCallback :: "session \<Rightarrow> session" where
  "CloseWithoutCallback s = emits SocketClosed s"

text \<open>The close handler is moved out before it is called, so it runs once.\<close>

definition Close :: "session \<Rightarrow> session" where
  "Close s =
     (if se_state s = SClosed then s
      else
        let s = CloseWithoutCallback (s\<lparr> se_state := SClosed \<rparr>)
        in if se_close_handler s then emits SessionClosed (s\<lparr> se_close_handler := False \<rparr>) else s)"

definition ReadRequest :: "session \<Rightarrow> session" where
  "ReadRequest s =
     (if se_state s = SClosed \<or> se_drain_requested s then Close s
      else
        let options = se_options s;
            timeout = (if se_request_count s = 0 then op_read_timeout options else op_idle_timeout options)
        in awaits PendingRead
             (emits (ReadStarted timeout (op_max_header_bytes options) (op_max_body_bytes options))
                (s\<lparr> se_state := SReading \<rparr>)))"

definition WriteResponse :: "HttpResponse \<Rightarrow> bool \<Rightarrow> session \<Rightarrow> session" where
  "WriteResponse response force_close s =
     (if se_state s = SClosed then s
      else
        let keep_alive = (\<not> force_close \<and> \<not> se_drain_requested s \<and> se_request_keep_alive s
              \<and> se_request_count s < op_max_requests_per_connection (se_options s));
            response = response\<lparr> rs_version := se_request_version s, rs_keep_alive := keep_alive \<rparr>
        in awaits (PendingWrite (SocketClosed \<notin> set (se_effects s)))
             (emits (WriteStarted response (op_write_timeout (se_options s)))
                (s\<lparr> se_close_after_response := \<not> keep_alive, se_state := SWriting \<rparr>)))"

text \<open>What \<open>TrySubmit\<close> does, or what throws while the task is handed over.\<close>

datatype submission = Submitted | NotSubmitted | SubmissionThrows string | SubmissionThrowsUnknown

definition refuse_read :: "http_status \<Rightarrow> string \<Rightarrow> string \<Rightarrow> session \<Rightarrow> session" where
  "refuse_read status code message s =
     WriteResponse (MakeErrorResponse status code message) True
       (s\<lparr> se_request_version := 11, se_request_keep_alive := False \<rparr>)"

definition HandleRead ::
  "(net_error \<Rightarrow> string) \<Rightarrow> net_error + HttpRequest \<Rightarrow> submission \<Rightarrow> session \<Rightarrow> session" where
  "HandleRead message result submission s =
     (case result of
        Inl e \<Rightarrow>
          if e = header_limit then
            refuse_read status_request_header_fields_too_large ''header_too_large''
              ''request headers exceed the configured limit'' s
          else if e = body_limit then
            refuse_read status_payload_too_large ''body_too_large''
              ''request body exceeds the configured limit'' s
          else if IsMalformedRequest e then
            refuse_read status_bad_request ''malformed_request'' (message e) s
          else
            Close (if \<not> IsExpectedSessionClose e
                   then emits (ErrorLogged (''[agent] http read failed: '' @ message e)) s else s)
      | Inr request \<Rightarrow>
          let s = emits (Received request)
                (s\<lparr> se_request_count := se_request_count s + 1, se_request_version := rq_version request,
                   se_request_keep_alive := rq_keep_alive request, se_state := SHandling \<rparr>)
          in case submission of
               Submitted \<Rightarrow> awaits (PendingTask request) s
             | SubmissionThrows what \<Rightarrow>
                 WriteResponse (MakeErrorResponse status_internal_server_error ''dispatch_failed'' what) False s
             | SubmissionThrowsUnknown \<Rightarrow>
                 WriteResponse (MakeErrorResponse status_internal_server_error ''dispatch_failed''
                   ''unknown request dispatch error'') False s
             | NotSubmitted \<Rightarrow>
                 WriteResponse (set_field ''Retry-After'' ''1''
                   (MakeErrorResponse status_service_unavailable ''server_overloaded''
                      ''too many requests are already in flight'')) False s)"

text \<open>The handler's answer, or the exception it ended with; \<open>posted\<close> is whether \<open>asio::post\<close> succeeded.\<close>

datatype handler_result = HandlerReturns HttpResponse | HandlerThrows string | HandlerThrowsUnknown

fun handler_response :: "handler_result \<Rightarrow> HttpResponse" where
  "handler_response (HandlerReturns response) = response"
| "handler_response (HandlerThrows what) = MakeErrorResponse status_internal_server_error ''internal_error'' what"
| "handler_response HandlerThrowsUnknown =
     MakeErrorResponse status_internal_server_error ''internal_error'' ''unknown server error''"

definition ExecuteRequest :: "handler_result \<Rightarrow> bool \<Rightarrow> session \<Rightarrow> session" where
  "ExecuteRequest result posted s =
     (if posted then awaits (PendingPost (handler_response result)) s else s)"

definition HandleWrite :: "(net_error \<Rightarrow> string) \<Rightarrow> net_error option \<Rightarrow> session \<Rightarrow> session" where
  "HandleWrite message err s =
     (case err of
        Some e \<Rightarrow>
          Close (if \<not> IsExpectedSessionClose e
                 then emits (ErrorLogged (''[agent] http write failed: '' @ message e)) s else s)
      | None \<Rightarrow> if se_close_after_response s \<or> se_drain_requested s then Close s else ReadRequest s)"

text \<open>
  The calls from other threads; \<open>dispatched\<close> is whether \<open>asio::dispatch\<close> succeeded.
\<close>

definition session_Start :: "session \<Rightarrow> session" where
  "session_Start s = awaits PendingStart s"

definition session_RequestStop :: "bool \<Rightarrow> session \<Rightarrow> session" where
  "session_RequestStop dispatched s = (if dispatched then awaits PendingClose s else CloseWithoutCallback s)"

definition BeginDrain :: "bool \<Rightarrow> session \<Rightarrow> session" where
  "BeginDrain dispatched s =
     (let s = s\<lparr> se_drain_requested := True \<rparr>
      in if dispatched then awaits PendingDrain s else CloseWithoutCallback s)"

definition drain_section :: "session \<Rightarrow> session" where
  "drain_section s =
     (if se_state s = SClosed then s
      else
        let s = s\<lparr> se_close_after_response := True \<rparr>
        in if se_state s = SReading then Close s else s)"

section \<open>Runs of a session\<close>

text \<open>
  Any completion that is due may run next. A write on a socket that was closed before it started
  ends with an error; one that had finished when the socket was closed may still report success. A
  session is started, or, where the server has no room for it, only asked to stop.
\<close>

definition taking :: "pending \<Rightarrow> session \<Rightarrow> session" where
  "taking x s = s\<lparr> se_pending := remove1 x (se_pending s) \<rparr>"

inductive session_step :: "(net_error \<Rightarrow> string) \<Rightarrow> session \<Rightarrow> session \<Rightarrow> bool"
  for message :: "net_error \<Rightarrow> string" where
  start: "session_step message s (ReadRequest (taking PendingStart s))"
    if "PendingStart \<in> set (se_pending s)"
| read: "session_step message s (HandleRead message result submission (taking PendingRead s))"
    if "PendingRead \<in> set (se_pending s)"
| task: "session_step message s (ExecuteRequest result posted (taking (PendingTask request) s))"
    if "PendingTask request \<in> set (se_pending s)"
| post: "session_step message s (WriteResponse response False (taking (PendingPost response) s))"
    if "PendingPost response \<in> set (se_pending s)"
| wrote: "session_step message s (HandleWrite message err (taking (PendingWrite opened) s))"
    if "PendingWrite opened \<in> set (se_pending s)" and "opened \<or> err \<noteq> None"
| close: "session_step message s (Close (taking PendingClose s))"
    if "PendingClose \<in> set (se_pending s)"
| drain: "session_step message s (drain_section (taking PendingDrain s))"
    if "PendingDrain \<in> set (se_pending s)"
| request_stop: "session_step message s (session_RequestStop dispatched s)"
| begin_drain: "session_step message s (BeginDrain dispatched s)"

inductive session_reachable :: "HttpServerOptions \<Rightarrow> (net_error \<Rightarrow> string) \<Rightarrow> session \<Rightarrow> bool"
  for options :: HttpServerOptions and message :: "net_error \<Rightarrow> string" where
  init: "session_reachable options message (session_Start (new_session options))"
| refused: "session_reachable options message (session_RequestStop dispatched (new_session options))"
| step: "session_reachable options message t"
    if "session_reachable options message s" and "session_step message s t"

section \<open>The protocol of a connection\<close>

text \<open>
  Reads, requests and responses alternate: a read ends with a request, or is refused with a response
  that closes; a request is followed by its response, in its version, which stays open only when the
  request asked for it; another read follows only a response that stays open.
\<close>

fun is_io :: "session_effect \<Rightarrow> bool" where
  "is_io (ReadStarted _ _ _) = True"
| "is_io (Received _) = True"
| "is_io (WriteStarted _ _) = True"
| "is_io _ = False"

fun is_read :: "session_effect \<Rightarrow> bool" where
  "is_read (ReadStarted _ _ _) = True"
| "is_read _ = False"

fun is_request :: "session_effect \<Rightarrow> bool" where
  "is_request (Received _) = True"
| "is_request _ = False"

fun follows :: "session_effect \<Rightarrow> session_effect \<Rightarrow> bool" where
  "follows (ReadStarted _ _ _) (Received _) = True"
| "follows (ReadStarted _ _ _) (WriteStarted r _) = (\<not> rs_keep_alive r)"
| "follows (Received q) (WriteStarted r _) = (rs_version r = rq_version q \<and> (rs_keep_alive r \<longrightarrow> rq_keep_alive q))"
| "follows (WriteStarted r _) (ReadStarted _ _ _) = rs_keep_alive r"
| "follows _ _ = False"

definition io_log :: "session \<Rightarrow> session_effect list" where
  "io_log s = filter is_io (se_effects s)"

definition after_closed :: "session_effect list \<Rightarrow> session_effect list" where
  "after_closed xs = tl (dropWhile (\<lambda>x. x \<noteq> SessionClosed) xs)"

lemma after_closed_snoc:
  "after_closed (xs @ [x]) = (if SessionClosed \<in> set xs then after_closed xs @ [x] else [])"
proof (cases "SessionClosed \<in> set xs")
  case True
  then have "dropWhile (\<lambda>x. x \<noteq> SessionClosed) xs \<noteq> []"
    by (auto simp: dropWhile_eq_Nil_conv)
  with True show ?thesis
    by (simp add: after_closed_def dropWhile_append1)
next
  case False
  then have "dropWhile (\<lambda>x. x \<noteq> SessionClosed) (xs @ [x]) = dropWhile (\<lambda>x. x \<noteq> SessionClosed) [x]"
    by (intro dropWhile_append2) auto
  with False show ?thesis
    by (simp add: after_closed_def)
qed

fun is_token :: "pending \<Rightarrow> bool" where
  "is_token PendingClose = False"
| "is_token PendingDrain = False"
| "is_token _ = True"

definition tokens :: "session \<Rightarrow> pending list" where
  "tokens s = filter is_token (se_pending s)"

definition may_continue :: "session \<Rightarrow> bool" where
  "may_continue s \<longleftrightarrow> se_request_count s < op_max_requests_per_connection (se_options s)"

text \<open>What is known while a completion is due.\<close>

fun turn_ok :: "pending \<Rightarrow> session \<Rightarrow> bool" where
  "turn_ok PendingStart s \<longleftrightarrow> se_state s \<in> {SReading, SClosed} \<and> io_log s = [] \<and> may_continue s"
| "turn_ok PendingRead s \<longleftrightarrow> se_state s \<in> {SReading, SClosed} \<and> io_log s \<noteq> [] \<and> is_read (last (io_log s)) \<and> may_continue s"
| "turn_ok (PendingTask _) s \<longleftrightarrow> se_state s \<in> {SHandling, SClosed} \<and> io_log s \<noteq> []
     \<and> (\<exists>q. last (io_log s) = Received q \<and> se_request_version s = rq_version q \<and> se_request_keep_alive s = rq_keep_alive q)"
| "turn_ok (PendingPost _) s \<longleftrightarrow> se_state s \<in> {SHandling, SClosed} \<and> io_log s \<noteq> []
     \<and> (\<exists>q. last (io_log s) = Received q \<and> se_request_version s = rq_version q \<and> se_request_keep_alive s = rq_keep_alive q)"
| "turn_ok (PendingWrite opened) s \<longleftrightarrow> se_state s \<in> {SWriting, SClosed} \<and> io_log s \<noteq> []
     \<and> (\<exists>r t. last (io_log s) = WriteStarted r t \<and> (\<not> se_close_after_response s \<longrightarrow> rs_keep_alive r)
          \<and> (rs_keep_alive r \<longrightarrow> may_continue s))
     \<and> (opened \<and> SessionClosed \<in> set (se_effects s) \<longrightarrow> se_state s = SClosed)"
| "turn_ok _ s \<longleftrightarrow> False"

definition log_ok :: "session \<Rightarrow> bool" where
  "log_ok s \<longleftrightarrow> successively follows (io_log s) \<and> (io_log s \<noteq> [] \<longrightarrow> is_read (hd (io_log s)))
     \<and> length (filter is_request (io_log s)) = se_request_count s
     \<and> se_request_count s \<le> op_max_requests_per_connection (se_options s)
     \<and> list_all (\<lambda>x. \<not> is_read x) (after_closed (se_effects s))
     \<and> count_list (se_effects s) SessionClosed = (if se_close_handler s then 0 else 1)
     \<and> (\<not> se_close_handler s \<longrightarrow> SocketClosed \<in> set (se_effects s))
     \<and> (se_state s = SClosed \<longrightarrow> \<not> se_close_handler s)
     \<and> (\<not> se_close_handler s \<longrightarrow> se_state s \<noteq> SReading)"

definition session_ok :: "session \<Rightarrow> bool" where
  "session_ok s \<longleftrightarrow> log_ok s
     \<and> (tokens s = [] \<or> (\<exists>t. tokens s = [t] \<and> turn_ok t s))"

lemma io_log_emits [simp]: "io_log (emits x s) = io_log s @ (if is_io x then [x] else [])"
  by (simp add: io_log_def emits_def)

lemma io_log_update [simp]:
  "io_log (s\<lparr> se_state := a \<rparr>) = io_log s" "io_log (s\<lparr> se_request_count := n \<rparr>) = io_log s"
  "io_log (s\<lparr> se_request_version := n \<rparr>) = io_log s" "io_log (s\<lparr> se_request_keep_alive := b \<rparr>) = io_log s"
  "io_log (s\<lparr> se_close_after_response := b \<rparr>) = io_log s" "io_log (s\<lparr> se_drain_requested := b \<rparr>) = io_log s"
  "io_log (s\<lparr> se_close_handler := b \<rparr>) = io_log s" "io_log (s\<lparr> se_pending := ps \<rparr>) = io_log s"
  by (simp_all add: io_log_def)

lemma io_log_awaits [simp]: "io_log (awaits x s) = io_log s" "io_log (taking x s) = io_log s"
  by (simp_all add: awaits_def taking_def)

lemma tokens_simps [simp]:
  "tokens (awaits x s) = tokens s @ (if is_token x then [x] else [])" "tokens (emits y s) = tokens s"
  "tokens (s\<lparr> se_state := a \<rparr>) = tokens s" "tokens (s\<lparr> se_request_count := n \<rparr>) = tokens s"
  "tokens (s\<lparr> se_request_version := n \<rparr>) = tokens s" "tokens (s\<lparr> se_request_keep_alive := b \<rparr>) = tokens s"
  "tokens (s\<lparr> se_close_after_response := b \<rparr>) = tokens s" "tokens (s\<lparr> se_drain_requested := b \<rparr>) = tokens s"
  "tokens (s\<lparr> se_close_handler := b \<rparr>) = tokens s"
  by (simp_all add: tokens_def awaits_def emits_def)

lemma tokens_taking: "tokens (taking x s) = remove1 x (tokens s)"
proof -
  have "filter is_token (remove1 x ps) = remove1 x (filter is_token ps)" for ps
    by (induction ps) (auto simp: remove1_idem)
  then show ?thesis by (simp add: tokens_def taking_def)
qed

lemma log_ok_frame [simp]:
  "log_ok (s\<lparr> se_pending := ps \<rparr>) = log_ok s" "log_ok (awaits x s) = log_ok s" "log_ok (taking x s) = log_ok s"
  "log_ok (s\<lparr> se_request_version := n \<rparr>) = log_ok s" "log_ok (s\<lparr> se_request_keep_alive := b \<rparr>) = log_ok s"
  "log_ok (s\<lparr> se_close_after_response := b \<rparr>) = log_ok s" "log_ok (s\<lparr> se_drain_requested := b \<rparr>) = log_ok s"
  by (simp_all add: log_ok_def awaits_def taking_def)

lemma emits_simps [simp]:
  "se_state (emits x s) = se_state s" "se_request_count (emits x s) = se_request_count s"
  "se_options (emits x s) = se_options s" "se_close_handler (emits x s) = se_close_handler s"
  "se_effects (emits x s) = se_effects s @ [x]" "se_pending (emits x s) = se_pending s"
  "se_request_version (emits x s) = se_request_version s" "se_request_keep_alive (emits x s) = se_request_keep_alive s"
  "se_close_after_response (emits x s) = se_close_after_response s" "se_drain_requested (emits x s) = se_drain_requested s"
  by (simp_all add: emits_def)

lemma awaits_simps [simp]:
  "se_state (awaits x s) = se_state s" "se_request_count (awaits x s) = se_request_count s"
  "se_options (awaits x s) = se_options s" "se_close_handler (awaits x s) = se_close_handler s"
  "se_effects (awaits x s) = se_effects s" "se_request_version (awaits x s) = se_request_version s"
  "se_request_keep_alive (awaits x s) = se_request_keep_alive s"
  "se_close_after_response (awaits x s) = se_close_after_response s" "se_drain_requested (awaits x s) = se_drain_requested s"
  by (simp_all add: awaits_def)

lemma taking_simps [simp]:
  "se_state (taking x s) = se_state s" "se_request_count (taking x s) = se_request_count s"
  "se_options (taking x s) = se_options s" "se_close_handler (taking x s) = se_close_handler s"
  "se_effects (taking x s) = se_effects s" "se_request_version (taking x s) = se_request_version s"
  "se_request_keep_alive (taking x s) = se_request_keep_alive s"
  "se_close_after_response (taking x s) = se_close_after_response s" "se_drain_requested (taking x s) = se_drain_requested s"
  by (simp_all add: taking_def)

lemma may_continue_simps [simp]:
  "may_continue (emits x s) = may_continue s" "may_continue (awaits y s) = may_continue s"
  "may_continue (taking y s) = may_continue s" "may_continue (s\<lparr> se_state := a \<rparr>) = may_continue s"
  "may_continue (s\<lparr> se_close_after_response := b \<rparr>) = may_continue s" "may_continue (s\<lparr> se_drain_requested := b \<rparr>) = may_continue s"
  "may_continue (s\<lparr> se_close_handler := b \<rparr>) = may_continue s"
  by (simp_all add: may_continue_def)

text \<open>Effects that are no reads, requests or responses, and not the announcement of the close.\<close>

lemma log_ok_emits:
  "log_ok s \<Longrightarrow> x = SocketClosed \<or> x = ErrorLogged e \<Longrightarrow> log_ok (emits x s)"
  unfolding log_ok_def by (elim disjE) (simp_all add: after_closed_snoc)

lemma closed_announced: "log_ok s \<Longrightarrow> SessionClosed \<in> set (se_effects s) \<longleftrightarrow> \<not> se_close_handler s"
proof -
  assume "log_ok s"
  then have "count_list (se_effects s) SessionClosed = (if se_close_handler s then 0 else 1)"
    by (simp add: log_ok_def)
  then show ?thesis
    using count_list_0_iff [of "se_effects s" SessionClosed] by (auto split: if_splits)
qed

lemma Close_simps [simp]:
  "se_state (Close s) = SClosed" "io_log (Close s) = io_log s" "tokens (Close s) = tokens s"
  "se_request_version (Close s) = se_request_version s" "se_request_keep_alive (Close s) = se_request_keep_alive s"
  "se_close_after_response (Close s) = se_close_after_response s" "may_continue (Close s) = may_continue s"
  by (auto simp: Close_def CloseWithoutCallback_def Let_def emits_def io_log_def tokens_def may_continue_def)

lemma Close_log: "log_ok s \<Longrightarrow> log_ok (Close s)"
proof (cases "se_state s = SClosed")
  case False
  assume ok: "log_ok s"
  show ?thesis
  proof (cases "se_close_handler s")
    case True
    then have "SessionClosed \<notin> set (se_effects s)"
      using closed_announced [OF ok] by simp
    then show ?thesis
      using ok False True unfolding log_ok_def Close_def CloseWithoutCallback_def Let_def
      by (simp add: emits_def io_log_def after_closed_snoc after_closed_def dropWhile_append)
  next
    case handler: False
    then show ?thesis
      using ok False closed_announced [OF ok] unfolding log_ok_def Close_def CloseWithoutCallback_def Let_def
      by (simp add: emits_def io_log_def after_closed_snoc)
  qed
qed (simp add: Close_def)

lemma Close_turn: "turn_ok t s \<Longrightarrow> turn_ok t (Close s)"
  by (cases t) auto

lemma session_ok_Close: "log_ok s \<Longrightarrow> tokens s = [] \<or> (\<exists>t. tokens s = [t] \<and> turn_ok t s) \<Longrightarrow> session_ok (Close s)"
  using Close_log [of s] Close_turn unfolding session_ok_def by auto

lemma ReadRequest_ok:
  assumes ok: "log_ok s" and none: "tokens s = []" and go: "may_continue s"
    and last: "io_log s = [] \<or> (\<exists>r t. last (io_log s) = WriteStarted r t \<and> rs_keep_alive r)"
    and announced: "SessionClosed \<in> set (se_effects s) \<Longrightarrow> se_state s = SClosed"
  shows "session_ok (ReadRequest s)"
proof (cases "se_state s = SClosed \<or> se_drain_requested s")
  case True
  then show ?thesis
    using session_ok_Close [OF ok] none by (simp add: ReadRequest_def)
next
  case False
  have handler: "se_close_handler s" and after: "SessionClosed \<notin> set (se_effects s)"
    using closed_announced [OF ok] announced False by auto
  let ?x = "ReadStarted (if se_request_count s = 0 then op_read_timeout (se_options s) else op_idle_timeout (se_options s))
      (op_max_header_bytes (se_options s)) (op_max_body_bytes (se_options s))"
  have next_read: "ReadRequest s = awaits PendingRead (emits ?x (s\<lparr> se_state := SReading \<rparr>))"
    using False by (simp add: ReadRequest_def Let_def)
  have "successively follows (io_log s @ [?x])"
    using ok last by (auto simp: log_ok_def successively_append_iff)
  then have "log_ok (ReadRequest s)"
    using ok handler after unfolding next_read log_ok_def
    by (cases "io_log s") (auto simp: after_closed_snoc)
  then show ?thesis
    using none go unfolding session_ok_def by (simp add: next_read)
qed

lemma WriteResponse_ok:
  assumes ok: "log_ok s" and none: "tokens s = []" and state: "se_state s \<noteq> SReading \<or> se_close_handler s"
    and io: "io_log s \<noteq> []"
    and last: "is_read (last (io_log s)) \<and> force
      \<or> (\<exists>q. last (io_log s) = Received q \<and> se_request_version s = rq_version q \<and> se_request_keep_alive s = rq_keep_alive q)"
  shows "session_ok (WriteResponse r force s)"
proof (cases "se_state s = SClosed")
  case True
  then show ?thesis
    using ok none by (simp add: WriteResponse_def session_ok_def)
next
  case False
  let ?keep = "\<not> force \<and> \<not> se_drain_requested s \<and> se_request_keep_alive s \<and> may_continue s"
  let ?r = "r\<lparr> rs_version := se_request_version s, rs_keep_alive := ?keep \<rparr>"
  let ?x = "WriteStarted ?r (op_write_timeout (se_options s))"
  have written: "WriteResponse r force s = awaits (PendingWrite (SocketClosed \<notin> set (se_effects s)))
      (emits ?x (s\<lparr> se_close_after_response := \<not> ?keep, se_state := SWriting \<rparr>))"
    using False by (simp add: WriteResponse_def Let_def may_continue_def)
  have "follows (last (io_log s)) ?x"
    using last by (cases "last (io_log s)") auto
  then have "successively follows (io_log s @ [?x])"
    using ok by (simp add: log_ok_def successively_append_iff)
  then have "log_ok (WriteResponse r force s)"
    using ok io closed_announced [OF ok] unfolding written log_ok_def
    by (simp add: after_closed_snoc hd_append)
  moreover have "SocketClosed \<in> set (se_effects s)" if "SessionClosed \<in> set (se_effects s)"
    using ok closed_announced [OF ok] that by (simp add: log_ok_def)
  ultimately show ?thesis
    using none unfolding session_ok_def by (auto simp: written)
qed

lemma last_request_not_read: "last (io_log s) = Received q \<Longrightarrow> \<not> is_read (last (io_log s))"
  by simp

lemma HandleRead_ok:
  assumes ok: "log_ok s" and none: "tokens s = []" and turn: "turn_ok PendingRead s"
  shows "session_ok (HandleRead message result submission s)"
proof (cases result)
  case (Inl e)
  have state: "se_state s \<noteq> SReading \<or> se_close_handler s"
    using ok by (auto simp: log_ok_def)
  have refuse: "session_ok (refuse_read status code msg s)" for status code msg
    unfolding refuse_read_def using ok none turn state
    by (intro WriteResponse_ok) auto
  have "session_ok (Close (if b then emits (ErrorLogged msg) s else s))" for b msg
    using ok none by (intro session_ok_Close) (auto intro: log_ok_emits)
  with refuse show ?thesis
    by (simp add: HandleRead_def Inl)
next
  case (Inr request)
  define t where "t = emits (Received request)
      (s\<lparr> se_request_count := se_request_count s + 1, se_request_version := rq_version request,
         se_request_keep_alive := rq_keep_alive request, se_state := SHandling \<rparr>)"
  have "follows (last (io_log s)) (Received request)"
    using turn by (cases "last (io_log s)") auto
  then have "successively follows (io_log s @ [Received request])"
    using ok by (simp add: log_ok_def successively_append_iff)
  then have t: "log_ok t"
    using ok turn unfolding t_def log_ok_def
    by (auto simp: after_closed_snoc may_continue_def hd_append)
  have fields: "tokens t = []" "se_state t = SHandling" "io_log t \<noteq> []" "last (io_log t) = Received request"
    "se_request_version t = rq_version request" "se_request_keep_alive t = rq_keep_alive request"
    using none by (simp_all add: t_def)
  have "session_ok (WriteResponse r False t)" for r
    using fields by (intro WriteResponse_ok [OF t]) auto
  moreover have "session_ok (awaits (PendingTask request) t)"
    using fields t by (simp add: session_ok_def)
  moreover have "HandleRead message result submission s = (case submission of
        Submitted \<Rightarrow> awaits (PendingTask request) t
      | SubmissionThrows what \<Rightarrow>
          WriteResponse (MakeErrorResponse status_internal_server_error ''dispatch_failed'' what) False t
      | SubmissionThrowsUnknown \<Rightarrow>
          WriteResponse (MakeErrorResponse status_internal_server_error ''dispatch_failed''
            ''unknown request dispatch error'') False t
      | NotSubmitted \<Rightarrow>
          WriteResponse (set_field ''Retry-After'' ''1''
            (MakeErrorResponse status_service_unavailable ''server_overloaded''
               ''too many requests are already in flight'')) False t)"
    by (cases submission) (simp_all add: HandleRead_def Inr Let_def t_def)
  ultimately show ?thesis
    by (cases submission) simp_all
qed

lemma token_turn:
  assumes "session_ok s" and "x \<in> set (se_pending s)" and "is_token x"
  shows "tokens s = [x]" "turn_ok x s" "log_ok s"
proof -
  have "x \<in> set (tokens s)"
    using assms(2,3) by (simp add: tokens_def)
  then show "tokens s = [x]" "turn_ok x s" "log_ok s"
    using assms(1) by (auto simp: session_ok_def)
qed

lemma tokens_taking_other: "\<not> is_token x \<Longrightarrow> tokens (taking x s) = tokens s"
  unfolding tokens_taking by (rule remove1_idem) (simp add: tokens_def)

lemma turn_taking [simp]: "turn_ok t (taking x s) = turn_ok t s"
  by (cases t) simp_all

lemma turn_awaits [simp]: "turn_ok t (awaits x s) = turn_ok t s"
  by (cases t) simp_all

lemma turn_closing: "turn_ok t s \<Longrightarrow> turn_ok t ((taking x s)\<lparr> se_close_after_response := True \<rparr>)"
  by (cases t) auto

lemma turn_draining: "turn_ok t s \<Longrightarrow> turn_ok t (s\<lparr> se_drain_requested := b \<rparr>)"
  by (cases t) auto

lemma turn_socket: "turn_ok t s \<Longrightarrow> turn_ok t (emits SocketClosed s)"
  by (cases t) auto

lemma session_ok_other:
  "session_ok s \<Longrightarrow> session_ok (awaits PendingClose s)"
  "session_ok s \<Longrightarrow> session_ok (awaits PendingDrain s)"
  "session_ok s \<Longrightarrow> session_ok (CloseWithoutCallback s)"
  using turn_socket log_ok_emits [of s SocketClosed] by (auto simp: session_ok_def CloseWithoutCallback_def)

lemma session_step_ok: "session_step message s t \<Longrightarrow> session_ok s \<Longrightarrow> session_ok t"
proof (induction rule: session_step.induct)
  case (start s)
  then have "tokens s = [PendingStart] \<and> turn_ok (PendingStart) s" "log_ok s"
    using token_turn [of s "PendingStart"] by simp_all
  then show ?case
    using closed_announced [of s] by (intro ReadRequest_ok) (auto simp: tokens_taking log_ok_def)
next
  case (read s result submission)
  then have "tokens s = [PendingRead] \<and> turn_ok (PendingRead) s" "log_ok s"
    using token_turn [of s "PendingRead"] by simp_all
  then show ?case
    by (intro HandleRead_ok) (auto simp: tokens_taking)
next
  case (task request s result posted)
  then have "tokens s = [PendingTask request] \<and> turn_ok (PendingTask request) s" "log_ok s"
    using token_turn [of s "PendingTask request"] by simp_all
  then show ?case
    by (auto simp: ExecuteRequest_def session_ok_def tokens_taking)
next
  case (post response s)
  then have "tokens s = [PendingPost response] \<and> turn_ok (PendingPost response) s" "log_ok s"
    using token_turn [of s "PendingPost response"] by simp_all
  then show ?case
    by (intro WriteResponse_ok) (auto simp: tokens_taking)
next
  case (wrote opened s err)
  then have tok: "tokens s = [PendingWrite opened]" and turn: "turn_ok (PendingWrite opened) s" and ok: "log_ok s"
    using token_turn [of s "PendingWrite opened"] by simp_all
  have closing: "session_ok (Close (taking (PendingWrite opened) s))"
    using ok tok by (intro session_ok_Close) (simp_all add: tokens_taking)
  show ?case
  proof (cases err)
    case None
    then have "opened" using wrote.hyps by simp
    then show ?thesis
      using turn ok tok closing by (auto simp: HandleWrite_def None tokens_taking intro!: ReadRequest_ok)
  next
    case (Some e)
    have "session_ok (Close (emits (ErrorLogged x) (taking (PendingWrite opened) s)))" for x
      using ok tok by (intro session_ok_Close) (auto simp: tokens_taking intro: log_ok_emits)
    with closing show ?thesis
      by (simp add: HandleWrite_def Some)
  qed
next
  case (close s)
  then show ?case
    by (intro session_ok_Close) (auto simp: session_ok_def tokens_taking_other turn_taking)
next
  case (drain s)
  let ?t = "(taking PendingDrain s)\<lparr> se_close_after_response := True \<rparr>"
  have t: "log_ok ?t" "tokens ?t = tokens s" "\<And>x. turn_ok x s \<Longrightarrow> turn_ok x ?t" "se_state ?t = se_state s"
    using drain.prems turn_closing by (simp_all add: session_ok_def tokens_taking_other)
  have "session_ok ?t" "session_ok (Close ?t)"
    using t drain.prems session_ok_Close [OF t(1)] by (auto simp: session_ok_def)
  moreover have "session_ok (taking PendingDrain s)"
    using drain.prems by (auto simp: session_ok_def tokens_taking_other turn_taking)
  ultimately show ?case
    by (simp add: drain_section_def Let_def)
next
  case (request_stop s dispatched)
  then show ?case
    by (simp add: session_RequestStop_def session_ok_other)
next
  case (begin_drain s dispatched)
  have "session_ok (s\<lparr> se_drain_requested := True \<rparr>)"
    using begin_drain.prems turn_draining by (auto simp: session_ok_def)
  then show ?case
    by (simp add: BeginDrain_def Let_def session_ok_other)
qed

lemma session_reachable_ok:
  assumes "session_reachable options message s" and "0 < op_max_requests_per_connection options"
  shows "session_ok s"
  using assms
proof (induction rule: session_reachable.induct)
  case init
  then show ?case
    by (simp add: session_Start_def session_ok_def new_session_def awaits_def tokens_def log_ok_def io_log_def
        after_closed_def may_continue_def)
next
  case (refused dispatched)
  have "session_ok (new_session options)"
    by (simp add: session_ok_def new_session_def tokens_def log_ok_def io_log_def after_closed_def)
  then show ?case
    by (simp add: session_RequestStop_def session_ok_other)
next
  case (step s t)
  then show ?case
    using session_step_ok by blast
qed

lemma session_step_options: "session_step message s t \<Longrightarrow> se_options t = se_options s"
  by (cases rule: session_step.cases, assumption)
    (auto simp: ReadRequest_def HandleRead_def refuse_read_def WriteResponse_def ExecuteRequest_def HandleWrite_def Close_def
      CloseWithoutCallback_def drain_section_def session_RequestStop_def BeginDrain_def Let_def
      split: sum.splits submission.splits option.splits)

lemma session_reachable_options: "session_reachable options message s \<Longrightarrow> se_options s = options"
  by (induction rule: session_reachable.induct)
    (simp_all add: session_step_options session_Start_def session_RequestStop_def CloseWithoutCallback_def new_session_def)

text \<open>What is left of the protocol when no read is started any more: a request and its response.\<close>

lemma follows_without_reads:
  assumes "successively follows xs" and "list_all (\<lambda>x. \<not> is_read x) xs"
  shows "length xs \<le> 2 \<and> length (filter is_request xs) \<le> 1"
proof (cases xs rule: remdups_adj.cases)
  case (3 x y ys)
  have "is_request x \<and> \<not> is_request y \<and> ys = []"
    using assms 3 by (cases x; cases y; cases ys; cases "hd ys") auto
  then show ?thesis by (simp add: 3)
qed auto

lemma successively_suffix: "successively P (xs @ ys) \<Longrightarrow> successively P ys"
  by (simp add: successively_append_iff)

lemma io_after_closed:
  assumes "successively follows (io_log s)" and "list_all (\<lambda>x. \<not> is_read x) (after_closed (se_effects s))"
  shows "length (filter is_io (after_closed (se_effects s))) \<le> 2
    \<and> length (filter is_request (after_closed (se_effects s))) \<le> 1"
proof -
  let ?after = "after_closed (se_effects s)"
  obtain before where "se_effects s = before @ ?after"
    unfolding after_closed_def
    by (metis append_Nil append_assoc list.sel(2) list.collapse takeWhile_dropWhile_id append_Cons)
  then have "io_log s = filter is_io before @ filter is_io ?after"
    unfolding io_log_def by (metis filter_append)
  then have "successively follows (filter is_io ?after)"
    using assms(1) successively_suffix by metis
  moreover have "list_all (\<lambda>x. \<not> is_read x) (filter is_io ?after)"
    using assms(2) by (auto simp: list_all_iff)
  moreover have "filter is_request (filter is_io xs) = filter is_request xs" for xs
    by (rule filter_filter [THEN trans]) (rule filter_cong, simp, metis is_io.simps(2) is_request.elims(2))
  ultimately show ?thesis
    using follows_without_reads [of "filter is_io ?after"] by metis
qed

text \<open>C7. A connection keeps the protocol: reads, requests and responses alternate as \<open>follows\<close> states
  (a request has at most one response, in its version; the connection stays open only for a request
  that asked for it), at most one asynchronous operation is outstanding, no more requests are taken than
  the options allow, and the server is told of the close once. After that no read is started; a read
  that was under way may still deliver its request, and one response may still be written, but no more.\<close>

theorem session_protocol:
  assumes "session_reachable options message s" and "0 < op_max_requests_per_connection options"
  shows "successively follows (io_log s) \<and> (io_log s = [] \<or> is_read (hd (io_log s)))
    \<and> length (tokens s) \<le> 1
    \<and> length (filter is_request (io_log s)) \<le> op_max_requests_per_connection options
    \<and> count_list (se_effects s) SessionClosed \<le> 1
    \<and> list_all (\<lambda>x. \<not> is_read x) (after_closed (se_effects s))
    \<and> length (filter is_io (after_closed (se_effects s))) \<le> 2
    \<and> length (filter is_request (after_closed (se_effects s))) \<le> 1"
proof -
  have "session_ok s"
    using session_reachable_ok assms by blast
  then have log: "log_ok s" and "length (tokens s) \<le> 1"
    by (auto simp: session_ok_def)
  then show ?thesis
    using session_reachable_options [OF assms(1)] io_after_closed [of s] by (auto simp: log_ok_def split: if_splits)
qed

text \<open>A connection whose request is refused for load, which stays open and reads the next.\<close>

definition demo_message :: "net_error \<Rightarrow> string" where
  "demo_message e = ''error''"

definition demo_reading :: session where
  "demo_reading = ReadRequest (taking PendingStart (session_Start (new_session default_server_options)))"

definition demo_refused :: session where
  "demo_refused = HandleRead demo_message (Inr (demo_request VGet ''/'')) NotSubmitted (taking PendingRead demo_reading)"

definition demo_session :: session where
  "demo_session = HandleWrite demo_message None (taking (PendingWrite True) demo_refused)"

lemmas demo_session_defs =
  demo_reading_def demo_refused_def demo_session_def session_Start_def new_session_def ReadRequest_def HandleRead_def
  WriteResponse_def HandleWrite_def taking_def awaits_def emits_def default_server_options_def demo_request_def Let_def

lemma demo_session_reachable: "session_reachable default_server_options demo_message demo_session"
proof -
  have reading: "PendingRead \<in> set (se_pending demo_reading)"
    by (simp add: demo_session_defs)
  have refused: "PendingWrite True \<in> set (se_pending demo_refused)"
    by (simp add: demo_session_defs)
  have "session_reachable default_server_options demo_message demo_reading"
    unfolding demo_reading_def
    by (rule session_reachable.step [OF session_reachable.init], rule session_step.start)
      (simp add: session_Start_def awaits_def)
  then have "session_reachable default_server_options demo_message demo_refused"
    unfolding demo_refused_def by (rule session_reachable.step) (rule session_step.read [OF reading])
  then show ?thesis
    unfolding demo_session_def by (rule session_reachable.step) (rule session_step.wrote [OF refused], simp)
qed

text \<open>
  A read that had completed when the session was closed: its request is taken and answered after the
  close was announced, the most the protocol allows.
\<close>

definition demo_closed :: session where
  "demo_closed = Close (taking PendingClose (session_RequestStop True demo_reading))"

lemma closed_session_takes_request:
  "\<exists>s r t. session_reachable default_server_options demo_message s
     \<and> after_closed (se_effects s) = [Received (demo_request VGet ''/''), WriteStarted r t]"
proof -
  let ?s = "HandleRead demo_message (Inr (demo_request VGet ''/'')) NotSubmitted (taking PendingRead demo_closed)"
  have "session_reachable default_server_options demo_message demo_reading"
    unfolding demo_reading_def
    by (rule session_reachable.step [OF session_reachable.init], rule session_step.start)
      (simp add: session_Start_def awaits_def)
  then have "session_reachable default_server_options demo_message (session_RequestStop True demo_reading)"
    by (rule session_reachable.step) (rule session_step.request_stop)
  then have "session_reachable default_server_options demo_message demo_closed"
    unfolding demo_closed_def
    by (rule session_reachable.step) (rule session_step.close, simp add: session_RequestStop_def awaits_def)
  moreover have "PendingRead \<in> set (se_pending demo_closed)"
    by (simp add: demo_closed_def demo_session_defs session_RequestStop_def Close_def CloseWithoutCallback_def)
  ultimately have "session_reachable default_server_options demo_message ?s"
    using session_reachable.step session_step.read by blast
  moreover have "\<exists>r t. after_closed (se_effects ?s) = [Received (demo_request VGet ''/''), WriteStarted r t]"
    by (simp add: demo_closed_def demo_session_defs session_RequestStop_def Close_def CloseWithoutCallback_def
        after_closed_def)
  ultimately show ?thesis by blast
qed

theorem session_protocol_witness:
  "length (io_log demo_session) = 4 \<and> successively follows (io_log demo_session)
    \<and> length (filter is_request (io_log demo_session)) \<le> 100"
proof -
  have "length (io_log demo_session) = 4"
    by (simp add: demo_session_defs io_log_def)
  then show ?thesis
    using session_protocol [OF demo_session_reachable] by (simp add: default_server_options_def)
qed

end
