(* ===== verification/Server.thy ===== *)
theory Server
  imports Executor Session
begin

text \<open>
  \<open>HttpServer\<close> (\<open>src/apps/agent/src/api/http_server.cpp\<close>): the lifecycle of the listener, its I/O
  threads, the registered sessions and the request executor. Every section between two locks or two
  blocking calls is one function; a step relation interleaves them. The theorems say that the
  connections are bounded, that a shutdown completes only when every accepted request has been
  executed and every session has gone, that a failed start leaves a server that can be started
  again, and that every run of a shutdown ends. \<open>Start\<close> is one step up to its joins: it holds the
  lifecycle lock, and what its I/O threads do before it has posted the first accept is not modelled.
\<close>

section \<open>Options\<close>

definition ValidateOptions :: "bool \<Rightarrow> HttpServerOptions \<Rightarrow> string option" where
  "ValidateOptions has_handler options =
     (if \<not> has_handler then Some ''HTTP server request handler must not be empty''
      else if op_bind_address options = [] then Some ''HTTP server bind address must not be empty''
      else if op_io_thread_count options = 0 \<or> op_handler_thread_count options = 0 then
        Some ''HTTP server thread counts must be greater than zero''
      else if op_max_connections options = 0 \<or> op_max_in_flight_requests options = 0
          \<or> op_max_connections options < op_max_in_flight_requests options then
        Some ''HTTP server request limits must be positive and in-flight requests must not exceed connections''
      else if op_max_header_bytes options = 0 \<or> 2 ^ 32 - 1 < op_max_header_bytes options
          \<or> op_max_body_bytes options = 0 \<or> op_max_requests_per_connection options = 0 then
        Some ''HTTP server protocol limits must be greater than zero''
      else if op_read_timeout options \<le> 0 \<or> op_write_timeout options \<le> 0 \<or> op_idle_timeout options \<le> 0
          \<or> op_shutdown_grace_period options \<le> 0 then
        Some ''HTTP server timeouts must be greater than zero''
      else None)"

section \<open>The object\<close>

datatype HttpServerState = ServerStopped | ServerStarting | ServerRunning | ServerStopping

datatype acceptor = AcceptorClosed | AcceptorOpen | AcceptorListening nat

text \<open>
  What runs on the strand of the acceptor, one at a time: posted functions and, between two of its
  sections, the handler in progress.
\<close>

datatype posted = PostStop | PostComplete

datatype strand = StrandFree | AcceptRegister nat | AcceptAgain | CompleteNext

text \<open>Where the caller is that takes the server down: \<open>Wait\<close>, or \<open>Start\<close> after an exception.\<close>

datatype phase = AtExecutor | JoiningExecutor | AtPost | JoiningIo

datatype owner = NoOwner | is_Waiting: Waiting phase | is_StartFailing: StartFailing string phase

datatype session_command = CommandStart | CommandStop | CommandDrain

datatype server_output = Commanded nat session_command | SocketRefused | ErrorPrinted string

text \<open>
  A session is a number. \<open>sv_posts\<close> is the queue of the strand, \<open>sv_accepts\<close> the accepts that are
  outstanding, \<open>sv_timer\<close> whether a wait on the shutdown timer is. \<open>sv_calls\<close> holds the callers of
  \<open>RequestStop\<close> that have left the lock, with what they took along, \<open>sv_removing\<close> those of
  \<open>RemoveSession\<close>, with what they saw. \<open>sv_live\<close> counts the I/O threads that have not ended. The
  executor has a number, since a caller may hold one that was replaced; \<open>sv_waited_first\<close> records
  that the executor was drained before any stop was requested.
\<close>

record 'a server =
  sv_options :: HttpServerOptions
  sv_has_handler :: bool
  sv_state :: HttpServerState
  sv_wait_in_progress :: bool
  sv_stop_requested :: bool
  sv_drained :: bool
  sv_completion_started :: bool
  sv_running :: nat
  sv_bound_port :: u16
  sv_worker_error :: "string option"
  sv_workers :: "nat list"
  sv_work_guard :: bool
  sv_io_stopped :: bool
  sv_acceptor :: acceptor
  sv_sessions :: "nat list"
  sv_executor :: "'a pool option"
  sv_executor_number :: nat
  sv_posts :: "posted list"
  sv_accepts :: nat
  sv_timer :: bool
  sv_strand :: strand
  sv_calls :: "(bool \<times> nat option) list"
  sv_removing :: "bool list"
  sv_owner :: owner
  sv_live :: nat
  sv_next_session :: nat
  sv_output :: "server_output list"
  sv_waited_first :: bool

definition new_server :: "HttpServerOptions \<Rightarrow> bool \<Rightarrow> 'a server" where
  "new_server options has_handler = \<lparr> sv_options = options, sv_has_handler = has_handler,
     sv_state = ServerStopped, sv_wait_in_progress = False, sv_stop_requested = False, sv_drained = False,
     sv_completion_started = False, sv_running = 0, sv_bound_port = 0, sv_worker_error = None, sv_workers = [],
     sv_work_guard = False, sv_io_stopped = False, sv_acceptor = AcceptorClosed, sv_sessions = [],
     sv_executor = None, sv_executor_number = 0, sv_posts = [], sv_accepts = 0, sv_timer = False,
     sv_strand = StrandFree, sv_calls = [], sv_removing = [], sv_owner = NoOwner, sv_live = 0,
     sv_next_session = 0, sv_output = [], sv_waited_first = False \<rparr>"

definition post :: "posted \<Rightarrow> 'a server \<Rightarrow> 'a server" where
  "post x s = s\<lparr> sv_posts := sv_posts s @ [x] \<rparr>"

definition commanding :: "session_command \<Rightarrow> nat list \<Rightarrow> 'a server \<Rightarrow> 'a server" where
  "commanding c ids s = s\<lparr> sv_output := sv_output s @ map (\<lambda>i. Commanded i c) ids \<rparr>"

definition outputs :: "server_output list \<Rightarrow> 'a server \<Rightarrow> 'a server" where
  "outputs xs s = s\<lparr> sv_output := sv_output s @ xs \<rparr>"

definition CloseAcceptor :: "'a server \<Rightarrow> 'a server" where
  "CloseAcceptor s = s\<lparr> sv_acceptor := AcceptorClosed \<rparr>"

subsection \<open>Starting\<close>

text \<open>What the network stack answers to each call, with the error's message.\<close>

record acceptor_script =
  as_make_address :: "string option"
  as_open :: "string option"
  as_set_option :: "string option"
  as_bind :: "string option"
  as_listen :: "string option"
  as_local_endpoint :: "string + u16"

definition capped_backlog :: "HttpServerOptions \<Rightarrow> nat" where
  "capped_backlog options = min (op_max_connections options) (2 ^ 31 - 1)"

definition PrepareAcceptor :: "acceptor_script \<Rightarrow> 'a server \<Rightarrow> (string + u16) \<times> 'a server" where
  "PrepareAcceptor net s =
     (let s = s\<lparr> sv_io_stopped := False \<rparr> in
      case as_make_address net of
        Some e \<Rightarrow> (Inl (''invalid bind address: '' @ e), s)
      | None \<Rightarrow>
      case as_open net of
        Some e \<Rightarrow> (Inl (''acceptor open failed: '' @ e), s)
      | None \<Rightarrow>
      let s = s\<lparr> sv_acceptor := AcceptorOpen \<rparr> in
      case as_set_option net of
        Some e \<Rightarrow> (Inl (''acceptor set_option failed: '' @ e), s)
      | None \<Rightarrow>
      case as_bind net of
        Some e \<Rightarrow> (Inl (''acceptor bind failed: '' @ e), s)
      | None \<Rightarrow>
      case as_listen net of
        Some e \<Rightarrow> (Inl (''acceptor listen failed: '' @ e), s)
      | None \<Rightarrow>
      let s = s\<lparr> sv_acceptor := AcceptorListening (capped_backlog (sv_options s)) \<rparr> in
      case as_local_endpoint net of
        Inl e \<Rightarrow> (Inl (''acceptor local_endpoint failed: '' @ e), s)
      | Inr port \<Rightarrow> (Inr port, s))"

definition StartAccept :: "'a server \<Rightarrow> 'a server" where
  "StartAccept s =
     (if sv_stop_requested s \<or> sv_acceptor s = AcceptorClosed then s
      else s\<lparr> sv_accepts := sv_accepts s + 1 \<rparr>)"

text \<open>
  \<open>st_io_failure\<close> is the error of an I/O thread that could not be created, with how many were.
\<close>

record start_script =
  st_net :: acceptor_script
  st_executor_failure :: "string option"
  st_io_failure :: "(nat \<times> string) option"

definition start_pool :: "string option \<Rightarrow> 'a executor \<Rightarrow> string option \<times> 'a pool" where
  "start_pool failure e =
     (let n = ex_worker_count e;
          (error, e) = executor_Start [0..<n] failure e;
          p = new_pool e
      in (error, if error = None then p\<lparr> po_threads := replicate n Idle \<rparr> else p))"

text \<open>The threads created so far run; the count is taken back for the one that failed.\<close>

definition start_io_threads :: "(nat \<times> string) option \<Rightarrow> 'a server \<Rightarrow> string option \<times> 'a server" where
  "start_io_threads failure s =
     (let wanted = op_io_thread_count (sv_options s);
          created = (case failure of None \<Rightarrow> wanted | Some (k, e) \<Rightarrow> min k (wanted - 1))
      in (map_option snd failure,
          s\<lparr> sv_workers := [0..<created], sv_running := created, sv_live := created \<rparr>))"

definition stop_pool :: "'a pool \<Rightarrow> 'a pool" where
  "stop_pool p = p\<lparr> po_executor := executor_RequestStop (po_executor p) \<rparr>"

text \<open>The \<open>catch\<close> block up to where it gives the lock back.\<close>

definition start_failing :: "string \<Rightarrow> 'a server \<Rightarrow> 'a server" where
  "start_failing e s =
     s\<lparr> sv_stop_requested := True, sv_executor := map_option stop_pool (sv_executor s), sv_work_guard := False,
        sv_io_stopped := True, sv_workers := [],
        sv_owner := StartFailing e (if sv_executor s = None then JoiningIo else AtExecutor) \<rparr>"

definition server_Start :: "start_script \<Rightarrow> 'a server \<Rightarrow> (string + u16) \<times> 'a server" where
  "server_Start script s =
     (if sv_state s \<noteq> ServerStopped \<or> sv_workers s \<noteq> [] \<or> sv_wait_in_progress s then
        (Inl ''HTTP server is already started or has not finished stopping'', s)
      else
        case ValidateOptions (sv_has_handler s) (sv_options s) of
          Some e \<Rightarrow> (Inl e, s)
        | None \<Rightarrow>
          let s = s\<lparr> sv_state := ServerStarting, sv_stop_requested := False, sv_drained := False, sv_running := 0,
                sv_bound_port := 0, sv_worker_error := None, sv_completion_started := False, sv_waited_first := False \<rparr>;
              (prepared, s) = PrepareAcceptor (st_net script) s
          in case prepared of
               Inl e \<Rightarrow> (Inl e, start_failing e s)
             | Inr port \<Rightarrow>
          case new_executor (op_handler_thread_count (sv_options s)) (of_nat (op_max_in_flight_requests (sv_options s))) of
               Inl e \<Rightarrow> (Inl e, start_failing e s)
             | Inr executor \<Rightarrow>
          let (executor_error, pool) = start_pool (st_executor_failure script) executor;
              s = s\<lparr> sv_executor := Some pool, sv_executor_number := sv_executor_number s + 1 \<rparr>
          in case executor_error of
               Some e \<Rightarrow> (Inl e, start_failing e s)
             | None \<Rightarrow>
          let (io_error, s) = start_io_threads (st_io_failure script) (s\<lparr> sv_work_guard := True \<rparr>)
          in case io_error of
               Some e \<Rightarrow> (Inl e, start_failing e s)
             | None \<Rightarrow>
          (Inr port, (StartAccept (s\<lparr> sv_bound_port := port \<rparr>))\<lparr> sv_state := ServerRunning \<rparr>))"

text \<open>The rest of the \<open>catch\<close> block, after the joins.\<close>

definition start_failed_end :: "'a server \<Rightarrow> 'a server" where
  "start_failed_end s =
     (CloseAcceptor s)\<lparr> sv_running := 0, sv_bound_port := 0, sv_executor := None, sv_state := ServerStopped,
        sv_owner := NoOwner \<rparr>"

subsection \<open>Stopping\<close>

text \<open>\<open>RequestStop\<close>: the section under the lock, and the rest; \<open>posted\<close> is whether \<open>asio::post\<close> succeeded.\<close>

definition request_stop_locked :: "'a server \<Rightarrow> 'a server" where
  "request_stop_locked s =
     (if sv_state s = ServerStopped then s
      else
        let schedule_stop = (sv_state s \<noteq> ServerStopping) in
        s\<lparr> sv_state := ServerStopping, sv_stop_requested := True,
           sv_calls := sv_calls s @ [(schedule_stop, if sv_executor s = None then None else Some (sv_executor_number s))] \<rparr>)"

definition request_stop_rest :: "bool \<Rightarrow> bool \<times> nat option \<Rightarrow> 'a server \<Rightarrow> 'a server" where
  "request_stop_rest posted call s =
     (let s = (if snd call = Some (sv_executor_number s) then s\<lparr> sv_executor := map_option stop_pool (sv_executor s) \<rparr> else s)
      in if fst call then (if posted then post PostStop s else s\<lparr> sv_io_stopped := True \<rparr>) else s)"

text \<open>\<open>TryCompleteStopOnIoContext\<close>; a cancelled timer still runs its handler.\<close>

definition TryComplete :: "'a server \<Rightarrow> 'a server" where
  "TryComplete s =
     (if sv_completion_started s \<or> \<not> sv_drained s \<or> sv_sessions s \<noteq> [] then s
      else s\<lparr> sv_completion_started := True, sv_work_guard := False \<rparr>)"

text \<open>\<open>StopOnIoContext\<close> and \<open>HandleShutdownDeadline\<close> up to their call of \<open>TryComplete\<close>.\<close>

definition stop_on_io :: "'a server \<Rightarrow> 'a server" where
  "stop_on_io s =
     (let s = commanding CommandDrain (sv_sessions s) (CloseAcceptor s)
      in s\<lparr> sv_timer := sv_timer s \<or> sv_sessions s \<noteq> [], sv_strand := CompleteNext \<rparr>)"

datatype timer_error = timer_aborted | timer_error_other string

definition ForceCloseSessions :: "'a server \<Rightarrow> 'a server" where
  "ForceCloseSessions s = commanding CommandStop (sv_sessions s) s"

definition shutdown_deadline :: "timer_error option \<Rightarrow> 'a server \<Rightarrow> 'a server" where
  "shutdown_deadline err s =
     (if err = Some timer_aborted then s
      else
        let s = (case err of
               Some (timer_error_other e) \<Rightarrow> outputs [ErrorPrinted (''[agent] graceful shutdown timer failed: '' @ e)] s
             | _ \<Rightarrow> s)
        in (ForceCloseSessions s)\<lparr> sv_strand := CompleteNext \<rparr>)"

subsection \<open>Connections\<close>

datatype accept_error = accept_aborted | accept_bad_descriptor | accept_error_other string

text \<open>
  The sections of \<open>HandleAccept\<close>: the test and the new session, its registration, and the next accept.
\<close>

definition accept_result :: "accept_error option \<Rightarrow> 'a server \<Rightarrow> 'a server" where
  "accept_result err s =
     (if err = None \<and> \<not> sv_stop_requested s then
        s\<lparr> sv_strand := AcceptRegister (sv_next_session s), sv_next_session := sv_next_session s + 1 \<rparr>
      else
        let s = (case err of
               None \<Rightarrow> outputs [SocketRefused] s
             | Some (accept_error_other e) \<Rightarrow> outputs [ErrorPrinted (''[agent] accept failed: '' @ e)] s
             | _ \<Rightarrow> s)
        in s\<lparr> sv_strand := AcceptAgain \<rparr>)"

definition RegisterSession :: "nat \<Rightarrow> 'a server \<Rightarrow> bool \<times> 'a server" where
  "RegisterSession session s =
     (if sv_stop_requested s \<or> op_max_connections (sv_options s) \<le> length (sv_sessions s) then (False, s)
      else (True, s\<lparr> sv_sessions := List.insert session (sv_sessions s) \<rparr>))"

definition accept_register :: "nat \<Rightarrow> 'a server \<Rightarrow> 'a server" where
  "accept_register session s =
     (let (registered, s) = RegisterSession session s
      in (commanding (if registered then CommandStart else CommandStop) [session] s)\<lparr> sv_strand := AcceptAgain \<rparr>)"

definition accept_again :: "'a server \<Rightarrow> 'a server" where
  "accept_again s = (if sv_stop_requested s then s else StartAccept s)\<lparr> sv_strand := StrandFree \<rparr>"

text \<open>\<open>RemoveSession\<close>: the section under the lock, and the rest.\<close>

definition remove_session :: "nat \<Rightarrow> 'a server \<Rightarrow> 'a server" where
  "remove_session session s =
     (let s = s\<lparr> sv_sessions := removeAll session (sv_sessions s) \<rparr>
      in s\<lparr> sv_removing := sv_removing s @ [sv_sessions s = []] \<rparr>)"

definition remove_session_rest :: "bool \<Rightarrow> bool \<Rightarrow> 'a server \<Rightarrow> 'a server" where
  "remove_session_rest posted sessions_empty s =
     (if sessions_empty \<and> sv_stop_requested s \<and> sv_drained s
      then if posted then post PostComplete s else s\<lparr> sv_io_stopped := True \<rparr>
      else s)"

subsection \<open>Waiting\<close>

datatype caller = OtherThread nat | IoThread nat | HandlerThread nat

datatype wait_result = WaitRefused string | WaitBlocked | WaitReturns "string option" | WaitTakesOver

definition is_io_worker :: "caller \<Rightarrow> 'a server \<Rightarrow> bool" where
  "is_io_worker who s = (case who of IoThread i \<Rightarrow> i \<in> set (sv_workers s) | _ \<Rightarrow> False)"

definition is_handler_worker :: "caller \<Rightarrow> 'a server \<Rightarrow> bool" where
  "is_handler_worker who s =
     (case (who, sv_executor s) of (HandlerThread i, Some p) \<Rightarrow> IsWorkerThread i (po_executor p) | _ \<Rightarrow> False)"

definition wait_begin :: "caller \<Rightarrow> 'a server \<Rightarrow> wait_result \<times> 'a server" where
  "wait_begin who s =
     (if is_io_worker who s then (WaitRefused ''HTTP server I/O worker cannot wait for itself'', s)
      else if is_handler_worker who s then (WaitRefused ''HTTP request handler worker cannot wait for itself'', s)
      else if sv_wait_in_progress s then (WaitBlocked, s)
      else if sv_workers s = [] then (WaitReturns (sv_worker_error s), s)
      else (WaitTakesOver, s\<lparr> sv_wait_in_progress := True, sv_workers := [],
              sv_owner := Waiting (if sv_executor s = None then JoiningExecutor else AtExecutor) \<rparr>))"

text \<open>
  The wait for the executor, by \<open>Wait\<close> or by a failed \<open>Start\<close>: its two sections on the executor, and
  what its caller does next.
\<close>

definition at_phase :: "phase \<Rightarrow> owner \<Rightarrow> owner" where
  "at_phase ph w = (case w of NoOwner \<Rightarrow> NoOwner | Waiting _ \<Rightarrow> Waiting ph | StartFailing e _ \<Rightarrow> StartFailing e ph)"

definition phase_of :: "owner \<Rightarrow> phase option" where
  "phase_of w = (case w of NoOwner \<Rightarrow> None | Waiting ph \<Rightarrow> Some ph | StartFailing _ ph \<Rightarrow> Some ph)"

definition wait_executor_drained :: "'a server \<Rightarrow> 'a server" where
  "wait_executor_drained s =
     (case sv_owner s of
        Waiting _ \<Rightarrow> s\<lparr> sv_drained := True, sv_owner := Waiting AtPost,
            sv_waited_first := sv_waited_first s \<or> \<not> sv_stop_requested s \<rparr>
      | StartFailing e _ \<Rightarrow> s\<lparr> sv_owner := StartFailing e JoiningIo \<rparr>
      | NoOwner \<Rightarrow> s)"

definition wait_post :: "bool \<Rightarrow> 'a server \<Rightarrow> 'a server" where
  "wait_post posted s =
     (if posted then post PostComplete s else s\<lparr> sv_work_guard := False, sv_io_stopped := True \<rparr>)
     \<lparr> sv_owner := Waiting JoiningIo \<rparr>"

definition wait_finish :: "'a server \<Rightarrow> string option \<times> 'a server" where
  "wait_finish s =
     (let s = s\<lparr> sv_sessions := [], sv_work_guard := False \<rparr>;
          s = (CloseAcceptor s)\<lparr> sv_io_stopped := True, sv_running := 0, sv_bound_port := 0, sv_executor := None,
                sv_state := ServerStopped, sv_wait_in_progress := False, sv_owner := NoOwner \<rparr>
      in (sv_worker_error s, s))"

text \<open>The end of an I/O thread, after an exception or without one.\<close>

definition RunIoContext :: "string option \<Rightarrow> 'a server \<Rightarrow> 'a server" where
  "RunIoContext worker_error s =
     (let s = (case worker_error of
            None \<Rightarrow> s
          | Some e \<Rightarrow> s\<lparr> sv_worker_error := (if sv_worker_error s = None then Some e else sv_worker_error s),
               sv_state := (if sv_state s \<noteq> ServerStopped then ServerStopping else sv_state s),
               sv_stop_requested := True, sv_io_stopped := True \<rparr>)
      in s\<lparr> sv_running := sv_running s - 1 \<rparr>)"

definition ActiveSessionCount :: "'a server \<Rightarrow> nat" where
  "ActiveSessionCount s = length (sv_sessions s)"

definition InFlightRequestCount :: "'a server \<Rightarrow> nat" where
  "InFlightRequestCount s = (case sv_executor s of None \<Rightarrow> 0 | Some p \<Rightarrow> InFlightCount (po_executor p))"

subsection \<open>Running\<close>

text \<open>
  The loop of \<open>Run\<close>: each poll is what \<open>stop_requested()\<close> answered or threw, and whether the wait saw
  all I/O threads ended; \<open>None\<close> when it is still polling at the end of the list. Afterwards it stops and
  waits, and the first error counts.
\<close>

fun run_poll :: "((string + bool) \<times> bool) list \<Rightarrow> string option option" where
  "run_poll [] = None"
| "run_poll ((Inl e, ended) # polls) = Some (Some e)"
| "run_poll ((Inr True, ended) # polls) = Some None"
| "run_poll ((Inr False, ended) # polls) = (if ended then Some None else run_poll polls)"

definition Run_error :: "string option \<Rightarrow> string option \<Rightarrow> string option" where
  "Run_error run_error wait_error = (case run_error of None \<Rightarrow> wait_error | Some e \<Rightarrow> Some e)"

section \<open>Interleaving\<close>

text \<open>
  What a thread may do with the executor while it runs: its own threads work, sessions submit.
\<close>

inductive pool_run :: "'a pool \<Rightarrow> 'a pool \<Rightarrow> bool" where
  work: "pool_run p q" if "worker_step p q"
| submit: "pool_run p (p\<lparr> po_executor := e, po_accepted := po_accepted p @ [t] \<rparr>)"
    if "TrySubmit (Some t) (po_executor p) = (Inr True, e)"
| refuse: "pool_run p (p\<lparr> po_executor := e \<rparr>)"
    if "TrySubmit (Some t) (po_executor p) = (Inr False, e)"

definition io_runs :: "'a server \<Rightarrow> bool" where
  "io_runs s \<longleftrightarrow> 0 < sv_live s \<and> \<not> sv_io_stopped s"

text \<open>An I/O thread can end while another one is inside a handler, or when no handler is in progress.\<close>

definition thread_free :: "'a server \<Rightarrow> bool" where
  "thread_free s \<longleftrightarrow> 1 < sv_live s \<or> sv_live s = 1 \<and> sv_strand s = StrandFree \<and> sv_removing s = []"

definition out_of_work :: "'a server \<Rightarrow> bool" where
  "out_of_work s \<longleftrightarrow> \<not> sv_work_guard s \<and> sv_posts s = [] \<and> sv_accepts s = 0 \<and> \<not> sv_timer s"

text \<open>
  A session may announce its close at any time, also one that was never registered. Handlers that a
  stopped context has not run are kept, as Boost keeps them.
\<close>

inductive server_step :: "'a server \<Rightarrow> 'a server \<Rightarrow> bool" where
  start: "server_step s (snd (server_Start script s))"
| start_failed: "server_step s (start_failed_end s)"
    if "sv_owner s = StartFailing e JoiningIo" and "sv_live s = 0"
| stop: "server_step s (request_stop_locked s)"
| stop_executor: "server_step s (s\<lparr> sv_executor := map_option stop_pool (sv_executor s) \<rparr>)"
    if "(schedule, Some (sv_executor_number s)) \<in> set (sv_calls s)"
| stop_rest: "server_step s (request_stop_rest posted c (s\<lparr> sv_calls := remove1 c (sv_calls s) \<rparr>))"
    if "c \<in> set (sv_calls s)"
| wait: "server_step s (snd (wait_begin who s))"
| executor_wait: "server_step s (s\<lparr> sv_executor := Some (p\<lparr> po_executor := e, po_joining := Some threads \<rparr>),
      sv_owner := at_phase JoiningExecutor (sv_owner s) \<rparr>)"
    if "phase_of (sv_owner s) = Some AtExecutor" and "sv_executor s = Some p"
      and "executor_wait_begin this_thread (po_executor p) = (Inr threads, e)"
| executor_joined: "server_step s (wait_executor_drained
      (s\<lparr> sv_executor := Some (p\<lparr> po_executor := executor_wait_end (po_executor p), po_joining := None \<rparr>) \<rparr>))"
    if "phase_of (sv_owner s) = Some JoiningExecutor" and "sv_executor s = Some p" and "po_joining p = Some threads"
      and "\<forall>i \<in> set threads. po_threads p ! i = Gone"
| executor_absent: "server_step s (wait_executor_drained s)"
    if "phase_of (sv_owner s) = Some JoiningExecutor" and "sv_executor s = None"
| executor_runs: "server_step s (s\<lparr> sv_executor := Some q \<rparr>)"
    if "sv_executor s = Some p" and "pool_run p q"
| wait_posts: "server_step s (wait_post posted s)"
    if "sv_owner s = Waiting AtPost"
| wait_ends: "server_step s (snd (wait_finish s))"
    if "sv_owner s = Waiting JoiningIo" and "sv_live s = 0"
| accepted: "server_step s (accept_result err (s\<lparr> sv_accepts := sv_accepts s - 1 \<rparr>))"
    if "io_runs s" and "sv_strand s = StrandFree" and "0 < sv_accepts s"
| registers: "server_step s (accept_register session s)"
    if "sv_strand s = AcceptRegister session"
| accepts_again: "server_step s (accept_again s)"
    if "sv_strand s = AcceptAgain"
| stops_on_io: "server_step s (stop_on_io (s\<lparr> sv_posts := xs \<rparr>))"
    if "io_runs s" and "sv_strand s = StrandFree" and "sv_posts s = PostStop # xs"
| completes_posted: "server_step s (TryComplete (s\<lparr> sv_posts := xs \<rparr>))"
    if "io_runs s" and "sv_strand s = StrandFree" and "sv_posts s = PostComplete # xs"
| completes: "server_step s (TryComplete (s\<lparr> sv_strand := StrandFree \<rparr>))"
    if "sv_strand s = CompleteNext"
| deadline: "server_step s (shutdown_deadline terr (s\<lparr> sv_timer := False \<rparr>))"
    if "io_runs s" and "sv_strand s = StrandFree" and "sv_timer s"
| session_closes: "server_step s (remove_session session s)"
    if "0 < sv_live s"
| session_closed: "server_step s (remove_session_rest posted b (s\<lparr> sv_removing := remove1 b (sv_removing s) \<rparr>))"
    if "b \<in> set (sv_removing s)"
| thread_ends: "server_step s (RunIoContext None (s\<lparr> sv_live := sv_live s - 1, sv_io_stopped := True \<rparr>))"
    if "thread_free s" and "sv_io_stopped s \<or> out_of_work s"
| thread_throws: "server_step s (RunIoContext (Some what) (s\<lparr> sv_live := sv_live s - 1 \<rparr>))"
    if "thread_free s"
| accept_throws: "server_step s (RunIoContext (Some what) (s\<lparr> sv_strand := StrandFree, sv_live := sv_live s - 1 \<rparr>))"
    if "sv_strand s = AcceptRegister session \<or> sv_strand s = AcceptAgain"
      and "1 < sv_live s \<or> sv_live s = 1 \<and> sv_removing s = []"

inductive server_reachable :: "HttpServerOptions \<Rightarrow> bool \<Rightarrow> 'a server \<Rightarrow> bool"
  for options :: HttpServerOptions and has_handler :: bool where
  init: "server_reachable options has_handler (new_server options has_handler)"
| step: "server_reachable options has_handler t"
    if "server_reachable options has_handler s" and "server_step s t"

inductive_cases server_stepE: "server_step s t"

section \<open>The lifecycle\<close>

definition life_ok :: "'a server \<Rightarrow> bool" where
  "life_ok s \<longleftrightarrow>
     (sv_state s = ServerStopped \<longrightarrow> sv_workers s = [] \<and> sv_owner s = NoOwner \<and> sv_live s = 0 \<and> sv_bound_port s = 0
        \<and> sv_executor s = None \<and> sv_acceptor s = AcceptorClosed \<and> \<not> sv_work_guard s)
     \<and> (sv_state s = ServerStarting \<longrightarrow> is_StartFailing (sv_owner s))
     \<and> (is_StartFailing (sv_owner s) \<longrightarrow> sv_state s \<in> {ServerStarting, ServerStopping} \<and> sv_workers s = []
        \<and> sv_stop_requested s \<and> sv_io_stopped s \<and> sv_bound_port s = 0 \<and> \<not> sv_work_guard s
        \<and> phase_of (sv_owner s) \<noteq> Some AtPost \<and> (phase_of (sv_owner s) \<noteq> Some JoiningIo \<longrightarrow> sv_executor s \<noteq> None))
     \<and> (is_Waiting (sv_owner s) \<longrightarrow> sv_state s \<in> {ServerRunning, ServerStopping} \<and> sv_workers s = [])
     \<and> (sv_owner s = NoOwner \<and> sv_state s \<noteq> ServerStopped \<longrightarrow> sv_workers s \<noteq> [])
     \<and> (sv_wait_in_progress s \<longleftrightarrow> is_Waiting (sv_owner s))
     \<and> sv_running s = sv_live s
     \<and> (sv_state s = ServerStopping \<longrightarrow> sv_stop_requested s)
     \<and> (sv_state s = ServerRunning \<longrightarrow> \<not> sv_stop_requested s)
     \<and> (sv_state s \<in> {ServerRunning, ServerStopping} \<and> \<not> is_StartFailing (sv_owner s) \<longrightarrow>
          sv_executor s \<noteq> None \<and> (sv_io_stopped s \<or> 0 < sv_live s))
     \<and> (sv_live s = 0 \<longrightarrow> sv_strand s = StrandFree \<and> sv_removing s = [])"

text \<open>The three ways \<open>Start\<close> ends: refused, with an exception, or running.\<close>

lemma PrepareAcceptor_cases:
  "\<exists>a. PrepareAcceptor net s = (fst (PrepareAcceptor net s), s\<lparr> sv_io_stopped := False, sv_acceptor := a \<rparr>)
     \<and> (\<forall>port. fst (PrepareAcceptor net s) = Inr port \<longrightarrow> a = AcceptorListening (capped_backlog (sv_options s)))"
  by (cases "as_make_address net"; cases "as_open net"; cases "as_set_option net"; cases "as_bind net";
      cases "as_listen net"; cases "as_local_endpoint net")
    (auto simp: PrepareAcceptor_def Let_def intro: exI [of _ "sv_acceptor s"])

definition fresh_pool :: "HttpServerOptions \<Rightarrow> 'a pool \<Rightarrow> bool" where
  "fresh_pool options p \<longleftrightarrow> pool_reachable p \<and> po_joining p = None
     \<and> ex_capacity (po_executor p) = of_nat (op_max_in_flight_requests options)"

lemma stop_pool_fresh: "fresh_pool options p \<Longrightarrow> fresh_pool options (stop_pool p)"
  unfolding fresh_pool_def stop_pool_def using pool_reachable.step [OF _ pool_step.stop]
  by (auto simp: executor_RequestStop_def)

lemma start_pool_fresh:
  assumes "new_executor n (of_nat (op_max_in_flight_requests options)) = Inr e"
  shows "fresh_pool options (snd (start_pool failure e))"
proof -
  have e: "ex_workers e = []" "ex_tasks e = []" "\<not> ex_accepting e" "ex_in_flight e = 0"
    "ex_capacity e = of_nat (op_max_in_flight_requests options)"
    using assms by (auto simp: new_executor_def split: if_splits)
  have init: "pool_reachable (new_pool e)"
    using assms by (rule pool_reachable.init)
  show ?thesis
  proof (cases failure)
    case None
    let ?e = "e\<lparr> ex_workers := [0..<ex_worker_count e], ex_accepting := True, ex_stop_requested := False \<rparr>"
    have "pool_reachable ((new_pool e)\<lparr> po_executor := ?e,
        po_threads := po_threads (new_pool e) @ replicate (ex_worker_count (po_executor (new_pool e))) Idle \<rparr>)"
      by (rule pool_reachable.step [OF init pool_step.start]) (simp_all add: new_pool_def executor_Start_def e)
    then show ?thesis
      using None by (simp add: fresh_pool_def start_pool_def executor_Start_def Let_def new_pool_def e)
  next
    case (Some what)
    let ?e = "e\<lparr> ex_workers := [], ex_accepting := False, ex_stop_requested := False \<rparr>"
    have "pool_reachable ((new_pool e)\<lparr> po_executor := ?e \<rparr>)"
      by (rule pool_reachable.step [OF init pool_step.start_failed [of _ "[]" what "Some what"]])
        (simp_all add: new_pool_def executor_Start_def e)
    then show ?thesis
      using Some by (simp add: fresh_pool_def start_pool_def executor_Start_def Let_def new_pool_def e)
  qed
qed

text \<open>What a start has reset before it prepares the acceptor.\<close>

definition server_starting :: "'a server \<Rightarrow> 'a server" where
  "server_starting s = s\<lparr> sv_state := ServerStarting, sv_stop_requested := False, sv_drained := False, sv_running := 0,
     sv_bound_port := 0, sv_worker_error := None, sv_completion_started := False, sv_waited_first := False,
     sv_io_stopped := False \<rparr>"

definition server_start_refused :: "'a server \<Rightarrow> bool" where
  "server_start_refused s \<longleftrightarrow> sv_state s \<noteq> ServerStopped \<or> sv_workers s \<noteq> [] \<or> sv_wait_in_progress s
     \<or> ValidateOptions (sv_has_handler s) (sv_options s) \<noteq> None"

lemma server_Start_outcomes [consumes 1, case_names refused failing running]:
  assumes "sv_state s = ServerStopped \<longrightarrow> sv_live s = 0 \<and> sv_executor s = None \<and> \<not> sv_work_guard s"
  obtains (refused) e where "server_start_refused s" "server_Start script s = (Inl e, s)"
  | (failing) e a p n k guard where "\<not> server_start_refused s" "case p of None \<Rightarrow> True | Some q \<Rightarrow> fresh_pool (sv_options s) q"
      "server_Start script s = (Inl e, start_failing e ((server_starting s)\<lparr> sv_acceptor := a, sv_executor := p,
         sv_executor_number := n, sv_work_guard := guard, sv_running := k, sv_live := k, sv_workers := [0..<k] \<rparr>))"
  | (running) p port where "\<not> server_start_refused s" "fresh_pool (sv_options s) p"
      "server_Start script s = (Inr port, (server_starting s)\<lparr> sv_acceptor := AcceptorListening (capped_backlog (sv_options s)),
         sv_executor := Some p, sv_executor_number := sv_executor_number s + 1, sv_work_guard := True,
         sv_running := op_io_thread_count (sv_options s), sv_live := op_io_thread_count (sv_options s),
         sv_workers := [0..<op_io_thread_count (sv_options s)], sv_bound_port := port, sv_accepts := sv_accepts s + 1,
         sv_state := ServerRunning \<rparr>)"
proof (cases "server_start_refused s")
  case True
  then have "\<exists>e. server_Start script s = (Inl e, s)"
    by (auto simp: server_Start_def server_start_refused_def)
  then show ?thesis
    using refused True by blast
next
  case False
  then have valid: "ValidateOptions (sv_has_handler s) (sv_options s) = None" "sv_workers s = []"
    and go: "\<not> (sv_state s \<noteq> ServerStopped \<or> sv_workers s \<noteq> [] \<or> sv_wait_in_progress s)"
    and stopped: "sv_live s = 0" "sv_executor s = None" "\<not> sv_work_guard s"
    using assms by (auto simp: server_start_refused_def)
  define s1 where "s1 = s\<lparr> sv_state := ServerStarting, sv_stop_requested := False, sv_drained := False, sv_running := 0,
     sv_bound_port := 0, sv_worker_error := None, sv_completion_started := False, sv_waited_first := False \<rparr>"
  obtain a where a: "PrepareAcceptor (st_net script) s1
        = (fst (PrepareAcceptor (st_net script) s1), s1\<lparr> sv_io_stopped := False, sv_acceptor := a \<rparr>)"
      "\<And>port. fst (PrepareAcceptor (st_net script) s1) = Inr port \<Longrightarrow> a = AcceptorListening (capped_backlog (sv_options s))"
    using PrepareAcceptor_cases [of "st_net script" s1] by (auto simp: s1_def)
  let ?fail = "\<lambda>e p n k guard. (Inl e :: string + u16, start_failing e ((server_starting s)\<lparr> sv_acceptor := a, sv_executor := p,
         sv_executor_number := n, sv_work_guard := guard, sv_running := k, sv_live := k, sv_workers := [0..<k] \<rparr>))"
  show ?thesis
  proof (cases "fst (PrepareAcceptor (st_net script) s1)")
    case (Inl e)
    have start: "server_Start script s = ?fail e None (sv_executor_number s) 0 False"
      unfolding server_Start_def s1_def [symmetric] using go valid stopped a(1)
      by (simp add: Let_def Inl) (simp add: start_failing_def server_starting_def s1_def)
    show ?thesis
      by (rule failing [OF False _ start]) simp
  next
    case (Inr port)
    then have a_listens: "a = AcceptorListening (capped_backlog (sv_options s))"
      by (rule a(2))
    have prep: "PrepareAcceptor (st_net script) s1 = (Inr port, s1\<lparr> sv_io_stopped := False, sv_acceptor := a \<rparr>)"
      using a(1) Inr by simp
    have same: "sv_options s1 = sv_options s" "sv_executor_number s1 = sv_executor_number s"
      by (simp_all add: s1_def)
    show ?thesis
    proof (cases "new_executor (op_handler_thread_count (sv_options s)) (of_nat (op_max_in_flight_requests (sv_options s))) :: string + 'a executor")
      case (Inl e)
      have start: "server_Start script s = ?fail e None (sv_executor_number s) 0 False"
        unfolding server_Start_def s1_def [symmetric] using go valid stopped
        by (simp add: Let_def prep Inl same) (simp add: start_failing_def server_starting_def s1_def)
      show ?thesis
        by (rule failing [OF False _ start]) simp
    next
      case executor: (Inr executor)
      define pool where "pool = snd (start_pool (st_executor_failure script) executor)"
      have fresh: "fresh_pool (sv_options s) pool"
        unfolding pool_def using executor by (rule start_pool_fresh)
      show ?thesis
      proof (cases "fst (start_pool (st_executor_failure script) executor)")
        case (Some e)
        have "start_pool (st_executor_failure script) executor = (Some e, pool)"
          by (simp add: pool_def prod_eq_iff Some)
        then have start: "server_Start script s = ?fail e (Some pool) (sv_executor_number s + 1) 0 False"
          unfolding server_Start_def s1_def [symmetric] using go valid stopped
          by (simp add: Let_def prep executor same) (simp add: start_failing_def server_starting_def s1_def)
        show ?thesis
          by (rule failing [OF False _ start]) (simp add: fresh)
      next
        case None
        then have pool: "start_pool (st_executor_failure script) executor = (None, pool)"
          by (simp add: pool_def prod_eq_iff)
        show ?thesis
        proof (cases "st_io_failure script")
          case None
          have "server_Start script s = (Inr port, (server_starting s)\<lparr> sv_acceptor := AcceptorListening (capped_backlog (sv_options s)),
             sv_executor := Some pool, sv_executor_number := sv_executor_number s + 1, sv_work_guard := True,
             sv_running := op_io_thread_count (sv_options s), sv_live := op_io_thread_count (sv_options s),
             sv_workers := [0..<op_io_thread_count (sv_options s)], sv_bound_port := port, sv_accepts := sv_accepts s + 1,
             sv_state := ServerRunning \<rparr>)"
            unfolding server_Start_def s1_def [symmetric] using go valid
            by (simp add: Let_def prep executor pool same start_io_threads_def None a_listens)
              (simp add: StartAccept_def server_starting_def s1_def)
          then show ?thesis
            using running False fresh by blast
        next
          case (Some failure)
          obtain k e where failure: "failure = (k, e)" by (cases failure)
          define k' where "k' = min k (op_io_thread_count (sv_options s) - 1)"
          have start: "server_Start script s = ?fail e (Some pool) (sv_executor_number s + 1) k' True"
            unfolding server_Start_def s1_def [symmetric] using go valid
            by (simp add: Let_def prep executor pool same start_io_threads_def Some failure)
              (simp add: start_failing_def server_starting_def s1_def k'_def)
          show ?thesis
            by (rule failing [OF False _ start]) (simp add: fresh)
        qed
      qed
    qed
  qed
qed

lemma valid_threads: "\<not> server_start_refused s \<Longrightarrow> 0 < op_io_thread_count (sv_options s)"
  by (auto simp: server_start_refused_def ValidateOptions_def split: if_splits)

lemma server_Start_life: "life_ok s \<Longrightarrow> life_ok (snd (server_Start script s))"
proof -
  assume ok: "life_ok s"
  then have "sv_state s = ServerStopped \<longrightarrow> sv_live s = 0 \<and> sv_executor s = None \<and> \<not> sv_work_guard s"
    by (simp add: life_ok_def)
  then show ?thesis
  proof (cases rule: server_Start_outcomes [where script = script])
    case (failing e a p n k guard)
    then have "sv_state s = ServerStopped" "\<not> sv_wait_in_progress s"
      by (auto simp: server_start_refused_def)
    with ok failing show ?thesis
      by (cases p) (auto simp: life_ok_def start_failing_def server_starting_def phase_of_def)
  next
    case (running p port)
    then have "sv_state s = ServerStopped" "\<not> sv_wait_in_progress s"
      by (auto simp: server_start_refused_def)
    with ok running valid_threads show ?thesis
      by (auto simp: life_ok_def server_starting_def)
  qed (use ok in simp)
qed

lemmas server_step_defs = start_failed_end_def request_stop_locked_def request_stop_rest_def wait_begin_def
  at_phase_def phase_of_def wait_executor_drained_def wait_post_def wait_finish_def accept_result_def
  accept_register_def RegisterSession_def accept_again_def StartAccept_def stop_on_io_def TryComplete_def
  shutdown_deadline_def ForceCloseSessions_def remove_session_def remove_session_rest_def RunIoContext_def
  CloseAcceptor_def commanding_def outputs_def post_def Let_def

lemma RunIoContext_life:
  assumes ok: "life_ok s" and live: "1 < sv_live s \<or> sv_live s = 1 \<and> sv_strand s = StrandFree \<and> sv_removing s = []"
  shows "life_ok (RunIoContext (Some e) (s\<lparr> sv_live := sv_live s - 1 \<rparr>))"
proof -
  have "sv_state s \<noteq> ServerStopped"
    using ok live by (auto simp: life_ok_def)
  moreover have "sv_running s = sv_live s" "sv_wait_in_progress s \<longleftrightarrow> is_Waiting (sv_owner s)"
    using ok by (simp_all add: life_ok_def)
  ultimately show ?thesis
    using ok live by (cases "sv_state s"; cases "sv_owner s") (auto simp: life_ok_def RunIoContext_def)
qed

lemma server_step_life: "server_step s t \<Longrightarrow> life_ok s \<Longrightarrow> life_ok t"
proof (induction rule: server_step.induct)
  case (start s script)
  then show ?case by (simp add: server_Start_life)
next
  case (start_failed s e)
  then show ?case by (simp add: life_ok_def server_step_defs)
next
  case (stop s)
  then show ?case
    by (cases "sv_state s"; cases "sv_owner s") (simp_all add: life_ok_def server_step_defs)
next
  case (stop_executor schedule s)
  then show ?case by (simp add: life_ok_def)
next
  case (stop_rest c s posted)
  then show ?case by (simp add: life_ok_def server_step_defs)
next
  case (wait s who)
  then show ?case
    by (cases "sv_state s"; cases "sv_owner s") (auto simp: life_ok_def server_step_defs)
next
  case (executor_wait s p this_thread threads e)
  then show ?case by (cases "sv_owner s") (auto simp: life_ok_def server_step_defs)
next
  case (executor_joined s p threads)
  then show ?case by (cases "sv_owner s") (auto simp: life_ok_def server_step_defs)
next
  case (executor_absent s)
  then show ?case by (cases "sv_owner s") (auto simp: life_ok_def server_step_defs)
next
  case (executor_runs s p q)
  then show ?case by (simp add: life_ok_def)
next
  case (wait_posts s posted)
  then show ?case by (auto simp: life_ok_def server_step_defs)
next
  case (wait_ends s)
  then show ?case by (auto simp: life_ok_def server_step_defs)
next
  case (accepted s err)
  then show ?case by (auto simp: life_ok_def server_step_defs io_runs_def split: option.splits accept_error.splits)
next
  case (registers s session)
  then show ?case by (auto simp: life_ok_def server_step_defs)
next
  case (accepts_again s)
  then show ?case by (auto simp: life_ok_def server_step_defs)
next
  case (stops_on_io s xs)
  then show ?case by (auto simp: life_ok_def server_step_defs io_runs_def)
next
  case (completes_posted s xs)
  then show ?case by (auto simp: life_ok_def server_step_defs io_runs_def)
next
  case (completes s)
  then show ?case by (auto simp: life_ok_def server_step_defs)
next
  case (deadline s terr)
  then show ?case by (auto simp: life_ok_def server_step_defs io_runs_def split: option.splits timer_error.splits)
next
  case (session_closes s session)
  then show ?case by (auto simp: life_ok_def server_step_defs)
next
  case (session_closed b s posted)
  then show ?case by (auto simp: life_ok_def server_step_defs)
next
  case (thread_ends s)
  then show ?case by (auto simp: life_ok_def server_step_defs thread_free_def)
next
  case (thread_throws s what)
  then show ?case by (intro RunIoContext_life) (simp_all add: thread_free_def)
next
  case (accept_throws s session what)
  have "life_ok (s\<lparr> sv_strand := StrandFree \<rparr>)"
    using accept_throws.prems by (simp add: life_ok_def)
  from RunIoContext_life [OF this, of what] accept_throws.hyps(2) show ?case
    by simp
qed

end
