(* ===== verification/ServerShutdown.thy ===== *)
theory ServerShutdown
  imports Server
begin

text \<open>
  The shutdown of \<open>HttpServer\<close>: what every step of the server keeps of its sessions, its executor and
  the completion of a stop, and that a shutdown in progress reaches its end in every run: \<open>server_effort\<close>
  bounds the steps it can still take, and where it can take none the server is stopped.
\<close>

section \<open>Sessions\<close>

definition sessions_ok :: "'a server \<Rightarrow> bool" where
  "sessions_ok s \<longleftrightarrow> distinct (sv_sessions s) \<and> length (sv_sessions s) \<le> op_max_connections (sv_options s)"

lemma life_stopped:
  "life_ok s \<Longrightarrow> sv_state s = ServerStopped \<longrightarrow> sv_live s = 0 \<and> sv_executor s = None \<and> \<not> sv_work_guard s"
  by (simp add: life_ok_def)

lemma server_Start_sessions:
  assumes "life_ok s"
  shows "sv_sessions (snd (server_Start script s)) = sv_sessions s"
    "sv_options (snd (server_Start script s)) = sv_options s"
    "sv_has_handler (snd (server_Start script s)) = sv_has_handler s"
  using life_stopped [OF assms]
  by (cases rule: server_Start_outcomes [where script = script]; simp add: start_failing_def server_starting_def)+

lemma server_step_options:
  "server_step s t \<Longrightarrow> life_ok s \<Longrightarrow> sv_options t = sv_options s \<and> sv_has_handler t = sv_has_handler s"
  by (induction rule: server_step.induct)
    (simp_all add: server_Start_sessions server_step_defs split: option.split owner.split accept_error.split timer_error.split)

lemma server_step_sessions: "server_step s t \<Longrightarrow> life_ok s \<Longrightarrow> sessions_ok s \<Longrightarrow> sessions_ok t"
proof (induction rule: server_step.induct)
  case (registers s session)
  then show ?case
    by (auto simp: sessions_ok_def server_step_defs List.insert_def)
next
  case (session_closes s session)
  then show ?case
    by (auto simp: sessions_ok_def server_step_defs distinct_removeAll intro: le_trans [OF length_removeAll_less_eq])
qed (simp_all add: sessions_ok_def server_Start_sessions server_step_defs
    split: option.split owner.split accept_error.split timer_error.split)

section \<open>The executor and the completion of a stop\<close>

definition drained_pool :: "'a pool \<Rightarrow> bool" where
  "drained_pool p \<longleftrightarrow> \<not> ex_accepting (po_executor p) \<and> ex_tasks (po_executor p) = [] \<and> busy_tasks p = []
     \<and> mset (po_ended p) = mset (po_accepted p)"

lemma pool_run_step: "pool_run p q \<Longrightarrow> pool_step p q \<and> po_joining q = po_joining p"
  by (induction rule: pool_run.induct)
    (auto intro: pool_step.worker pool_step.submit pool_step.refuse simp: worker_step_joining)

lemma pool_run_drained: "pool_run p q \<Longrightarrow> drained_pool p \<Longrightarrow> drained_pool q"
proof (induction rule: pool_run.induct)
  case (work p q)
  then have none: "ex_tasks (po_executor p) = []" "busy_tasks p = []"
    by (simp_all add: drained_pool_def)
  from work show ?case
  proof (induction rule: worker_step.induct)
    case (take i p t e)
    then show ?case by (simp add: worker_next_def drained_pool_def split: if_splits)
  next
    case (leave i p e)
    have "mset (concat (map busy_task ((po_threads p)[i := Gone]))) = mset (busy_tasks p)"
      using busy_tasks_update [of i p Idle Gone] leave.hyps by simp
    then have "busy_tasks (p\<lparr> po_threads := (po_threads p)[i := Gone] \<rparr>) = []"
      using leave.prems by (simp add: drained_pool_def busy_tasks_def [of "po_threads_update f p" for f])
    with leave.prems show ?case by (simp add: drained_pool_def)
  next
    case (finish i p t)
    then have "busy_tasks p \<noteq> []"
      using busy_tasks_update [of i p "Busy t" Idle] by auto
    with finish.prems show ?case by (simp add: drained_pool_def)
  qed
next
  case (submit t p e)
  then show ?case by (auto simp: TrySubmit_def drained_pool_def)
next
  case (refuse t p e)
  then show ?case by (auto simp: TrySubmit_def drained_pool_def split: if_splits)
qed

lemma stop_pool_reachable: "pool_reachable p \<Longrightarrow> pool_reachable (stop_pool p)"
  unfolding stop_pool_def by (rule pool_reachable.step [OF _ pool_step.stop])

lemma stop_pool_simps [simp]:
  "po_joining (stop_pool p) = po_joining p" "drained_pool p \<Longrightarrow> drained_pool (stop_pool p)"
  by (simp_all add: stop_pool_def drained_pool_def executor_RequestStop_def busy_tasks_def)

lemma joined_drained:
  assumes "pool_reachable p" and "po_joining p = Some threads" and "\<forall>i \<in> set threads. po_threads p ! i = Gone"
  shows "drained_pool (p\<lparr> po_executor := executor_wait_end (po_executor p), po_joining := None \<rparr>)"
    "pool_reachable (p\<lparr> po_executor := executor_wait_end (po_executor p), po_joining := None \<rparr>)"
proof -
  have ok: "counted p" "manned p"
    using pool_reachable_ok [OF assms(1)] by auto
  have "owned p = threads"
    using ok(2) assms(2) by (simp add: manned_def owned_def)
  then have "ex_tasks (po_executor p) = []" "busy_tasks p = []" "\<not> ex_accepting (po_executor p)"
    using not_manned_idle [OF ok(2)] assms(3) by simp_all
  then show "drained_pool (p\<lparr> po_executor := executor_wait_end (po_executor p), po_joining := None \<rparr>)"
    using ok(1) by (simp add: drained_pool_def counted_def executor_wait_end_def busy_tasks_def)
  show "pool_reachable (p\<lparr> po_executor := executor_wait_end (po_executor p), po_joining := None \<rparr>)"
    using assms by (intro pool_reachable.step [OF _ pool_step.wait_end])
qed

definition executor_ok :: "'a server \<Rightarrow> bool" where
  "executor_ok s \<longleftrightarrow>
     (\<forall>p. sv_executor s = Some p \<longrightarrow>
        pool_reachable p \<and> (po_joining p \<noteq> None \<longleftrightarrow> phase_of (sv_owner s) = Some JoiningExecutor))
     \<and> (sv_state s \<noteq> ServerStopped \<and> sv_drained s \<longrightarrow>
          (\<exists>p. sv_executor s = Some p \<and> drained_pool p) \<and> sv_owner s \<in> {Waiting AtPost, Waiting JoiningIo}
          \<and> (sv_waited_first s \<or> sv_stop_requested s))
     \<and> (sv_owner s \<in> {Waiting AtPost, Waiting JoiningIo} \<longrightarrow> sv_drained s)
     \<and> (sv_state s \<noteq> ServerStopped \<and> sv_completion_started s \<longrightarrow>
          sv_drained s \<and> \<not> sv_work_guard s \<and> (sv_waited_first s \<or> sv_sessions s = []))
     \<and> (sv_state s \<in> {ServerRunning, ServerStopping} \<and> \<not> is_StartFailing (sv_owner s) \<and> \<not> sv_io_stopped s
          \<and> \<not> sv_work_guard s \<longrightarrow> sv_completion_started s)"

lemma pool_wait_begins:
  assumes "pool_reachable p" and "po_joining p = None" and "executor_wait_begin this_thread (po_executor p) = (Inr threads, e)"
  shows "pool_reachable (p\<lparr> po_executor := e, po_joining := Some threads \<rparr>)"
  using assms by (intro pool_reachable.step [OF _ pool_step.wait_begin])

lemma server_Start_executor:
  assumes "life_ok s" and "executor_ok s"
  shows "executor_ok (snd (server_Start script s))"
  using life_stopped [OF assms(1)]
proof (cases rule: server_Start_outcomes [where script = script])
  case (failing e a p n k guard)
  then show ?thesis
    using stop_pool_fresh by (cases p) (auto simp: executor_ok_def start_failing_def server_starting_def phase_of_def fresh_pool_def)
next
  case (running p port)
  then have "\<not> sv_wait_in_progress s" "sv_state s = ServerStopped"
    by (auto simp: server_start_refused_def)
  with assms(1) have "sv_owner s = NoOwner"
    by (simp add: life_ok_def)
  with running show ?thesis
    by (auto simp: executor_ok_def server_starting_def phase_of_def fresh_pool_def)
qed (use assms in simp)

lemma executor_ok_frame:
  assumes "executor_ok s" and "sv_executor t = sv_executor s" and "sv_owner t = sv_owner s"
    and "sv_state t = sv_state s \<or> sv_state t = ServerStopping \<and> sv_state s \<noteq> ServerStopped"
    and "sv_drained t = sv_drained s" and "sv_waited_first t = sv_waited_first s"
    and "sv_stop_requested s \<longrightarrow> sv_stop_requested t"
    and "sv_completion_started t = sv_completion_started s" and "sv_sessions s = [] \<longrightarrow> sv_sessions t = []"
    and "sv_work_guard t = sv_work_guard s" and "sv_io_stopped s \<longrightarrow> sv_io_stopped t"
    and "sv_state t \<noteq> sv_state s \<longrightarrow> sv_io_stopped t \<or> sv_state s = ServerRunning \<or> is_StartFailing (sv_owner s)"
  shows "executor_ok t"
proof -
  have state: "sv_state t \<noteq> ServerStopped \<longrightarrow> sv_state s \<noteq> ServerStopped"
    "sv_state t \<in> {ServerRunning, ServerStopping} \<and> \<not> is_StartFailing (sv_owner t) \<and> \<not> sv_io_stopped t \<longrightarrow>
       sv_state s \<in> {ServerRunning, ServerStopping} \<and> \<not> sv_io_stopped s"
    using assms by auto
  show ?thesis
    using assms(1) state unfolding executor_ok_def assms(2,3,5,6,8,10) using assms(7,9) by blast
qed

lemma server_step_executor:
  "server_step s t \<Longrightarrow> life_ok s \<Longrightarrow> executor_ok s \<Longrightarrow> executor_ok t"
proof (induction rule: server_step.induct)
  case (start s script)
  then show ?case by (simp add: server_Start_executor)
next
  case (start_failed s e)
  then show ?case by (simp add: executor_ok_def server_step_defs)
next
  case (stop s)
  then show ?case
    by (intro executor_ok_frame [OF stop.prems(2)])
      (auto simp: server_step_defs life_ok_def intro: HttpServerState.exhaust [of "sv_state s"])
next
  case (stop_executor schedule s)
  then show ?case
    by (cases "sv_executor s") (auto simp: executor_ok_def stop_pool_reachable)
next
  case (stop_rest c s posted)
  let ?t = "s\<lparr> sv_executor := map_option stop_pool (sv_executor s) \<rparr>"
  have "executor_ok ?t"
    using stop_rest.prems by (cases "sv_executor s") (auto simp: executor_ok_def stop_pool_reachable)
  show ?case
  proof (cases "snd c = Some (sv_executor_number s)")
    case True
    then show ?thesis
      by (intro executor_ok_frame [OF \<open>executor_ok ?t\<close>]) (simp_all add: server_step_defs)
  next
    case False
    then show ?thesis
      by (intro executor_ok_frame [OF stop_rest.prems(2)]) (simp_all add: server_step_defs)
  qed
next
  case (wait s who)
  show ?case
  proof (cases "fst (wait_begin who s) = WaitTakesOver")
    case True
    then have "\<not> sv_wait_in_progress s" "sv_workers s \<noteq> []"
      by (auto simp: wait_begin_def split: if_splits)
    then have "sv_state s \<noteq> ServerStopped" "sv_owner s = NoOwner"
      using wait.prems(1) by (cases "sv_owner s"; simp add: life_ok_def)+
    then show ?thesis
      using True wait.prems by (auto simp: server_step_defs executor_ok_def life_ok_def split: if_splits)
  next
    case False
    then show ?thesis
      using wait.prems(2) by (simp add: wait_begin_def split: if_splits)
  qed
next
  case (executor_wait s p this_thread threads e)
  moreover from executor_wait have "pool_reachable p" "po_joining p = None"
    by (auto simp: executor_ok_def)
  ultimately show ?case
    using pool_wait_begins [of p this_thread threads e]
    by (cases "sv_owner s") (auto simp: executor_ok_def server_step_defs)
next
  case (executor_joined s p threads)
  moreover from executor_joined have "pool_reachable p"
    by (auto simp: executor_ok_def)
  ultimately show ?case
    using joined_drained [of p threads]
    by (cases "sv_owner s") (auto simp: executor_ok_def server_step_defs)
next
  case (executor_absent s)
  then show ?case
    by (cases "sv_owner s") (auto simp: executor_ok_def life_ok_def server_step_defs)
next
  case (executor_runs s p q)
  moreover from executor_runs have "pool_reachable q" "po_joining q = po_joining p"
    using pool_run_step [of p q] pool_reachable.step by (auto simp: executor_ok_def)
  ultimately show ?case
    using pool_run_drained [of p q] by (auto simp: executor_ok_def)
next
  case (wait_posts s posted)
  then show ?case
    by (auto simp: executor_ok_def server_step_defs)
next
  case (wait_ends s)
  then show ?case
    by (auto simp: executor_ok_def server_step_defs)
next
  case (accepted s err)
  show ?case
    by (rule executor_ok_frame [OF accepted.prems(2)])
      (simp_all add: server_step_defs split: option.split accept_error.split)
next
  case (registers s session)
  show ?case
  proof (cases "sv_stop_requested s")
    case True
    then show ?thesis
      by (intro executor_ok_frame [OF registers.prems(2)]) (simp_all add: server_step_defs)
  next
    case False
    then show ?thesis
      using registers.prems(2) by (auto simp: executor_ok_def server_step_defs)
  qed
next
  case (accepts_again s)
  show ?case
    by (rule executor_ok_frame [OF accepts_again.prems(2)]) (simp_all add: server_step_defs)
next
  case (stops_on_io s xs)
  show ?case
    by (rule executor_ok_frame [OF stops_on_io.prems(2)]) (simp_all add: server_step_defs)
next
  case (completes_posted s xs)
  then show ?case
    by (auto simp: executor_ok_def server_step_defs)
next
  case (completes s)
  then show ?case
    by (auto simp: executor_ok_def server_step_defs)
next
  case (deadline s terr)
  show ?case
    by (rule executor_ok_frame [OF deadline.prems(2)])
      (simp_all add: server_step_defs split: option.split timer_error.split)
next
  case (session_closes s session)
  show ?case
    by (rule executor_ok_frame [OF session_closes.prems(2)]) (simp_all add: server_step_defs)
next
  case (session_closed b s posted)
  show ?case
    by (rule executor_ok_frame [OF session_closed.prems(2)]) (simp_all add: server_step_defs)
next
  case (thread_ends s)
  show ?case
    by (rule executor_ok_frame [OF thread_ends.prems(2)]) (simp_all add: server_step_defs)
next
  case (thread_throws s what)
  show ?case
    by (rule executor_ok_frame [OF thread_throws.prems(2)]) (simp_all add: server_step_defs)
next
  case (accept_throws s session what)
  show ?case
    by (rule executor_ok_frame [OF accept_throws.prems(2)]) (simp_all add: server_step_defs)
qed

text \<open>
  The completion of a stop is not lost: while \<open>Wait\<close> joins the I/O threads and no session is left,
  someone is about to look again.
\<close>

definition calm_ok :: "'a server \<Rightarrow> bool" where
  "calm_ok s \<longleftrightarrow>
     (sv_owner s = Waiting JoiningIo \<and> sv_stop_requested s \<and> \<not> sv_io_stopped s \<and> \<not> sv_completion_started s
        \<and> sv_sessions s = [] \<longrightarrow>
      sv_posts s \<noteq> [] \<or> True \<in> set (map fst (sv_calls s)) \<or> sv_strand s = CompleteNext \<or> True \<in> set (sv_removing s))"

lemma calm_ok_frame:
  assumes "calm_ok s" and "sv_owner t = sv_owner s" and "sv_stop_requested t = sv_stop_requested s"
    and "sv_io_stopped s \<longrightarrow> sv_io_stopped t" and "sv_completion_started t = sv_completion_started s"
    and "sv_sessions t = [] \<longrightarrow> sv_sessions s = []" and "sv_posts s \<noteq> [] \<longrightarrow> sv_posts t \<noteq> []"
    and "sv_calls t = sv_calls s" and "sv_strand s = CompleteNext \<longrightarrow> sv_strand t = CompleteNext"
    and "sv_removing t = sv_removing s"
  shows "calm_ok t"
  using assms(1,4,6,7,9) unfolding calm_ok_def assms(2,3,5,8,10) by blast

lemma true_remains: "True \<in> set xs \<Longrightarrow> b \<noteq> True \<Longrightarrow> True \<in> set (remove1 b xs)"
  by (simp add: in_set_remove1)

lemma call_remains: "True \<in> set (map fst xs) \<Longrightarrow> \<not> fst c \<Longrightarrow> True \<in> set (map fst (remove1 c xs))"
proof -
  assume "True \<in> set (map fst xs)" "\<not> fst c"
  then obtain x where "x \<in> set xs" "fst x" "x \<noteq> c" by auto
  then have "x \<in> set (remove1 c xs)" by simp
  with \<open>fst x\<close> show ?thesis by force
qed

lemma server_step_calm:
  "server_step s t \<Longrightarrow> life_ok s \<Longrightarrow> executor_ok s \<Longrightarrow> calm_ok s \<Longrightarrow> calm_ok t"
proof (induction rule: server_step.induct)
  case (start s script)
  from life_stopped [OF start.prems(1)] show ?case
  proof (cases rule: server_Start_outcomes [where script = script])
    case (failing e a p n k guard)
    then show ?thesis by (simp add: calm_ok_def start_failing_def)
  next
    case (running p port)
    then have "sv_state s = ServerStopped" by (simp add: server_start_refused_def)
    with start.prems running show ?thesis by (simp add: calm_ok_def server_starting_def life_ok_def)
  qed (use start in simp)
next
  case (start_failed s e)
  then show ?case by (simp add: calm_ok_def server_step_defs)
next
  case (stop s)
  show ?case
  proof (cases "sv_state s = ServerStopping")
    case True
    then have "sv_stop_requested s"
      using stop.prems(1) by (simp add: life_ok_def)
    with True stop.prems(3) show ?thesis
      by (auto simp: calm_ok_def server_step_defs)
  next
    case False
    with stop.prems(3) show ?thesis
      by (auto simp: calm_ok_def server_step_defs)
  qed
next
  case (stop_executor schedule s)
  show ?case by (rule calm_ok_frame [OF stop_executor.prems(3)]) simp_all
next
  case (stop_rest c s posted)
  then show ?case
    using call_remains [of "sv_calls s" c]
    by (cases "fst c") (auto simp: calm_ok_def server_step_defs)
next
  case (wait s who)
  then show ?case
    by (auto simp: calm_ok_def server_step_defs)
next
  case (executor_wait s p this_thread threads e)
  then show ?case
    by (cases "sv_owner s") (auto simp: calm_ok_def server_step_defs)
next
  case (executor_joined s p threads)
  then show ?case
    by (cases "sv_owner s") (auto simp: calm_ok_def server_step_defs)
next
  case (executor_absent s)
  then show ?case
    by (cases "sv_owner s") (auto simp: calm_ok_def server_step_defs)
next
  case (executor_runs s p q)
  show ?case by (rule calm_ok_frame [OF executor_runs.prems(3)]) simp_all
next
  case (wait_posts s posted)
  then show ?case by (simp add: calm_ok_def server_step_defs)
next
  case (wait_ends s)
  then show ?case by (simp add: calm_ok_def server_step_defs)
next
  case (accepted s err)
  then show ?case
    by (intro calm_ok_frame [OF accepted.prems(3)])
      (simp_all add: server_step_defs split: option.split accept_error.split)
next
  case (registers s session)
  then show ?case
    by (intro calm_ok_frame [OF registers.prems(3)]) (simp_all add: server_step_defs List.insert_def)
next
  case (accepts_again s)
  then show ?case
    by (intro calm_ok_frame [OF accepts_again.prems(3)]) (simp_all add: server_step_defs)
next
  case (stops_on_io s xs)
  then show ?case by (simp add: calm_ok_def server_step_defs)
next
  case (completes_posted s xs)
  then show ?case by (auto simp: calm_ok_def executor_ok_def server_step_defs)
next
  case (completes s)
  then show ?case by (auto simp: calm_ok_def executor_ok_def server_step_defs)
next
  case (deadline s terr)
  then show ?case
    by (intro calm_ok_frame [OF deadline.prems(3)])
      (simp_all add: server_step_defs split: option.split timer_error.split)
next
  case (session_closes s session)
  then show ?case by (auto simp: calm_ok_def server_step_defs)
next
  case (session_closed b s posted)
  then show ?case
    using true_remains [of "sv_removing s" b] by (cases b) (auto simp: calm_ok_def executor_ok_def server_step_defs)
next
  case (thread_ends s)
  then show ?case by (simp add: calm_ok_def server_step_defs)
next
  case (thread_throws s what)
  then show ?case by (simp add: calm_ok_def server_step_defs)
next
  case (accept_throws s session what)
  then show ?case by (simp add: calm_ok_def server_step_defs)
qed

lemma pool_step_capacity: "pool_step p q \<Longrightarrow> ex_capacity (po_executor q) = ex_capacity (po_executor p)"
proof (induction rule: pool_step.induct)
  case (worker p q)
  then show ?case
    by (induction rule: worker_step.induct) (auto simp: worker_next_def worker_done_def split: list.splits if_splits)
qed (auto simp: executor_Start_def TrySubmit_def executor_RequestStop_def executor_wait_begin_def executor_wait_end_def
    Let_def split: if_splits)

definition capacity_ok :: "'a server \<Rightarrow> bool" where
  "capacity_ok s \<longleftrightarrow> (\<forall>p. sv_executor s = Some p \<longrightarrow>
     ex_capacity (po_executor p) = of_nat (op_max_in_flight_requests (sv_options s)))"

lemma server_step_capacity: "server_step s t \<Longrightarrow> life_ok s \<Longrightarrow> capacity_ok s \<Longrightarrow> capacity_ok t"
proof (induction rule: server_step.induct)
  case (start s script)
  from life_stopped [OF start.prems(1)] show ?case
  proof (cases rule: server_Start_outcomes [where script = script])
    case (failing e a p n k guard)
    then show ?thesis
      using stop_pool_fresh [of "sv_options s"]
      by (cases p) (auto simp: capacity_ok_def start_failing_def server_starting_def fresh_pool_def)
  next
    case (running p port)
    then show ?thesis by (simp add: capacity_ok_def server_starting_def fresh_pool_def)
  qed (use start in simp)
next
  case (stop_executor schedule s)
  then show ?case by (auto simp: capacity_ok_def stop_pool_def executor_RequestStop_def)
next
  case (stop_rest c s posted)
  then show ?case by (auto simp: capacity_ok_def server_step_defs stop_pool_def executor_RequestStop_def)
next
  case (executor_wait s p this_thread threads e)
  then show ?case by (auto simp: capacity_ok_def executor_wait_begin_def executor_RequestStop_def Let_def split: if_splits)
next
  case (executor_joined s p threads)
  then show ?case
    by (cases "sv_owner s") (auto simp: capacity_ok_def wait_executor_drained_def executor_wait_end_def)
next
  case (executor_runs s p q)
  then show ?case
    using pool_run_step [of p q] pool_step_capacity [of p q] by (simp add: capacity_ok_def)
qed (simp_all add: capacity_ok_def server_step_defs split: option.split owner.split accept_error.split timer_error.split)

definition server_ok :: "HttpServerOptions \<Rightarrow> bool \<Rightarrow> 'a server \<Rightarrow> bool" where
  "server_ok options has_handler s \<longleftrightarrow> sv_options s = options \<and> sv_has_handler s = has_handler \<and> life_ok s \<and> sessions_ok s \<and> executor_ok s \<and> calm_ok s \<and> capacity_ok s"

lemma server_reachable_ok: "server_reachable options has_handler s \<Longrightarrow> server_ok options has_handler s"
proof (induction rule: server_reachable.induct)
  case init
  then show ?case
    by (simp add: server_ok_def new_server_def life_ok_def sessions_ok_def executor_ok_def calm_ok_def capacity_ok_def
        phase_of_def)
next
  case (step s t)
  then show ?case
    unfolding server_ok_def
    using server_step_options [of s t] server_step_life [of s t] server_step_sessions [of s t]
      server_step_executor [of s t] server_step_calm [of s t] server_step_capacity [of s t]
    by simp
qed

lemma in_flight_bounded:
  assumes "server_ok options has_handler s"
  shows "InFlightRequestCount s \<le> op_max_in_flight_requests options"
proof (cases "sv_executor s")
  case (Some p)
  then have p: "pool_reachable p" "ex_capacity (po_executor p) = of_nat (op_max_in_flight_requests options)"
    using assms by (auto simp: server_ok_def executor_ok_def capacity_ok_def)
  then have "ex_in_flight (po_executor p) \<le> of_nat (op_max_in_flight_requests options)"
    using pool_reachable_ok [OF p(1)] by (simp add: counted_def)
  then have "unat (ex_in_flight (po_executor p)) \<le> unat (of_nat (op_max_in_flight_requests options) :: u64)"
    by (simp add: word_le_nat_alt)
  also have "\<dots> \<le> op_max_in_flight_requests options"
    by (simp add: unat_of_nat)
  finally show ?thesis
    by (simp add: InFlightRequestCount_def InFlightCount_def Some)
qed (simp add: InFlightRequestCount_def)

section \<open>Reaching the end\<close>

text \<open>
  The steps a shutdown takes by itself: those of the callers that are inside \<open>RequestStop\<close>,
  \<open>RemoveSession\<close>, \<open>Wait\<close> or a failed \<open>Start\<close>, of the executor's threads, of the I/O threads, and the
  close of a registered session. Left out are new calls and sessions that submit more work. With
  \<open>faults\<close> threads may throw and posts may fail; without, a session's close, a task and a handler
  simply come to their end.
\<close>

inductive shutdown_step :: "bool \<Rightarrow> 'a server \<Rightarrow> 'a server \<Rightarrow> bool" for faults :: bool where
  stop_rest: "shutdown_step faults s (request_stop_rest posted c (s\<lparr> sv_calls := remove1 c (sv_calls s) \<rparr>))"
    if "c \<in> set (sv_calls s)" and "posted \<or> faults"
| executor_wait: "shutdown_step faults s (s\<lparr> sv_executor := Some (p\<lparr> po_executor := e, po_joining := Some threads \<rparr>),
      sv_owner := at_phase JoiningExecutor (sv_owner s) \<rparr>)"
    if "phase_of (sv_owner s) = Some AtExecutor" and "sv_executor s = Some p"
      and "executor_wait_begin this_thread (po_executor p) = (Inr threads, e)"
| executor_joined: "shutdown_step faults s (wait_executor_drained
      (s\<lparr> sv_executor := Some (p\<lparr> po_executor := executor_wait_end (po_executor p), po_joining := None \<rparr>) \<rparr>))"
    if "phase_of (sv_owner s) = Some JoiningExecutor" and "sv_executor s = Some p" and "po_joining p = Some threads"
      and "\<forall>i \<in> set threads. po_threads p ! i = Gone"
| executor_works: "shutdown_step faults s (s\<lparr> sv_executor := Some q \<rparr>)"
    if "sv_executor s = Some p" and "worker_step p q"
| wait_posts: "shutdown_step faults s (wait_post posted s)"
    if "sv_owner s = Waiting AtPost" and "posted \<or> faults"
| wait_ends: "shutdown_step faults s (snd (wait_finish s))"
    if "sv_owner s = Waiting JoiningIo" and "sv_live s = 0"
| start_failed: "shutdown_step faults s (start_failed_end s)"
    if "sv_owner s = StartFailing e JoiningIo" and "sv_live s = 0"
| accepted: "shutdown_step faults s (accept_result err (s\<lparr> sv_accepts := sv_accepts s - 1 \<rparr>))"
    if "io_runs s" and "sv_strand s = StrandFree" and "0 < sv_accepts s"
| registers: "shutdown_step faults s (accept_register session s)"
    if "sv_strand s = AcceptRegister session"
| accepts_again: "shutdown_step faults s (accept_again s)"
    if "sv_strand s = AcceptAgain"
| stops_on_io: "shutdown_step faults s (stop_on_io (s\<lparr> sv_posts := xs \<rparr>))"
    if "io_runs s" and "sv_strand s = StrandFree" and "sv_posts s = PostStop # xs"
| completes_posted: "shutdown_step faults s (TryComplete (s\<lparr> sv_posts := xs \<rparr>))"
    if "io_runs s" and "sv_strand s = StrandFree" and "sv_posts s = PostComplete # xs"
| completes: "shutdown_step faults s (TryComplete (s\<lparr> sv_strand := StrandFree \<rparr>))"
    if "sv_strand s = CompleteNext"
| deadline: "shutdown_step faults s (shutdown_deadline terr (s\<lparr> sv_timer := False \<rparr>))"
    if "io_runs s" and "sv_strand s = StrandFree" and "sv_timer s"
| session_closes: "shutdown_step faults s (remove_session session s)"
    if "0 < sv_live s" and "session \<in> set (sv_sessions s)"
| session_closed: "shutdown_step faults s (remove_session_rest posted b (s\<lparr> sv_removing := remove1 b (sv_removing s) \<rparr>))"
    if "b \<in> set (sv_removing s)" and "posted \<or> faults"
| thread_ends: "shutdown_step faults s (RunIoContext None (s\<lparr> sv_live := sv_live s - 1, sv_io_stopped := True \<rparr>))"
    if "thread_free s" and "sv_io_stopped s \<or> out_of_work s"
| thread_throws: "shutdown_step faults s (RunIoContext (Some what) (s\<lparr> sv_live := sv_live s - 1 \<rparr>))"
    if "faults" and "thread_free s"
| accept_throws: "shutdown_step faults s (RunIoContext (Some what) (s\<lparr> sv_strand := StrandFree, sv_live := sv_live s - 1 \<rparr>))"
    if "faults" and "sv_strand s = AcceptRegister session \<or> sv_strand s = AcceptAgain"
      and "1 < sv_live s \<or> sv_live s = 1 \<and> sv_removing s = []"

lemma shutdown_step_server: "shutdown_step faults s t \<Longrightarrow> server_step s t"
  by (induction rule: shutdown_step.induct) (assumption | rule server_step.intros pool_run.work)+

lemma shutdown_step_faults: "shutdown_step False s t \<Longrightarrow> shutdown_step True s t"
  by (induction rule: shutdown_step.induct)
    (assumption | rule shutdown_step.intros disjI2 TrueI | erule FalseE)+

lemma shutdown_steps_reachable:
  "(shutdown_step faults)\<^sup>*\<^sup>* s t \<Longrightarrow> server_reachable options has_handler s \<Longrightarrow> server_reachable options has_handler t"
  by (induction rule: rtranclp_induct) (auto intro: server_reachable.step shutdown_step_server)

text \<open>What is left to do, each item weighing more than what it leaves behind.\<close>

fun strand_effort :: "strand \<Rightarrow> nat" where
  "strand_effort StrandFree = 0"
| "strand_effort (AcceptRegister _) = 3"
| "strand_effort AcceptAgain = 1"
| "strand_effort CompleteNext = 2"

fun phase_effort :: "phase option \<Rightarrow> nat" where
  "phase_effort None = 0"
| "phase_effort (Some AtExecutor) = 10"
| "phase_effort (Some JoiningExecutor) = 9"
| "phase_effort (Some AtPost) = 8"
| "phase_effort (Some JoiningIo) = 1"

definition pool_effort :: "'a pool option \<Rightarrow> nat" where
  "pool_effort x = (case x of None \<Rightarrow> 0 | Some p \<Rightarrow> effort p)"

definition server_effort :: "'a server \<Rightarrow> nat" where
  "server_effort s = 9 * length (sv_sessions s) + 7 * length (sv_removing s) + 7 * length (sv_calls s)
     + 6 * length (sv_posts s) + 4 * sv_accepts s + (if sv_timer s then 3 else 0) + strand_effort (sv_strand s)
     + sv_live s + pool_effort (sv_executor s) + phase_effort (phase_of (sv_owner s))"

lemma remove1_shorter: "x \<in> set xs \<Longrightarrow> Suc (length (remove1 x xs)) = length xs"
  by (simp add: length_remove1) (cases xs; simp)

lemma removeAll_shorter: "x \<in> set xs \<Longrightarrow> Suc (length (removeAll x xs)) \<le> length xs"
  using length_removeAll_less [of x xs] by simp

lemma pool_effort_simps [simp]:
  "pool_effort None = 0" "pool_effort (Some p) = effort p"
  "pool_effort (map_option stop_pool x) = pool_effort x"
  by (auto simp: pool_effort_def effort_def stop_pool_def executor_RequestStop_def split: option.split)

lemma effort_of_wait:
  "executor_wait_begin this_thread (po_executor p) = (Inr threads, e) \<Longrightarrow> effort (p\<lparr> po_executor := e, po_joining := j \<rparr>) = effort p"
  "effort (p\<lparr> po_executor := executor_wait_end (po_executor p), po_joining := j \<rparr>) \<le> effort p"
  by (auto simp: effort_def executor_wait_begin_def executor_RequestStop_def executor_wait_end_def Let_def split: if_splits)

lemma shutdown_step_effort:
  "shutdown_step faults s t \<Longrightarrow> sv_stop_requested s \<Longrightarrow> server_effort t < server_effort s \<and> sv_stop_requested t"
proof (induction rule: shutdown_step.induct)
  case (stop_rest c s posted)
  then show ?case
    using remove1_shorter [OF stop_rest.hyps(1)] by (auto simp: server_effort_def request_stop_rest_def post_def Let_def)
next
  case (executor_wait s p this_thread threads e)
  then show ?case
    using effort_of_wait(1) [OF executor_wait.hyps(3)]
    by (cases "sv_owner s") (auto simp: server_effort_def at_phase_def phase_of_def)
next
  case (executor_joined s p threads)
  then show ?case
    using effort_of_wait(2) [of None p]
    by (cases "sv_owner s") (auto simp: server_effort_def wait_executor_drained_def phase_of_def)
next
  case (executor_works s p q)
  then show ?case
    using worker_step_effort by (auto simp: server_effort_def)
next
  case (session_closes s session)
  then show ?case
    using removeAll_shorter [OF session_closes.hyps(2)] by (auto simp: server_effort_def remove_session_def Let_def)
next
  case (session_closed b s posted)
  then show ?case
    using remove1_shorter [OF session_closed.hyps(1)] by (auto simp: server_effort_def remove_session_rest_def post_def)
next
  case (wait_ends s)
  then show ?case
    by (auto simp: server_effort_def wait_finish_def CloseAcceptor_def phase_of_def Let_def)
qed (auto simp: server_effort_def wait_post_def post_def start_failed_end_def CloseAcceptor_def phase_of_def
    accept_result_def accept_register_def RegisterSession_def commanding_def outputs_def accept_again_def
    stop_on_io_def TryComplete_def shutdown_deadline_def ForceCloseSessions_def RunIoContext_def thread_free_def Let_def
    split: option.split accept_error.split timer_error.split)

lemma shutdown_steps_bounded:
  "(shutdown_step faults ^^ n) s t \<Longrightarrow> sv_stop_requested s \<Longrightarrow> n + server_effort t \<le> server_effort s \<and> sv_stop_requested t"
proof (induction n arbitrary: t)
  case (Suc n)
  then obtain u where "(shutdown_step faults ^^ n) s u" "shutdown_step faults u t" by auto
  with Suc.IH [of u] Suc.prems(2) shutdown_step_effort [of faults u t] show ?case by auto
qed auto

text \<open>As long as someone takes the server down, a step is possible, also without a fault.\<close>

lemma progress_executor:
  assumes ok: "server_ok options has_handler s" and ph: "phase_of (sv_owner s) = Some AtExecutor \<or> phase_of (sv_owner s) = Some JoiningExecutor"
  shows "\<exists>t. shutdown_step faults s t"
proof -
  obtain p where p: "sv_executor s = Some p" "pool_reachable p"
    "po_joining p \<noteq> None \<longleftrightarrow> phase_of (sv_owner s) = Some JoiningExecutor"
    using ok ph by (cases "sv_owner s") (auto simp: server_ok_def life_ok_def executor_ok_def phase_of_def)
  from ph show ?thesis
  proof
    assume at: "phase_of (sv_owner s) = Some AtExecutor"
    obtain this_thread where "this_thread \<notin> set (ex_workers (po_executor p))"
      using ex_new_if_finite [of "set (ex_workers (po_executor p))"] infinite_UNIV_nat by auto
    then have "\<exists>e. executor_wait_begin this_thread (po_executor p) = (Inr (ex_workers (po_executor p)), e)"
      by (simp add: executor_wait_begin_def executor_RequestStop_def Let_def)
    with shutdown_step.executor_wait [OF at p(1)] show ?thesis by blast
  next
    assume at: "phase_of (sv_owner s) = Some JoiningExecutor"
    then obtain threads where threads: "po_joining p = Some threads"
      using p(3) by auto
    show ?thesis
    proof (cases "\<forall>i \<in> set threads. po_threads p ! i = Gone")
      case True
      with shutdown_step.executor_joined [OF at p(1) threads] show ?thesis by blast
    next
      case False
      then obtain q where "worker_step p q"
        using joining_progress [OF p(2) threads] by blast
      with shutdown_step.executor_works [OF p(1)] show ?thesis by blast
    qed
  qed
qed

lemma progress_joining:
  assumes ok: "server_ok options has_handler s" and stop: "sv_stop_requested s"
    and ph: "phase_of (sv_owner s) = Some JoiningIo"
  shows "\<exists>t. shutdown_step faults s t"
proof (cases "sv_strand s \<noteq> StrandFree \<or> sv_removing s \<noteq> [] \<or> sv_calls s \<noteq> [] \<or> sv_live s = 0")
  case True
  have "\<exists>t. shutdown_step faults s t" if "sv_live s = 0"
    using that ph shutdown_step.wait_ends [of s] shutdown_step.start_failed [of s]
    by (cases "sv_owner s") (auto simp: phase_of_def)
  moreover have "\<exists>t. shutdown_step faults s t" if "sv_strand s \<noteq> StrandFree"
    using that by (cases "sv_strand s") (auto intro: shutdown_step.intros)
  moreover have "\<exists>t. shutdown_step faults s t" if "sv_removing s \<noteq> []"
    using that shutdown_step.session_closed [of "hd (sv_removing s)" s True] by auto
  moreover have "\<exists>t. shutdown_step faults s t" if "sv_calls s \<noteq> []"
    using that shutdown_step.stop_rest [of "hd (sv_calls s)" s True] by auto
  ultimately show ?thesis
    using True by metis
next
  case quiet: False
  then have "thread_free s"
    by (auto simp: thread_free_def)
  then have ends: "\<exists>t. shutdown_step faults s t" if "sv_io_stopped s \<or> out_of_work s"
    using shutdown_step.thread_ends [OF _ that] by blast
  show ?thesis
  proof (cases "sv_io_stopped s")
    case False
    then have waits: "sv_owner s = Waiting JoiningIo"
      using ok ph by (cases "sv_owner s") (auto simp: server_ok_def life_ok_def phase_of_def)
    then have state: "sv_state s \<noteq> ServerStopped"
      using ok by (auto simp: server_ok_def life_ok_def)
    have runs: "io_runs s" "sv_strand s = StrandFree"
      using False quiet by (auto simp: io_runs_def)
    show ?thesis
    proof (cases "sv_sessions s \<noteq> [] \<or> sv_posts s \<noteq> [] \<or> 0 < sv_accepts s \<or> sv_timer s")
      case True
      have "\<exists>t. shutdown_step faults s t" if "sv_sessions s \<noteq> []"
        using that quiet shutdown_step.session_closes [of s "hd (sv_sessions s)"] by auto
      moreover have "\<exists>t. shutdown_step faults s t" if "sv_posts s = x # xs" for x xs
        using that shutdown_step.stops_on_io [OF runs] shutdown_step.completes_posted [OF runs] by (cases x) blast+
      moreover have "\<exists>t. shutdown_step faults s t" if "0 < sv_accepts s"
        using shutdown_step.accepted [OF runs that] by blast
      moreover have "\<exists>t. shutdown_step faults s t" if "sv_timer s"
        using shutdown_step.deadline [OF runs that] by blast
      ultimately show ?thesis
        using True by (metis neq_Nil_conv)
    next
      case idle: False
      with False have "sv_completion_started s"
        using ok waits quiet stop by (auto simp: server_ok_def calm_ok_def)
      then have "\<not> sv_work_guard s"
        using ok state by (simp add: server_ok_def executor_ok_def)
      then have "out_of_work s"
        using idle by (simp add: out_of_work_def)
      then show ?thesis using ends by blast
    qed
  qed (use ends in blast)
qed

lemma shutdown_progress:
  assumes ok: "server_ok options has_handler s" and stop: "sv_stop_requested s" and owner: "sv_owner s \<noteq> NoOwner"
  shows "\<exists>t. shutdown_step faults s t"
proof (cases "phase_of (sv_owner s)")
  case None
  with owner show ?thesis by (cases "sv_owner s") (simp_all add: phase_of_def)
next
  case (Some ph)
  show ?thesis
  proof (cases ph)
    case AtPost
    then have "sv_owner s = Waiting AtPost"
      using ok Some by (cases "sv_owner s") (auto simp: server_ok_def life_ok_def phase_of_def)
    with shutdown_step.wait_posts [of s True] show ?thesis by blast
  qed (use Some progress_executor [OF ok] progress_joining [OF ok stop] in auto)
qed

text \<open>What a shutdown keeps until it is over, and has reached then.\<close>

definition shutting_down :: "bool \<Rightarrow> 'a server \<Rightarrow> bool" where
  "shutting_down faults s \<longleftrightarrow>
     (is_Waiting (sv_owner s) \<or> sv_state s = ServerStopped \<and> sv_owner s = NoOwner \<and> sv_sessions s = [])
     \<and> (faults \<or> (sv_io_stopped s \<or> sv_state s = ServerStopped \<longrightarrow> sv_completion_started s))"

lemma shutdown_step_keeps:
  "shutdown_step faults s t \<Longrightarrow> server_ok options has_handler s \<Longrightarrow> sv_stop_requested s \<Longrightarrow> shutting_down faults s \<Longrightarrow>
     shutting_down faults t \<and> (faults \<or> sv_worker_error t = sv_worker_error s)"
proof (induction rule: shutdown_step.induct)
  case (thread_ends s)
  then have "0 < sv_live s" by (auto simp: thread_free_def)
  then have "is_Waiting (sv_owner s)" "sv_state s \<noteq> ServerStopped"
    using thread_ends.prems by (auto simp: shutting_down_def server_ok_def life_ok_def)
  moreover from this have "sv_state s \<in> {ServerRunning, ServerStopping} \<and> \<not> is_StartFailing (sv_owner s)"
    using thread_ends.prems(1) by (cases "sv_owner s") (auto simp: server_ok_def life_ok_def)
  then have "out_of_work s \<and> \<not> sv_io_stopped s \<longrightarrow> sv_completion_started s"
    using thread_ends.prems(1) by (auto simp: server_ok_def executor_ok_def out_of_work_def)
  ultimately show ?case
    using thread_ends.prems(3) thread_ends.hyps(2) by (auto simp: shutting_down_def RunIoContext_def Let_def)
next
  case (wait_ends s)
  then have "sv_io_stopped s"
    by (auto simp: server_ok_def life_ok_def)
  with wait_ends show ?case
    by (auto simp: shutting_down_def wait_finish_def CloseAcceptor_def Let_def)
next
  case (registers s session)
  then show ?case
    by (auto simp: shutting_down_def accept_register_def RegisterSession_def commanding_def)
next
  case (executor_wait s p this_thread threads e)
  then show ?case
    by (cases "sv_owner s") (auto simp: shutting_down_def at_phase_def)
next
  case (executor_joined s p threads)
  then show ?case
    by (cases "sv_owner s") (auto simp: shutting_down_def wait_executor_drained_def)
next
  case (thread_throws s what)
  then show ?case
    by (auto simp: shutting_down_def RunIoContext_def Let_def)
next
  case (accept_throws s session what)
  then show ?case
    by (auto simp: shutting_down_def RunIoContext_def Let_def)
next
  case (start_failed s e)
  then show ?case
    by (auto simp: shutting_down_def server_ok_def life_ok_def)
qed (auto simp: shutting_down_def request_stop_rest_def wait_post_def post_def accept_result_def outputs_def accept_again_def
    StartAccept_def stop_on_io_def commanding_def CloseAcceptor_def TryComplete_def shutdown_deadline_def
    ForceCloseSessions_def remove_session_def remove_session_rest_def Let_def
    split: option.split accept_error.split timer_error.split)

lemma shutdown_steps_keep:
  assumes "(shutdown_step faults)\<^sup>*\<^sup>* s t" and "server_reachable options has_handler s" and "sv_stop_requested s"
    and "shutting_down faults s"
  shows "shutting_down faults t \<and> sv_stop_requested t \<and> (faults \<or> sv_worker_error t = sv_worker_error s)"
  using assms(1)
proof (induction rule: rtranclp_induct)
  case (step t u)
  have "server_ok options has_handler t"
    using server_reachable_ok [OF shutdown_steps_reachable [OF step.hyps(1) assms(2)]] .
  then show ?case
    using shutdown_step_keeps [OF step.hyps(2)] shutdown_step_effort [OF step.hyps(2)] step.IH by auto
qed (use assms in simp)

section \<open>The properties of the server\<close>

text \<open>C18. At every moment no more connections are registered and no more requests are in flight than
  the options allow; a stopped server has no thread, no executor, no port and a closed acceptor; a
  running one has not been asked to stop and a stopping one has; \<open>running_io_workers_\<close> counts the I/O
  threads that have not ended, and a wait is in progress while one caller joins them.\<close>

theorem server_bounds_and_lifecycle:
  assumes "server_reachable options has_handler s"
  shows "ActiveSessionCount s \<le> op_max_connections options \<and> distinct (sv_sessions s)
    \<and> InFlightRequestCount s \<le> op_max_in_flight_requests options
    \<and> (sv_state s = ServerStopped \<longrightarrow> sv_live s = 0 \<and> sv_workers s = [] \<and> sv_executor s = None \<and> sv_bound_port s = 0
          \<and> sv_acceptor s = AcceptorClosed)
    \<and> (sv_state s = ServerRunning \<longrightarrow> \<not> sv_stop_requested s)
    \<and> (sv_state s = ServerStopping \<longrightarrow> sv_stop_requested s)
    \<and> sv_running s = sv_live s
    \<and> (sv_wait_in_progress s \<longleftrightarrow> is_Waiting (sv_owner s))"
proof -
  have ok: "server_ok options has_handler s"
    using assms by (rule server_reachable_ok)
  then show ?thesis
    using in_flight_bounded [OF ok] unfolding server_ok_def life_ok_def sessions_ok_def ActiveSessionCount_def by blast
qed

text \<open>C12. An I/O thread of a started server runs out of work only when the stop has been completed:
  every request the executor accepted has been executed and none is queued or running, and, when the
  stop was requested before the executor was drained, no session is registered.\<close>

theorem server_stops_after_work:
  assumes "server_reachable options has_handler s"
    and "sv_state s = ServerRunning \<or> sv_state s = ServerStopping" and "\<not> is_StartFailing (sv_owner s)"
    and "\<not> sv_io_stopped s" and "out_of_work s"
  shows "sv_completion_started s
    \<and> (\<exists>p. sv_executor s = Some p \<and> ex_tasks (po_executor p) = [] \<and> busy_tasks p = []
         \<and> mset (po_ended p) = mset (po_accepted p))
    \<and> (sv_waited_first s \<or> sv_stop_requested s \<and> ActiveSessionCount s = 0)"
proof -
  have ok: "executor_ok s"
    using server_reachable_ok [OF assms(1)] by (simp add: server_ok_def)
  have "sv_completion_started s" and state: "sv_state s \<noteq> ServerStopped"
    using ok assms(2-5) by (auto simp: executor_ok_def out_of_work_def)
  then have "sv_drained s" "sv_waited_first s \<or> sv_sessions s = []"
    using ok unfolding executor_ok_def by blast+
  moreover from this have "\<exists>p. sv_executor s = Some p \<and> drained_pool p" "sv_waited_first s \<or> sv_stop_requested s"
    using ok state unfolding executor_ok_def by blast+
  ultimately show ?thesis
    using \<open>sv_completion_started s\<close> by (auto simp: drained_pool_def ActiveSessionCount_def)
qed

text \<open>C13. A shutdown ends, whatever the interleaving. From every state in which \<open>Wait\<close> is in progress and
  a stop has been requested, the server can take at most \<open>server_effort\<close> further steps of its own, with
  or without exceptions and failing posts, and when it can take no more it is stopped: the sessions
  are gone, the I/O threads have ended and \<open>Wait\<close> has returned. Without a fault it gets there by
  completing the stop - the work guard is released and the threads run out of work - and \<open>Wait\<close> has
  no error to report. (A task that runs, a handler and a session that is told to stop are taken to end.)\<close>

theorem server_shutdown_reaches_end:
  assumes "server_reachable options has_handler s" and "sv_wait_in_progress s" and "sv_stop_requested s"
  shows "(\<forall>n t. (shutdown_step faults ^^ n) s t \<longrightarrow> n \<le> server_effort s)
    \<and> (\<forall>t. (shutdown_step faults)\<^sup>*\<^sup>* s t \<and> (\<forall>u. \<not> shutdown_step faults t u) \<longrightarrow>
         sv_state t = ServerStopped \<and> ActiveSessionCount t = 0 \<and> sv_live t = 0 \<and> \<not> sv_wait_in_progress t
         \<and> (\<not> faults \<and> \<not> sv_io_stopped s \<longrightarrow> sv_completion_started t \<and> sv_worker_error t = sv_worker_error s))"
proof (intro conjI allI impI)
  show "n \<le> server_effort s" if "(shutdown_step faults ^^ n) s t" for n t
    using shutdown_steps_bounded [OF that assms(3)] by simp
next
  fix t
  assume run: "(shutdown_step faults)\<^sup>*\<^sup>* s t \<and> (\<forall>u. \<not> shutdown_step faults t u)"
  have waits: "is_Waiting (sv_owner s)" "sv_state s \<noteq> ServerStopped"
    using server_reachable_ok [OF assms(1)] assms(2) by (auto simp: server_ok_def life_ok_def)
  have ok: "server_ok options has_handler t"
    using server_reachable_ok [OF shutdown_steps_reachable [OF conjunct1 [OF run] assms(1)]] .
  have "(shutdown_step True)\<^sup>*\<^sup>* s t"
    using run mono_rtranclp [of "shutdown_step faults" "shutdown_step True"] shutdown_step_faults by (cases faults) auto
  from shutdown_steps_keep [OF this assms(1,3)] waits have kept: "shutting_down True t" "sv_stop_requested t"
    by (simp_all add: shutting_down_def)
  have "sv_owner t = NoOwner"
    using shutdown_progress [OF ok kept(2)] run by blast
  then have stopped: "sv_state t = ServerStopped" "sv_sessions t = []"
    using kept(1) by (auto simp: shutting_down_def)
  then show "sv_state t = ServerStopped" "ActiveSessionCount t = 0" "sv_live t = 0" "\<not> sv_wait_in_progress t"
    using ok \<open>sv_owner t = NoOwner\<close> by (auto simp: server_ok_def life_ok_def ActiveSessionCount_def)
  assume "\<not> faults \<and> \<not> sv_io_stopped s"
  with shutdown_steps_keep [OF conjunct1 [OF run] assms(1,3)] waits
  show "sv_completion_started t" "sv_worker_error t = sv_worker_error s"
    using stopped by (auto simp: shutting_down_def)
qed

text \<open>Such a run exists: one continues while it can.\<close>

lemma shutdown_run_exists:
  "sv_stop_requested s \<Longrightarrow> \<exists>t. (shutdown_step faults)\<^sup>*\<^sup>* s t \<and> (\<forall>u. \<not> shutdown_step faults t u)"
proof (induction "server_effort s" arbitrary: s rule: less_induct)
  case less
  show ?case
  proof (cases "\<exists>u. shutdown_step faults s u")
    case True
    then obtain u where u: "shutdown_step faults s u" ..
    from less.hyps [of u] shutdown_step_effort [OF u less.prems] u show ?thesis
      by (meson converse_rtranclp_into_rtranclp)
  qed blast
qed

text \<open>A start in which nothing fails.\<close>

definition plain_start :: "u16 \<Rightarrow> start_script" where
  "plain_start port = \<lparr> st_net = \<lparr> as_make_address = None, as_open = None, as_set_option = None, as_bind = None,
     as_listen = None, as_local_endpoint = Inr port \<rparr>, st_executor_failure = None, st_io_failure = None \<rparr>"

text \<open>A running server: every thread, an I/O context that runs, an open acceptor with an accept outstanding.\<close>

definition starts_afresh :: "u16 \<Rightarrow> 'a server \<Rightarrow> 'a server \<Rightarrow> bool" where
  "starts_afresh port u v \<longleftrightarrow> sv_state v = ServerRunning \<and> sv_bound_port v = port
     \<and> sv_acceptor v = AcceptorListening (capped_backlog (sv_options u)) \<and> sv_accepts v = sv_accepts u + 1
     \<and> \<not> sv_io_stopped v \<and> sv_work_guard v \<and> \<not> sv_stop_requested v \<and> sv_worker_error v = None
     \<and> sv_live v = op_io_thread_count (sv_options u) \<and> sv_workers v = [0..<op_io_thread_count (sv_options u)]
     \<and> (\<exists>p. sv_executor v = Some p \<and> ex_accepting (po_executor p)
           \<and> length (po_threads p) = op_handler_thread_count (sv_options u))
     \<and> sv_posts v = sv_posts u"

lemma plain_start_succeeds:
  assumes "\<not> server_start_refused s" and "op_max_in_flight_requests (sv_options s) < 2 ^ 64"
  shows "\<exists>t. server_Start (plain_start port) s = (Inr port, t) \<and> starts_afresh port s t"
proof -
  have n: "0 < op_max_in_flight_requests (sv_options s)" "0 < op_handler_thread_count (sv_options s)"
    "ValidateOptions (sv_has_handler s) (sv_options s) = None"
    using assms(1) by (auto simp: server_start_refused_def ValidateOptions_def split: if_splits)
  have "(of_nat (op_max_in_flight_requests (sv_options s)) :: u64) \<noteq> 0"
  proof
    assume "(of_nat (op_max_in_flight_requests (sv_options s)) :: u64) = 0"
    then have "unat (of_nat (op_max_in_flight_requests (sv_options s)) :: u64) = 0" by simp
    with assms(2) n(1) show False by (simp add: unat_of_nat)
  qed
  with assms(1) n show ?thesis
    by (simp add: server_Start_def server_start_refused_def plain_start_def PrepareAcceptor_def new_executor_def start_pool_def
        executor_Start_def new_pool_def start_io_threads_def StartAccept_def starts_afresh_def Let_def)
qed

text \<open>The clean-up of a failed start: what it keeps until it is over.\<close>

definition cleaning_up :: "'a server \<Rightarrow> bool" where
  "cleaning_up s \<longleftrightarrow> is_StartFailing (sv_owner s) \<or> sv_state s = ServerStopped \<and> sv_owner s = NoOwner"

definition nothing_posted :: "'a server \<Rightarrow> bool" where
  "nothing_posted s \<longleftrightarrow> sv_posts s = [] \<and> sv_calls s = [] \<and> \<not> sv_drained s"

lemma shutdown_step_cleans:
  "shutdown_step faults s t \<Longrightarrow> server_ok options has_handler s \<Longrightarrow> cleaning_up s \<Longrightarrow>
     cleaning_up t \<and> (nothing_posted s \<longrightarrow> nothing_posted t)"
proof (induction rule: shutdown_step.induct)
  case (executor_wait s p this_thread threads e)
  then show ?case
    by (cases "sv_owner s") (auto simp: cleaning_up_def nothing_posted_def at_phase_def)
next
  case (executor_joined s p threads)
  then show ?case
    by (cases "sv_owner s") (auto simp: cleaning_up_def nothing_posted_def wait_executor_drained_def phase_of_def)
next
  case (thread_throws s what)
  then show ?case
    by (auto simp: cleaning_up_def nothing_posted_def RunIoContext_def Let_def)
next
  case (accept_throws s session what)
  then show ?case
    by (auto simp: cleaning_up_def nothing_posted_def RunIoContext_def Let_def)
next
  case (wait_posts s posted)
  then show ?case by (simp add: cleaning_up_def)
next
  case (wait_ends s)
  then show ?case by (simp add: cleaning_up_def)
next
  case (session_closed b s posted)
  then show ?case
    by (auto simp: cleaning_up_def nothing_posted_def remove_session_rest_def post_def)
qed (auto simp: cleaning_up_def nothing_posted_def request_stop_rest_def post_def accept_result_def accept_register_def
    RegisterSession_def outputs_def accept_again_def StartAccept_def stop_on_io_def commanding_def CloseAcceptor_def
    TryComplete_def shutdown_deadline_def ForceCloseSessions_def remove_session_def start_failed_end_def RunIoContext_def Let_def
    split: option.split accept_error.split timer_error.split)

lemma shutdown_steps_clean:
  assumes "(shutdown_step faults)\<^sup>*\<^sup>* s t" and "server_reachable options has_handler s" and "sv_stop_requested s"
    and "cleaning_up s"
  shows "cleaning_up t \<and> sv_stop_requested t \<and> (nothing_posted s \<longrightarrow> nothing_posted t)"
  using assms(1)
proof (induction rule: rtranclp_induct)
  case (step t u)
  have "server_ok options has_handler t"
    using server_reachable_ok [OF shutdown_steps_reachable [OF step.hyps(1) assms(2)]] .
  then show ?case
    using shutdown_step_cleans [OF step.hyps(2)] shutdown_step_effort [OF step.hyps(2)] step.IH by auto
qed (use assms in simp)

text \<open>C16. A start that fails leaves the server as it was, when it was refused. Otherwise its clean-up ends
  after at most \<open>server_effort\<close> steps, in every order and whatever fails on the way, in the stopped state,
  with no thread, no executor, no port and a closed acceptor. From there the server can be started:
  when nothing fails it runs again, with all its threads, an I/O context that was restarted, an open
  acceptor and an accept outstanding. What is queued for the I/O context outlives the clean-up; nothing
  is when nothing was queued before and no \<open>RequestStop\<close> was under way.\<close>

theorem failed_start_can_be_repeated:
  assumes "server_reachable options has_handler s" and "server_Start script s = (Inl e, t)"
    and "op_max_in_flight_requests options < 2 ^ 64"
  shows "server_start_refused s \<and> t = s
    \<or> (\<forall>n u. (shutdown_step faults ^^ n) t u \<longrightarrow> n \<le> server_effort t)
      \<and> (\<forall>u. (shutdown_step faults)\<^sup>*\<^sup>* t u \<and> (\<forall>w. \<not> shutdown_step faults u w) \<longrightarrow>
           sv_state u = ServerStopped \<and> sv_live u = 0 \<and> sv_workers u = [] \<and> sv_executor u = None \<and> sv_bound_port u = 0
           \<and> sv_acceptor u = AcceptorClosed
           \<and> (sv_posts s = [] \<and> sv_calls s = [] \<longrightarrow> sv_posts u = [])
           \<and> (\<exists>v. server_Start (plain_start port) u = (Inr port, v) \<and> starts_afresh port u v))"
proof -
  have ok: "server_ok options has_handler s"
    using assms(1) by (rule server_reachable_ok)
  then have "life_ok s" by (simp add: server_ok_def)
  have reach: "server_reachable options has_handler t"
    using server_reachable.step [OF assms(1) server_step.start [of s script]] assms(2) by simp
  from life_stopped [OF \<open>life_ok s\<close>] show ?thesis
  proof (cases rule: server_Start_outcomes [where script = script])
    case (failing e' a p n k guard)
    then have t: "sv_stop_requested t" "cleaning_up t" "sv_posts s = [] \<and> sv_calls s = [] \<longrightarrow> nothing_posted t"
      using assms(2) by (auto simp: start_failing_def server_starting_def cleaning_up_def nothing_posted_def)
    have "sv_state u = ServerStopped \<and> sv_live u = 0 \<and> sv_workers u = [] \<and> sv_executor u = None \<and> sv_bound_port u = 0
           \<and> sv_acceptor u = AcceptorClosed \<and> (sv_posts s = [] \<and> sv_calls s = [] \<longrightarrow> sv_posts u = [])
           \<and> (\<exists>v. server_Start (plain_start port) u = (Inr port, v) \<and> starts_afresh port u v)"
      if run: "(shutdown_step faults)\<^sup>*\<^sup>* t u" "\<forall>w. \<not> shutdown_step faults u w" for u
    proof -
      have u: "server_ok options has_handler u"
        using server_reachable_ok [OF shutdown_steps_reachable [OF run(1) reach]] .
      have kept: "cleaning_up u" "sv_stop_requested u" "sv_posts s = [] \<and> sv_calls s = [] \<longrightarrow> sv_posts u = []"
        using shutdown_steps_clean [OF run(1) reach t(1,2)] t(3) by (auto simp: nothing_posted_def)
      then have "sv_state u = ServerStopped" "sv_owner u = NoOwner"
        using shutdown_progress [OF u kept(2)] run(2) by (auto simp: cleaning_up_def)
      then have ended: "sv_live u = 0" "sv_executor u = None" "sv_bound_port u = 0" "sv_acceptor u = AcceptorClosed"
        "sv_workers u = []" "\<not> sv_wait_in_progress u"
        and same: "sv_options u = options" "sv_has_handler u = has_handler"
        using u by (auto simp: server_ok_def life_ok_def)
      have "\<not> server_start_refused u"
        using failing(1) ok same ended \<open>sv_state u = ServerStopped\<close> by (simp add: server_start_refused_def server_ok_def)
      from plain_start_succeeds [OF this, of port] assms(3) same ended kept(3) \<open>sv_state u = ServerStopped\<close> show ?thesis
        by simp
    qed
    then show ?thesis
      using shutdown_steps_bounded [OF _ t(1)] by fastforce
  qed (use assms(2) in auto)
qed

section \<open>Witnesses\<close>

definition demo_options :: HttpServerOptions where
  "demo_options = default_server_options\<lparr> op_handler_thread_count := 1 \<rparr>"

definition idle_pool :: "nat pool" where
  "idle_pool = new_pool \<lparr> ex_worker_count = 1, ex_capacity = 64, ex_tasks = [], ex_workers = [0], ex_in_flight = 0,
     ex_accepting = True, ex_stop_requested = False \<rparr>\<lparr> po_threads := [Idle] \<rparr>"

definition demo_server :: "nat server" where
  "demo_server = (new_server demo_options True)\<lparr> sv_state := ServerRunning, sv_running := 1, sv_bound_port := 18081,
     sv_workers := [0], sv_work_guard := True, sv_acceptor := AcceptorListening 128, sv_executor := Some idle_pool,
     sv_executor_number := 1, sv_accepts := 1, sv_live := 1 \<rparr>"

lemma demo_options_valid: "ValidateOptions True demo_options = None"
  by (simp add: ValidateOptions_def demo_options_def default_server_options_def)

lemma demo_server_started: "server_Start (plain_start 18081) (new_server demo_options True) = (Inr 18081, demo_server)"
  using demo_options_valid
  by (simp add: server_Start_def plain_start_def PrepareAcceptor_def new_executor_def start_pool_def capped_backlog_def
      executor_Start_def new_pool_def start_io_threads_def StartAccept_def Let_def new_server_def demo_server_def
      idle_pool_def demo_options_def default_server_options_def)

lemma reachable_via:
  "server_reachable options has_handler s \<Longrightarrow> server_step s u \<Longrightarrow> u = t \<Longrightarrow> server_reachable options has_handler t"
  using server_reachable.step by blast

lemma demo_server_reachable: "server_reachable demo_options True demo_server"
  by (rule reachable_via [OF server_reachable.init server_step.start [of _ "plain_start 18081"]])
    (simp add: demo_server_started)

theorem server_bounds_and_lifecycle_witness:
  "sv_state demo_server = ServerRunning \<and> ActiveSessionCount demo_server \<le> 128 \<and> InFlightRequestCount demo_server \<le> 64
    \<and> \<not> sv_stop_requested demo_server"
  using server_bounds_and_lifecycle [OF demo_server_reachable]
  by (simp add: demo_server_def demo_options_def default_server_options_def)

text \<open>The same server asked to stop, with a caller waiting.\<close>

definition demo_waiting :: "nat server" where
  "demo_waiting = demo_server\<lparr> sv_state := ServerStopping, sv_stop_requested := True, sv_posts := [PostStop],
     sv_executor := Some (stop_pool idle_pool), sv_wait_in_progress := True, sv_workers := [], sv_owner := Waiting AtExecutor \<rparr>"

lemma demo_waiting_reachable: "server_reachable demo_options True demo_waiting"
proof -
  let ?s1 = "demo_server\<lparr> sv_state := ServerStopping, sv_stop_requested := True, sv_calls := [(True, Some 1)] \<rparr>"
  let ?s2 = "demo_server\<lparr> sv_state := ServerStopping, sv_stop_requested := True, sv_posts := [PostStop],
     sv_executor := Some (stop_pool idle_pool) \<rparr>"
  have s1: "request_stop_locked demo_server = ?s1"
    by (simp add: request_stop_locked_def demo_server_def new_server_def)
  have s2: "request_stop_rest True (True, Some 1) (?s1\<lparr> sv_calls := remove1 (True, Some 1) (sv_calls ?s1) \<rparr>) = ?s2"
    by (simp add: request_stop_rest_def post_def demo_server_def new_server_def)
  have s3: "snd (wait_begin (OtherThread 0) ?s2) = demo_waiting"
    by (simp add: wait_begin_def is_io_worker_def is_handler_worker_def demo_waiting_def demo_server_def new_server_def)
  have "server_reachable demo_options True ?s1"
    using server_reachable.step [OF demo_server_reachable server_step.stop] by (simp only: s1)
  from server_reachable.step [OF this server_step.stop_rest [of "(True, Some 1)" _ True]]
  have "server_reachable demo_options True ?s2"
    unfolding s2 by simp
  from server_reachable.step [OF this server_step.wait [of _ "OtherThread 0"]] show ?thesis
    by (simp only: s3)
qed

theorem server_shutdown_reaches_end_witness:
  "\<exists>t. (shutdown_step False)\<^sup>*\<^sup>* demo_waiting t \<and> sv_state t = ServerStopped \<and> sv_live t = 0 \<and> sv_completion_started t"
proof -
  have "sv_stop_requested demo_waiting" "sv_wait_in_progress demo_waiting" "\<not> sv_io_stopped demo_waiting"
    by (simp_all add: demo_waiting_def demo_server_def new_server_def)
  moreover from this(1) obtain t where "(shutdown_step False)\<^sup>*\<^sup>* demo_waiting t" "\<forall>u. \<not> shutdown_step False t u"
    using shutdown_run_exists by blast
  ultimately show ?thesis
    using server_shutdown_reaches_end [OF demo_waiting_reachable, of False] by blast
qed

text \<open>
  The way from there to the completed stop: the acceptor is closed, its accept cancelled, the executor's
  thread leaves, and the wait's post completes the stop.
\<close>

lemmas demo_server_defs = demo_waiting_def demo_server_def new_server_def

definition drained_demo_pool :: "nat pool" where
  "drained_demo_pool = (new_pool (executor_wait_end (executor_RequestStop (po_executor idle_pool\<lparr> ex_workers := [] \<rparr>))))
     \<lparr> po_threads := [Gone] \<rparr>"

definition demo_completed :: "nat server" where
  "demo_completed = demo_waiting\<lparr> sv_posts := [], sv_acceptor := AcceptorClosed, sv_accepts := 0, sv_drained := True,
     sv_completion_started := True, sv_work_guard := False, sv_executor := Some drained_demo_pool, sv_owner := Waiting JoiningIo \<rparr>"

lemma demo_completed_reachable: "server_reachable demo_options True demo_completed"
proof -
  let ?stopped = "demo_waiting\<lparr> sv_posts := [], sv_acceptor := AcceptorClosed \<rparr>"
  let ?e = "executor_RequestStop (po_executor idle_pool\<lparr> ex_workers := [] \<rparr>)"
  let ?p = "(new_pool ?e)\<lparr> po_threads := [Idle], po_joining := Some [0] \<rparr>"
  have "server_reachable demo_options True (?stopped\<lparr> sv_strand := CompleteNext \<rparr>)"
    by (rule reachable_via [OF demo_waiting_reachable server_step.stops_on_io [of _ "[]"]])
      (simp_all add: demo_server_defs io_runs_def stop_on_io_def commanding_def CloseAcceptor_def)
  then have "server_reachable demo_options True ?stopped"
    by (rule reachable_via [OF _ server_step.completes]) (simp_all add: demo_server_defs TryComplete_def)
  then have "server_reachable demo_options True (?stopped\<lparr> sv_accepts := 0, sv_strand := AcceptAgain \<rparr>)"
    by (rule reachable_via [OF _ server_step.accepted [of _ "Some accept_aborted"]])
      (simp_all add: demo_server_defs io_runs_def accept_result_def)
  then have "server_reachable demo_options True (?stopped\<lparr> sv_accepts := 0 \<rparr>)"
    by (rule reachable_via [OF _ server_step.accepts_again]) (simp_all add: demo_server_defs accept_again_def)
  then have "server_reachable demo_options True (?stopped\<lparr> sv_accepts := 0, sv_executor := Some ?p, sv_owner := Waiting JoiningExecutor \<rparr>)"
    by (rule reachable_via [OF _ server_step.executor_wait [of _ "stop_pool idle_pool" 1 "[0]" ?e]])
      (simp_all add: demo_server_defs at_phase_def phase_of_def stop_pool_def idle_pool_def new_pool_def
        executor_wait_begin_def executor_RequestStop_def)
  then have "server_reachable demo_options True (?stopped\<lparr> sv_accepts := 0, sv_executor := Some (?p\<lparr> po_threads := [Gone] \<rparr>),
      sv_owner := Waiting JoiningExecutor \<rparr>)"
    by (rule reachable_via [OF _ server_step.executor_runs [of _ ?p]])
      (use pool_run.work [OF worker_step.leave [of 0 ?p ?e]] in
        \<open>simp_all add: demo_server_defs worker_next_def new_pool_def idle_pool_def executor_RequestStop_def\<close>)
  then have "server_reachable demo_options True (?stopped\<lparr> sv_accepts := 0, sv_executor := Some drained_demo_pool,
      sv_drained := True, sv_owner := Waiting AtPost \<rparr>)"
    by (rule reachable_via [OF _ server_step.executor_joined [of _ "?p\<lparr> po_threads := [Gone] \<rparr>" "[0]"]])
      (simp_all add: demo_server_defs phase_of_def wait_executor_drained_def drained_demo_pool_def new_pool_def)
  then have "server_reachable demo_options True (?stopped\<lparr> sv_accepts := 0, sv_executor := Some drained_demo_pool,
      sv_drained := True, sv_owner := Waiting JoiningIo, sv_posts := [PostComplete] \<rparr>)"
    by (rule reachable_via [OF _ server_step.wait_posts [of _ True]])
      (simp_all add: demo_server_defs wait_post_def post_def)
  then show ?thesis
    by (rule reachable_via [OF _ server_step.completes_posted [of _ "[]"]])
      (simp_all add: demo_server_defs io_runs_def TryComplete_def demo_completed_def)
qed

theorem server_stops_after_work_witness:
  "sv_completion_started demo_completed \<and> ActiveSessionCount demo_completed = 0"
  using server_stops_after_work [OF demo_completed_reachable]
  by (simp add: demo_completed_def demo_server_defs out_of_work_def)

text \<open>A start whose port is taken, and what the address error of another leaves behind.\<close>

definition port_taken :: start_script where
  "port_taken = (plain_start 0)\<lparr> st_net := (st_net (plain_start 0))\<lparr> as_bind := Some ''in use'' \<rparr> \<rparr>"

definition failing_server :: "nat server" where
  "failing_server = (new_server demo_options True)\<lparr> sv_state := ServerStarting, sv_stop_requested := True,
     sv_io_stopped := True, sv_acceptor := AcceptorOpen, sv_owner := StartFailing ''acceptor bind failed: in use'' JoiningIo \<rparr>"

lemma demo_start_fails:
  "server_Start port_taken (new_server demo_options True) = (Inl ''acceptor bind failed: in use'', failing_server)"
  using demo_options_valid
  by (simp add: server_Start_def port_taken_def plain_start_def PrepareAcceptor_def start_failing_def failing_server_def
      new_server_def Let_def)

theorem failed_start_can_be_repeated_witness:
  "\<exists>u v. (shutdown_step False)\<^sup>*\<^sup>* failing_server u \<and> server_Start (plain_start 18081) u = (Inr 18081, v)
     \<and> sv_state v = ServerRunning \<and> sv_posts v = []"
proof -
  have "sv_stop_requested failing_server" "sv_posts (new_server demo_options True :: nat server) = []"
    "sv_calls (new_server demo_options True :: nat server) = []" "failing_server \<noteq> new_server demo_options True"
    "op_max_in_flight_requests demo_options < 2 ^ 64"
    by (simp_all add: failing_server_def new_server_def demo_options_def default_server_options_def)
  moreover from this(1) obtain u where "(shutdown_step False)\<^sup>*\<^sup>* failing_server u" "\<forall>w. \<not> shutdown_step False u w"
    using shutdown_run_exists by blast
  ultimately obtain v where "server_Start (plain_start 18081) u = (Inr 18081, v)" "starts_afresh 18081 u v" "sv_posts u = []"
    using failed_start_can_be_repeated [OF server_reachable.init demo_start_fails, of False 18081] by blast
  with \<open>(shutdown_step False)\<^sup>*\<^sup>* failing_server u\<close> show ?thesis
    by (auto simp: starts_afresh_def)
qed

text \<open>
  A stop requested while a failed start joins its threads is posted to the stopped context, which
  keeps it: the next start runs it, and the new server runs with a closed acceptor although no stop
  was requested.
\<close>

lemma stale_stop_closes_new_server:
  "\<exists>s :: nat server. server_reachable demo_options True s \<and> sv_state s = ServerRunning \<and> \<not> sv_stop_requested s
     \<and> sv_acceptor s = AcceptorClosed"
proof -
  let ?posted = "failing_server\<lparr> sv_state := ServerStopping, sv_posts := [PostStop] \<rparr>"
  let ?stopped = "?posted\<lparr> sv_state := ServerStopped, sv_acceptor := AcceptorClosed, sv_owner := NoOwner \<rparr>"
  have "server_reachable demo_options True failing_server"
    by (rule reachable_via [OF server_reachable.init server_step.start [of _ port_taken]]) (simp add: demo_start_fails)
  then have "server_reachable demo_options True (failing_server\<lparr> sv_state := ServerStopping, sv_calls := [(True, None)] \<rparr>)"
    by (rule reachable_via [OF _ server_step.stop])
      (simp add: request_stop_locked_def failing_server_def new_server_def)
  then have "server_reachable demo_options True ?posted"
    by (rule reachable_via [OF _ server_step.stop_rest [of "(True, None)" _ True]])
      (simp_all add: request_stop_rest_def post_def failing_server_def new_server_def)
  then have "server_reachable demo_options True ?stopped"
    by (rule reachable_via [OF _ server_step.start_failed])
      (simp_all add: start_failed_end_def CloseAcceptor_def failing_server_def new_server_def)
  then have "server_reachable demo_options True (demo_server\<lparr> sv_posts := [PostStop] \<rparr>)"
    by (rule reachable_via [OF _ server_step.start [of _ "plain_start 18081"]])
      (use demo_options_valid in \<open>simp add: server_Start_def plain_start_def PrepareAcceptor_def new_executor_def
        start_pool_def capped_backlog_def executor_Start_def new_pool_def start_io_threads_def StartAccept_def Let_def
        new_server_def demo_server_def idle_pool_def demo_options_def default_server_options_def failing_server_def\<close>)
  then have "server_reachable demo_options True (demo_server\<lparr> sv_acceptor := AcceptorClosed, sv_strand := CompleteNext \<rparr>)"
    by (rule reachable_via [OF _ server_step.stops_on_io [of _ "[]"]])
      (simp_all add: demo_server_def new_server_def io_runs_def stop_on_io_def commanding_def CloseAcceptor_def)
  then show ?thesis
    by (intro exI [of _ "demo_server\<lparr> sv_acceptor := AcceptorClosed, sv_strand := CompleteNext \<rparr>"])
      (simp add: demo_server_def new_server_def)
qed

text \<open>
  The test that a worker does not wait for itself looks at handles that a wait in progress has moved
  away: an I/O thread that calls \<open>Wait\<close> then blocks for a wait that joins it.
\<close>

lemma wait_in_progress_hides_workers:
  "sv_wait_in_progress s \<Longrightarrow> sv_workers s = [] \<Longrightarrow> fst (wait_begin (IoThread i) s) = WaitBlocked"
  by (simp add: wait_begin_def is_io_worker_def is_handler_worker_def)

end
