(* ===== verification/ProcReader.thy ===== *)
theory ProcReader
  imports Metrics LogReader
begin

text \<open>
  The platform readers behind the collector (\<open>src/apps/agent/src/metrics/linux_metrics_reader.cpp\<close>,
  \<open>macos_metrics_reader.cpp\<close>, \<open>unsupported_metrics_reader.cpp\<close>): parsing of \<open>/proc\<close>, the conversions of
  ticks to nanoseconds with their overflow tests, and the counts. What the operating system answers
  is an argument. The theorems say that the Linux reader returns the numbers the kernel printed,
  whatever the name of the process, and that both conversions of time are exact or refused.
\<close>

type_synonym 'a read = "string + 'a"

definition u64_max :: u64 where
  "u64_max = - 1"

lemma unat_u64_max: "unat u64_max = 2 ^ 64 - 1"
  by (simp add: u64_max_def unsigned_minus_1_eq_mask mask_eq_exp_minus_1)

definition AddWithoutOverflow :: "u64 \<Rightarrow> u64 \<Rightarrow> u64 option" where
  "AddWithoutOverflow left right = (if u64_max - right < left then None else Some (left + right))"

section \<open>Linux: the text of /proc\<close>

definition MakeProcPath :: "int \<Rightarrow> string \<Rightarrow> string" where
  "MakeProcPath pid file_name = ''/proc/'' @ int_to_string pid @ ''/'' @ file_name"

definition is_trimmed :: "char \<Rightarrow> bool" where
  "is_trimmed c \<longleftrightarrow> c \<in> {CHR '' '', CHR 0x09, CHR 0x0D, CHR 0x0A}"

definition Trim :: "string \<Rightarrow> string" where
  "Trim view = rev (dropWhile is_trimmed (rev (dropWhile is_trimmed view)))"

definition is_blank :: "char \<Rightarrow> bool" where
  "is_blank c \<longleftrightarrow> c \<in> {CHR '' '', CHR 0x09}"

function SplitWhitespace :: "string \<Rightarrow> string list" where
  "SplitWhitespace view =
     (case dropWhile is_blank view of
        [] \<Rightarrow> []
      | c # cs \<Rightarrow> takeWhile (\<lambda>x. \<not> is_blank x) (c # cs) # SplitWhitespace (dropWhile (\<lambda>x. \<not> is_blank x) (c # cs)))"
  by pat_completeness auto
termination
proof (relation "measure length")
  fix view :: string and c cs
  assume view: "dropWhile is_blank view = c # cs"
  then have "\<not> is_blank c"
    by (metis hd_dropWhile list.discI list.sel(1))
  then have "length (dropWhile (\<lambda>x. \<not> is_blank x) (c # cs)) < length (c # cs)"
    using length_dropWhile_le [of "\<lambda>x. \<not> is_blank x" cs] by simp
  also have "\<dots> \<le> length view"
    using length_dropWhile_le [of is_blank view] view by simp
  finally show "(dropWhile (\<lambda>x. \<not> is_blank x) (c # cs), view) \<in> measure length" by simp
qed simp

declare SplitWhitespace.simps [simp del]

definition ParseUnsigned :: "string \<Rightarrow> u64 option" where
  "ParseUnsigned view = map_option of_nat (from_chars_all (2 ^ 64 - 1) view)"

text \<open>\<open>line.rfind(c)\<close>\<close>

definition rfind_char :: "char \<Rightarrow> string \<Rightarrow> nat option" where
  "rfind_char c s = map_option (\<lambda>i. length s - 1 - i) (find_char c (rev s))"

record ProcStatCpuFields =
  psf_process_cpu_ticks :: u64
  psf_start_time_ticks :: u64

text \<open>A file is its content, or \<open>None\<close> when it cannot be opened.\<close>

definition ReadProcStatCpuFields :: "int \<Rightarrow> string option \<Rightarrow> ProcStatCpuFields read" where
  "ReadProcStatCpuFields pid stat =
     (let path = MakeProcPath pid ''stat'' in
      case stat of
        None \<Rightarrow> Inl (''failed to open '' @ path)
      | Some content \<Rightarrow>
      case getlines content of
        [] \<Rightarrow> Inl (''failed to read '' @ path)
      | line # _ \<Rightarrow>
      case rfind_char (CHR '')'') line of
        None \<Rightarrow> Inl (''invalid format in '' @ path @ '': missing process name terminator'')
      | Some right_parenthesis \<Rightarrow>
      if length line \<le> right_parenthesis + 1 then
        Inl (''invalid format in '' @ path @ '': missing process name terminator'')
      else
        let fields = SplitWhitespace (Trim (drop (right_parenthesis + 1) line)) in
        if length fields < 20 then Inl (''invalid format in '' @ path @ '': too few fields'')
        else case (ParseUnsigned (fields ! 11), ParseUnsigned (fields ! 12), ParseUnsigned (fields ! 19)) of
               (Some utime, Some stime, Some start_time) \<Rightarrow>
                 (case AddWithoutOverflow utime stime of
                    None \<Rightarrow> Inl (''process CPU tick overflow in '' @ path)
                  | Some ticks \<Rightarrow> Inr \<lparr> psf_process_cpu_ticks = ticks, psf_start_time_ticks = start_time \<rparr>)
             | _ \<Rightarrow> Inl (''invalid numeric CPU fields in '' @ path))"

record ProcStatusFields =
  pst_rss_bytes :: u64
  pst_thread_count :: u64

text \<open>The loop over the lines: the fields found so far.\<close>

definition status_field :: "string \<Rightarrow> string \<Rightarrow> string \<Rightarrow> u64 read" where
  "status_field path name line =
     (case SplitWhitespace (drop (length name + 1) line) of
        [] \<Rightarrow> Inl (''invalid '' @ name @ '' field in '' @ path)
      | token # _ \<Rightarrow>
          (case ParseUnsigned token of
             None \<Rightarrow> Inl (''invalid '' @ name @ '' field in '' @ path)
           | Some n \<Rightarrow> Inr n))"

fun scan_status :: "string \<Rightarrow> string list \<Rightarrow> u64 option \<Rightarrow> u64 option \<Rightarrow> (u64 option \<times> u64 option) read" where
  "scan_status path [] rss threads = Inr (rss, threads)"
| "scan_status path (line # rest) rss threads =
     (if starts_with line ''VmRSS:'' then
        (case status_field path ''VmRSS'' line of
           Inl e \<Rightarrow> Inl e
         | Inr n \<Rightarrow> scan_status path rest (Some n) threads)
      else if starts_with line ''Threads:'' then
        (case status_field path ''Threads'' line of
           Inl e \<Rightarrow> Inl e
         | Inr n \<Rightarrow> scan_status path rest rss (Some n))
      else scan_status path rest rss threads)"

definition ReadProcStatusFields :: "int \<Rightarrow> string option \<Rightarrow> ProcStatusFields read" where
  "ReadProcStatusFields pid status =
     (let path = MakeProcPath pid ''status'' in
      case status of
        None \<Rightarrow> Inl (''failed to open '' @ path)
      | Some content \<Rightarrow>
          (case scan_status path (getlines content) None None of
             Inl e \<Rightarrow> Inl e
           | Inr (Some rss_kilobytes, Some thread_count) \<Rightarrow>
               if u64_max div 1024 < rss_kilobytes then Inl (''VmRSS byte conversion overflow in '' @ path)
               else Inr \<lparr> pst_rss_bytes = rss_kilobytes * 1024, pst_thread_count = thread_count \<rparr>
           | Inr _ \<Rightarrow> Inl (''missing VmRSS or Threads field in '' @ path)))"

text \<open>
  A directory is an error of opening it or, for each entry, the error of moving on from it.
\<close>

fun count_entries :: "string \<Rightarrow> string option list \<Rightarrow> u64 \<Rightarrow> u64 read" where
  "count_entries path [] n = Inr n"
| "count_entries path (moved # rest) n =
     (if n = u64_max then Inl (''file descriptor count overflow in '' @ path)
      else case moved of
             Some e \<Rightarrow> Inl (''failed to iterate '' @ path @ '': '' @ e)
           | None \<Rightarrow> count_entries path rest (n + 1))"

definition CountOpenFileDescriptors :: "int \<Rightarrow> string + string option list \<Rightarrow> u64 read" where
  "CountOpenFileDescriptors pid fds =
     (let path = MakeProcPath pid ''fd'' in
      case fds of
        Inl e \<Rightarrow> Inl (''failed to open '' @ path @ '': '' @ e)
      | Inr entries \<Rightarrow> count_entries path entries 0)"

section \<open>Linux: time\<close>

text \<open>\<open>static_cast<std::uint64_t>\<close> of a \<open>long double\<close> that is not negative drops the fraction.\<close>

fun ld_to_u64 :: "double \<Rightarrow> u64" where
  "ld_to_u64 (Fin r) = of_int \<lfloor>r\<rfloor>"
| "ld_to_u64 _ = 0"

definition ConvertTicksToNanoseconds :: "rounding \<Rightarrow> u64 \<Rightarrow> int \<Rightarrow> u64 option" where
  "ConvertTicksToNanoseconds ld ticks ticks_per_second =
     (if ticks_per_second \<le> 0 then None
      else
        let per_second = of_int ticks_per_second :: u64;
            whole_seconds = ticks div per_second;
            remaining_ticks = ticks mod per_second
        in if u64_max div 1000000000 < whole_seconds then None
           else
             let whole = whole_seconds * 1000000000;
                 fraction = ld_div ld (ld_mul ld (ld_of_nat ld (unat remaining_ticks)) (ld_of_nat ld 1000000000))
                   (ld_of_nat ld (unat per_second))
             in if \<not> isfinite fraction \<or> double_less fraction (Fin 0)
                  \<or> double_less (ld_of_nat ld (unat (u64_max - whole))) fraction then None
                else Some (whole + ld_to_u64 fraction))"

definition ReadMonotonicTimeNanoseconds :: "(int \<times> int) option \<Rightarrow> u64 read" where
  "ReadMonotonicTimeNanoseconds clock =
     (case clock of
        None \<Rightarrow> Inl ''failed to read CLOCK_MONOTONIC''
      | Some (tv_sec, tv_nsec) \<Rightarrow>
          if tv_sec < 0 \<or> tv_nsec < 0 then Inl ''CLOCK_MONOTONIC returned a negative value''
          else
            let seconds = of_int tv_sec :: u64; nanoseconds = of_int tv_nsec :: u64 in
            if u64_max div 1000000000 < seconds then Inl ''CLOCK_MONOTONIC nanosecond conversion overflow''
            else
              let whole = seconds * 1000000000 in
              if u64_max - whole < nanoseconds then Inl ''CLOCK_MONOTONIC nanosecond conversion overflow''
              else Inr (whole + nanoseconds))"

definition linux_ReadLogicalCpuCount :: "int \<Rightarrow> u32 read" where
  "linux_ReadLogicalCpuCount processors =
     (if processors \<le> 0 \<or> 2 ^ 32 - 1 < processors then Inl ''failed to read online logical CPU count''
      else Inr (of_int processors))"

record linux_system =
  ls_stat :: "int \<Rightarrow> string option"
  ls_status :: "int \<Rightarrow> string option"
  ls_fds :: "int \<Rightarrow> string + string option list"
  ls_ticks_per_second :: int
  ls_clock :: "(int \<times> int) option"
  ls_processors :: int

definition linux_ReadProcessRawStats :: "rounding \<Rightarrow> linux_system \<Rightarrow> int \<Rightarrow> ProcessRawStats read" where
  "linux_ReadProcessRawStats ld sys pid =
     (if pid \<le> 0 then Inl ''pid must be greater than zero''
      else
      case ReadProcStatCpuFields pid (ls_stat sys pid) of
        Inl e \<Rightarrow> Inl e
      | Inr stat_fields \<Rightarrow>
      case ReadProcStatusFields pid (ls_status sys pid) of
        Inl e \<Rightarrow> Inl e
      | Inr status_fields \<Rightarrow>
      case CountOpenFileDescriptors pid (ls_fds sys pid) of
        Inl e \<Rightarrow> Inl e
      | Inr fd_count \<Rightarrow>
      case ConvertTicksToNanoseconds ld (psf_process_cpu_ticks stat_fields) (ls_ticks_per_second sys) of
        None \<Rightarrow> Inl ''failed to convert Linux CPU ticks to nanoseconds''
      | Some ns \<Rightarrow>
          Inr \<lparr> prs_cpu_time_ns = ns, prs_identity = psf_start_time_ticks stat_fields,
            prs_rss_bytes = pst_rss_bytes status_fields, prs_thread_count = pst_thread_count status_fields,
            prs_fd_count = fd_count \<rparr>)"

definition linux_ReadSystemCapacity :: "linux_system \<Rightarrow> SystemCapacitySnapshot read" where
  "linux_ReadSystemCapacity sys =
     (case ReadMonotonicTimeNanoseconds (ls_clock sys) of
        Inl e \<Rightarrow> Inl e
      | Inr ns \<Rightarrow>
      case linux_ReadLogicalCpuCount (ls_processors sys) of
        Inl e \<Rightarrow> Inl e
      | Inr n \<Rightarrow> Inr \<lparr> scs_monotonic_time_ns = ns, scs_logical_cpu_count = n \<rparr>)"

section \<open>macOS\<close>

text \<open>The factors of \<open>mach_timebase_info\<close>, \<open>None\<close> when it fails.\<close>

type_synonym timebase = "u32 \<times> u32"

definition ConvertMachTicksToNanoseconds :: "u64 \<Rightarrow> timebase \<Rightarrow> u64 option" where
  "ConvertMachTicksToNanoseconds mach_ticks timebase =
     (if fst timebase = 0 \<or> snd timebase = 0 then None
      else
        let numerator = ucast (fst timebase) :: u64;
            denominator = ucast (snd timebase) :: u64;
            whole_units = mach_ticks div denominator;
            remaining_units = mach_ticks mod denominator
        in if u64_max div numerator < whole_units then None
           else
             let whole = whole_units * numerator;
                 fraction = (remaining_units * numerator) div denominator
             in if u64_max - whole < fraction then None else Some (whole + fraction))"

definition ReadMachTimebase :: "timebase option \<Rightarrow> timebase read" where
  "ReadMachTimebase timebase =
     (case timebase of
        None \<Rightarrow> Inl ''failed to read Mach timebase''
      | Some t \<Rightarrow> if fst t = 0 \<or> snd t = 0 then Inl ''failed to read Mach timebase'' else Inr t)"

definition ReadContinuousTimeNanoseconds :: "u64 \<Rightarrow> timebase option \<Rightarrow> u64 read" where
  "ReadContinuousTimeNanoseconds continuous_ticks timebase =
     (if continuous_ticks = 0 then Inl ''mach_continuous_time returned zero''
      else case ReadMachTimebase timebase of
             Inl e \<Rightarrow> Inl e
           | Inr t \<Rightarrow>
               (case ConvertMachTicksToNanoseconds continuous_ticks t of
                  None \<Rightarrow> Inl ''failed to convert continuous Mach time to nanoseconds''
                | Some ns \<Rightarrow> Inr ns))"

definition ErrnoMessage :: "string \<Rightarrow> string \<Rightarrow> string" where
  "ErrnoMessage operation strerror = operation @ '': '' @ strerror"

text \<open>The answer of \<open>sysctlbyname\<close>: the text of its errno, or the size and the value it stored.\<close>

definition macos_ReadLogicalCpuCount :: "string + nat \<times> u32 \<Rightarrow> u32 read" where
  "macos_ReadLogicalCpuCount answer =
     (case answer of
        Inl strerror \<Rightarrow> Inl (ErrnoMessage ''sysctlbyname(hw.logicalcpu) failed'' strerror)
      | Inr (stored, n) \<Rightarrow>
          if stored \<noteq> 4 \<or> n = 0 then Inl ''hw.logicalcpu returned an invalid value'' else Inr n)"

record proc_taskallinfo =
  pti_total_user :: u64
  pti_total_system :: u64
  pti_threadnum :: int
  pti_resident_size :: u64
  pbi_start_tvsec :: u64
  pbi_start_tvusec :: u64
  pbi_nfiles :: u32

datatype pidinfo = PidInfoComplete proc_taskallinfo | PidInfoFailed string | PidInfoIncomplete

definition ReadProcessTaskAllInfo :: "(int \<Rightarrow> pidinfo) \<Rightarrow> int \<Rightarrow> proc_taskallinfo read" where
  "ReadProcessTaskAllInfo proc_pidinfo pid =
     (if pid \<le> 0 then Inl ''pid must be greater than zero''
      else case proc_pidinfo pid of
             PidInfoComplete info \<Rightarrow> Inr info
           | PidInfoFailed strerror \<Rightarrow>
               Inl (ErrnoMessage (''proc_pidinfo(PROC_PIDTASKALLINFO) failed for pid '' @ int_to_string pid) strerror)
           | PidInfoIncomplete \<Rightarrow>
               Inl (''proc_pidinfo(PROC_PIDTASKALLINFO) returned incomplete data for pid '' @ int_to_string pid))"

definition BuildProcessIdentity :: "proc_taskallinfo \<Rightarrow> u64 read" where
  "BuildProcessIdentity info =
     (if 1000000 \<le> pbi_start_tvusec info then Inl ''process start time contains an invalid microsecond field''
      else if u64_max div 1000000 < pbi_start_tvsec info then Inl ''process start time conversion overflow''
      else
        let seconds_part = pbi_start_tvsec info * 1000000 in
        if u64_max - seconds_part < pbi_start_tvusec info then Inl ''process start time conversion overflow''
        else Inr (seconds_part + pbi_start_tvusec info))"

record macos_system =
  ms_pidinfo :: "int \<Rightarrow> pidinfo"
  ms_timebase :: "timebase option"
  ms_continuous_time :: u64
  ms_logicalcpu :: "string + nat \<times> u32"

definition macos_ReadProcessRawStats :: "macos_system \<Rightarrow> int \<Rightarrow> ProcessRawStats read" where
  "macos_ReadProcessRawStats sys pid =
     (case ReadProcessTaskAllInfo (ms_pidinfo sys) pid of
        Inl e \<Rightarrow> Inl e
      | Inr info \<Rightarrow>
      if pti_threadnum info < 0 then Inl ''proc_taskallinfo returned a negative thread count''
      else
      case AddWithoutOverflow (pti_total_user info) (pti_total_system info) of
        None \<Rightarrow> Inl ''process CPU time overflow''
      | Some ticks \<Rightarrow>
      case ReadMachTimebase (ms_timebase sys) of
        Inl e \<Rightarrow> Inl e
      | Inr timebase \<Rightarrow>
      case ConvertMachTicksToNanoseconds ticks timebase of
        None \<Rightarrow> Inl ''failed to convert Mach CPU time to nanoseconds''
      | Some ns \<Rightarrow>
      case BuildProcessIdentity info of
        Inl e \<Rightarrow> Inl e
      | Inr identity \<Rightarrow>
          Inr \<lparr> prs_cpu_time_ns = ns, prs_identity = identity, prs_rss_bytes = pti_resident_size info,
            prs_thread_count = of_int (pti_threadnum info), prs_fd_count = ucast (pbi_nfiles info) \<rparr>)"

definition macos_ReadSystemCapacity :: "macos_system \<Rightarrow> SystemCapacitySnapshot read" where
  "macos_ReadSystemCapacity sys =
     (case ReadContinuousTimeNanoseconds (ms_continuous_time sys) (ms_timebase sys) of
        Inl e \<Rightarrow> Inl e
      | Inr ns \<Rightarrow>
      case macos_ReadLogicalCpuCount (ms_logicalcpu sys) of
        Inl e \<Rightarrow> Inl e
      | Inr n \<Rightarrow> Inr \<lparr> scs_monotonic_time_ns = ns, scs_logical_cpu_count = n \<rparr>)"

section \<open>Other platforms\<close>

definition unsupported_ReadProcessRawStats :: "int \<Rightarrow> ProcessRawStats read" where
  "unsupported_ReadProcessRawStats pid = Inl ''metrics collection is not supported on this platform''"

definition unsupported_ReadSystemCapacity :: "SystemCapacitySnapshot read" where
  "unsupported_ReadSystemCapacity = Inl ''metrics collection is not supported on this platform''"

section \<open>Conversions of time\<close>

lemma max_div_less: "c \<noteq> 0 \<Longrightarrow> u64_max div c < w \<longleftrightarrow> 2 ^ 64 \<le> unat w * unat c"
proof -
  assume "c \<noteq> 0"
  then have "0 < unat c" by (simp add: unat_gt_0)
  have "u64_max div c < w \<longleftrightarrow> \<not> unat w \<le> (2 ^ 64 - 1) div unat c"
    by (simp add: word_less_nat_alt unat_div_distrib unat_u64_max not_le)
  also have "\<dots> \<longleftrightarrow> \<not> unat w * unat c \<le> 2 ^ 64 - 1"
    using \<open>0 < unat c\<close> by (simp add: less_eq_div_iff_mult_less_eq)
  finally show ?thesis by auto
qed

lemma max_minus_less: "u64_max - w < v \<longleftrightarrow> 2 ^ 64 \<le> unat w + unat v"
proof -
  have "w \<le> u64_max"
    by (simp add: u64_max_def)
  then have "unat (u64_max - w) = 2 ^ 64 - 1 - unat w"
    using unat_u64_max by (simp add: unat_sub)
  moreover have "unat w < 2 ^ 64"
    using unsigned_less [of w, where ?'a = nat] by simp
  ultimately show ?thesis
    by (simp add: word_less_nat_alt) linarith
qed

lemma u64_mult: "unat a * unat b < 2 ^ 64 \<Longrightarrow> unat (a * b :: u64) = unat a * unat b"
  by (simp add: unat_word_ariths)

lemma u64_add: "unat a + unat b < 2 ^ 64 \<Longrightarrow> unat (a + b :: u64) = unat a + unat b"
  by (simp add: unat_word_ariths)

lemma u64_of_sum: "unat a + unat b = n \<Longrightarrow> (a + b :: u64) = of_nat n"
  by auto

lemma split_scale: "(t * n) div d = (t div d) * n + (t mod d) * n div (d :: nat)"
proof (cases "d = 0")
  case False
  have "t * n = (t mod d) * n + d * ((t div d) * n)"
    by (metis add.commute add_mult_distrib div_mult_mod_eq mult.assoc mult.commute)
  with False show ?thesis
    by (metis add.commute div_mult_self2)
qed simp

lemma mach_conversion:
  assumes "n \<noteq> 0" and "d \<noteq> 0"
  shows "ConvertMachTicksToNanoseconds t (n, d) =
    (let ns = unat t * unat n div unat d in if ns < 2 ^ 64 then Some (of_nat ns) else None)"
proof -
  let ?n = "ucast n :: u64" and ?d = "ucast d :: u64"
  have small: "unat n < 2 ^ 32" "unat d < 2 ^ 32"
    using unsigned_less [of n, where ?'a = nat] unsigned_less [of d, where ?'a = nat] by simp_all
  then have u: "unat ?n = unat n" "unat ?d = unat d"
    by (simp_all add: unsigned_ucast_eq take_bit_nat_eq_self)
  have pos: "0 < unat n" "0 < unat d"
    using assms by (simp_all add: unat_gt_0)
  then have nz: "?n \<noteq> 0"
    using u by (metis unat_0 less_numeral_extra(3))
  have "unat t mod unat d * unat n < unat d * unat n"
    using pos by simp
  also have "\<dots> < 2 ^ 32 * 2 ^ 32"
    using small pos by (intro mult_strict_mono) simp_all
  finally have fraction: "unat ((t mod ?d) * ?n div ?d) = unat t mod unat d * unat n div unat d"
    by (simp add: unat_div_distrib unat_mod_distrib u64_mult u)
  have split: "unat t * unat n div unat d = (unat t div unat d) * unat n + unat t mod unat d * unat n div unat d"
    by (rule split_scale)
  have first: "u64_max div ?n < t div ?d \<longleftrightarrow> 2 ^ 64 \<le> (unat t div unat d) * unat n"
    using nz by (simp add: max_div_less unat_div_distrib u)
  show ?thesis
  proof (cases "2 ^ 64 \<le> (unat t div unat d) * unat n")
    case True
    then have "2 ^ 64 \<le> unat t * unat n div unat d"
      using split by linarith
    with True first assms show ?thesis
      by (simp add: ConvertMachTicksToNanoseconds_def Let_def)
  next
    case False
    then have whole: "unat (t div ?d * ?n) = (unat t div unat d) * unat n"
      by (simp add: u64_mult unat_div_distrib u)
    have second: "u64_max - t div ?d * ?n < (t mod ?d) * ?n div ?d \<longleftrightarrow> 2 ^ 64 \<le> unat t * unat n div unat d"
      by (simp add: max_minus_less whole fraction split)
    have sum: "t div ?d * ?n + (t mod ?d) * ?n div ?d = of_nat (unat t * unat n div unat d)"
      by (rule u64_of_sum) (simp only: whole fraction split)
    from False first second sum assms show ?thesis
      by (simp add: ConvertMachTicksToNanoseconds_def Let_def)
  qed
qed

text \<open>What is assumed of \<open>long double\<close>: the integers up to \<open>2 ^ 64\<close> are among its values.\<close>

definition exact_integers :: "rounding \<Rightarrow> bool" where
  "exact_integers ld \<longleftrightarrow> (\<forall>n \<le> 2 ^ 64. ld (of_nat n) = Fin (of_nat n))"

lemma unsigned_rat_less: "(unsigned (w :: u64) :: rat) < of_nat m \<longleftrightarrow> unat w < m"
  by (metis of_nat_less_iff of_nat_unat)

text \<open>Ticks of a whole number of nanoseconds.\<close>

lemma tick_conversion:
  assumes ld: "exact_integers ld" and per: "0 < per" "per dvd 1000000000"
  shows "ConvertTicksToNanoseconds ld t (int per) =
    (let ns = unat t * (1000000000 div per) in if ns < 2 ^ 64 then Some (of_nat ns) else None)"
proof -
  obtain k where k: "1000000000 = per * k" "0 < k"
    using per(2) by (metis dvd_def gr0I mult_is_0 zero_neq_numeral)
  have "per \<le> 1000000000"
    using per(2) by (intro dvd_imp_le) simp_all
  then have u: "unat (of_nat per :: u64) = per"
    by (simp add: unat_of_nat)
  let ?per = "of_nat per :: u64"
  let ?w = "t div ?per" and ?r = "t mod ?per"
  have parts: "unat ?w = unat t div per" "unat ?r = unat t mod per"
    by (simp_all add: unat_div_distrib unat_mod_distrib u)
  have r: "unat t mod per < per" using per(1) by simp
  have exact: "ld_of_nat ld m = Fin (of_nat m)" if "m \<le> 2 ^ 64" for m
    using ld that by (simp add: exact_integers_def ld_of_nat_def)
  have "unat t mod per * 1000000000 \<le> 1000000000 * 1000000000"
    using r \<open>per \<le> 1000000000\<close> by (intro mult_right_mono) simp_all
  then have product: "ld (of_nat (unat t mod per) * 1000000000) = Fin (of_nat (unat t mod per * 1000000000))"
    using exact [of "unat t mod per * 1000000000"] by (simp add: ld_of_nat_def)
  have rat_k: "(1000000000 :: rat) = of_nat per * of_nat k"
    using k(1) by (metis of_nat_mult of_nat_numeral)
  have "of_nat (unat t mod per * 1000000000) / of_nat per = (of_nat (unat t mod per * k) :: rat)"
    using rat_k per(1) by (simp add: field_simps)
  moreover have "unat t mod per * k \<le> 1000000000"
    using r k(1) by (metis less_imp_le_nat mult_le_mono1)
  ultimately have fraction: "ld_div ld (ld_mul ld (ld_of_nat ld (unat ?r)) (ld_of_nat ld 1000000000)) (ld_of_nat ld (unat ?per))
      = Fin (of_nat (unat t mod per * k))"
    using exact [of "unat t mod per"] exact [of 1000000000] exact [of per] exact [of "unat t mod per * k"] r
      \<open>per \<le> 1000000000\<close> product
    by (simp add: parts u ld_of_nat_def)
  define m where "m = unat t mod per * k"
  define ns where "ns = unat t * k"
  have m: "m \<le> 1000000000"
    using r k(1) unfolding m_def by (metis less_imp_le_nat mult_le_mono1)
  have sum: "ns = (unat t div per) * 1000000000 + m"
    using k(1) unfolding ns_def m_def by (metis add_mult_distrib div_mult_mod_eq mult.assoc)
  have first: "u64_max div 1000000000 < ?w \<longleftrightarrow> 2 ^ 64 \<le> (unat t div per) * 1000000000"
    by (simp add: max_div_less parts)
  have k_is: "1000000000 div per = k"
    unfolding k(1) using per(1) by (intro nonzero_mult_div_cancel_left) simp
  note fraction = fraction [folded m_def]
  show ?thesis
  proof (cases "2 ^ 64 \<le> (unat t div per) * 1000000000")
    case True
    then have "\<not> ns < 2 ^ 64"
      using sum by linarith
    with True first per(1) show ?thesis
      by (simp add: ConvertTicksToNanoseconds_def Let_def k_is flip: ns_def)
  next
    case False
    then have whole: "unat (?w * 1000000000) = (unat t div per) * 1000000000"
      by (simp add: u64_mult parts)
    have small: "unat (of_nat m :: u64) = m"
      using m by (simp add: unat_of_nat)
    have "double_less (ld_of_nat ld (unat (u64_max - ?w * 1000000000))) (Fin (of_nat m))
        \<longleftrightarrow> u64_max - ?w * 1000000000 < of_nat m"
      using exact [of "unat (u64_max - ?w * 1000000000)"] unsigned_less [of "u64_max - ?w * 1000000000", where ?'a = nat]
      by (simp add: word_less_nat_alt small unsigned_rat_less)
    also have "\<dots> \<longleftrightarrow> 2 ^ 64 \<le> ns"
      by (simp add: max_minus_less whole small sum)
    finally have second: "double_less (ld_of_nat ld (unat (u64_max - ?w * 1000000000))) (Fin (of_nat m)) \<longleftrightarrow> 2 ^ 64 \<le> ns" .
    have total: "?w * 1000000000 + ld_to_u64 (Fin (of_nat m)) = of_nat ns"
      using u64_of_sum [of "?w * 1000000000" "of_nat m" ns] whole small sum by simp
    have not_negative: "\<not> double_less (Fin (of_nat m)) (Fin 0)"
      by simp
    show ?thesis
      using False first second total not_negative fraction per(1)
      by (simp add: ConvertTicksToNanoseconds_def Let_def k_is flip: ns_def)
  qed
qed

section \<open>What the kernel prints\<close>

lemma getlines_line: "newline \<notin> set l \<Longrightarrow> getlines (l @ newline # rest) = l # getlines rest"
proof (cases l)
  case (Cons c cs)
  assume "newline \<notin> set l"
  then have "x \<noteq> newline" if "x \<in> set l" for x
    using that by auto
  then have "takeWhile (\<lambda>x. x \<noteq> newline) (l @ newline # rest) = l" "dropWhile (\<lambda>x. x \<noteq> newline) (l @ newline # rest) = newline # rest"
    by (simp_all add: takeWhile_append2 dropWhile_append2)
  then show ?thesis
    unfolding Cons append_Cons getlines.simps(2) by simp
qed simp

definition lines_text :: "string list \<Rightarrow> string" where
  "lines_text ls = concat (map (\<lambda>l. l @ [newline]) ls)"

lemma getlines_text: "list_all (\<lambda>l. newline \<notin> set l) ls \<Longrightarrow> getlines (lines_text ls) = ls"
  by (induction ls) (simp_all add: lines_text_def getlines_line)

lemma drop_past: "drop (length a + 1) (a @ c # b) = b"
  by simp

lemma rfind_last: "c \<notin> set b \<Longrightarrow> rfind_char c (a @ c # b) = Some (length a)"
  by (simp add: rfind_char_def find_char_append)

definition clean :: "string \<Rightarrow> bool" where
  "clean f \<longleftrightarrow> f \<noteq> [] \<and> list_all (\<lambda>c. \<not> is_trimmed c) f"

definition spaced_fields :: "string list \<Rightarrow> string" where
  "spaced_fields fs = concat (map (\<lambda>f. CHR '' '' # f) fs)"

lemma blank_trimmed: "is_blank c \<Longrightarrow> is_trimmed c"
  by (auto simp: is_blank_def is_trimmed_def)

lemma SplitWhitespace_token:
  assumes "list_all is_blank bs" and "clean f" and "rest = [] \<or> is_blank (hd rest)"
  shows "SplitWhitespace (bs @ f @ rest) = f # SplitWhitespace rest"
proof -
  obtain c cs where f: "f = c # cs"
    using assms(2) by (cases f) (auto simp: clean_def)
  have dark: "\<not> is_blank x" if "x \<in> set f" for x
    using assms(2) that blank_trimmed by (auto simp: clean_def list_all_iff)
  have "dropWhile is_blank (bs @ f @ rest) = f @ rest"
    using assms(1) dark [of c] by (simp add: dropWhile_append2 list_all_iff f)
  moreover have "takeWhile (\<lambda>x. \<not> is_blank x) (f @ rest) = f" "dropWhile (\<lambda>x. \<not> is_blank x) (f @ rest) = rest"
    using dark assms(3) by (cases rest; simp add: takeWhile_append2 dropWhile_append2)+
  ultimately show ?thesis
    by (subst SplitWhitespace.simps) (simp add: f)
qed

lemma SplitWhitespace_spaced: "list_all clean fs \<Longrightarrow> SplitWhitespace (spaced_fields fs) = fs"
proof (induction fs)
  case Nil
  show ?case by (subst SplitWhitespace.simps) (simp add: spaced_fields_def)
next
  case (Cons f fs)
  have "spaced_fields fs = [] \<or> is_blank (hd (spaced_fields fs))"
    by (cases fs) (simp_all add: spaced_fields_def is_blank_def)
  then have "SplitWhitespace ('' '' @ f @ spaced_fields fs) = f # SplitWhitespace (spaced_fields fs)"
    using Cons.prems by (intro SplitWhitespace_token) (simp_all add: is_blank_def)
  with Cons show ?case by (simp add: spaced_fields_def)
qed

lemma Trim_spaced:
  assumes "list_all clean (f # fs)"
  shows "Trim (spaced_fields (f # fs)) = f @ spaced_fields fs"
proof -
  obtain c cs where f: "f = c # cs" "\<not> is_trimmed c"
    using assms by (cases f) (auto simp: clean_def)
  have front: "dropWhile is_trimmed (spaced_fields (f # fs)) = f @ spaced_fields fs"
    using f by (simp add: spaced_fields_def is_trimmed_def)
  obtain gs g where g: "f # fs = gs @ [g]"
    by (metis append_butlast_last_id list.discI)
  have "clean g"
    using assms unfolding g by simp
  then obtain ds d where d: "g = ds @ [d]" "\<not> is_trimmed d"
    by (cases g rule: rev_cases) (auto simp: clean_def)
  have "'' '' @ f @ spaced_fields fs = spaced_fields (gs @ [g])"
    unfolding g [symmetric] by (simp add: spaced_fields_def)
  then have "'' '' @ f @ spaced_fields fs = (spaced_fields gs @ '' '' @ ds) @ [d]"
    by (simp add: spaced_fields_def d(1))
  then have "f @ spaced_fields fs \<noteq> []" "last (f @ spaced_fields fs) = d"
    using f(1) by (simp, metis append_is_Nil_conv f(1) last_appendR last_snoc list.discI)
  then have "rev (f @ spaced_fields fs) = d # rev (butlast (f @ spaced_fields fs))"
    by (metis append_butlast_last_id rev.simps(2) rev_rev_ident rev_singleton_conv rev_append rev_is_Nil_conv append_Cons append_Nil)
  then have "dropWhile is_trimmed (rev (f @ spaced_fields fs)) = rev (f @ spaced_fields fs)"
    using d(2) by simp
  then show ?thesis
    by (simp add: Trim_def front)
qed

text \<open>A line of \<open>/proc/<pid>/stat\<close>: the name in parentheses, then the columns.\<close>

definition stat_line :: "nat \<Rightarrow> string \<Rightarrow> string list \<Rightarrow> string" where
  "stat_line pid comm columns = nat_to_string pid @ '' ('' @ comm @ '')'' @ spaced_fields columns"

lemma split_stat_fields:
  assumes "list_all clean (f # fs)"
  shows "SplitWhitespace (Trim (spaced_fields (f # fs))) = f # fs"
proof -
  have "spaced_fields fs = [] \<or> is_blank (hd (spaced_fields fs))"
    by (cases fs) (simp_all add: spaced_fields_def is_blank_def)
  then have "SplitWhitespace ([] @ f @ spaced_fields fs) = f # SplitWhitespace (spaced_fields fs)"
    using assms by (intro SplitWhitespace_token) simp_all
  then show ?thesis
    using Trim_spaced [OF assms] SplitWhitespace_spaced [of fs] assms by simp
qed

lemma read_number: "n < 2 ^ 64 \<Longrightarrow> ParseUnsigned (nat_to_string n) = Some (of_nat n)"
  by (simp add: ParseUnsigned_def from_chars_nat_to_string)

lemma read_stat_line:
  assumes "newline \<notin> set comm" and "list_all clean columns" and "list_all (\<lambda>f. CHR '')'' \<notin> set f) columns"
    and "20 \<le> length columns"
    and "columns ! 11 = nat_to_string u" "columns ! 12 = nat_to_string v" "columns ! 19 = nat_to_string start"
    and "u + v < 2 ^ 64" "start < 2 ^ 64"
  shows "ReadProcStatCpuFields pid (Some (lines_text [stat_line n comm columns]))
    = Inr \<lparr> psf_process_cpu_ticks = of_nat (u + v), psf_start_time_ticks = of_nat start \<rparr>"
proof -
  obtain f fs where columns: "columns = f # fs"
    using assms(4) by (cases columns) auto
  define front where "front = nat_to_string n @ '' ('' @ comm"
  have line: "stat_line n comm columns = front @ CHR '')'' # spaced_fields columns"
    by (simp add: stat_line_def front_def)
  have clean_chars: "x \<notin> set (spaced_fields columns)" if "is_trimmed x" "x \<noteq> CHR '' ''" for x
    using assms(2) that by (auto simp: spaced_fields_def clean_def list_all_iff)
  have digits: "x \<notin> set (nat_to_string n)" if "\<not> is_digit x" for x
    using nat_to_string_digits [of n] that by blast
  have "newline \<notin> set (stat_line n comm columns)"
    using assms(1) clean_chars [of newline] digits [of newline]
    by (simp add: stat_line_def newline_def is_trimmed_def is_digit_def)
  then have lines: "getlines (lines_text [stat_line n comm columns]) = [stat_line n comm columns]"
    by (intro getlines_text) simp
  have paren: "rfind_char (CHR '')'') (stat_line n comm columns) = Some (length front)"
    unfolding line using assms(3) by (intro rfind_last) (auto simp: spaced_fields_def list_all_iff)
  have tail: "drop (Suc (length front)) (stat_line n comm columns) = spaced_fields columns"
    unfolding line using drop_past [of front] by simp
  have long: "\<not> length (stat_line n comm columns) \<le> Suc (length front)"
    unfolding line by (simp add: columns spaced_fields_def)
  have parts: "SplitWhitespace (Trim (spaced_fields columns)) = columns"
    using split_stat_fields assms(2) unfolding columns by blast
  have "AddWithoutOverflow (of_nat u) (of_nat v) = Some (of_nat (u + v))"
    using assms(8) by (simp add: AddWithoutOverflow_def max_minus_less unat_of_nat)
  then show ?thesis
    using assms read_number [of u] read_number [of v] read_number [of start]
    by (simp add: ReadProcStatCpuFields_def Let_def lines paren tail long parts del: length_append)
qed

text \<open>The lines of \<open>/proc/<pid>/status\<close> that are read, and the others.\<close>

definition rss_line :: "string \<Rightarrow> nat \<Rightarrow> string" where
  "rss_line blanks n = ''VmRSS:'' @ blanks @ nat_to_string n @ '' kB''"

definition threads_line :: "string \<Rightarrow> nat \<Rightarrow> string" where
  "threads_line blanks n = ''Threads:'' @ blanks @ nat_to_string n"

definition other_line :: "string \<Rightarrow> bool" where
  "other_line l \<longleftrightarrow> \<not> starts_with l ''VmRSS:'' \<and> \<not> starts_with l ''Threads:'' \<and> newline \<notin> set l"

lemma scan_skip: "list_all other_line a \<Longrightarrow> scan_status path (a @ ls) x y = scan_status path ls x y"
  by (induction a) (simp_all add: other_line_def)

lemma digits_clean: "clean (nat_to_string n)"
  using nat_to_string_digits [of n] by (auto simp: clean_def list_all_iff is_trimmed_def is_digit_def)

lemma newline_dark: "\<not> is_blank newline" "\<not> is_digit newline"
  by (simp_all add: is_blank_def is_digit_def newline_def)

lemma status_number:
  assumes "list_all is_blank blanks" and "n < 2 ^ 64" and "rest = [] \<or> is_blank (hd rest)"
    and "line = name @ CHR '':'' # blanks @ nat_to_string n @ rest"
  shows "status_field path name line = Inr (of_nat n)"
proof -
  have "drop (length name + 1) line = blanks @ nat_to_string n @ rest"
    unfolding assms(4) by (rule drop_past)
  then show ?thesis
    using SplitWhitespace_token [OF assms(1) digits_clean assms(3), of n] read_number [OF assms(2)]
    by (simp add: status_field_def)
qed

lemma status_lines:
  assumes "list_all is_blank bs" and "n < 2 ^ 64"
  shows "status_field path ''VmRSS'' (rss_line bs n) = Inr (of_nat n)" "starts_with (rss_line bs n) ''VmRSS:''"
    "status_field path ''Threads'' (threads_line bs n) = Inr (of_nat n)" "starts_with (threads_line bs n) ''Threads:''"
    "\<not> starts_with (threads_line bs n) ''VmRSS:''" "newline \<notin> set (rss_line bs n)" "newline \<notin> set (threads_line bs n)"
proof -
  show "status_field path ''VmRSS'' (rss_line bs n) = Inr (of_nat n)"
    by (rule status_number [OF assms, of "'' kB''"]) (simp_all add: rss_line_def is_blank_def)
  show "status_field path ''Threads'' (threads_line bs n) = Inr (of_nat n)"
    by (rule status_number [OF assms, of "[]"]) (simp_all add: threads_line_def)
  have "newline \<notin> set bs" "newline \<notin> set (nat_to_string n)"
    using assms(1) nat_to_string_digits [of n] newline_dark unfolding list_all_iff by blast+
  then show "newline \<notin> set (rss_line bs n)" "newline \<notin> set (threads_line bs n)"
    by (simp_all add: rss_line_def threads_line_def newline_def)
qed (simp_all add: rss_line_def threads_line_def starts_with_def)

lemma read_status_text:
  assumes blanks: "list_all is_blank bs" "list_all is_blank bs'"
    and others: "list_all other_line a" "list_all other_line b" "list_all other_line c"
    and small: "rss * 1024 < 2 ^ 64" "threads < 2 ^ 64"
  shows "ReadProcStatusFields pid (Some (lines_text (a @ rss_line bs rss # b @ threads_line bs' threads # c)))
    = Inr \<lparr> pst_rss_bytes = of_nat (rss * 1024), pst_thread_count = of_nat threads \<rparr>"
proof -
  have rss: "rss < 2 ^ 64" using small by simp
  note lines = status_lines [OF blanks(1) rss] status_lines [OF blanks(2) small(2)]
  have shown: "getlines (lines_text (a @ rss_line bs rss # b @ threads_line bs' threads # c))
      = a @ rss_line bs rss # b @ threads_line bs' threads # c"
    using others lines by (intro getlines_text) (auto simp: list_all_iff other_line_def)
  have scan: "scan_status path (a @ rss_line bs rss # b @ threads_line bs' threads # c) None None
      = Inr (Some (of_nat rss), Some (of_nat threads))" for path
    using others lines scan_skip [OF others(3), of path "[]"] by (simp add: scan_skip)
  have "\<not> u64_max div 1024 < of_nat rss"
    using small rss by (simp add: max_div_less unat_of_nat)
  then show ?thesis
    by (simp add: ReadProcStatusFields_def Let_def shown scan)
qed

lemma count_entries_all:
  "unat n + length es < 2 ^ 64 \<Longrightarrow> list_all (\<lambda>e. e = None) es \<Longrightarrow>
     count_entries path es n = Inr (n + of_nat (length es))"
proof (induction es arbitrary: n)
  case (Cons e es)
  then have "unat n < 2 ^ 64 - 1" by simp
  then have "n \<noteq> u64_max" "unat (n + 1) = unat n + 1"
    using unat_u64_max by (auto simp: u64_add)
  with Cons show ?case by (simp add: add.assoc)
qed simp

section \<open>The readers as one interface\<close>

text \<open>
  What the collector relies on whichever reader is built in: a failure carries a text, no process id
  below one has statistics, and a capacity has a processor, so that the time the processors offered
  between two readings is not zero.
\<close>

locale platform_metrics_reader =
  fixes read_stats :: "int \<Rightarrow> ProcessRawStats read" and read_capacity :: "SystemCapacitySnapshot read"
  assumes stats_error: "read_stats pid = Inl e \<Longrightarrow> e \<noteq> []"
    and capacity_error: "read_capacity = Inl e \<Longrightarrow> e \<noteq> []"
    and no_process: "pid \<le> 0 \<Longrightarrow> \<exists>e. read_stats pid = Inl e"
    and has_processor: "read_capacity = Inr c \<Longrightarrow> scs_logical_cpu_count c \<noteq> 0"
begin

lemma offered_time: "read_capacity = Inr c \<Longrightarrow> 0 < wall \<Longrightarrow> 0 < wall * unat (scs_logical_cpu_count c)"
  using has_processor by (simp add: unat_gt_0)

lemma stats_of_process: "read_stats pid = Inr x \<Longrightarrow> 0 < pid"
  using no_process [of pid] by (cases "pid \<le> 0") auto

end

lemma u32_of_positive: "0 < i \<Longrightarrow> i \<le> 2 ^ 32 - 1 \<Longrightarrow> (of_int i :: u32) \<noteq> 0"
proof
  assume i: "0 < i" "i \<le> 2 ^ 32 - 1" and "(of_int i :: u32) = 0"
  then have "uint (of_int i :: u32) = 0" by simp
  with i show False by (simp add: uint_word_of_int take_bit_int_eq_self)
qed

lemma ReadProcStatCpuFields_error: "ReadProcStatCpuFields pid file = Inl e \<Longrightarrow> e \<noteq> []"
  by (auto simp: ReadProcStatCpuFields_def Let_def split: option.splits list.splits if_splits)

lemma scan_status_error: "scan_status path ls x y = Inl e \<Longrightarrow> e \<noteq> []"
  by (induction ls arbitrary: x y) (auto simp: status_field_def split: if_splits sum.splits list.splits option.splits)

lemma ReadProcStatusFields_error: "ReadProcStatusFields pid file = Inl e \<Longrightarrow> e \<noteq> []"
  using scan_status_error
  by (fastforce simp: ReadProcStatusFields_def Let_def split: option.splits sum.splits if_splits)

lemma count_entries_error: "count_entries path es n = Inl e \<Longrightarrow> e \<noteq> []"
  by (induction es arbitrary: n) (auto split: if_splits option.splits)

lemma CountOpenFileDescriptors_error: "CountOpenFileDescriptors pid fds = Inl e \<Longrightarrow> e \<noteq> []"
  using count_entries_error by (auto simp: CountOpenFileDescriptors_def Let_def split: sum.splits)

interpretation linux_reader: platform_metrics_reader "linux_ReadProcessRawStats ld sys" "linux_ReadSystemCapacity sys"
  for ld sys
proof
  show "e \<noteq> []" if "linux_ReadProcessRawStats ld sys pid = Inl e" for pid e
    using that ReadProcStatCpuFields_error ReadProcStatusFields_error CountOpenFileDescriptors_error
    by (auto simp: linux_ReadProcessRawStats_def split: if_splits sum.splits option.splits)
  show "e \<noteq> []" if "linux_ReadSystemCapacity sys = Inl e" for e
    using that by (auto simp: linux_ReadSystemCapacity_def ReadMonotonicTimeNanoseconds_def linux_ReadLogicalCpuCount_def Let_def
        split: sum.splits option.splits if_splits)
  show "\<exists>e. linux_ReadProcessRawStats ld sys pid = Inl e" if "pid \<le> 0" for pid
    using that by (simp add: linux_ReadProcessRawStats_def)
  show "scs_logical_cpu_count c \<noteq> 0" if "linux_ReadSystemCapacity sys = Inr c" for c
    using that u32_of_positive [of "ls_processors sys"]
    by (auto simp: linux_ReadSystemCapacity_def linux_ReadLogicalCpuCount_def split: sum.splits if_splits)
qed

interpretation macos_reader: platform_metrics_reader "macos_ReadProcessRawStats sys" "macos_ReadSystemCapacity sys"
  for sys
proof
  show "e \<noteq> []" if "macos_ReadProcessRawStats sys pid = Inl e" for pid e
    using that by (auto simp: macos_ReadProcessRawStats_def ReadProcessTaskAllInfo_def ReadMachTimebase_def
        BuildProcessIdentity_def ErrnoMessage_def Let_def split: if_splits sum.splits option.splits pidinfo.splits)
  show "e \<noteq> []" if "macos_ReadSystemCapacity sys = Inl e" for e
    using that by (auto simp: macos_ReadSystemCapacity_def ReadContinuousTimeNanoseconds_def ReadMachTimebase_def
        macos_ReadLogicalCpuCount_def ErrnoMessage_def split: if_splits sum.splits option.splits)
  show "\<exists>e. macos_ReadProcessRawStats sys pid = Inl e" if "pid \<le> 0" for pid
    using that by (simp add: macos_ReadProcessRawStats_def ReadProcessTaskAllInfo_def)
  show "scs_logical_cpu_count c \<noteq> 0" if "macos_ReadSystemCapacity sys = Inr c" for c
    using that by (auto simp: macos_ReadSystemCapacity_def macos_ReadLogicalCpuCount_def split: sum.splits if_splits)
qed

interpretation unsupported_reader: platform_metrics_reader unsupported_ReadProcessRawStats unsupported_ReadSystemCapacity
  by unfold_locales (simp_all add: unsupported_ReadProcessRawStats_def unsupported_ReadSystemCapacity_def)

section \<open>The properties\<close>

text \<open>C19. The Linux reader returns the numbers the kernel printed, whatever the name of the process
  holds - blanks and parentheses included - and whatever other lines the status has: the CPU time is
  the user and the system ticks together, in nanoseconds.\<close>

theorem linux_reads_kernel_text:
  assumes "exact_integers ld" and "0 < pid" and "0 < per" and "per dvd 1000000000"
    and "newline \<notin> set comm" and "list_all clean columns" and "list_all (\<lambda>f. CHR '')'' \<notin> set f) columns"
    and "20 \<le> length columns" and "columns ! 11 = nat_to_string u" and "columns ! 12 = nat_to_string v"
    and "columns ! 19 = nat_to_string start" and "(u + v) * (1000000000 div per) < 2 ^ 64" and "start < 2 ^ 64"
    and "list_all is_blank bs" and "list_all is_blank bs'"
    and "list_all other_line a" and "list_all other_line b" and "list_all other_line c"
    and "rss * 1024 < 2 ^ 64" and "threads < 2 ^ 64"
    and "list_all (\<lambda>e. e = None) entries" and "length entries < 2 ^ 64"
    and "ls_stat sys pid = Some (lines_text [stat_line n comm columns])"
    and "ls_status sys pid = Some (lines_text (a @ rss_line bs rss # b @ threads_line bs' threads # c))"
    and "ls_fds sys pid = Inr entries" and "ls_ticks_per_second sys = int per"
  shows "linux_ReadProcessRawStats ld sys pid = Inr \<lparr> prs_cpu_time_ns = of_nat ((u + v) * (1000000000 div per)),
    prs_identity = of_nat start, prs_rss_bytes = of_nat (rss * 1024), prs_thread_count = of_nat threads,
    prs_fd_count = of_nat (length entries) \<rparr>"
proof -
  have "per \<le> 1000000000"
    using assms(4) by (intro dvd_imp_le) simp_all
  then have "0 < 1000000000 div per"
    using assms(3) by (simp add: div_greater_zero_iff)
  then have "u + v \<le> (u + v) * (1000000000 div per)" by simp
  then have sum: "u + v < 2 ^ 64"
    using assms(12) by linarith
  then have "ConvertTicksToNanoseconds ld (of_nat (u + v)) (int per) = Some (of_nat ((u + v) * (1000000000 div per)))"
    using tick_conversion [OF assms(1,3,4), of "of_nat (u + v)"] assms(12)
    by (simp add: Let_def unat_of_nat del: of_nat_add of_nat_mult)
  moreover have "count_entries path entries 0 = Inr (of_nat (length entries))" for path
    using count_entries_all [of 0 entries path] assms(21,22) by simp
  ultimately show ?thesis
    using assms read_stat_line [OF assms(5-11) sum assms(13), of pid n]
      read_status_text [OF assms(14-20), of pid]
    by (simp add: linux_ReadProcessRawStats_def CountOpenFileDescriptors_def Let_def del: of_nat_add of_nat_mult)
qed

text \<open>C38. The conversion of Mach ticks is exact: the result is the ticks times the numerator over the
  denominator, rounded down, whenever that fits in 64 bits, and otherwise the conversion is refused;
  no product inside it wraps around.\<close>

theorem mach_ticks_exact:
  "ConvertMachTicksToNanoseconds t (n, d) =
    (if n = 0 \<or> d = 0 then None
     else let ns = unat t * unat n div unat d in if ns < 2 ^ 64 then Some (of_nat ns) else None)"
proof (cases "n = 0 \<or> d = 0")
  case True
  then show ?thesis by (auto simp: ConvertMachTicksToNanoseconds_def)
qed (simp add: mach_conversion)

section \<open>Witness\<close>

text \<open>A process called \<open>a) (b\<close> with three seconds of CPU time at a hundred ticks per second.\<close>

definition demo_columns :: "string list" where
  "demo_columns = [''S'', ''1'', ''9'', ''9'', ''0'', ''-1'', ''4'', ''0'', ''0'', ''0'', ''0'', ''200'', ''100'', ''0'',
     ''0'', ''20'', ''0'', ''4'', ''0'', ''777'']"

definition demo_linux :: linux_system where
  "demo_linux = \<lparr> ls_stat = (\<lambda>_. Some (lines_text [stat_line 9 ''a) (b'' demo_columns])),
     ls_status = (\<lambda>_. Some (lines_text ([''Name: x''] @ rss_line ''  '' 5000 # [] @ threads_line '' '' 4 # []))),
     ls_fds = (\<lambda>_. Inr [None, None]), ls_ticks_per_second = 100, ls_clock = Some (1, 2), ls_processors = 8 \<rparr>"

lemma exact_demo: "exact_integers (\<lambda>r. Fin r)"
  by (simp add: exact_integers_def)

theorem linux_reads_kernel_text_witness:
  "linux_ReadProcessRawStats (\<lambda>r. Fin r) demo_linux 9 = Inr \<lparr> prs_cpu_time_ns = 3000000000, prs_identity = 777,
     prs_rss_bytes = 5120000, prs_thread_count = 4, prs_fd_count = 2 \<rparr>"
proof -
  have shown: "nat_to_string 200 = ''200''" "nat_to_string 100 = ''100''" "nat_to_string 777 = ''777''"
    by (simp_all add: nat_to_string.simps digit_char_def)
  show ?thesis
    using linux_reads_kernel_text [OF exact_demo, of 9 100 "''a) (b''" demo_columns 200 100 777 "''  ''" "'' ''"
        "[''Name: x'']" "[]" "[]" 5000 4 "[None, None]" demo_linux 9]
    by (simp add: demo_linux_def demo_columns_def shown clean_def is_trimmed_def newline_def is_blank_def other_line_def
        starts_with_def)
qed

end
