(* ===== verification/Programs.thy ===== *)
theory Programs
  imports Prelude
begin

text \<open>
  The two programs: \<open>src/apps/agent/main.cpp\<close> - its arguments and the order in which it starts and
  stops the parts of the agent - and \<open>src/apps/demo_service/main.cpp\<close>, the service the agent is tried
  out with. What the operating system and the parts answer is an argument; what a program does is the
  list of its calls and of what it prints as an error. The lemmas say which arguments are accepted, that
  everything that was started is stopped, in reverse order, unless an exception without handler
  terminates the agent, and how the demo service divides its time.
\<close>

section \<open>Arguments\<close>

text \<open>\<open>argv\<close> without the program's name; an error carries the text printed.\<close>

datatype 'a arguments = RunWith 'a | HelpShown | BadArguments string

text \<open>A number without sign that is written out completely and in range.\<close>

definition number_between :: "nat \<Rightarrow> nat \<Rightarrow> nat \<Rightarrow> string \<Rightarrow> nat option" where
  "number_between maxval lo hi arg =
     (case from_chars_all maxval arg of
        None \<Rightarrow> None
      | Some n \<Rightarrow> if n < lo \<or> hi < n then None else Some n)"

subsection \<open>The agent\<close>

record AgentOptions =
  ao_config_path :: string
  ao_work_dir :: string
  ao_port :: u16

definition default_agent_options :: AgentOptions where
  "default_agent_options = \<lparr> ao_config_path = ''configs/services.json'', ao_work_dir = ''.'', ao_port = 18081 \<rparr>"

fun ParseArgs :: "string list \<Rightarrow> AgentOptions \<Rightarrow> AgentOptions arguments" where
  "ParseArgs [] options = RunWith options"
| "ParseArgs (argument # rest) options =
     (if argument = ''--help'' \<or> argument = ''-h'' then HelpShown
      else if argument = ''--config'' then
        (case rest of
           [] \<Rightarrow> BadArguments (argument @ '' requires a value'')
         | v # rest \<Rightarrow> ParseArgs rest (options\<lparr> ao_config_path := v \<rparr>))
      else if argument = ''--work-dir'' then
        (case rest of
           [] \<Rightarrow> BadArguments (argument @ '' requires a value'')
         | v # rest \<Rightarrow> ParseArgs rest (options\<lparr> ao_work_dir := v \<rparr>))
      else if argument = ''--port'' then
        (case rest of
           [] \<Rightarrow> BadArguments (argument @ '' requires a value'')
         | v # rest \<Rightarrow>
             (case number_between (2 ^ 32 - 1) 1 65535 v of
                None \<Rightarrow> BadArguments (''invalid port: '' @ v)
              | Some n \<Rightarrow> ParseArgs rest (options\<lparr> ao_port := of_nat n \<rparr>)))
      else BadArguments (''unknown argument: '' @ argument))"

subsection \<open>The demo service\<close>

record ServiceOptions =
  so_service_name :: string
  so_heartbeat_interval :: nat
  so_exit_after :: "nat option"
  so_exit_code :: nat
  so_ignore_sigterm :: bool
  so_spawn_child :: bool
  so_cpu_load_percent :: nat

definition default_service_options :: ServiceOptions where
  "default_service_options = \<lparr> so_service_name = ''demo_service'', so_heartbeat_interval = 1000, so_exit_after = None,
     so_exit_code = 0, so_ignore_sigterm = False, so_spawn_child = False, so_cpu_load_percent = 0 \<rparr>"

definition in_range :: "char \<Rightarrow> char \<Rightarrow> char \<Rightarrow> bool" where
  "in_range lo hi c \<longleftrightarrow> (of_char lo :: nat) \<le> of_char c \<and> (of_char c :: nat) \<le> of_char hi"

definition IsAllowedServiceNameChar :: "char \<Rightarrow> bool" where
  "IsAllowedServiceNameChar c \<longleftrightarrow>
     in_range (CHR ''a'') (CHR ''z'') c \<or> in_range (CHR ''A'') (CHR ''Z'') c \<or> in_range (CHR ''0'') (CHR ''9'') c
     \<or> c = CHR ''_'' \<or> c = CHR ''-''"

definition IsValidServiceName :: "string \<Rightarrow> bool" where
  "IsValidServiceName service_name \<longleftrightarrow>
     service_name \<noteq> [] \<and> length service_name \<le> 64 \<and> list_all IsAllowedServiceNameChar service_name"

text \<open>The options that take a value: the new options, or the text of the error.\<close>

definition is_value_option :: "string \<Rightarrow> bool" where
  "is_value_option argument \<longleftrightarrow>
     argument \<in> {''--name'', ''--interval-ms'', ''--exit-after'', ''--exit-code'', ''--cpu-load-percent''}"

definition invalid_number :: "string \<Rightarrow> string \<Rightarrow> string \<Rightarrow> string" where
  "invalid_number argument v allowed =
     ''invalid '' @ argument @ '' value: '' @ v @ [CHR 0x0A] @ ''allowed range: '' @ allowed"

definition value_option :: "string \<Rightarrow> string \<Rightarrow> ServiceOptions \<Rightarrow> string + ServiceOptions" where
  "value_option argument v options =
     (if argument = ''--name'' then
        (if \<not> IsValidServiceName v then
           Inl (''invalid service name: '' @ v @ [CHR 0x0A] @ ''allowed characters: letters, digits, '' @ [CHR 0x27, CHR ''_'', CHR 0x27] @ '' and '' @ [CHR 0x27, CHR ''-'', CHR 0x27])
         else Inr (options\<lparr> so_service_name := v \<rparr>))
      else if argument = ''--interval-ms'' then
        (case number_between (2 ^ 64 - 1) 100 60000 v of
           None \<Rightarrow> Inl (invalid_number argument v ''100 to 60000'')
         | Some n \<Rightarrow> Inr (options\<lparr> so_heartbeat_interval := n \<rparr>))
      else if argument = ''--exit-after'' then
        (case number_between (2 ^ 64 - 1) 1 86400 v of
           None \<Rightarrow> Inl (invalid_number argument v ''1 to 86400 seconds'')
         | Some n \<Rightarrow> Inr (options\<lparr> so_exit_after := Some n \<rparr>))
      else if argument = ''--exit-code'' then
        (case number_between (2 ^ 32 - 1) 0 255 v of
           None \<Rightarrow> Inl (invalid_number argument v ''0 to 255'')
         | Some n \<Rightarrow> Inr (options\<lparr> so_exit_code := n \<rparr>))
      else
        (case number_between (2 ^ 32 - 1) 0 100 v of
           None \<Rightarrow> Inl (invalid_number argument v ''0 to 100'')
         | Some n \<Rightarrow> Inr (options\<lparr> so_cpu_load_percent := n \<rparr>)))"

text \<open>\<open>seen\<close> stands for the \<open>has_\<close> flags.\<close>

fun ParseArguments :: "string list \<Rightarrow> string list \<Rightarrow> ServiceOptions \<Rightarrow> ServiceOptions arguments" where
  "ParseArguments [] seen options = RunWith options"
| "ParseArguments (argument # rest) seen options =
     (if argument = ''--help'' \<or> argument = ''-h'' then HelpShown
      else if is_value_option argument then
        (if argument \<in> set seen then BadArguments (argument @ '' cannot be specified twice'')
         else
           case rest of
             [] \<Rightarrow> BadArguments (argument @ '' requires a value'')
           | v # rest \<Rightarrow>
               (case value_option argument v options of
                  Inl e \<Rightarrow> BadArguments e
                | Inr options \<Rightarrow> ParseArguments rest (argument # seen) options))
      else if argument = ''--ignore-sigterm'' \<or> argument = ''--spawn-child'' then
        (if argument \<in> set seen then BadArguments (argument @ '' cannot be specified twice'')
         else ParseArguments rest (argument # seen)
           (if argument = ''--ignore-sigterm'' then options\<lparr> so_ignore_sigterm := True \<rparr>
            else options\<lparr> so_spawn_child := True \<rparr>))
      else BadArguments (''unknown argument: '' @ argument))"

section \<open>The life of the agent\<close>

datatype part = PartRegistry | PartCollector | PartMonitor | PartServer

text \<open>
  \<open>Opened\<close> a part is one that was started, or for the server constructed; \<open>Closed\<close> is its stop, for
  the registry \<open>StopAll\<close>, for the server its destructor.
\<close>

datatype main_event = Opened part | Closed part | AutoStarted | Listening u16 | ServerStopped | Printed string

text \<open>
  An exception is one of \<open>std::exception\<close> with its text, or another. Every call of \<open>main\<close> that may
  throw answers with \<open>Inl\<close> when it does (the check of the work directory, \<open>LoadFromFile\<close>,
  \<open>StartAutoStartServices\<close>, the two \<open>Start\<close>s and \<open>StopAll\<close>; the \<open>Stop\<close>s are \<open>noexcept\<close>), or, where it
  returns nothing, with \<open>Some\<close>; the \<open>string option\<close> is the error it returns itself.
\<close>

datatype raised = StdException string | OtherException

datatype ending = Exited nat | Terminated

record agent_world =
  aw_work_dir :: "string + string"
  aw_config_path :: "string + string"
  aw_is_directory :: "raised + bool"
  aw_load :: "raised + string option"
  aw_auto_start :: "raised + string option"
  aw_collector :: "raised + string option"
  aw_monitor :: "raised + string option"
  aw_server_new :: "raised option"
  aw_server_start :: "raised + u16"
  aw_server_wait :: "raised option"
  aw_stop_all :: "raised + string option"

definition MakeAbsolutePath :: "string + string \<Rightarrow> string \<Rightarrow> string option \<times> main_event list" where
  "MakeAbsolutePath resolved label =
     (case resolved of
        Inl e \<Rightarrow> (None, [Printed (''failed to resolve '' @ label @ '': '' @ e)])
      | Inr path \<Rightarrow> (Some path, []))"

text \<open>A path is printed as \<open>std::quoted\<close> does.\<close>

definition quoted :: "string \<Rightarrow> string" where
  "quoted path =
     CHR 0x22 # concat (map (\<lambda>c. if c = CHR 0x22 \<or> c = CHR 0x5C then [CHR 0x5C, c] else [c]) path) @ [CHR 0x22]"

text \<open>
  The \<open>try\<close> block: a standard exception leaves it after the server has been destroyed, if it was
  constructed. Another exception has no handler: the process is terminated, and \<open>main\<close> does nothing
  more (whether the destructors of its variables still run is up to the implementation).
\<close>

definition serve_failed :: "raised \<Rightarrow> main_event list \<Rightarrow> main_event list \<Rightarrow> ending \<times> main_event list" where
  "serve_failed r before leave =
     (case r of
        StdException e \<Rightarrow> (Exited 1, before @ leave @ [Printed (''[agent] fatal error: '' @ e)])
      | OtherException \<Rightarrow> (Terminated, before))"

definition serve :: "agent_world \<Rightarrow> ending \<times> main_event list" where
  "serve w =
     (case aw_server_new w of
        Some r \<Rightarrow> serve_failed r [] []
      | None \<Rightarrow>
      case aw_server_start w of
        Inl r \<Rightarrow> serve_failed r [Opened PartServer] [Closed PartServer]
      | Inr port \<Rightarrow>
      case aw_server_wait w of
        Some r \<Rightarrow> serve_failed r [Opened PartServer, Listening port] [Closed PartServer]
      | None \<Rightarrow> (Exited 0, [Opened PartServer, Listening port, ServerStopped, Closed PartServer]))"

text \<open>The end of \<open>main\<close> after a part could not be started: the result of \<open>StopAll\<close> is ignored.\<close>

definition stop_services :: "agent_world \<Rightarrow> main_event list \<Rightarrow> ending \<times> main_event list" where
  "stop_services w es =
     (case aw_stop_all w of
        Inl r \<Rightarrow> (Terminated, es)
      | Inr result \<Rightarrow> (Exited 1, es @ [Closed PartRegistry]))"

text \<open>The end of \<open>main\<close> after the server.\<close>

definition shut_down :: "agent_world \<Rightarrow> ending \<Rightarrow> main_event list \<Rightarrow> ending \<times> main_event list" where
  "shut_down w result es =
     (case result of
        Terminated \<Rightarrow> (Terminated, es)
      | Exited exit_code \<Rightarrow>
      let es = es @ [Closed PartMonitor, Closed PartCollector] in
      case aw_stop_all w of
        Inl r \<Rightarrow> (Terminated, es)
      | Inr None \<Rightarrow> (Exited exit_code, es @ [Closed PartRegistry])
      | Inr (Some e) \<Rightarrow>
          (Exited 1, es @ [Closed PartRegistry, Printed (''[agent] shutdown stop failed: '' @ e)]))"

definition services_started :: "string option \<Rightarrow> main_event list" where
  "services_started start_error =
     AutoStarted # (case start_error of None \<Rightarrow> [] | Some e \<Rightarrow> [Printed (''[agent] '' @ e)])"

definition run_parts :: "agent_world \<Rightarrow> ending \<times> main_event list" where
  "run_parts w =
     (case aw_load w of
        Inl r \<Rightarrow> (Terminated, [])
      | Inr (Some e) \<Rightarrow> (Exited 1, [Printed (''[agent] failed to load services config: '' @ e)])
      | Inr None \<Rightarrow>
      case aw_auto_start w of
        Inl r \<Rightarrow> (Terminated, [Opened PartRegistry])
      | Inr start_error \<Rightarrow>
      let loaded = Opened PartRegistry # services_started start_error in
      case aw_collector w of
        Inl r \<Rightarrow> (Terminated, loaded)
      | Inr (Some e) \<Rightarrow>
          stop_services w (loaded @ [Printed (''[agent] failed to start metrics collector: '' @ e)])
      | Inr None \<Rightarrow>
      case aw_monitor w of
        Inl r \<Rightarrow> (Terminated, loaded @ [Opened PartCollector])
      | Inr (Some e) \<Rightarrow>
          stop_services w (loaded @ [Opened PartCollector, Printed (''[agent] failed to start health monitor: '' @ e),
            Closed PartCollector])
      | Inr None \<Rightarrow>
      let (result, served) = serve w
      in shut_down w result (loaded @ [Opened PartCollector, Opened PartMonitor] @ served))"

definition agent_main :: "string list \<Rightarrow> agent_world \<Rightarrow> ending \<times> main_event list" where
  "agent_main argv w =
     (case ParseArgs argv default_agent_options of
        HelpShown \<Rightarrow> (Exited 0, [])
      | BadArguments e \<Rightarrow> (Exited 0, [Printed e])
      | RunWith options \<Rightarrow>
          let (work_dir, p1) = MakeAbsolutePath (aw_work_dir w) ''work directory'';
              (config_path, p2) = MakeAbsolutePath (aw_config_path w) ''config path''
          in if work_dir = None \<or> config_path = None then (Exited 1, p1 @ p2)
             else
             case aw_is_directory w of
               Inl r \<Rightarrow> (Terminated, [])
             | Inr False \<Rightarrow>
                 (Exited 1, [Printed (''work directory does not exist or is not a directory: '' @ quoted (the work_dir))])
             | Inr True \<Rightarrow> run_parts w)"

section \<open>The life of the demo service\<close>

text \<open>
  Times are in milliseconds. A loop that runs while \<open>g_running\<close> is set takes the list of what it
  sees, and ends where the list does: from there on the flag is cleared.
\<close>

fun SleepInterruptibly :: "nat \<Rightarrow> bool list \<Rightarrow> nat list" where
  "SleepInterruptibly duration [] = []"
| "SleepInterruptibly duration (running # polls) =
     (if \<not> running \<or> duration = 0 then []
      else let sleep_time = min duration 100 in sleep_time # SleepInterruptibly (duration - sleep_time) polls)"

text \<open>Each cycle: how long it computes, and the slices it then sleeps.\<close>

fun RunCpuLoadInterruptibly :: "nat \<Rightarrow> nat \<Rightarrow> (bool \<times> bool list) list \<Rightarrow> (nat \<times> nat list) list" where
  "RunCpuLoadInterruptibly duration percent [] = []"
| "RunCpuLoadInterruptibly duration percent ((running, sleep_polls) # polls) =
     (if \<not> running \<or> duration = 0 then []
      else
        let cycle = min duration 100; busy_duration = cycle * percent div 100
        in (busy_duration, SleepInterruptibly (cycle - busy_duration) sleep_polls)
           # RunCpuLoadInterruptibly (duration - cycle) percent polls)"

datatype signal = SigTerm | SigKill

datatype demo_event =
    Info string | Warn string | PrintedError string | Worked nat | Killed int signal | ReapedChild int

text \<open>The calls of \<open>waitpid\<close>: whether each was interrupted.\<close>

fun reap :: "int \<Rightarrow> bool list \<Rightarrow> demo_event list" where
  "reap child_pid [] = [ReapedChild child_pid]"
| "reap child_pid (interrupted # calls) = (if interrupted then reap child_pid calls else [ReapedChild child_pid])"

definition StopAndReapChild :: "int \<Rightarrow> bool \<Rightarrow> bool list \<Rightarrow> demo_event list" where
  "StopAndReapChild child_pid child_ignores_sigterm calls =
     (if child_pid \<le> 0 then []
      else Killed child_pid (if child_ignores_sigterm then SigKill else SigTerm) # reap child_pid calls)"

text \<open>
  The heartbeats: for each round the time that remains when it is asked for, and whether the time was
  over at the end of the round.
\<close>

definition heartbeat :: "nat \<Rightarrow> demo_event list" where
  "heartbeat n =
     Info (''heartbeat seq='' @ nat_to_string n)
     # (if n mod 5 = 0 then [Info (''request handled request_id=req-'' @ nat_to_string n @ '' latency_ms=12'')] else [])
     @ (if n mod 11 = 0 then
          [Warn (''simulated slow request request_id=req-'' @ nat_to_string n @ '' latency_ms=850'')] else [])"

fun demo_rounds :: "ServiceOptions \<Rightarrow> nat \<Rightarrow> (int \<times> bool) list \<Rightarrow> demo_event list" where
  "demo_rounds options n [] = []"
| "demo_rounds options n ((remaining, expired) # rounds) =
     heartbeat (n + 1)
     @ (if so_exit_after options \<noteq> None \<and> remaining \<le> 0 then []
        else
          Worked (if so_exit_after options = None then so_heartbeat_interval options
                  else min (so_heartbeat_interval options) (nat remaining))
          # (if so_exit_after options \<noteq> None \<and> expired then
               [Warn (''fault injection exit-after reached exit_code='' @ nat_to_string (so_exit_code options))]
             else demo_rounds options (n + 1) rounds))"

record demo_world =
  dw_log_directory :: "string option"
  dw_log_opens :: bool
  dw_fork :: "string + int"
  dw_rounds :: "(int \<times> bool) list"
  dw_waitpid :: "bool list"

definition demo_main :: "string list \<Rightarrow> demo_world \<Rightarrow> nat \<times> demo_event list" where
  "demo_main argv w =
     (case ParseArguments argv [] default_service_options of
        HelpShown \<Rightarrow> (0, [])
      | BadArguments e \<Rightarrow> (1, [PrintedError e])
      | RunWith options \<Rightarrow>
      case dw_log_directory w of
        Some e \<Rightarrow> (1, [PrintedError (''failed to create log directory: '' @ e)])
      | None \<Rightarrow>
      if \<not> dw_log_opens w then
        (1, [PrintedError (''failed to open log file: runtime/logs/'' @ so_service_name options @ ''.log'')])
      else
        let running = (\<lambda>child_pid.
              [Info (''service started heartbeat_interval_ms='' @ nat_to_string (so_heartbeat_interval options)
                 @ '' cpu_load_percent='' @ nat_to_string (so_cpu_load_percent options))]
              @ demo_rounds options 0 (dw_rounds w)
              @ [Info ''service stopping'']
              @ StopAndReapChild child_pid (so_ignore_sigterm options) (dw_waitpid w)
              @ [Info ''service stopped''])
        in if so_spawn_child options then
             (case dw_fork w of
                Inl e \<Rightarrow> (2, [Warn (''failed to spawn child: '' @ e)])
              | Inr child_pid \<Rightarrow>
                  (so_exit_code options, Info (''child spawned pid='' @ int_to_string child_pid) # running child_pid))
           else (so_exit_code options, running (-1)))"

section \<open>What the agent starts it stops\<close>

definition opened :: "main_event list \<Rightarrow> part list" where
  "opened es = concat (map (\<lambda>e. case e of Opened p \<Rightarrow> [p] | _ \<Rightarrow> []) es)"

definition closed_parts :: "main_event list \<Rightarrow> part list" where
  "closed_parts es = concat (map (\<lambda>e. case e of Closed p \<Rightarrow> [p] | _ \<Rightarrow> []) es)"

definition all_succeeds :: "agent_world \<Rightarrow> bool" where
  "all_succeeds w \<longleftrightarrow> \<not> isl (aw_work_dir w) \<and> \<not> isl (aw_config_path w) \<and> aw_is_directory w = Inr True
     \<and> aw_load w = Inr None \<and> \<not> isl (aw_auto_start w) \<and> aw_collector w = Inr None \<and> aw_monitor w = Inr None
     \<and> aw_server_new w = None \<and> \<not> isl (aw_server_start w) \<and> aw_server_wait w = None \<and> aw_stop_all w = Inr None"

text \<open>Some call throws an exception that \<open>main\<close> has no handler for.\<close>

definition throws_unhandled :: "agent_world \<Rightarrow> bool" where
  "throws_unhandled w \<longleftrightarrow> isl (aw_is_directory w) \<or> isl (aw_load w) \<or> isl (aw_auto_start w)
     \<or> isl (aw_collector w) \<or> isl (aw_monitor w) \<or> isl (aw_stop_all w)
     \<or> aw_server_new w = Some OtherException \<or> aw_server_start w = Inl OtherException
     \<or> aw_server_wait w = Some OtherException"

lemma opened_simps [simp]:
  "opened [] = []" "opened (e # es) = (case e of Opened p \<Rightarrow> p # opened es | _ \<Rightarrow> opened es)"
  "opened (es @ fs) = opened es @ opened fs"
  "closed_parts [] = []" "closed_parts (e # es) = (case e of Closed p \<Rightarrow> p # closed_parts es | _ \<Rightarrow> closed_parts es)"
  "closed_parts (es @ fs) = closed_parts es @ closed_parts fs"
  by (simp_all add: opened_def closed_parts_def split: main_event.split)

definition parts :: "part list" where
  "parts = [PartRegistry, PartCollector, PartMonitor, PartServer]"

text \<open>How far a run got, by what it opened and closed.\<close>

definition orderly :: "agent_world \<Rightarrow> ending \<times> main_event list \<Rightarrow> bool" where
  "orderly w run \<longleftrightarrow>
     (\<exists>n. opened (snd run) = take n parts)
     \<and> (case fst run of
          Exited exit_code \<Rightarrow> closed_parts (snd run) = rev (opened (snd run))
        | Terminated \<Rightarrow> throws_unhandled w \<and> (\<exists>k. closed_parts (snd run) = take k (rev (opened (snd run))))
            \<and> PartRegistry \<notin> set (closed_parts (snd run)))"

lemma orderly_exited:
  "fst run = Exited c \<Longrightarrow> opened (snd run) = take n parts \<Longrightarrow> closed_parts (snd run) = rev (take n parts) \<Longrightarrow> orderly w run"
  by (auto simp: orderly_def)

lemma orderly_terminated:
  assumes "fst run = Terminated" "throws_unhandled w" "opened (snd run) = take n parts"
    "closed_parts (snd run) = take k (rev (take n parts))" "PartRegistry \<notin> set (take k (rev (take n parts)))"
  shows "orderly w run"
  unfolding orderly_def
proof (intro conjI)
  show "\<exists>n. opened (snd run) = take n parts"
    using assms(3) by blast
  have "closed_parts (snd run) = take k (rev (opened (snd run)))"
    using assms(3,4) by simp
  then have "\<exists>k. closed_parts (snd run) = take k (rev (opened (snd run)))" ..
  then show "case fst run of Exited exit_code \<Rightarrow> closed_parts (snd run) = rev (opened (snd run))
      | Terminated \<Rightarrow> throws_unhandled w \<and> (\<exists>k. closed_parts (snd run) = take k (rev (opened (snd run))))
          \<and> PartRegistry \<notin> set (closed_parts (snd run))"
    using assms by simp
qed

lemma stop_services_orderly:
  assumes "opened es = take n parts" "n \<in> {1, 2}" "closed_parts es = take (n - 1) (rev (take n parts))"
  shows "orderly w (stop_services w es)"
proof (cases "aw_stop_all w")
  case (Inl r)
  then show ?thesis
    using assms by (intro orderly_terminated [where n = n and k = "n - 1"])
      (auto simp: stop_services_def throws_unhandled_def parts_def)
next
  case (Inr r)
  then show ?thesis
    using assms by (intro orderly_exited [where n = n and c = 1]) (auto simp: stop_services_def parts_def)
qed

lemma serve_parts:
  obtains c n where "fst (serve w) = Exited c" "opened (snd (serve w)) = take n [PartServer]"
      "closed_parts (snd (serve w)) = take n [PartServer]"
  | n where "fst (serve w) = Terminated" "throws_unhandled w" "opened (snd (serve w)) = take n [PartServer]"
      "closed_parts (snd (serve w)) = []"
proof -
  have "(\<exists>c. fst (serve w) = Exited c) \<and> closed_parts (snd (serve w)) = opened (snd (serve w))
      \<or> fst (serve w) = Terminated \<and> throws_unhandled w \<and> closed_parts (snd (serve w)) = []"
    by (auto simp: serve_def serve_failed_def throws_unhandled_def split: sum.split option.split raised.split)
  moreover have "opened (snd (serve w)) = take (length (opened (snd (serve w)))) [PartServer]"
    by (auto simp: serve_def serve_failed_def split: sum.split option.split raised.split)
  ultimately show thesis
    using that by metis
qed

lemma parts_before_server:
  "[PartRegistry, PartCollector, PartMonitor] @ take n [PartServer] = take (3 + n) parts"
  by (simp add: parts_def numeral_3_eq_3)

lemma shut_down_orderly:
  assumes es: "opened es = [PartRegistry, PartCollector, PartMonitor]" "closed_parts es = []"
  shows "orderly w (shut_down w (fst (serve w)) (es @ snd (serve w)))"
proof (cases rule: serve_parts [of w])
  case (1 c n)
  show ?thesis
  proof (cases "aw_stop_all w")
    case (Inl r)
    then show ?thesis
      using 1 es
      by (intro orderly_terminated [where n = "3 + n" and k = "2 + min n 1"])
        (cases n; auto simp: shut_down_def throws_unhandled_def parts_def Let_def)+
  next
    case (Inr e)
    show ?thesis
      using 1 es Inr
      by (intro orderly_exited [where n = "3 + n" and c = "case e of None \<Rightarrow> c | Some _ \<Rightarrow> 1"])
        (cases n; auto simp: shut_down_def parts_def Let_def split: option.split)+
  qed
next
  case (2 n)
  then show ?thesis
    using es parts_before_server [of n]
    by (intro orderly_terminated [where n = "3 + n" and k = 0]) (auto simp: shut_down_def)
qed

lemma terminated_early:
  "throws_unhandled w \<Longrightarrow> opened es = take n parts \<Longrightarrow> closed_parts es = [] \<Longrightarrow> orderly w (Terminated, es)"
  by (rule orderly_terminated [where n = n and k = 0]) simp_all

lemma run_parts_orderly: "orderly w (run_parts w)"
proof -
  have loaded [simp]: "opened (services_started e) = []" "closed_parts (services_started e) = []" for e
    by (simp_all add: services_started_def split: option.split)
  have one: "[PartRegistry] = take 1 parts" and two: "[PartRegistry, PartCollector] = take 2 parts"
    by (simp_all add: parts_def)
  note def = run_parts_def [unfolded Let_def]
  consider (load) r where "aw_load w = Inl r" | (load_error) e where "aw_load w = Inr (Some e)"
    | (auto_start) r where "aw_load w = Inr None" "aw_auto_start w = Inl r"
    | (auto_started) s where "aw_load w = Inr None" "aw_auto_start w = Inr s"
    by (metis not_None_eq sumE)
  then show ?thesis
  proof cases
    case load
    then show ?thesis
      by (simp add: def terminated_early [where n = 0] throws_unhandled_def)
  next
    case load_error
    then show ?thesis
      by (intro orderly_exited [where n = 0 and c = 1]) (simp_all add: def)
  next
    case auto_start
    then show ?thesis
      by (simp add: def terminated_early [where n = 1] throws_unhandled_def one)
  next
    case (auto_started s)
    note def = def [of w, unfolded auto_started sum.case option.case]
    show ?thesis
    proof (cases "aw_collector w")
      case (Inl r)
      then show ?thesis
        by (simp add: def terminated_early [where n = 1] throws_unhandled_def one)
    next
      case (Inr collector)
      show ?thesis
      proof (cases collector)
        case (Some e)
        have "orderly w (stop_services w ((Opened PartRegistry # services_started s) @ [Printed (''[agent] failed to start metrics collector: '' @ e)]))"
          by (rule stop_services_orderly [where n = 1]) (simp_all add: one)
        then show ?thesis
          using Inr Some by (simp add: def)
      next
        case None
        show ?thesis
        proof (cases "aw_monitor w")
          case (Inl r)
          then show ?thesis
            using \<open>aw_collector w = Inr collector\<close> None
            by (simp add: def terminated_early [where n = 2] throws_unhandled_def two)
        next
          case monitor: (Inr monitor)
          show ?thesis
          proof (cases monitor)
            case (Some e)
            have "orderly w (stop_services w ((Opened PartRegistry # services_started s) @ [Opened PartCollector,
                Printed (''[agent] failed to start health monitor: '' @ e), Closed PartCollector]))"
              by (rule stop_services_orderly [where n = 2]) (simp_all add: parts_def)
            then show ?thesis
              using Inr None monitor Some by (simp add: def)
          next
            case none: None
            have "orderly w (shut_down w (fst (serve w)) (((Opened PartRegistry # services_started s) @ [Opened PartCollector, Opened PartMonitor]) @ snd (serve w)))"
              by (rule shut_down_orderly) simp_all
            then show ?thesis
              using Inr None monitor none by (simp add: def case_prod_beta)
          qed
        qed
      qed
    qed
  qed
qed

lemma serve_exit: "fst (serve w) = Exited 0 \<longleftrightarrow>
    aw_server_new w = None \<and> \<not> isl (aw_server_start w) \<and> aw_server_wait w = None"
  by (auto simp: serve_def serve_failed_def split: option.split sum.split raised.split)

lemma run_parts_exit: "fst (run_parts w) = Exited 0 \<longleftrightarrow> aw_load w = Inr None \<and> \<not> isl (aw_auto_start w)
    \<and> aw_collector w = Inr None \<and> aw_monitor w = Inr None
    \<and> aw_server_new w = None \<and> \<not> isl (aw_server_start w) \<and> aw_server_wait w = None \<and> aw_stop_all w = Inr None"
proof -
  have stop: "fst (stop_services w es) \<noteq> Exited 0" for es
    by (simp add: stop_services_def split: sum.split)
  have "fst (shut_down w result es) = Exited 0 \<longleftrightarrow> result = Exited 0 \<and> aw_stop_all w = Inr None" for result es
    by (auto simp: shut_down_def Let_def split: ending.split sum.split option.split)
  then show ?thesis
    by (auto simp: run_parts_def Let_def case_prod_beta stop serve_exit split: option.split sum.split)
qed

lemma agent_main_orderly: "orderly w (agent_main argv w)"
proof -
  have "orderly w (Exited c, es)" if "opened es = []" "closed_parts es = []" for c es
    using that by (intro orderly_exited [where n = 0 and c = c]) simp_all
  moreover have "orderly w (Terminated, [])" if "isl (aw_is_directory w)"
    using that by (simp add: terminated_early [where n = 0] throws_unhandled_def)
  ultimately show ?thesis
    using run_parts_orderly [of w]
    by (auto simp: agent_main_def MakeAbsolutePath_def split: arguments.split sum.split bool.split)
qed

lemma agent_main_exit: "fst (agent_main argv w) = Exited 0 \<longleftrightarrow>
    (case ParseArgs argv default_agent_options of RunWith _ \<Rightarrow> all_succeeds w | _ \<Rightarrow> True)"
  by (auto simp: agent_main_def MakeAbsolutePath_def all_succeeds_def run_parts_exit split: arguments.split sum.split bool.split)

text \<open>
  The start of the services that start with the agent may throw (\<open>std::filesystem::exists\<close> in
  \<open>ProcessSupervisor::StartOperation\<close>): the process ends with whatever it had started.
\<close>

lemma auto_start_throws:
  "aw_load w = Inr None \<Longrightarrow> aw_auto_start w = Inl r \<Longrightarrow> run_parts w = (Terminated, [Opened PartRegistry])"
  by (simp add: run_parts_def)

text \<open>C21. No part is started before those it relies on: registry, collector, monitor, server. When the
  agent returns from \<open>main\<close>, whatever failed, it has stopped the parts it started, each once and in
  the reverse order; its exit code is zero exactly when its arguments were not accepted (or asked for
  help) or nothing failed but the start of a service. It ends in no other way than by an exception
  \<open>main\<close> has no handler for: then it has stopped some of the parts it started last, in that order,
  and \<open>StopAll\<close> has not stopped the services.\<close>

theorem agent_main_stops_what_it_started:
  "(\<exists>n. opened (snd (agent_main argv w)) = take n [PartRegistry, PartCollector, PartMonitor, PartServer])
    \<and> (case fst (agent_main argv w) of
         Exited exit_code \<Rightarrow>
           closed_parts (snd (agent_main argv w)) = rev (opened (snd (agent_main argv w)))
           \<and> (exit_code = 0)
             = (case ParseArgs argv default_agent_options of RunWith _ \<Rightarrow> all_succeeds w | _ \<Rightarrow> True)
       | Terminated \<Rightarrow>
           throws_unhandled w
           \<and> (\<exists>k. closed_parts (snd (agent_main argv w)) = take k (rev (opened (snd (agent_main argv w)))))
           \<and> PartRegistry \<notin> set (closed_parts (snd (agent_main argv w))))"
  using agent_main_orderly [of w argv] agent_main_exit [of argv w]
  by (auto simp: orderly_def parts_def split: ending.split)

section \<open>Accepted arguments\<close>

definition options_ok :: "ServiceOptions \<Rightarrow> bool" where
  "options_ok options \<longleftrightarrow> IsValidServiceName (so_service_name options)
     \<and> so_heartbeat_interval options \<in> {100..60000}
     \<and> (case so_exit_after options of None \<Rightarrow> True | Some n \<Rightarrow> n \<in> {1..86400})
     \<and> so_exit_code options \<le> 255 \<and> so_cpu_load_percent options \<le> 100"

lemma number_between_Some: "number_between m lo hi v = Some n \<Longrightarrow> lo \<le> n \<and> n \<le> hi"
  by (auto simp: number_between_def split: option.splits if_splits)

lemma value_option_ok: "value_option argument v options = Inr options' \<Longrightarrow> options_ok options \<Longrightarrow> options_ok options'"
  by (auto simp: value_option_def options_ok_def dest!: number_between_Some split: if_splits option.splits)

lemma ParseArguments_ok: "ParseArguments argv seen options = RunWith options' \<Longrightarrow> options_ok options \<Longrightarrow> options_ok options'"
proof (induction argv seen options rule: ParseArguments.induct)
  case (2 argument rest seen options)
  have flag: "options_ok (if b then options\<lparr> so_ignore_sigterm := True \<rparr> else options\<lparr> so_spawn_child := True \<rparr>)" for b
    using "2.prems"(2) by (simp add: options_ok_def)
  have not_help: "\<not> (argument = ''--help'' \<or> argument = ''-h'')" and new: "argument \<notin> set seen"
    using "2.prems"(1) by (auto split: if_splits)
  show ?case
  proof (cases "is_value_option argument")
    case True
    then obtain v rest' options1 where v: "rest = v # rest'" "value_option argument v options = Inr options1"
      "ParseArguments rest' (argument # seen) options1 = RunWith options'"
      using "2.prems"(1) not_help new by (auto split: list.splits sum.splits if_splits)
    show ?thesis
      using "2.IH"(1) [OF not_help True new v(1) v(2) v(3)] value_option_ok [OF v(2) "2.prems"(2)] by blast
  next
    case False
    then have "argument = ''--ignore-sigterm'' \<or> argument = ''--spawn-child''"
      and "ParseArguments rest (argument # seen)
        (if argument = ''--ignore-sigterm'' then options\<lparr> so_ignore_sigterm := True \<rparr>
         else options\<lparr> so_spawn_child := True \<rparr>) = RunWith options'"
      using "2.prems"(1) not_help new by (auto split: if_splits)
    with "2.IH"(2) [OF not_help False _ new] flag show ?thesis by blast
  qed
qed simp

lemma default_options_ok: "options_ok default_service_options"
  by (simp add: options_ok_def default_service_options_def IsValidServiceName_def IsAllowedServiceNameChar_def in_range_def)

text \<open>A command line for given options.\<close>

definition arguments_of :: "ServiceOptions \<Rightarrow> string list" where
  "arguments_of options =
     [''--name'', so_service_name options, ''--interval-ms'', nat_to_string (so_heartbeat_interval options)]
     @ (case so_exit_after options of None \<Rightarrow> [] | Some n \<Rightarrow> [''--exit-after'', nat_to_string n])
     @ [''--exit-code'', nat_to_string (so_exit_code options)]
     @ (if so_ignore_sigterm options then [''--ignore-sigterm''] else [])
     @ (if so_spawn_child options then [''--spawn-child''] else [])
     @ [''--cpu-load-percent'', nat_to_string (so_cpu_load_percent options)]"

lemma number_between_print: "n \<le> m \<Longrightarrow> lo \<le> n \<Longrightarrow> n \<le> hi \<Longrightarrow> number_between m lo hi (nat_to_string n) = Some n"
  by (simp add: number_between_def from_chars_nat_to_string)

lemma arguments_of_parse:
  assumes "options_ok options"
  shows "ParseArguments (arguments_of options) [] default_service_options = RunWith options"
proof -
  have ok: "IsValidServiceName (so_service_name options)" "100 \<le> so_heartbeat_interval options"
    "so_heartbeat_interval options \<le> 60000" "so_exit_code options \<le> 255" "so_cpu_load_percent options \<le> 100"
    "\<And>n. so_exit_after options = Some n \<Longrightarrow> 1 \<le> n \<and> n \<le> 86400"
    using assms by (auto simp: options_ok_def)
  show ?thesis
    using ok by (cases options; cases "so_exit_after options")
      (simp_all add: arguments_of_def value_option_def is_value_option_def number_between_print default_service_options_def)
qed

text \<open>Every command line the demo service accepts gives options in their ranges, and there is a
  canonical command line that gives the same options.\<close>

theorem demo_arguments_roundtrip:
  assumes "ParseArguments argv [] default_service_options = RunWith options"
  shows "options_ok options \<and> ParseArguments (arguments_of options) [] default_service_options = RunWith options"
  using ParseArguments_ok [OF assms default_options_ok] arguments_of_parse by simp

theorem demo_arguments_roundtrip_witness:
  "options_ok (default_service_options\<lparr> so_spawn_child := True \<rparr>)"
  using demo_arguments_roundtrip [of "[''--spawn-child'']" "default_service_options\<lparr> so_spawn_child := True \<rparr>"]
  by (simp add: is_value_option_def)

section \<open>The time of the demo service\<close>

text \<open>A sleep is cut into slices of a tenth of a second, so that a stop is seen within one.\<close>

lemma SleepInterruptibly_slices:
  "list_all (\<lambda>t. 0 < t \<and> t \<le> 100) (SleepInterruptibly d polls) \<and> sum_list (SleepInterruptibly d polls) \<le> d"
proof (induction d polls rule: SleepInterruptibly.induct)
  case (2 d running polls)
  then show ?case
    by (cases "running \<and> d \<noteq> 0") (auto simp: Let_def min_def split: if_splits)
qed simp

lemma SleepInterruptibly_whole:
  "d \<le> 100 * length polls \<Longrightarrow> list_all (\<lambda>r. r) polls \<Longrightarrow> sum_list (SleepInterruptibly d polls) = d"
proof (induction d polls rule: SleepInterruptibly.induct)
  case (2 d running polls)
  then show ?case
    by (cases "d \<le> 100") (auto simp: Let_def min_def)
qed simp

lemma RunCpuLoadInterruptibly_cycles:
  "percent \<le> 100 \<Longrightarrow>
     list_all (\<lambda>(busy, slept). busy + sum_list slept \<le> 100 \<and> busy \<le> percent) (RunCpuLoadInterruptibly d percent polls)"
proof (induction d percent polls rule: RunCpuLoadInterruptibly.induct)
  case (2 d percent running sleep_polls polls)
  have "min d 100 * percent div 100 \<le> min d 100"
    using "2.prems" by (metis div_le_mono mult_le_mono2 nonzero_mult_div_cancel_right zero_neq_numeral)
  moreover have "min d 100 * percent div 100 \<le> percent"
    by (metis div_le_mono min.cobounded2 mult.commute mult_le_mono2 nonzero_mult_div_cancel_right zero_neq_numeral)
  moreover have "sum_list (SleepInterruptibly (min d 100 - min d 100 * percent div 100) sleep_polls)
      \<le> min d 100 - min d 100 * percent div 100"
    using SleepInterruptibly_slices by blast
  moreover have "min d 100 \<le> 100" by simp
  ultimately have "min d 100 * percent div 100 + sum_list (SleepInterruptibly (min d 100 - min d 100 * percent div 100) sleep_polls) \<le> 100"
    "min d 100 * percent div 100 \<le> percent"
    by linarith+
  then show ?case
    using "2.IH" [OF _ refl refl] "2.prems" by (auto simp: Let_def)
qed simp

text \<open>A child is always reaped after it was killed, by a signal it does not ignore.\<close>

lemma StopAndReapChild_kills:
  "0 < child_pid \<Longrightarrow> StopAndReapChild child_pid ignores calls
     = [Killed child_pid (if ignores then SigKill else SigTerm), ReapedChild child_pid]"
proof -
  have "reap child_pid calls = [ReapedChild child_pid]"
    by (induction calls) auto
  then show "0 < child_pid \<Longrightarrow> ?thesis"
    by (simp add: StopAndReapChild_def)
qed

end
