(* ===== verification/Display.thy ===== *)
theory Display
  imports Client "HOL-Library.Signed_Division"
begin

text \<open>
  What the desktop writes on its window: the texts of \<open>src/apps/desktop/src/common/ui_helpers.cpp\<close> and of the
  label-filling functions of \<open>main_window.cpp\<close>, as functions from a snapshot to the labels it fills.
  Qt's case folding, its local times, its printing of a \<open>double\<close> and the rounding of \<open>double\<close> are parameters.
\<close>

section \<open>Texts\<close>

text \<open>
  \<open>ui_normal\<close> is \<open>QString::trimmed().toLower()\<close>; \<open>ui_date_time\<close> and \<open>ui_time\<close> print the milliseconds
  since the epoch in local time, as \<open>yyyy-MM-dd HH:mm:ss\<close> and as \<open>HH:mm:ss\<close>; \<open>ui_fixed\<close> is
  \<open>QString::arg\<close> with format \<open>f\<close> and a precision.
\<close>

record ui =
  ui_normal :: "string \<Rightarrow> string"
  ui_date_time :: "int \<Rightarrow> string"
  ui_time :: "int \<Rightarrow> string"
  ui_fixed :: "double \<Rightarrow> nat \<Rightarrow> string"
  ui_round :: rounding

definition ServiceListText :: "ServiceSnapshot \<Rightarrow> string" where
  "ServiceListText service =
     sn_display_name service @ [newline] @ sn_id service @ ''  ['' @ sn_state service @ '', desired ''
     @ sn_desired_state service @ '']''"

definition FormatExitReason :: "ui \<Rightarrow> ServiceSnapshot \<Rightarrow> string" where
  "FormatExitReason ui snapshot =
     (let kind = ui_normal ui (sn_last_exit_kind snapshot) in
      if kind = ''exited'' then
        (case sn_last_exit_code snapshot of
           Some code \<Rightarrow> ''exited (code '' @ int_to_string code @ '')'' | None \<Rightarrow> ''exited'')
      else if kind = ''signaled'' then
        (case sn_last_exit_signal snapshot of
           Some number \<Rightarrow> ''signaled (signal '' @ int_to_string number @ '')'' | None \<Rightarrow> ''signaled'')
      else if kind = ''none'' \<or> kind = [] then ''-''
      else sn_last_exit_kind snapshot)"

text \<open>Division of C++ truncates.\<close>

definition FormatUptime :: "int \<Rightarrow> string" where
  "FormatUptime total_seconds =
     (let days = total_seconds sdiv 86400; hours = (total_seconds smod 86400) sdiv 3600;
          minutes = (total_seconds smod 3600) sdiv 60; seconds = total_seconds smod 60 in
      if 0 < days then
        int_to_string days @ ''d '' @ int_to_string hours @ ''h '' @ int_to_string minutes @ ''m ''
        @ int_to_string seconds @ ''s''
      else int_to_string hours @ ''h '' @ int_to_string minutes @ ''m '' @ int_to_string seconds @ ''s'')"

function scale_bytes :: "rounding \<Rightarrow> double \<Rightarrow> nat \<Rightarrow> double \<times> nat" where
  "scale_bytes rnd value unit_index =
     (if double_le (Fin 1024) value \<and> unit_index + 1 < 5
      then scale_bytes rnd (ld_div rnd value (Fin 1024)) (unit_index + 1)
      else (value, unit_index))"
  by pat_completeness auto
termination
  by (relation "measure (\<lambda>(rnd, value, unit_index). 5 - unit_index)") auto

declare scale_bytes.simps [simp del]

definition FormatBytes :: "ui \<Rightarrow> u64 \<Rightarrow> string" where
  "FormatBytes ui bytes =
     (let (value, unit_index) = scale_bytes (ui_round ui) (double_of_u64 bytes) 0;
          precision = (if double_less value (Fin 10) \<and> 0 < unit_index then 2
                       else if double_less value (Fin 100) \<and> 0 < unit_index then 1 else 0)
      in ui_fixed ui value precision @ '' '' @ [''B'', ''KB'', ''MB'', ''GB'', ''TB''] ! unit_index)"

definition FormatSampleTime :: "ui \<Rightarrow> int \<Rightarrow> string" where
  "FormatSampleTime ui unix_time_milliseconds =
     (if unix_time_milliseconds \<le> 0 then ''-'' else ui_date_time ui unix_time_milliseconds)"

definition FormatLocalDateTime :: "ui \<Rightarrow> int \<Rightarrow> string" where
  "FormatLocalDateTime ui unix_time_milliseconds =
     (if unix_time_milliseconds \<le> 0 then ''-'' else ui_date_time ui unix_time_milliseconds)"

section \<open>Labels\<close>

record details =
  dt_title :: string
  dt_service_name :: string
  dt_service_id :: string
  dt_state :: string
  dt_desired_state :: string
  dt_pid :: string
  dt_process_group :: string
  dt_uptime :: string
  dt_auto_start :: string
  dt_last_exit :: string
  dt_exit_reason :: string
  dt_last_error :: string
  dt_last_error_tip :: string
  dt_transition_time :: string

text \<open>The texts \<open>ClearCurrentServiceDetails\<close> and \<open>ApplySnapshot\<close> set.\<close>

definition no_details :: details where
  "no_details = \<lparr> dt_title = ''Service Details'', dt_service_name = ''-'', dt_service_id = ''-'',
     dt_state = ''-'', dt_desired_state = ''-'', dt_pid = ''-'', dt_process_group = ''-'', dt_uptime = ''-'',
     dt_auto_start = ''-'', dt_last_exit = ''-'', dt_exit_reason = ''-'', dt_last_error = ''-'',
     dt_last_error_tip = [], dt_transition_time = ''-'' \<rparr>"

definition details_of :: "ui \<Rightarrow> ServiceSnapshot \<Rightarrow> details" where
  "details_of ui snapshot =
     \<lparr> dt_title = ''Service Details - '' @ sn_display_name snapshot,
       dt_service_name = sn_display_name snapshot, dt_service_id = sn_id snapshot,
       dt_state = sn_state snapshot, dt_desired_state = sn_desired_state snapshot,
       dt_pid = (if 0 < sn_pid snapshot then int_to_string (sn_pid snapshot) else ''-''),
       dt_process_group =
         (if 0 < sn_process_group_id snapshot then int_to_string (sn_process_group_id snapshot) else ''-''),
       dt_uptime = FormatUptime (sn_uptime_seconds snapshot),
       dt_auto_start = (if sn_auto_start snapshot then ''true'' else ''false''),
       dt_last_exit = (case sn_last_exit_code snapshot of Some code \<Rightarrow> int_to_string code | None \<Rightarrow> ''-''),
       dt_exit_reason = FormatExitReason ui snapshot,
       dt_last_error = (if sn_last_error snapshot = [] then ''-'' else sn_last_error snapshot),
       dt_last_error_tip = sn_last_error snapshot,
       dt_transition_time = FormatSampleTime ui (sn_last_transition_at_unix_ms snapshot) \<rparr>"

record metric_labels =
  ml_status :: string
  ml_cpu :: string
  ml_rss :: string
  ml_thread_count :: string
  ml_fd_count :: string
  ml_last_sample :: string

definition no_metrics :: metric_labels where
  "no_metrics = \<lparr> ml_status = ''-'', ml_cpu = ''-'', ml_rss = ''-'', ml_thread_count = ''-'', ml_fd_count = ''-'',
     ml_last_sample = ''-'' \<rparr>"

definition metrics_not_ready :: metric_labels where
  "metrics_not_ready = no_metrics\<lparr> ml_status := ''Waiting for first sample'' \<rparr>"

definition u64_to_string :: "u64 \<Rightarrow> string" where
  "u64_to_string w = nat_to_string (unat w)"

text \<open>Both branches of \<open>ApplyMetrics\<close> set all six labels.\<close>

definition labels_of :: "ui \<Rightarrow> ServiceMetricsSnapshot \<Rightarrow> metric_labels" where
  "labels_of ui metrics =
     (let sample = FormatSampleTime ui (mn_collected_at_unix_ms metrics) in
      if \<not> mn_available metrics then
        \<lparr> ml_status = (if 0 < mn_pid metrics then ''Unavailable'' else ''Service stopped''),
          ml_cpu = ''-'', ml_rss = ''-'', ml_thread_count = ''-'', ml_fd_count = ''-'', ml_last_sample = sample \<rparr>
      else
        \<lparr> ml_status = ''Available'',
          ml_cpu = (case mn_cpu_percent metrics of
                      Some cpu \<Rightarrow> ui_fixed ui cpu 2 @ '' %'' | None \<Rightarrow> ''Calculating...''),
          ml_rss = (case mn_rss_bytes metrics of Some bytes \<Rightarrow> FormatBytes ui bytes | None \<Rightarrow> ''-''),
          ml_thread_count = (case mn_thread_count metrics of Some n \<Rightarrow> u64_to_string n | None \<Rightarrow> ''-''),
          ml_fd_count = (case mn_fd_count metrics of Some n \<Rightarrow> u64_to_string n | None \<Rightarrow> ''-''),
          ml_last_sample = sample \<rparr>)"

record health_labels =
  hl_state :: string
  hl_reason :: string
  hl_failures :: string
  hl_checked_at :: string

definition no_health :: health_labels where
  "no_health = \<lparr> hl_state = ''-'', hl_reason = ''-'', hl_failures = ''-'', hl_checked_at = ''-'' \<rparr>"

definition health_of :: "ui \<Rightarrow> HealthSnapshot \<Rightarrow> health_labels" where
  "health_of ui health = \<lparr> hl_state = hn_state health, hl_reason = hn_reason health,
     hl_failures = nat_to_string (unat (hn_consecutive_failures health)),
     hl_checked_at = FormatLocalDateTime ui (hn_checked_at_unix_ms health) \<rparr>"

text \<open>A row of the alerts table keeps the alert's id as data of its first cell.\<close>

definition alert_row :: "ui \<Rightarrow> AlertSnapshot \<Rightarrow> string \<times> string list" where
  "alert_row ui alert = (an_id alert,
     [an_severity alert, an_state alert, an_rule_id alert, an_message alert,
      FormatLocalDateTime ui (an_first_triggered_at_unix_ms alert),
      (case an_resolved_at_unix_ms alert of Some t \<Rightarrow> FormatLocalDateTime ui t | None \<Rightarrow> ''-''),
      if an_acknowledged alert then ''yes'' else ''no''])"

definition recovery_row :: "ui \<Rightarrow> RecoveryEventSnapshot \<Rightarrow> string list" where
  "recovery_row ui event =
     [rn_type event, rn_reason event, FormatLocalDateTime ui (rn_occurred_at_unix_ms event),
      (case rn_alert_event_id event of Some alert_id \<Rightarrow> alert_id | None \<Rightarrow> ''-''),
      nat_to_string (unat (rn_restart_count_in_window event))]"

section \<open>Facts\<close>

text \<open>The parts of an uptime add up to it, each in its range.\<close>

lemma uptime_parts:
  fixes t :: int
  assumes "0 \<le> t"
  shows "t sdiv 86400 * 86400 + (t smod 86400) sdiv 3600 * 3600 + (t smod 3600) sdiv 60 * 60 + t smod 60 = t"
    and "(t smod 86400) sdiv 3600 < 24" and "(t smod 3600) sdiv 60 < 60" and "t smod 60 < 60"
proof -
  have pos: "x sdiv y = x div y" "x smod y = x mod y" if "0 \<le> x" "0 < y" for x y :: int
    using that by (simp_all add: signed_divide_int_def signed_modulo_int_def sgn_if)
  have "t mod 86400 mod 3600 = t mod 3600" "t mod 3600 mod 60 = t mod 60"
    by (simp_all add: mod_mod_cancel)
  with div_mult_mod_eq [of t 86400] div_mult_mod_eq [of "t mod 86400" 3600] div_mult_mod_eq [of "t mod 3600" 60]
  have "t div 86400 * 86400 + (t mod 86400) div 3600 * 3600 + (t mod 3600) div 60 * 60 + t mod 60 = t"
    by linarith
  then show "t sdiv 86400 * 86400 + (t smod 86400) sdiv 3600 * 3600 + (t smod 3600) sdiv 60 * 60 + t smod 60 = t"
    using assms by (simp add: pos)
  have below: "x mod (k * y) div y < k" if "0 < y" "0 < k" for x y k :: int
    using that div_pos_geq [of y "x mod (k * y)"] pos_mod_bound [of "k * y" x]
      div_mult_mod_eq [of "x mod (k * y)" y] pos_mod_sign [of y "x mod (k * y)"]
    by (smt (verit) mult_right_mono zero_less_mult_iff mult.commute)
  have "t mod 86400 div 3600 < 24" "t mod 3600 div 60 < 60" "t mod 60 < 60"
    using below [of 3600 24 t] below [of 60 60 t] by simp_all
  then show "(t smod 86400) sdiv 3600 < 24" "(t smod 3600) sdiv 60 < 60" "t smod 60 < 60"
    using assms by (simp_all add: pos)
qed

text \<open>The scaled value is below 1024, or the unit is the last one.\<close>

lemma scale_bytes_ends:
  assumes "scale_bytes rnd v i = (w, j)" and "i \<le> 4"
  shows "j \<le> 4" and "double_le (Fin 1024) w \<Longrightarrow> j = 4"
proof -
  have "j \<le> 4 \<and> (double_le (Fin 1024) w \<longrightarrow> j = 4)"
    using assms
  proof (induction rnd v i rule: scale_bytes.induct)
    case (1 rnd v i)
    then show ?case by (subst (asm) (2) scale_bytes.simps) (auto split: if_splits)
  qed
  then show "j \<le> 4" "double_le (Fin 1024) w \<Longrightarrow> j = 4" by simp_all
qed

end
