(* ===== verification/MetricChart.thy ===== *)
theory MetricChart
  imports Display
begin

text \<open>
  \<open>MetricChartWidget\<close> (\<open>src/apps/desktop/src/widgets/metric_chart_widget.cpp\<close>): one chart of the
  history of a metric. The series are lists of points, the axes their ranges; the code's loop over the
  history cuts it into line segments. The theorem says which segments these are, for every history
  the client hands over, and that every point lies within the axes.
\<close>

section \<open>The chart\<close>

datatype MetricChartKind = kCpuPercent | kRssMemory | kThreadCount | kFdCount

type_synonym point = "double \<times> double"

text \<open>The ranges of the time axis, in milliseconds, and of the value axis with its label format.\<close>

record chart =
  ch_kind :: MetricChartKind
  ch_series :: "point list list"
  ch_time_range :: "int \<times> int"
  ch_value_range :: "double \<times> double"
  ch_value_format :: string
  ch_value_title :: string
  ch_title :: string

definition kDefaultTimeWindowMs :: int where
  "kDefaultTimeWindowMs = 5 * 60 * 1000"

fun TitleFor :: "MetricChartKind \<Rightarrow> string" where
  "TitleFor kCpuPercent = ''CPU Usage''"
| "TitleFor kRssMemory = ''RSS Memory''"
| "TitleFor kThreadCount = ''Threads''"
| "TitleFor kFdCount = ''Open FDs''"

fun AxisTitleFor :: "MetricChartKind \<Rightarrow> string" where
  "AxisTitleFor kCpuPercent = ''Percent''"
| "AxisTitleFor kRssMemory = ''MiB''"
| "AxisTitleFor kThreadCount = ''Count''"
| "AxisTitleFor kFdCount = ''Count''"

fun ValueFor :: "rounding \<Rightarrow> MetricChartKind \<Rightarrow> ServiceMetricsSnapshot \<Rightarrow> double option" where
  "ValueFor rnd kCpuPercent point = mn_cpu_percent point"
| "ValueFor rnd kRssMemory point =
     (case mn_rss_bytes point of
        None \<Rightarrow> None | Some bytes \<Rightarrow> Some (ld_div rnd (double_of_u64 bytes) (Fin (1024 * 1024))))"
| "ValueFor rnd kThreadCount point = map_option double_of_u64 (mn_thread_count point)"
| "ValueFor rnd kFdCount point = map_option double_of_u64 (mn_fd_count point)"

definition RemoveAllSeries :: "chart \<Rightarrow> chart" where
  "RemoveAllSeries c = c\<lparr> ch_series := [] \<rparr>"

text \<open>\<open>now\<close> is \<open>QDateTime::currentDateTime\<close>.\<close>

definition chart_Clear :: "millis \<Rightarrow> string \<Rightarrow> chart \<Rightarrow> chart" where
  "chart_Clear now message c =
     (RemoveAllSeries c)\<lparr> ch_time_range := (now - kDefaultTimeWindowMs, now), ch_value_range := (Fin 0, Fin 1),
       ch_title := TitleFor (ch_kind c) @ '' - '' @ message \<rparr>"

definition new_chart :: "millis \<Rightarrow> MetricChartKind \<Rightarrow> chart" where
  "new_chart now kind =
     chart_Clear now ''No history samples'' \<lparr> ch_kind = kind, ch_series = [], ch_time_range = (0, 0),
       ch_value_range = (Fin 0, Fin 0), ch_value_format = [], ch_value_title = AxisTitleFor kind, ch_title = [] \<rparr>"

section \<open>The loop over the history\<close>

text \<open>The variables of \<open>SetHistory\<close> and the series it has added to the chart.\<close>

record plot =
  pl_min_time :: int
  pl_max_time :: int
  pl_maximum_value :: double
  pl_segment_points :: "point list"
  pl_current_pid :: int
  pl_series :: "point list list"

definition initial_plot :: plot where
  "initial_plot = \<lparr> pl_min_time = -1, pl_max_time = -1, pl_maximum_value = Fin 0, pl_segment_points = [],
     pl_current_pid = -1, pl_series = [] \<rparr>"

definition flush_segment :: "plot \<Rightarrow> plot" where
  "flush_segment p =
     (if pl_segment_points p = [] then p
      else p\<lparr> pl_series := pl_series p @ [pl_segment_points p], pl_segment_points := [], pl_current_pid := -1 \<rparr>)"

text \<open>\<open>std::max(a, b)\<close>; \<open>static_cast<double>\<close> of a time that is not negative.\<close>

definition double_max :: "double \<Rightarrow> double \<Rightarrow> double" where
  "double_max a b = (if double_less a b then b else a)"

definition double_of_time :: "int \<Rightarrow> double" where
  "double_of_time t = Fin (of_nat (round_bits 53 (nat t)))"

definition plot_point :: "rounding \<Rightarrow> MetricChartKind \<Rightarrow> ServiceMetricsSnapshot \<Rightarrow> plot \<Rightarrow> plot" where
  "plot_point rnd kind point p =
     (if mn_collected_at_unix_ms point \<le> 0 then flush_segment p
      else (case ValueFor rnd kind point of
              None \<Rightarrow> flush_segment p
            | Some value \<Rightarrow>
                if \<not> mn_available point then flush_segment p
                else
                  (let time = mn_collected_at_unix_ms point;
                       q = (if 0 < pl_current_pid p \<and> mn_pid point \<noteq> pl_current_pid p then flush_segment p else p) in
                   q\<lparr> pl_current_pid := mn_pid point,
                      pl_segment_points := pl_segment_points q @ [(double_of_time time, value)],
                      pl_maximum_value := double_max (pl_maximum_value q) value,
                      pl_min_time := (if pl_min_time q < 0 then time else pl_min_time q),
                      pl_max_time := time \<rparr>)))"

definition plot_history :: "rounding \<Rightarrow> MetricChartKind \<Rightarrow> ServiceMetricsSnapshot list \<Rightarrow> plot \<Rightarrow> plot" where
  "plot_history rnd kind history p = flush_segment (fold (plot_point rnd kind) history p)"

fun double_ceil :: "double \<Rightarrow> double" where
  "double_ceil (Fin r) = Fin (of_int \<lceil>r\<rceil>)"
| "double_ceil x = x"

text \<open>\<open>maximum_value * 1.2\<close>, then the axis, with two decimals for a percentage.\<close>

definition axis_maximum :: "rounding \<Rightarrow> MetricChartKind \<Rightarrow> double \<Rightarrow> double" where
  "axis_maximum rnd kind maximum_value =
     (let scaled = ld_mul rnd maximum_value (rnd (6 / 5)) in
      if kind = kCpuPercent then
        double_max (Fin 1) (ld_div rnd (double_ceil (ld_mul rnd scaled (Fin 100))) (Fin 100))
      else double_max (Fin 1) (double_ceil scaled))"

definition axis_format :: "MetricChartKind \<Rightarrow> string" where
  "axis_format kind =
     (if kind = kCpuPercent then ''%.2f'' else if kind = kRssMemory then ''%.1f'' else ''%.0f'')"

definition SetHistory ::
  "ui \<Rightarrow> millis \<Rightarrow> ServiceMetricsSnapshot list \<Rightarrow> chart \<Rightarrow> chart" where
  "SetHistory ui now history c =
     (let p = plot_history (ui_round ui) (ch_kind c) history initial_plot;
          drawn = (RemoveAllSeries c)\<lparr> ch_series := pl_series p \<rparr> in
      if pl_min_time p < 0 \<or> pl_max_time p < 0 then chart_Clear now ''No available metric samples'' drawn
      else
        (let short = pl_max_time p - pl_min_time p < 10 * 1000;
             min_time = (if short then pl_min_time p - 5 * 1000 else pl_min_time p);
             max_time = (if short then pl_max_time p + 5 * 1000 else pl_max_time p)
         in drawn\<lparr> ch_time_range := (min_time, max_time),
              ch_value_range := (Fin 0, axis_maximum (ui_round ui) (ch_kind c) (pl_maximum_value p)),
              ch_value_format := axis_format (ch_kind c),
              ch_title := TitleFor (ch_kind c) @ '' (Recent History)'' \<rparr>))"

section \<open>The segments\<close>

text \<open>
  The reference: a sample is plotted when it was taken and has the value; a segment is a longest run
  of plotted samples of one process.
\<close>

definition plotted :: "rounding \<Rightarrow> MetricChartKind \<Rightarrow> ServiceMetricsSnapshot \<Rightarrow> bool" where
  "plotted rnd kind x \<longleftrightarrow> 0 < mn_collected_at_unix_ms x \<and> mn_available x \<and> ValueFor rnd kind x \<noteq> None"

definition plotted_pid :: "rounding \<Rightarrow> MetricChartKind \<Rightarrow> int \<Rightarrow> ServiceMetricsSnapshot \<Rightarrow> bool" where
  "plotted_pid rnd kind pid x \<longleftrightarrow> plotted rnd kind x \<and> mn_pid x = pid"

function runs :: "rounding \<Rightarrow> MetricChartKind \<Rightarrow> ServiceMetricsSnapshot list \<Rightarrow> ServiceMetricsSnapshot list list" where
  "runs rnd kind [] = []"
| "runs rnd kind (x # xs) =
     (if plotted rnd kind x
      then (x # takeWhile (plotted_pid rnd kind (mn_pid x)) xs)
           # runs rnd kind (dropWhile (plotted_pid rnd kind (mn_pid x)) xs)
      else runs rnd kind xs)"
  by pat_completeness auto
termination
  by (relation "measure (\<lambda>(rnd, kind, xs). length xs)") (auto simp: less_Suc_eq_le length_dropWhile_le)

definition point_of :: "rounding \<Rightarrow> MetricChartKind \<Rightarrow> ServiceMetricsSnapshot \<Rightarrow> point" where
  "point_of rnd kind x = (double_of_time (mn_collected_at_unix_ms x), the (ValueFor rnd kind x))"

lemma plotted_pid_plotted: "plotted_pid rnd kind pid x \<Longrightarrow> plotted rnd kind x"
  by (simp add: plotted_pid_def)

lemma plotted_pid_iff: "plotted rnd kind x \<Longrightarrow> plotted_pid rnd kind pid x \<longleftrightarrow> mn_pid x = pid"
  by (simp add: plotted_pid_def)

lemma takeWhile_filter:
  assumes "\<And>x. P x \<Longrightarrow> Q x"
  shows "filter Q xs = takeWhile P xs @ filter Q (dropWhile P xs)"
  using assms by (induction xs) auto

lemma concat_runs: "concat (runs rnd kind xs) = filter (plotted rnd kind) xs"
proof (induction rnd kind xs rule: runs.induct)
  case (2 rnd kind x xs)
  have "filter (plotted rnd kind) xs = takeWhile (plotted_pid rnd kind (mn_pid x)) xs
     @ filter (plotted rnd kind) (dropWhile (plotted_pid rnd kind (mn_pid x)) xs)"
    by (rule takeWhile_filter) (rule plotted_pid_plotted)
  with 2 show ?case by simp
qed simp

lemma flush_segment_simps [simp]:
  "pl_min_time (flush_segment p) = pl_min_time p" "pl_max_time (flush_segment p) = pl_max_time p"
  "pl_maximum_value (flush_segment p) = pl_maximum_value p" "pl_segment_points (flush_segment p) = []"
  "pl_series (flush_segment p) =
     pl_series p @ (if pl_segment_points p = [] then [] else [pl_segment_points p])"
  "pl_current_pid (flush_segment p) = (if pl_segment_points p = [] then pl_current_pid p else -1)"
  by (simp_all add: flush_segment_def)

lemma plot_point_skipped: "\<not> plotted rnd kind x \<Longrightarrow> plot_point rnd kind x p = flush_segment p"
  by (auto simp: plot_point_def plotted_def split: option.splits)

lemma plot_point_plotted:
  assumes "plotted rnd kind x"
  shows "plot_point rnd kind x p =
     (let time = mn_collected_at_unix_ms x; value = the (ValueFor rnd kind x);
          q = (if 0 < pl_current_pid p \<and> mn_pid x \<noteq> pl_current_pid p then flush_segment p else p) in
      q\<lparr> pl_current_pid := mn_pid x, pl_segment_points := pl_segment_points q @ [point_of rnd kind x],
         pl_maximum_value := double_max (pl_maximum_value p) value,
         pl_min_time := (if pl_min_time p < 0 then time else pl_min_time p), pl_max_time := time \<rparr>)"
  using assms by (auto simp: plot_point_def plotted_def point_of_def Let_def)

definition plot_ok :: "plot \<Rightarrow> bool" where
  "plot_ok p \<longleftrightarrow> (if pl_segment_points p = [] then pl_current_pid p = -1 else 0 < pl_current_pid p)"

lemma fold_segments:
  assumes "list_all (\<lambda>x. mn_available x \<longrightarrow> 0 < mn_pid x) xs" and "plot_ok p"
  shows "pl_series (plot_history rnd kind xs p) =
     pl_series p
     @ (if pl_segment_points p = [] then map (map (point_of rnd kind)) (runs rnd kind xs)
        else (pl_segment_points p @ map (point_of rnd kind) (takeWhile (plotted_pid rnd kind (pl_current_pid p)) xs))
             # map (map (point_of rnd kind)) (runs rnd kind (dropWhile (plotted_pid rnd kind (pl_current_pid p)) xs)))"
  using assms
proof (induction xs arbitrary: p)
  case Nil
  then show ?case by (simp add: plot_history_def)
next
  case (Cons x xs)
  have step: "plot_history rnd kind (x # xs) p = plot_history rnd kind xs (plot_point rnd kind x p)"
    by (simp add: plot_history_def)
  have rest: "list_all (\<lambda>x. mn_available x \<longrightarrow> 0 < mn_pid x) xs" using Cons.prems by simp
  show ?case
  proof (cases "plotted rnd kind x")
    case False
    have "plot_ok (flush_segment p)" using Cons.prems(2) by (auto simp: plot_ok_def)
    from Cons.IH [OF rest this] show ?thesis
      using False by (simp add: step plot_point_skipped plotted_pid_def)
  next
    case True
    then have pid: "0 < mn_pid x" using Cons.prems(1) by (simp add: plotted_def)
    then have "plot_ok (plot_point rnd kind x p)"
      using True by (simp add: plot_ok_def plot_point_plotted Let_def)
    from Cons.IH [OF rest this] show ?thesis
      using True Cons.prems(2) pid by (auto simp: step plot_point_plotted plotted_pid_iff plot_ok_def Let_def)
  qed
qed

lemma plot_history_segments:
  assumes "list_all (\<lambda>x. mn_available x \<longrightarrow> 0 < mn_pid x) xs"
  shows "pl_series (plot_history rnd kind xs initial_plot) = map (map (point_of rnd kind)) (runs rnd kind xs)"
  using fold_segments [OF assms, of initial_plot] by (simp add: plot_ok_def initial_plot_def)

section \<open>The axes\<close>

lemma fold_bounds:
  assumes "sorted (map mn_collected_at_unix_ms xs)"
    and "list_all (\<lambda>x. plotted rnd kind x \<longrightarrow> (\<exists>v. ValueFor rnd kind x = Some (Fin v) \<and> 0 \<le> v \<and> v \<le> b)) xs"
    and "pl_maximum_value p = Fin m" "0 \<le> m" "m \<le> b"
    and "list_all (\<lambda>x. pl_max_time p \<le> mn_collected_at_unix_ms x) xs"
    and "0 \<le> pl_min_time p \<longrightarrow> pl_min_time p \<le> pl_max_time p"
    and q: "q = fold (plot_point rnd kind) xs p"
  shows "\<exists>m'. pl_maximum_value q = Fin m' \<and> m \<le> m' \<and> m' \<le> b \<and> pl_max_time p \<le> pl_max_time q
     \<and> (0 \<le> pl_min_time p \<longrightarrow> pl_min_time q = pl_min_time p)
     \<and> list_all (\<lambda>x. plotted rnd kind x \<longrightarrow>
          0 \<le> pl_min_time q \<and> pl_min_time q \<le> mn_collected_at_unix_ms x \<and> mn_collected_at_unix_ms x \<le> pl_max_time q
          \<and> double_le (the (ValueFor rnd kind x)) (Fin m')) xs"
  using assms
proof (induction xs arbitrary: p m)
  case Nil
  then show ?case by simp
next
  case (Cons x xs)
  let ?p = "plot_point rnd kind x p" and ?t = "mn_collected_at_unix_ms x"
  have sorted: "sorted (map mn_collected_at_unix_ms xs)" and later: "list_all (\<lambda>y. ?t \<le> mn_collected_at_unix_ms y) xs"
    using Cons.prems(1) by (auto simp: list_all_iff)
  have vals: "list_all (\<lambda>x. plotted rnd kind x \<longrightarrow> (\<exists>v. ValueFor rnd kind x = Some (Fin v) \<and> 0 \<le> v \<and> v \<le> b)) xs"
    and q: "q = fold (plot_point rnd kind) xs ?p" and above: "pl_max_time p \<le> ?t"
    using Cons.prems by simp_all
  show ?case
  proof (cases "plotted rnd kind x")
    case False
    with Cons.IH [OF sorted vals, of ?p m] Cons.prems q show ?thesis
      by (simp add: plot_point_skipped)
  next
    case True
    then obtain v where v: "ValueFor rnd kind x = Some (Fin v)" "0 \<le> v" "v \<le> b" and t: "0 < ?t"
      using Cons.prems(2) by (auto simp: plotted_def)
    have p: "pl_maximum_value ?p = Fin (max m v)" "pl_max_time ?p = ?t"
      "pl_min_time ?p = (if pl_min_time p < 0 then ?t else pl_min_time p)"
      using True v Cons.prems(3) by (auto simp: plot_point_plotted Let_def double_max_def)
    have "\<exists>m'. pl_maximum_value q = Fin m' \<and> max m v \<le> m' \<and> m' \<le> b \<and> pl_max_time ?p \<le> pl_max_time q
       \<and> (0 \<le> pl_min_time ?p \<longrightarrow> pl_min_time q = pl_min_time ?p)
       \<and> list_all (\<lambda>x. plotted rnd kind x \<longrightarrow>
            0 \<le> pl_min_time q \<and> pl_min_time q \<le> mn_collected_at_unix_ms x \<and> mn_collected_at_unix_ms x \<le> pl_max_time q
            \<and> double_le (the (ValueFor rnd kind x)) (Fin m')) xs"
      using Cons.prems(4,5,7) v above later p by (intro Cons.IH [OF sorted vals _ _ _ _ _ q]) auto
    then show ?thesis
      using p v t above Cons.prems(4,5,7) by (auto simp: double_le_def split: if_splits)
  qed
qed

text \<open>
  What is relied on of the rounding of \<open>double\<close>: no overflow below \<open>2 ^ 100\<close>, the sign is kept, and
  from one on the relative error is at most \<open>2 ^ -50\<close>.
\<close>

definition close_rounding :: "rounding \<Rightarrow> bool" where
  "close_rounding rnd \<longleftrightarrow> (\<forall>x. 0 \<le> x \<and> x \<le> 2 ^ 100 \<longrightarrow>
     (\<exists>y. rnd x = Fin y \<and> 0 \<le> y \<and> y \<le> 2 * x + 1 \<and> (1 \<le> x \<longrightarrow> x * (1 - 1 / 2 ^ 50) \<le> y)))"

lemma close_roundingD:
  assumes "close_rounding rnd" "0 \<le> x" "x \<le> 2 ^ 100"
  obtains y where "rnd x = Fin y" "0 \<le> y" "y \<le> 2 * x + 1" "1 \<le> x \<Longrightarrow> x * (1 - 1 / 2 ^ 50) \<le> y"
  using assms unfolding close_rounding_def by blast

lemma double_max_ge: "double_le (Fin 1) (double_max (Fin 1) z)"
  by (cases z) (auto simp: double_max_def double_le_def)

lemma scaled_above:
  assumes "close_rounding rnd" and "1 \<le> m" and "m \<le> 2 ^ 70"
  obtains s where "ld_mul rnd (Fin m) (rnd (6 / 5)) = Fin s" "11 / 10 * m \<le> s" "s \<le> 2 ^ 75"
proof -
  obtain f where f: "rnd (6 / 5) = Fin f" "f \<le> 2 * (6 / 5) + 1" "6 / 5 * (1 - 1 / 2 ^ 50) \<le> f"
    by (rule close_roundingD [OF assms(1), of "6 / 5"]) simp_all
  have f_ge: "118 / 100 \<le> f" and f_le: "f \<le> 4" using f by simp_all
  have le: "m * f \<le> 2 ^ 70 * 4" and ge: "m * (118 / 100) \<le> m * f"
    using assms f_ge f_le mult_mono [of m "2 ^ 70" f 4] mult_left_mono [of "118 / 100" f m] by simp_all
  have one: "1 \<le> m * f" using ge assms(2) by linarith
  obtain s where s: "rnd (m * f) = Fin s" "s \<le> 2 * (m * f) + 1" "m * f * (1 - 1 / 2 ^ 50) \<le> s"
    by (rule close_roundingD [OF assms(1), of "m * f"]) (use one le in simp_all)
  have "s \<le> 2 ^ 75" using s(2) le by simp
  moreover have "11 / 10 * m \<le> s"
  proof -
    have "11 / 10 * m \<le> m * (118 / 100) * (1 - 1 / 2 ^ 50)" using assms(2) by simp
    also have "\<dots> \<le> m * f * (1 - 1 / 2 ^ 50)" using ge by (rule mult_right_mono) simp
    also note s(3)
    finally show ?thesis .
  qed
  ultimately show thesis by (intro that) (simp_all add: f s)
qed

lemma axis_covers:
  assumes close: "close_rounding rnd" and "0 \<le> m" and m: "m \<le> 2 ^ 70" and "v \<le> m"
  shows "double_le (Fin v) (axis_maximum rnd kind (Fin m))"
proof (cases "m \<le> 1")
  case True
  have "double_le (Fin 1) (axis_maximum rnd kind (Fin m))"
    by (simp add: axis_maximum_def Let_def double_max_ge)
  with True \<open>v \<le> m\<close> show ?thesis
    by (cases "axis_maximum rnd kind (Fin m)") (auto simp: double_le_def)
next
  case False
  then obtain s where s: "ld_mul rnd (Fin m) (rnd (6 / 5)) = Fin s" "11 / 10 * m \<le> s" "s \<le> 2 ^ 75"
    using scaled_above [OF close _ m] by auto
  show ?thesis
  proof (cases "kind = kCpuPercent")
    case True
    obtain h where h: "rnd (s * 100) = Fin h" "h \<le> 2 * (s * 100) + 1" "s * 100 * (1 - 1 / 2 ^ 50) \<le> h"
      by (rule close_roundingD [OF close, of "s * 100"]) (use s False in simp_all)
    define c :: rat where "c = of_int \<lceil>h\<rceil>"
    have c: "h \<le> c" "c \<le> h + 1" unfolding c_def by linarith+
    have "109 * m \<le> h" using h(3) s(2) False by simp
    with c(1) have low: "109 * m \<le> c" by linarith
    have "h + 1 \<le> 2 ^ 90" using h(2) s(3) by simp
    with c(2) have high: "c \<le> 2 ^ 90" by linarith
    obtain a where a: "rnd (c / 100) = Fin a" "1 \<le> c / 100 \<Longrightarrow> c / 100 * (1 - 1 / 2 ^ 50) \<le> a"
      by (rule close_roundingD [OF close, of "c / 100"]) (use low high False in simp_all)
    have "m \<le> a" using a(2) low False by simp
    then show ?thesis
      using True a False \<open>v \<le> m\<close> by (auto simp: axis_maximum_def s h double_max_def double_le_def simp flip: c_def)
  next
    case other: False
    have "s \<le> of_int \<lceil>s\<rceil>" by linarith
    moreover have "m < s" using s(2) False by simp
    ultimately have "m < s" "m < of_int \<lceil>s\<rceil>" by linarith+
    then show ?thesis
      using other False \<open>v \<le> m\<close> by (auto simp: axis_maximum_def s double_max_def double_le_def)
  qed
qed

section \<open>What the client hands over\<close>

lemma read_each_invariant:
  assumes "read_each n i parse reject js acc = Inr xs" and "P acc"
    and "\<And>acc ms x. P acc \<Longrightarrow> parse ms = Some x \<Longrightarrow> reject acc x = None \<Longrightarrow> P (acc @ [x])"
  shows "P xs"
  using assms(1,2)
proof (induction js arbitrary: acc)
  case (Cons j js)
  then show ?case by (auto split: json.splits option.splits intro: assms(3))
qed simp

definition sample_ok :: "ServiceMetricsSnapshot \<Rightarrow> bool" where
  "sample_ok x \<longleftrightarrow> (mn_available x \<longrightarrow> 0 < mn_pid x)
     \<and> (case mn_cpu_percent x of None \<Rightarrow> True
         | Some v \<Rightarrow> isfinite v \<and> \<not> double_less v (Fin 0) \<and> \<not> double_less (Fin 100) v)"

lemma ParseServiceMetricsValues_ok: "ParseServiceMetricsValues qt ms sid = Some x \<Longrightarrow> sample_ok x"
  by (auto simp: ParseServiceMetricsValues_def Let_def sample_ok_def ParseOptionalDouble_def
      split: option.splits if_splits bind_splits)

lemma GetMetricsHistory_samples:
  assumes "snd (GetMetricsHistory qt sid limit) raw = Inr history"
  shows "list_all sample_ok history" and "sorted (map mn_collected_at_unix_ms history)"
    and "list_all (\<lambda>x. -1 \<le> mn_collected_at_unix_ms x) history"
proof -
  let ?P = "\<lambda>xs. list_all sample_ok xs \<and> sorted (map mn_collected_at_unix_ms xs)
    \<and> list_all (\<lambda>x. -1 \<le> mn_collected_at_unix_ms x) xs"
  obtain n i js where read: "read_each n i (\<lambda>ms. ParseServiceMetricsValues qt ms sid)
      (\<lambda>acc x. if mn_collected_at_unix_ms x < (if acc = [] then -1 else mn_collected_at_unix_ms (last acc))
                then Some ''Agent metrics history contains an invalid point'' else None) js [] = Inr history"
    using assms by (auto simp: GetMetricsHistory_def SendJsonRequest_def split: sum.splits if_splits)
  have "?P history"
    using read
  proof (rule read_each_invariant)
    show "?P []" by simp
    show "?P (acc @ [x])"
      if "?P acc" "ParseServiceMetricsValues qt ms sid = Some x"
        "(if mn_collected_at_unix_ms x < (if acc = [] then -1 else mn_collected_at_unix_ms (last acc))
          then Some ''Agent metrics history contains an invalid point'' else None) = None" for acc ms x
      using that ParseServiceMetricsValues_ok [OF that(2)]
      by (cases acc rule: rev_cases) (auto simp: sorted_append list_all_iff split: if_splits)
  qed
  then show "list_all sample_ok history" "sorted (map mn_collected_at_unix_ms history)"
    "list_all (\<lambda>x. -1 \<le> mn_collected_at_unix_ms x) history" by simp_all
qed

lemma bit_length_bound: "n < 2 ^ k \<Longrightarrow> bit_length n \<le> k"
proof (induction k arbitrary: n)
  case 0
  then show ?case by (simp add: bit_length.simps)
next
  case (Suc k)
  then have "n div 2 < 2 ^ k" by simp
  from Suc.IH [OF this] show ?case by (subst bit_length.simps) simp
qed

lemma round_bits_bound:
  assumes "n < 2 ^ 64"
  shows "round_bits 53 n \<le> 2 ^ 65"
proof -
  define k where "k = bit_length n - 53"
  have "2 ^ k \<le> (2 :: nat) ^ 11" using bit_length_bound [OF assms] by (intro power_increasing) (simp_all add: k_def)
  moreover have "round_bits 53 n \<le> n + 2 ^ k"
    by (auto simp: round_bits_def Let_def k_def [symmetric] intro: trans_le_add1)
  ultimately show ?thesis using assms by simp
qed

lemma double_of_u64_bound: "\<exists>r. double_of_u64 w = Fin r \<and> 0 \<le> r \<and> r \<le> 2 ^ 65"
proof -
  have "round_bits 53 (unat w) \<le> 2 ^ 65" using unsigned_less [of w, where 'a = nat] by (intro round_bits_bound) simp
  then have "(of_nat (round_bits 53 (unat w)) :: rat) \<le> of_nat (2 ^ 65)" by (rule of_nat_mono)
  then show ?thesis by (simp add: double_of_u64_def)
qed

lemma ValueFor_range:
  assumes "close_rounding rnd" and "sample_ok x" and "ValueFor rnd kind x = Some d"
  shows "\<exists>v. d = Fin v \<and> 0 \<le> v \<and> v \<le> 2 ^ 70"
proof (cases kind)
  case kCpuPercent
  then show ?thesis using assms by (cases d) (auto simp: sample_ok_def)
next
  case kRssMemory
  then obtain w where w: "d = ld_div rnd (double_of_u64 w) (Fin (1024 * 1024))" using assms by (auto split: option.splits)
  obtain r where r: "double_of_u64 w = Fin r" "0 \<le> r" "r \<le> 2 ^ 65" using double_of_u64_bound by blast
  obtain y where "rnd (r / (1024 * 1024)) = Fin y" "0 \<le> y" "y \<le> 2 * (r / (1024 * 1024)) + 1"
    by (rule close_roundingD [OF assms(1), of "r / (1024 * 1024)"]) (use r in simp_all)
  with r w show ?thesis by simp
next
  case kThreadCount
  then obtain w where "d = double_of_u64 w" using assms by auto
  then show ?thesis using double_of_u64_bound [of w] by auto
next
  case kFdCount
  then obtain w where "d = double_of_u64 w" using assms by auto
  then show ?thesis using double_of_u64_bound [of w] by auto
qed

section \<open>The property\<close>

lemma plot_history_bounds:
  assumes "close_rounding rnd" and "list_all sample_ok history" and "sorted (map mn_collected_at_unix_ms history)"
    and "list_all (\<lambda>x. -1 \<le> mn_collected_at_unix_ms x) history" and q: "q = plot_history rnd kind history initial_plot"
  shows "\<exists>m. pl_maximum_value q = Fin m \<and> 0 \<le> m \<and> m \<le> 2 ^ 70
     \<and> list_all (\<lambda>x. plotted rnd kind x \<longrightarrow>
          0 \<le> pl_min_time q \<and> pl_min_time q \<le> mn_collected_at_unix_ms x \<and> mn_collected_at_unix_ms x \<le> pl_max_time q
          \<and> double_le (the (ValueFor rnd kind x)) (Fin m)) history"
proof -
  have vals: "list_all (\<lambda>x. plotted rnd kind x \<longrightarrow> (\<exists>v. ValueFor rnd kind x = Some (Fin v) \<and> 0 \<le> v \<and> v \<le> 2 ^ 70)) history"
    using assms(2) ValueFor_range [OF assms(1)] unfolding list_all_iff plotted_def by fastforce
  from fold_bounds [OF assms(3) vals, of initial_plot 0, OF _ _ _ _ _ refl] assms(4) show ?thesis
    by (auto simp: q plot_history_def initial_plot_def)
qed

lemma fold_times:
  "(0 \<le> pl_min_time p \<and> 0 \<le> pl_max_time p) \<or> list_ex (plotted rnd kind) xs \<Longrightarrow>
     0 \<le> pl_min_time (fold (plot_point rnd kind) xs p) \<and> 0 \<le> pl_max_time (fold (plot_point rnd kind) xs p)"
proof (induction xs arbitrary: p)
  case (Cons x xs)
  have "0 < mn_collected_at_unix_ms x" if "plotted rnd kind x" using that by (simp add: plotted_def)
  with Cons.prems have "(0 \<le> pl_min_time (plot_point rnd kind x p) \<and> 0 \<le> pl_max_time (plot_point rnd kind x p))
      \<or> list_ex (plotted rnd kind) xs"
    by (cases "plotted rnd kind x") (auto simp: plot_point_skipped plot_point_plotted Let_def)
  then show ?case using Cons.IH by simp
qed simp

text \<open>The series a history is drawn as.\<close>

definition drawn :: "rounding \<Rightarrow> MetricChartKind \<Rightarrow> ServiceMetricsSnapshot list \<Rightarrow> point list list" where
  "drawn rnd kind history = map (map (point_of rnd kind)) (runs rnd kind history)"

lemma drawn_Nil: "drawn rnd kind [] = []"
  by (simp add: drawn_def)

lemma concat_drawn: "concat (drawn rnd kind history) = map (point_of rnd kind) (filter (plotted rnd kind) history)"
  by (simp add: drawn_def concat_runs flip: map_concat)

lemma drawn_none:
  assumes "\<not> list_ex (plotted rnd kind) history"
  shows "drawn rnd kind history = []"
  using assms by (induction rnd kind history rule: runs.induct) (simp_all add: drawn_def)

lemma SetHistory_series:
  assumes "list_all (\<lambda>x. mn_available x \<longrightarrow> 0 < mn_pid x) history"
  shows "ch_series (SetHistory ui now history c) = drawn (ui_round ui) (ch_kind c) history"
proof -
  define q where "q = plot_history (ui_round ui) (ch_kind c) history initial_plot"
  have series: "pl_series q = drawn (ui_round ui) (ch_kind c) history"
    unfolding q_def drawn_def by (rule plot_history_segments [OF assms])
  show ?thesis
  proof (cases "pl_min_time q < 0 \<or> pl_max_time q < 0")
    case True
    then have "\<not> list_ex (plotted (ui_round ui) (ch_kind c)) history"
      using fold_times [of initial_plot "ui_round ui" "ch_kind c" history] by (auto simp: q_def plot_history_def)
    then show ?thesis
      using True by (simp add: SetHistory_def Let_def chart_Clear_def RemoveAllSeries_def drawn_none flip: q_def)
  next
    case False
    then show ?thesis
      by (simp add: SetHistory_def Let_def RemoveAllSeries_def series flip: q_def)
  qed
qed

lemma samples_have_pids: "list_all sample_ok history \<Longrightarrow> list_all (\<lambda>x. mn_available x \<longrightarrow> 0 < mn_pid x) history"
  by (auto simp: list_all_iff sample_ok_def)

lemma SetHistory_axes:
  assumes "close_rounding (ui_round ui)" and samples: "list_all sample_ok history"
    "sorted (map mn_collected_at_unix_ms history)" "list_all (\<lambda>x. -1 \<le> mn_collected_at_unix_ms x) history"
    and c': "c' = SetHistory ui now history c"
    and x: "x \<in> set history" "plotted (ui_round ui) (ch_kind c) x"
  shows "fst (ch_time_range c') \<le> mn_collected_at_unix_ms x \<and> mn_collected_at_unix_ms x \<le> snd (ch_time_range c')
    \<and> double_le (fst (ch_value_range c')) (snd (point_of (ui_round ui) (ch_kind c) x))
    \<and> double_le (snd (point_of (ui_round ui) (ch_kind c) x)) (snd (ch_value_range c'))"
proof -
  let ?rnd = "ui_round ui" and ?kind = "ch_kind c"
  define q where "q = plot_history ?rnd ?kind history initial_plot"
  obtain m where m: "pl_maximum_value q = Fin m" "0 \<le> m" "m \<le> 2 ^ 70"
    and "list_all (\<lambda>x. plotted ?rnd ?kind x \<longrightarrow>
          0 \<le> pl_min_time q \<and> pl_min_time q \<le> mn_collected_at_unix_ms x \<and> mn_collected_at_unix_ms x \<le> pl_max_time q
          \<and> double_le (the (ValueFor ?rnd ?kind x)) (Fin m)) history"
    using plot_history_bounds [OF assms(1) samples q_def] by blast
  then have x_in: "0 \<le> pl_min_time q" "pl_min_time q \<le> mn_collected_at_unix_ms x" "mn_collected_at_unix_ms x \<le> pl_max_time q"
    "double_le (the (ValueFor ?rnd ?kind x)) (Fin m)"
    using x by (auto simp: list_all_iff)
  then have axes: "fst (ch_time_range c') \<le> pl_min_time q" "pl_max_time q \<le> snd (ch_time_range c')"
    "ch_value_range c' = (Fin 0, axis_maximum ?rnd ?kind (Fin m))"
    by (simp_all add: c' SetHistory_def Let_def RemoveAllSeries_def m flip: q_def)
  obtain v where v: "ValueFor ?rnd ?kind x = Some (Fin v)" "0 \<le> v"
    using x samples(1) ValueFor_range [OF assms(1)] by (fastforce simp: plotted_def list_all_iff)
  then have "v \<le> m" using x_in(4) by (auto simp: double_le_def)
  then have "double_le (Fin v) (axis_maximum ?rnd ?kind (Fin m))"
    by (rule axis_covers [OF assms(1) m(2,3)])
  then show ?thesis
    using x_in axes v by (auto simp: point_of_def double_le_def)
qed

text \<open>C20. For every history the client hands over, the chart shows exactly the samples that were taken
  and have the value, in their order, as one line for each longest run of samples of one process: a
  line never joins two processes nor bridges a gap. Every point lies within both axes.\<close>

theorem chart_shows_history:
  assumes "close_rounding (ui_round ui)" and "snd (GetMetricsHistory qt sid limit) raw = Inr history"
    and "c' = SetHistory ui now history c"
  shows "ch_series c' = map (map (point_of (ui_round ui) (ch_kind c))) (runs (ui_round ui) (ch_kind c) history)
    \<and> concat (ch_series c') = map (point_of (ui_round ui) (ch_kind c)) (filter (plotted (ui_round ui) (ch_kind c)) history)
    \<and> list_all (\<lambda>x. fst (ch_time_range c') \<le> mn_collected_at_unix_ms x \<and> mn_collected_at_unix_ms x \<le> snd (ch_time_range c')
         \<and> double_le (fst (ch_value_range c')) (snd (point_of (ui_round ui) (ch_kind c) x))
         \<and> double_le (snd (point_of (ui_round ui) (ch_kind c) x)) (snd (ch_value_range c')))
       (filter (plotted (ui_round ui) (ch_kind c)) history)"
proof -
  note samples = GetMetricsHistory_samples [OF assms(2)]
  have series: "ch_series c' = drawn (ui_round ui) (ch_kind c) history"
    unfolding assms(3) by (rule SetHistory_series [OF samples_have_pids [OF samples(1)]])
  show ?thesis
    using SetHistory_axes [OF assms(1) samples assms(3)]
    by (simp add: series concat_drawn list_all_iff) (simp add: drawn_def)
qed

section \<open>Witness\<close>

text \<open>Qt with exact arithmetic, and a reply of the agent with samples of two processes.\<close>

definition exact_ui :: ui where
  "exact_ui = \<lparr> ui_normal = (\<lambda>s. s), ui_date_time = int_to_string, ui_time = int_to_string,
     ui_fixed = (\<lambda>_ _. []), ui_round = Fin \<rparr>"

lemma exact_close: "close_rounding (ui_round exact_ui)"
  by (auto simp: close_rounding_def exact_ui_def mult_le_cancel_left1)

definition demo_point :: "int \<Rightarrow> int \<Rightarrow> json" where
  "demo_point pid time = JObj [(''available'', JBool True), (''pid'', JNum (int_to_string pid)),
     (''collected_at_unix_ms'', JNum (int_to_string time)), (''cpu_percent'', JNull),
     (''rss_bytes'', JNum (int_to_string 2097152)), (''thread_count'', JNum (int_to_string 1)),
     (''fd_count'', JNum (int_to_string 3))]"

definition demo_history :: json where
  "demo_history = JObj [(''service_id'', JStr ''a''),
     (''points'', JArr [demo_point 5 1000, demo_point 5 2000, demo_point 6 3000])]"

definition demo_samples :: "ServiceMetricsSnapshot list" where
  "demo_samples = map (\<lambda>(pid, t). \<lparr> mn_service_id = ''a'', mn_available = True, mn_pid = pid,
     mn_collected_at_unix_ms = t, mn_cpu_percent = None, mn_rss_bytes = Some 2097152, mn_thread_count = Some 1,
     mn_fd_count = Some 3 \<rparr>) [(5, 1000), (5, 2000), (6, 3000)]"

definition answering_qt :: "json \<Rightarrow> qt_api" where
  "answering_qt j = \<lparr> qt_from_json = (\<lambda>_. Some j), qt_double = reference_double, qt_int64 = (\<lambda>i. i),
     qt_uint64 = word_of_int, qt_uint32 = word_of_int \<rparr>"

definition ok_reply :: reply where
  "ok_reply = \<lparr> rp_error = None, rp_http_status = 200, rp_body = [] \<rparr>"

lemma demo_history_read: "snd (GetMetricsHistory (answering_qt demo_history) ''a'' 300) ok_reply = Inr demo_samples"
  by (simp add: GetMetricsHistory_def SendJsonRequest_def HandleReply_def demo_history_def demo_point_def field_def
      ParseServiceMetricsValues_def ParseRequiredInt64_def ParseOptionalDouble_def ParseOptionalUInt64_def
      integral_def demo_samples_def answering_qt_def ok_reply_def reference_double_int)

theorem chart_shows_history_witness:
  "map length (ch_series (SetHistory exact_ui 0 demo_samples (new_chart 0 kRssMemory))) = [2, 1]"
proof -
  have kind: "ch_kind (new_chart 0 kRssMemory) = kRssMemory"
    by (simp add: new_chart_def chart_Clear_def RemoveAllSeries_def)
  have "map length (runs Fin kRssMemory demo_samples) = [2, 1]"
    by (simp add: demo_samples_def plotted_def plotted_pid_def)
  then show ?thesis
    using chart_shows_history [OF exact_close demo_history_read refl, of 0 "new_chart 0 kRssMemory"]
    by (simp add: kind comp_def exact_ui_def)
qed

end
