(* ===== verification/Panels.thy ===== *)
theory Panels
  imports MetricChart
begin

text \<open>
  The panels of the desktop's window: \<open>MetricsHistoryPanel\<close> and \<open>ServiceHealthPanel\<close>
  (\<open>src/apps/desktop/src/widgets/metrics_history_panel.cpp\<close>, \<open>service_health_panel.cpp\<close>). An operation
  returns the panel and the requests it sends; a request carries what its callback captured, so that
  the callback is a function of the request and of the client's result. The protocol all requests
  share - a flag while one is under way, a generation that makes older replies stale - is the locale
  \<open>request_slot\<close>, interpreted on every kind of request.
\<close>

section \<open>Requests\<close>

datatype StatusOperation = OpStart | OpStop | OpRestart

text \<open>
  The requests of the desktop: the arguments of the client's operation, and the generation. An
  action also carries the name it is announced with.
\<close>

datatype desktop_request =
    RequestServices u64
  | RequestState string u64
  | RequestLogs string int u64
  | RequestMetrics string u64
  | RequestHistory string u64
  | RequestHealth string u64
  | RequestAlerts string bool u64
  | RequestRecovery string u64
  | RequestAck string
  | RequestAction StatusOperation string string

type_synonym 'w operation = "'w \<Rightarrow> 'w \<times> desktop_request list"

text \<open>Operations one after the other; an operation that sends nothing.\<close>

fun perform :: "'w operation list \<Rightarrow> 'w operation" where
  "perform [] w = (w, [])"
| "perform (f # fs) w = (let (v, sent) = f w; (u, more) = perform fs v in (u, sent @ more))"

definition quietly :: "('w \<Rightarrow> 'w) \<Rightarrow> 'w operation" where
  "quietly f w = (f w, [])"

section \<open>The history of the metrics\<close>

definition kHistoryLimit :: int where
  "kHistoryLimit = 300"

record history_panel =
  hp_service_id :: string
  hp_request_in_flight :: bool
  hp_request_generation :: u64
  hp_status :: string
  hp_cpu_chart :: chart
  hp_rss_chart :: chart
  hp_thread_chart :: chart
  hp_fd_chart :: chart

definition on_charts :: "(chart \<Rightarrow> chart) \<Rightarrow> history_panel \<Rightarrow> history_panel" where
  "on_charts f p = p\<lparr> hp_cpu_chart := f (hp_cpu_chart p), hp_rss_chart := f (hp_rss_chart p),
     hp_thread_chart := f (hp_thread_chart p), hp_fd_chart := f (hp_fd_chart p) \<rparr>"

definition history_SetStatus :: "string \<Rightarrow> history_panel \<Rightarrow> history_panel" where
  "history_SetStatus status p = p\<lparr> hp_status := status \<rparr>"

definition history_Refresh :: "history_panel operation" where
  "history_Refresh p =
     (if hp_service_id p = [] \<or> hp_request_in_flight p then (p, [])
      else (let generation = hp_request_generation p + 1 in
            (p\<lparr> hp_request_in_flight := True, hp_request_generation := generation \<rparr>,
             [RequestHistory (hp_service_id p) generation])))"

text \<open>What \<open>SetServiceId\<close> and \<open>Clear\<close> share: the id, and a generation that no request has.\<close>

definition history_forget :: "millis \<Rightarrow> string \<Rightarrow> history_panel \<Rightarrow> history_panel" where
  "history_forget now service_id p =
     on_charts (chart_Clear now ''No history samples'')
       (p\<lparr> hp_service_id := service_id, hp_request_generation := hp_request_generation p + 1,
           hp_request_in_flight := False \<rparr>)"

definition history_SetServiceId :: "millis \<Rightarrow> string \<Rightarrow> history_panel operation" where
  "history_SetServiceId now service_id p =
     (if service_id = hp_service_id p then (p, [])
      else history_Refresh (history_SetStatus
             (if service_id = [] then ''No service selected'' else ''Loading history...'')
             (history_forget now service_id p)))"

definition history_Clear :: "millis \<Rightarrow> history_panel \<Rightarrow> history_panel" where
  "history_Clear now p = history_SetStatus ''No service selected'' (history_forget now [] p)"

definition ApplyHistory :: "ui \<Rightarrow> millis \<Rightarrow> ServiceMetricsSnapshot list \<Rightarrow> history_panel \<Rightarrow> history_panel" where
  "ApplyHistory ui now history p =
     (if history = [] then
        on_charts (chart_Clear now ''No history samples'') (history_SetStatus ''No history samples yet'' p)
      else
        history_SetStatus
          (nat_to_string (length history) @ '' samples, latest: ''
           @ ui_time ui (mn_collected_at_unix_ms (last history)))
          (on_charts (SetHistory ui now history) p))"

text \<open>The callback of the request with this id and generation.\<close>

definition history_reply ::
  "ui \<Rightarrow> millis \<Rightarrow> string \<Rightarrow> u64 \<Rightarrow> AgentError + ServiceMetricsSnapshot list \<Rightarrow> history_panel \<Rightarrow> history_panel" where
  "history_reply ui now requested_service_id generation result p =
     (if generation \<noteq> hp_request_generation p \<or> requested_service_id \<noteq> hp_service_id p then p
      else (let p = p\<lparr> hp_request_in_flight := False \<rparr> in
            case result of
              Inl error \<Rightarrow>
                if er_code error = ''metrics_not_ready'' then history_SetStatus ''Waiting for first metrics sample'' p
                else history_SetStatus (''History unavailable: '' @ er_message error) p
            | Inr history \<Rightarrow> ApplyHistory ui now history p))"

definition new_history_panel :: "millis \<Rightarrow> history_panel" where
  "new_history_panel now = history_Clear now
     \<lparr> hp_service_id = [], hp_request_in_flight = False, hp_request_generation = 0, hp_status = ''-'',
       hp_cpu_chart = new_chart now kCpuPercent, hp_rss_chart = new_chart now kRssMemory,
       hp_thread_chart = new_chart now kThreadCount, hp_fd_chart = new_chart now kFdCount \<rparr>"

section \<open>Health, alerts and recovery\<close>

definition kRecoveryEventLimit :: int where
  "kRecoveryEventLimit = 50"

text \<open>
  A row of the alerts table is the id kept in its first cell and the texts of its cells. Qt keeps the
  selection by row: filling a table leaves it, cutting the row off drops it.
\<close>

record health_panel =
  sp_service_id :: string
  sp_status :: string
  sp_health :: health_labels
  sp_include_resolved :: bool
  sp_acknowledge_enabled :: bool
  sp_alerts :: "(string \<times> string list) list"
  sp_selected_row :: "nat option"
  sp_recovery_events :: "string list list"
  sp_health_in_flight :: bool
  sp_alerts_in_flight :: bool
  sp_recovery_in_flight :: bool
  sp_ack_in_flight :: bool
  sp_health_generation :: u64
  sp_alerts_generation :: u64
  sp_recovery_generation :: u64

definition health_SetStatus :: "string \<Rightarrow> health_panel \<Rightarrow> health_panel" where
  "health_SetStatus status p = p\<lparr> sp_status := status \<rparr>"

definition SelectedAlertId :: "health_panel \<Rightarrow> string" where
  "SelectedAlertId p =
     (case sp_selected_row p of
        None \<Rightarrow> [] | Some row \<Rightarrow> if row < length (sp_alerts p) then fst (sp_alerts p ! row) else [])"

definition UpdateAcknowledgeButton :: "health_panel \<Rightarrow> health_panel" where
  "UpdateAcknowledgeButton p = p\<lparr> sp_acknowledge_enabled :=
     sp_service_id p \<noteq> [] \<and> \<not> sp_ack_in_flight p \<and> SelectedAlertId p \<noteq> [] \<rparr>"

definition fill_alerts :: "(string \<times> string list) list \<Rightarrow> health_panel \<Rightarrow> health_panel" where
  "fill_alerts rows p = p\<lparr> sp_alerts := rows, sp_selected_row :=
     (case sp_selected_row p of None \<Rightarrow> None | Some row \<Rightarrow> if row < length rows then Some row else None) \<rparr>"

definition RefreshHealth :: "health_panel operation" where
  "RefreshHealth p =
     (if sp_service_id p = [] \<or> sp_health_in_flight p then (p, [])
      else (let generation = sp_health_generation p + 1 in
            (p\<lparr> sp_health_in_flight := True, sp_health_generation := generation \<rparr>,
             [RequestHealth (sp_service_id p) generation])))"

definition RefreshAlerts :: "health_panel operation" where
  "RefreshAlerts p =
     (if sp_service_id p = [] \<or> sp_alerts_in_flight p then (p, [])
      else (let generation = sp_alerts_generation p + 1 in
            (p\<lparr> sp_alerts_in_flight := True, sp_alerts_generation := generation \<rparr>,
             [RequestAlerts (sp_service_id p) (sp_include_resolved p) generation])))"

definition RefreshRecoveryEvents :: "health_panel operation" where
  "RefreshRecoveryEvents p =
     (if sp_service_id p = [] \<or> sp_recovery_in_flight p then (p, [])
      else (let generation = sp_recovery_generation p + 1 in
            (p\<lparr> sp_recovery_in_flight := True, sp_recovery_generation := generation \<rparr>,
             [RequestRecovery (sp_service_id p) generation])))"

definition health_Refresh :: "health_panel operation" where
  "health_Refresh = perform [RefreshHealth, RefreshAlerts, RefreshRecoveryEvents]"

definition health_forget :: "string \<Rightarrow> health_panel \<Rightarrow> health_panel" where
  "health_forget service_id p =
     (fill_alerts [] (p\<lparr> sp_service_id := service_id, sp_health_generation := sp_health_generation p + 1,
        sp_alerts_generation := sp_alerts_generation p + 1, sp_recovery_generation := sp_recovery_generation p + 1,
        sp_health_in_flight := False, sp_alerts_in_flight := False, sp_recovery_in_flight := False,
        sp_ack_in_flight := False, sp_health := no_health \<rparr>))\<lparr> sp_recovery_events := [] \<rparr>"

definition health_SetServiceId :: "string \<Rightarrow> health_panel operation" where
  "health_SetServiceId service_id p =
     (if service_id = sp_service_id p then (p, [])
      else health_Refresh (UpdateAcknowledgeButton (health_SetStatus
             (if service_id = [] then ''No service selected'' else ''Loading health information...'')
             (health_forget service_id p))))"

definition health_Clear :: "health_panel \<Rightarrow> health_panel" where
  "health_Clear p = UpdateAcknowledgeButton (health_SetStatus ''No service selected'' (health_forget [] p))"

definition ApplyHealth :: "ui \<Rightarrow> HealthSnapshot \<Rightarrow> health_panel \<Rightarrow> health_panel" where
  "ApplyHealth ui health p = health_SetStatus ''Health information updated'' (p\<lparr> sp_health := health_of ui health \<rparr>)"

definition ApplyAlerts :: "ui \<Rightarrow> AlertSnapshot list \<Rightarrow> health_panel \<Rightarrow> health_panel" where
  "ApplyAlerts ui alerts p = UpdateAcknowledgeButton (fill_alerts (map (alert_row ui) alerts) p)"

definition ApplyRecoveryEvents :: "ui \<Rightarrow> RecoveryEventSnapshot list \<Rightarrow> health_panel \<Rightarrow> health_panel" where
  "ApplyRecoveryEvents ui events p = p\<lparr> sp_recovery_events := map (recovery_row ui) events \<rparr>"

definition health_reply ::
  "ui \<Rightarrow> string \<Rightarrow> u64 \<Rightarrow> AgentError + HealthSnapshot \<Rightarrow> health_panel \<Rightarrow> health_panel" where
  "health_reply ui requested_service_id generation result p =
     (if generation \<noteq> sp_health_generation p \<or> requested_service_id \<noteq> sp_service_id p then p
      else (let p = p\<lparr> sp_health_in_flight := False \<rparr> in
            case result of
              Inl error \<Rightarrow> health_SetStatus (''Health unavailable: '' @ er_message error) p
            | Inr health \<Rightarrow> ApplyHealth ui health p))"

definition alerts_reply ::
  "ui \<Rightarrow> string \<Rightarrow> u64 \<Rightarrow> AgentError + AlertSnapshot list \<Rightarrow> health_panel \<Rightarrow> health_panel" where
  "alerts_reply ui requested_service_id generation result p =
     (if generation \<noteq> sp_alerts_generation p \<or> requested_service_id \<noteq> sp_service_id p then p
      else (let p = p\<lparr> sp_alerts_in_flight := False \<rparr> in
            case result of
              Inl error \<Rightarrow> health_SetStatus (''Alerts unavailable: '' @ er_message error) p
            | Inr alerts \<Rightarrow> ApplyAlerts ui alerts p))"

definition recovery_reply ::
  "ui \<Rightarrow> string \<Rightarrow> u64 \<Rightarrow> AgentError + RecoveryEventSnapshot list \<Rightarrow> health_panel \<Rightarrow> health_panel" where
  "recovery_reply ui requested_service_id generation result p =
     (if generation \<noteq> sp_recovery_generation p \<or> requested_service_id \<noteq> sp_service_id p then p
      else (let p = p\<lparr> sp_recovery_in_flight := False \<rparr> in
            case result of
              Inl error \<Rightarrow> health_SetStatus (''Recovery events unavailable: '' @ er_message error) p
            | Inr events \<Rightarrow> ApplyRecoveryEvents ui events p))"

definition AcknowledgeSelectedAlert :: "health_panel operation" where
  "AcknowledgeSelectedAlert p =
     (if sp_ack_in_flight p then (p, [])
      else (let alert_id = SelectedAlertId p in
            if alert_id = [] then (p, [])
            else (UpdateAcknowledgeButton (p\<lparr> sp_ack_in_flight := True \<rparr>), [RequestAck alert_id])))"

text \<open>The callback of an acknowledgement checks neither the service nor a generation.\<close>

definition ack_reply :: "AgentError + AlertSnapshot \<Rightarrow> health_panel operation" where
  "ack_reply result p =
     (let p = p\<lparr> sp_ack_in_flight := False \<rparr> in
      case result of
        Inl error \<Rightarrow> (UpdateAcknowledgeButton (health_SetStatus (''Acknowledge failed: '' @ er_message error) p), [])
      | Inr alert \<Rightarrow>
          perform [quietly (health_SetStatus (''Alert acknowledged: '' @ an_id alert)), RefreshAlerts,
            quietly UpdateAcknowledgeButton] p)"

text \<open>The signals of the check box and of the table.\<close>

definition toggle_resolved :: "health_panel operation" where
  "toggle_resolved p = RefreshAlerts (p\<lparr> sp_include_resolved := \<not> sp_include_resolved p \<rparr>)"

definition select_alert :: "nat option \<Rightarrow> health_panel \<Rightarrow> health_panel" where
  "select_alert row p = UpdateAcknowledgeButton (p\<lparr> sp_selected_row := row \<rparr>)"

definition new_health_panel :: health_panel where
  "new_health_panel = health_Clear
     \<lparr> sp_service_id = [], sp_status = ''-'', sp_health = no_health, sp_include_resolved = False,
       sp_acknowledge_enabled = True, sp_alerts = [], sp_selected_row = None, sp_recovery_events = [],
       sp_health_in_flight = False, sp_alerts_in_flight = False, sp_recovery_in_flight = False,
       sp_ack_in_flight = False, sp_health_generation = 0, sp_alerts_generation = 0, sp_recovery_generation = 0 \<rparr>"

section \<open>The request protocol\<close>

text \<open>
  A slot is \<open>backed\<close> when its flag, which keeps new requests from being sent, belongs to a request
  under way whose reply will be accepted, and so will clear the flag.
\<close>

definition backed ::
  "('w \<Rightarrow> bool) \<Rightarrow> ('w \<Rightarrow> bool) \<Rightarrow> ('w \<Rightarrow> desktop_request \<Rightarrow> bool) \<Rightarrow> desktop_request list \<Rightarrow> 'w \<Rightarrow> bool" where
  "backed flag selected accepts pending w \<longleftrightarrow> (flag w \<and> selected w \<longrightarrow> list_ex (accepts w) pending)"

lemma not_flag_backed: "\<not> flag w \<Longrightarrow> backed flag selected accepts pending w"
  by (simp add: backed_def)

lemma not_selected_backed: "\<not> selected w \<Longrightarrow> backed flag selected accepts pending w"
  by (simp add: backed_def)

lemma backed_cong:
  assumes "backed flag selected accepts pending w" and "flag v = flag w" "selected v = selected w" "accepts v = accepts w"
  shows "backed flag selected accepts (pending @ sent) v"
  using assms by (simp add: backed_def)

text \<open>The reply of a request that is not accepted leaves the request that backs the flag.\<close>

lemma backed_other:
  assumes "backed flag selected accepts pending w" and "\<not> accepts w rq" and "set pending \<subseteq> insert rq (set rest)"
  shows "backed flag selected accepts rest w"
  using assms by (auto simp: backed_def list_ex_iff)

locale request_slot =
  fixes flag :: "'w \<Rightarrow> bool" and selected :: "'w \<Rightarrow> bool" and accepts :: "'w \<Rightarrow> desktop_request \<Rightarrow> bool"
    and refresh :: "'w operation"
  assumes skips: "\<not> selected w \<or> flag w \<Longrightarrow> refresh w = (w, [])"
    and sends: "selected w \<Longrightarrow> \<not> flag w \<Longrightarrow>
      \<exists>v rq. refresh w = (v, [rq]) \<and> flag v \<and> selected v \<and> accepts v rq"
begin

lemma refresh_backed:
  assumes "backed flag selected accepts pending w"
  shows "backed flag selected accepts (pending @ snd (refresh w)) (fst (refresh w))"
  using assms skips [of w] sends [of w] by (cases "selected w \<and> \<not> flag w") (auto simp: backed_def)

lemma refresh_awaits:
  assumes "backed flag selected accepts pending w" and "selected w"
  shows "flag (fst (refresh w)) \<and> selected (fst (refresh w))
     \<and> list_ex (accepts (fst (refresh w))) (pending @ snd (refresh w))"
  using assms skips [of w] sends [of w] by (cases "flag w") (auto simp: backed_def)

end

text \<open>The slots of the panels.\<close>

definition history_accepts :: "history_panel \<Rightarrow> desktop_request \<Rightarrow> bool" where
  "history_accepts p = (\<lambda>rq. case rq of RequestHistory s g \<Rightarrow> g = hp_request_generation p \<and> s = hp_service_id p | _ \<Rightarrow> False)"

definition health_accepts :: "health_panel \<Rightarrow> desktop_request \<Rightarrow> bool" where
  "health_accepts p = (\<lambda>rq. case rq of RequestHealth s g \<Rightarrow> g = sp_health_generation p \<and> s = sp_service_id p | _ \<Rightarrow> False)"

definition alerts_accepts :: "health_panel \<Rightarrow> desktop_request \<Rightarrow> bool" where
  "alerts_accepts p = (\<lambda>rq. case rq of RequestAlerts s b g \<Rightarrow> g = sp_alerts_generation p \<and> s = sp_service_id p | _ \<Rightarrow> False)"

definition recovery_accepts :: "health_panel \<Rightarrow> desktop_request \<Rightarrow> bool" where
  "recovery_accepts p = (\<lambda>rq. case rq of RequestRecovery s g \<Rightarrow> g = sp_recovery_generation p \<and> s = sp_service_id p | _ \<Rightarrow> False)"

lemmas accepts_defs = history_accepts_def health_accepts_def alerts_accepts_def recovery_accepts_def

interpretation history_slot: request_slot hp_request_in_flight "\<lambda>p. hp_service_id p \<noteq> []" history_accepts history_Refresh
  by unfold_locales (auto simp: history_Refresh_def accepts_defs Let_def)

interpretation health_slot: request_slot sp_health_in_flight "\<lambda>p. sp_service_id p \<noteq> []" health_accepts RefreshHealth
  by unfold_locales (auto simp: RefreshHealth_def accepts_defs Let_def)

interpretation alerts_slot: request_slot sp_alerts_in_flight "\<lambda>p. sp_service_id p \<noteq> []" alerts_accepts RefreshAlerts
  by unfold_locales (auto simp: RefreshAlerts_def accepts_defs Let_def)

interpretation recovery_slot: request_slot sp_recovery_in_flight "\<lambda>p. sp_service_id p \<noteq> []" recovery_accepts RefreshRecoveryEvents
  by unfold_locales (auto simp: RefreshRecoveryEvents_def accepts_defs Let_def)

section \<open>What operations keep\<close>

text \<open>A relation between the requests under way and the state that an operation keeps.\<close>

definition sustains :: "(desktop_request list \<Rightarrow> 'w \<Rightarrow> bool) \<Rightarrow> 'w operation \<Rightarrow> bool" where
  "sustains P f \<longleftrightarrow> (\<forall>pending w. P pending w \<longrightarrow> P (pending @ snd (f w)) (fst (f w)))"

lemma sustainsD: "sustains P f \<Longrightarrow> P pending w \<Longrightarrow> P (pending @ snd (f w)) (fst (f w))"
  by (simp add: sustains_def)

lemma sustains_perform: "list_all (sustains P) fs \<Longrightarrow> sustains P (perform fs)"
proof (induction fs)
  case (Cons f fs)
  then have f: "sustains P f" and fs: "sustains P (perform fs)" by simp_all
  show ?case
    unfolding sustains_def
  proof (intro allI impI)
    fix pending w
    assume "P pending w"
    from sustainsD [OF fs sustainsD [OF f this]]
    show "P (pending @ snd (perform (f # fs) w)) (fst (perform (f # fs) w))"
      by (simp add: case_prod_beta)
  qed
qed (simp add: sustains_def)

lemma sustains_quietly: "(\<And>pending w. P pending w \<Longrightarrow> P pending (f w)) \<Longrightarrow> sustains P (quietly f)"
  by (simp add: sustains_def quietly_def)

definition history_backed :: "desktop_request list \<Rightarrow> history_panel \<Rightarrow> bool" where
  "history_backed = backed hp_request_in_flight (\<lambda>p. hp_service_id p \<noteq> []) history_accepts"

lemma history_fields [simp]:
  "hp_service_id (on_charts f p) = hp_service_id p" "hp_request_in_flight (on_charts f p) = hp_request_in_flight p"
  "hp_request_generation (on_charts f p) = hp_request_generation p"
  "hp_service_id (history_SetStatus s p) = hp_service_id p"
  "hp_request_in_flight (history_SetStatus s p) = hp_request_in_flight p"
  "hp_request_generation (history_SetStatus s p) = hp_request_generation p"
  "hp_service_id (history_forget now sid p) = sid" "\<not> hp_request_in_flight (history_forget now sid p)"
  "hp_service_id (ApplyHistory ui now h p) = hp_service_id p"
  "hp_request_in_flight (ApplyHistory ui now h p) = hp_request_in_flight p"
  "hp_request_generation (ApplyHistory ui now h p) = hp_request_generation p"
  "hp_service_id (history_Clear now p) = []" "\<not> hp_request_in_flight (history_Clear now p)"
  "hp_service_id (fst (history_Refresh p)) = hp_service_id p"
  "hp_service_id (fst (history_SetServiceId now sid p)) = sid"
  "hp_service_id (history_reply ui now sid g r p) = hp_service_id p"
proof -
  show refresh: "hp_service_id (fst (history_Refresh p)) = hp_service_id p" for p
    by (simp add: history_Refresh_def Let_def)
  show "hp_service_id (history_reply ui now sid g r p) = hp_service_id p"
    by (auto simp: history_reply_def ApplyHistory_def on_charts_def history_SetStatus_def Let_def split: sum.split)
  show "hp_service_id (fst (history_SetServiceId now sid p)) = sid"
    by (simp add: history_SetServiceId_def refresh history_SetStatus_def history_forget_def on_charts_def)
qed (simp_all add: on_charts_def history_SetStatus_def history_forget_def ApplyHistory_def history_Clear_def)

lemma history_Refresh_sustains: "sustains history_backed history_Refresh"
  unfolding sustains_def history_backed_def using history_slot.refresh_backed by blast

lemma history_idle_backed: "\<not> hp_request_in_flight p \<Longrightarrow> history_backed pending p"
  by (simp add: history_backed_def not_flag_backed)

lemma history_SetServiceId_sustains: "sustains history_backed (history_SetServiceId now sid)"
  unfolding sustains_def
proof (intro allI impI)
  fix pending p
  assume p: "history_backed pending p"
  show "history_backed (pending @ snd (history_SetServiceId now sid p)) (fst (history_SetServiceId now sid p))"
  proof (cases "sid = hp_service_id p")
    case True
    with p show ?thesis by (simp add: history_SetServiceId_def)
  next
    case False
    then show ?thesis
      unfolding history_SetServiceId_def
      by (simp add: sustainsD [OF history_Refresh_sustains] history_idle_backed)
  qed
qed

lemma history_reply_backed:
  assumes "history_backed pending p" and "set pending \<subseteq> insert (RequestHistory sid g) (set rest)"
  shows "history_backed rest (history_reply ui now sid g r p)"
proof (cases "history_accepts p (RequestHistory sid g)")
  case False
  then have "history_reply ui now sid g r p = p"
    by (auto simp: history_reply_def accepts_defs)
  with False assms show ?thesis
    unfolding history_backed_def by (auto intro: backed_other)
next
  case True
  then have "\<not> hp_request_in_flight (history_reply ui now sid g r p)"
    by (auto simp: history_reply_def accepts_defs Let_def split: sum.split)
  then show ?thesis by (rule history_idle_backed)
qed

text \<open>The health panel: three slots, and a flag for the acknowledgement.\<close>

definition is_ack :: "desktop_request \<Rightarrow> bool" where
  "is_ack rq = (case rq of RequestAck _ \<Rightarrow> True | _ \<Rightarrow> False)"

definition health_backed :: "desktop_request list \<Rightarrow> health_panel \<Rightarrow> bool" where
  "health_backed pending p \<longleftrightarrow>
     backed sp_health_in_flight (\<lambda>p. sp_service_id p \<noteq> []) health_accepts pending p
     \<and> backed sp_alerts_in_flight (\<lambda>p. sp_service_id p \<noteq> []) alerts_accepts pending p
     \<and> backed sp_recovery_in_flight (\<lambda>p. sp_service_id p \<noteq> []) recovery_accepts pending p
     \<and> (sp_ack_in_flight p \<longrightarrow> list_ex is_ack pending)"

lemmas health_quiet_defs = health_SetStatus_def UpdateAcknowledgeButton_def fill_alerts_def health_forget_def
  health_Clear_def ApplyHealth_def ApplyAlerts_def ApplyRecoveryEvents_def select_alert_def

text \<open>The fields of a slot, for all operations that leave them.\<close>

lemma health_backed_same:
  assumes "health_backed pending p"
    and "sp_service_id q = sp_service_id p" "sp_ack_in_flight q = sp_ack_in_flight p"
    "sp_health_in_flight q = sp_health_in_flight p" "sp_health_generation q = sp_health_generation p"
    "sp_alerts_in_flight q = sp_alerts_in_flight p" "sp_alerts_generation q = sp_alerts_generation p"
    "sp_recovery_in_flight q = sp_recovery_in_flight p" "sp_recovery_generation q = sp_recovery_generation p"
  shows "health_backed pending q"
proof -
  have "health_accepts q = health_accepts p" "alerts_accepts q = alerts_accepts p" "recovery_accepts q = recovery_accepts p"
    by (simp_all only: accepts_defs assms)
  with assms show ?thesis by (simp add: health_backed_def backed_def)
qed

lemma health_refreshes_sustain:
  "sustains health_backed RefreshHealth" "sustains health_backed RefreshAlerts"
  "sustains health_backed RefreshRecoveryEvents"
  by (auto simp: sustains_def health_backed_def backed_def accepts_defs RefreshHealth_def RefreshAlerts_def
      RefreshRecoveryEvents_def Let_def)

lemma health_Refresh_sustains: "sustains health_backed health_Refresh"
  unfolding health_Refresh_def by (intro sustains_perform) (simp add: health_refreshes_sustain)

lemma health_idle_backed:
  "\<not> sp_health_in_flight p \<Longrightarrow> \<not> sp_alerts_in_flight p \<Longrightarrow> \<not> sp_recovery_in_flight p \<Longrightarrow> \<not> sp_ack_in_flight p \<Longrightarrow>
     health_backed pending p"
  by (simp add: health_backed_def not_flag_backed)

lemma health_Clear_backed: "health_backed pending (health_Clear p)"
  by (rule health_idle_backed) (simp_all add: health_quiet_defs)

lemma health_SetServiceId_sustains: "sustains health_backed (health_SetServiceId sid)"
  unfolding sustains_def
proof (intro allI impI)
  fix pending p
  assume p: "health_backed pending p"
  show "health_backed (pending @ snd (health_SetServiceId sid p)) (fst (health_SetServiceId sid p))"
  proof (cases "sid = sp_service_id p")
    case True
    with p show ?thesis by (simp add: health_SetServiceId_def)
  next
    case False
    have "health_backed pending (UpdateAcknowledgeButton (health_SetStatus t (health_forget sid p)))" for t
      by (rule health_idle_backed) (simp_all add: health_quiet_defs)
    with False show ?thesis
      unfolding health_SetServiceId_def by (simp add: sustainsD [OF health_Refresh_sustains])
  qed
qed

lemma toggle_resolved_sustains: "sustains health_backed toggle_resolved"
  unfolding sustains_def toggle_resolved_def
  by (auto intro!: sustainsD [OF health_refreshes_sustain(2)] elim: health_backed_same)

lemma select_alert_backed: "health_backed pending p \<Longrightarrow> health_backed pending (select_alert row p)"
  by (erule health_backed_same) (simp_all add: health_quiet_defs)

lemma acknowledge_sustains: "sustains health_backed AcknowledgeSelectedAlert"
  by (auto simp: sustains_def health_backed_def backed_def accepts_defs AcknowledgeSelectedAlert_def
      UpdateAcknowledgeButton_def is_ack_def Let_def)

text \<open>Replies: the request has left the list.\<close>

lemma list_ex_rest: "list_ex P pending \<Longrightarrow> set pending \<subseteq> insert rq (set rest) \<Longrightarrow> \<not> P rq \<Longrightarrow> list_ex P rest"
  by (auto simp: list_ex_iff)

lemma health_reply_backed:
  assumes "health_backed pending p" and "set pending \<subseteq> insert (RequestHealth sid g) (set rest)"
  shows "health_backed rest (health_reply ui sid g r p)"
  using assms list_ex_rest [OF _ assms(2)]
  by (auto simp: health_backed_def backed_def accepts_defs health_reply_def ApplyHealth_def health_SetStatus_def
      is_ack_def Let_def split: sum.split)

lemma alerts_reply_backed:
  assumes "health_backed pending p" and "set pending \<subseteq> insert (RequestAlerts sid b g) (set rest)"
  shows "health_backed rest (alerts_reply ui sid g r p)"
  using assms list_ex_rest [OF _ assms(2)]
  by (auto simp: health_backed_def backed_def accepts_defs alerts_reply_def ApplyAlerts_def health_SetStatus_def
      UpdateAcknowledgeButton_def fill_alerts_def is_ack_def Let_def split: sum.split)

lemma recovery_reply_backed:
  assumes "health_backed pending p" and "set pending \<subseteq> insert (RequestRecovery sid g) (set rest)"
  shows "health_backed rest (recovery_reply ui sid g r p)"
  using assms list_ex_rest [OF _ assms(2)]
  by (auto simp: health_backed_def backed_def accepts_defs recovery_reply_def ApplyRecoveryEvents_def
      health_SetStatus_def is_ack_def Let_def split: sum.split)

lemma ack_reply_backed:
  assumes "health_backed pending p" and "set pending \<subseteq> insert (RequestAck a) (set rest)"
  shows "health_backed (rest @ snd (ack_reply r p)) (fst (ack_reply r p))"
proof -
  let ?q = "p\<lparr> sp_ack_in_flight := False \<rparr>"
  have q: "health_backed rest ?q"
    using assms list_ex_rest [OF _ assms(2)] by (auto simp: health_backed_def backed_def accepts_defs)
  show ?thesis
  proof (cases r)
    case (Inl e)
    show ?thesis
      by (simp add: ack_reply_def Inl) (rule health_backed_same [OF q], simp_all add: health_quiet_defs)
  next
    case (Inr alert)
    have "sustains health_backed (quietly (health_SetStatus t))" "sustains health_backed (quietly UpdateAcknowledgeButton)" for t
      by (rule sustains_quietly, erule health_backed_same, simp_all add: health_quiet_defs)+
    then have "sustains health_backed (perform [quietly (health_SetStatus t), RefreshAlerts, quietly UpdateAcknowledgeButton])" for t
      by (intro sustains_perform) (simp add: health_refreshes_sustain)
    from sustainsD [OF this q] show ?thesis by (simp add: ack_reply_def Inr)
  qed
qed

end
