(* ===== verification/MainWindow.thy ===== *)
theory MainWindow
  imports Panels
begin

text \<open>
  The desktop's window (\<open>src/apps/desktop/src/widgets/main_window.cpp\<close>) and program
  (\<open>src/apps/desktop/src/main.cpp\<close>): the selected service, the requests about it, and what the labels and
  buttons show. The window is driven by events - the timer, clicks, replies in any order; a run of the
  desktop interleaves them. Laying out the widgets is left out; their texts and whether they are
  enabled are fields.
\<close>

section \<open>The window\<close>

text \<open>A row of the list of services: its text, the id it carries, its tool tip.\<close>

record main_window =
  mw_list :: "(string \<times> string \<times> string) list"
  mw_list_row :: "nat option"
  mw_list_enabled :: bool
  mw_details :: details
  mw_metrics :: metric_labels
  mw_log :: string
  mw_tail :: int
  mw_tail_enabled :: bool
  mw_start_enabled :: bool
  mw_stop_enabled :: bool
  mw_restart_enabled :: bool
  mw_refresh_logs_enabled :: bool
  mw_status_bar :: string
  mw_warnings :: "string list"
  mw_history :: history_panel
  mw_health :: health_panel
  mw_has_snapshot :: bool
  mw_action_in_flight :: bool
  mw_services_in_flight :: bool
  mw_status_in_flight :: bool
  mw_logs_in_flight :: bool
  mw_metrics_in_flight :: bool
  mw_current_service_id :: string
  mw_current_state :: string
  mw_services_generation :: u64
  mw_status_generation :: u64
  mw_logs_generation :: u64
  mw_metrics_generation :: u64

definition on_history :: "history_panel operation \<Rightarrow> main_window operation" where
  "on_history f w = (let (p, sent) = f (mw_history w) in (w\<lparr> mw_history := p \<rparr>, sent))"

definition on_health :: "health_panel operation \<Rightarrow> main_window operation" where
  "on_health f w = (let (p, sent) = f (mw_health w) in (w\<lparr> mw_health := p \<rparr>, sent))"

definition showMessage :: "string \<Rightarrow> main_window \<Rightarrow> main_window" where
  "showMessage text w = w\<lparr> mw_status_bar := text \<rparr>"

definition UpdateActionButtons :: "main_window \<Rightarrow> main_window" where
  "UpdateActionButtons w =
     (let running = (mw_current_state w = ''running'');
          transitioning = (mw_current_state w = ''starting'' \<or> mw_current_state w = ''stopping'');
          can_control = (mw_has_snapshot w \<and> mw_current_service_id w \<noteq> [] \<and> \<not> mw_action_in_flight w \<and> \<not> transitioning)
      in w\<lparr> mw_start_enabled := can_control \<and> \<not> running, mw_stop_enabled := can_control \<and> running,
            mw_restart_enabled := can_control \<and> running,
            mw_refresh_logs_enabled := mw_current_service_id w \<noteq> [] \<and> \<not> mw_logs_in_flight w,
            mw_tail_enabled := mw_current_service_id w \<noteq> [], mw_list_enabled := \<not> mw_action_in_flight w \<rparr>)"

definition ShowBackgroundError :: "AgentError \<Rightarrow> main_window \<Rightarrow> main_window" where
  "ShowBackgroundError error = showMessage (''Agent unavailable: ''
     @ (if er_message error = [] then ''Unknown Agent communication error'' else er_message error))"

definition ApplySnapshot :: "ui \<Rightarrow> ServiceSnapshot \<Rightarrow> main_window \<Rightarrow> main_window" where
  "ApplySnapshot ui snapshot w = UpdateActionButtons
     (w\<lparr> mw_has_snapshot := True, mw_current_state := ui_normal ui (sn_state snapshot),
         mw_details := details_of ui snapshot \<rparr>)"

definition ApplyMetrics :: "ui \<Rightarrow> ServiceMetricsSnapshot \<Rightarrow> main_window \<Rightarrow> main_window" where
  "ApplyMetrics ui metrics w = w\<lparr> mw_metrics := labels_of ui metrics \<rparr>"

definition ClearMetrics :: "main_window \<Rightarrow> main_window" where
  "ClearMetrics w = w\<lparr> mw_metrics := no_metrics \<rparr>"

definition ShowMetricsNotReady :: "main_window \<Rightarrow> main_window" where
  "ShowMetricsNotReady w = w\<lparr> mw_metrics := metrics_not_ready \<rparr>"

definition ClearCurrentServiceDetails :: "millis \<Rightarrow> main_window \<Rightarrow> main_window" where
  "ClearCurrentServiceDetails now w = UpdateActionButtons
     ((ClearMetrics (w\<lparr> mw_has_snapshot := False, mw_current_state := ''unknown'', mw_details := no_details,
        mw_log := [] \<rparr>))
      \<lparr> mw_history := history_Clear now (mw_history w), mw_health := health_Clear (mw_health w) \<rparr>)"

section \<open>Requests of the window\<close>

definition RefreshServices :: "main_window operation" where
  "RefreshServices w =
     (if mw_services_in_flight w then (w, [])
      else (let generation = mw_services_generation w + 1 in
            (w\<lparr> mw_services_in_flight := True, mw_services_generation := generation \<rparr>,
             [RequestServices generation])))"

definition RefreshStatus :: "main_window operation" where
  "RefreshStatus w =
     (if mw_current_service_id w = [] \<or> mw_action_in_flight w \<or> mw_status_in_flight w then (w, [])
      else (let generation = mw_status_generation w + 1 in
            (w\<lparr> mw_status_in_flight := True, mw_status_generation := generation \<rparr>,
             [RequestState (mw_current_service_id w) generation])))"

definition RefreshLogs :: "main_window operation" where
  "RefreshLogs w =
     (if mw_current_service_id w = [] \<or> mw_logs_in_flight w then (w, [])
      else (let generation = mw_logs_generation w + 1 in
            (w\<lparr> mw_logs_in_flight := True, mw_logs_generation := generation \<rparr>,
             [RequestLogs (mw_current_service_id w) (mw_tail w) generation])))"

definition RefreshMetrics :: "main_window operation" where
  "RefreshMetrics w =
     (if mw_current_service_id w = [] \<or> mw_metrics_in_flight w then (w, [])
      else (let generation = mw_metrics_generation w + 1 in
            (w\<lparr> mw_metrics_in_flight := True, mw_metrics_generation := generation \<rparr>,
             [RequestMetrics (mw_current_service_id w) generation])))"

definition RefreshAll :: "main_window operation" where
  "RefreshAll = perform [RefreshServices, RefreshStatus, RefreshLogs, RefreshMetrics,
     on_history history_Refresh, on_health health_Refresh]"

text \<open>The generations move on and the flags go: whatever is under way is stale.\<close>

definition forget_requests :: "main_window \<Rightarrow> main_window" where
  "forget_requests w = w\<lparr> mw_status_generation := mw_status_generation w + 1,
     mw_logs_generation := mw_logs_generation w + 1, mw_metrics_generation := mw_metrics_generation w + 1,
     mw_status_in_flight := False, mw_logs_in_flight := False, mw_metrics_in_flight := False \<rparr>"

definition SelectService :: "millis \<Rightarrow> string \<Rightarrow> main_window operation" where
  "SelectService now service_id w =
     (if service_id = [] \<or> service_id = mw_current_service_id w then (w, [])
      else perform
        [quietly (\<lambda>w. forget_requests (w\<lparr> mw_current_service_id := service_id \<rparr>)),
         quietly (ClearCurrentServiceDetails now),
         on_history (history_SetServiceId now service_id), on_health (health_SetServiceId service_id),
         quietly (showMessage (''Selected service: '' @ service_id)),
         RefreshStatus, RefreshLogs, RefreshMetrics] w)"

definition deselect :: "millis \<Rightarrow> main_window \<Rightarrow> main_window" where
  "deselect now w = ClearCurrentServiceDetails now (w\<lparr> mw_current_service_id := [] \<rparr>)"

text \<open>
  The row that stays or becomes selected: the last one with the selected id, else the first. The
  service the code then looks up by the id of the first row is the first service.
\<close>

definition row_of :: "string \<Rightarrow> ServiceSnapshot list \<Rightarrow> nat option" where
  "row_of service_id services =
     (case filter (\<lambda>i. sn_id (services ! i) = service_id) [0..<length services] of
        [] \<Rightarrow> if services = [] then None else Some 0
      | rows \<Rightarrow> Some (last rows))"

definition list_item :: "ServiceSnapshot \<Rightarrow> string \<times> string \<times> string" where
  "list_item service = (ServiceListText service, sn_id service,
     sn_display_name service @ [newline] @ ''ID: '' @ sn_id service @ [newline] @ ''State: '' @ sn_state service)"

definition ApplyServiceList :: "ui \<Rightarrow> millis \<Rightarrow> ServiceSnapshot list \<Rightarrow> main_window operation" where
  "ApplyServiceList ui now services w =
     (let row = row_of (mw_current_service_id w) services;
          w = w\<lparr> mw_list := map list_item services, mw_list_row := row \<rparr> in
      case row of
        None \<Rightarrow> (showMessage ''Agent returned no service definitions'' (deselect now w), [])
      | Some i \<Rightarrow>
          if sn_id (services ! i) \<noteq> mw_current_service_id w then SelectService now (sn_id (services ! i)) w
          else (ApplySnapshot ui (services ! i) w, []))"

definition ExecuteAction :: "string \<Rightarrow> StatusOperation \<Rightarrow> main_window operation" where
  "ExecuteAction action_name operation w =
     (if mw_action_in_flight w \<or> mw_current_service_id w = [] then (w, [])
      else (showMessage (''Sending '' @ action_name @ '' request for '' @ mw_current_service_id w @ ''...'')
              (UpdateActionButtons (forget_requests (w\<lparr> mw_action_in_flight := True \<rparr>))),
            [RequestAction operation action_name (mw_current_service_id w)]))"

section \<open>Callbacks\<close>

definition services_reply ::
  "ui \<Rightarrow> millis \<Rightarrow> u64 \<Rightarrow> AgentError + ServiceSnapshot list \<Rightarrow> main_window operation" where
  "services_reply ui now generation result w =
     (if generation \<noteq> mw_services_generation w then (w, [])
      else (let w = w\<lparr> mw_services_in_flight := False \<rparr> in
            case result of
              Inl error \<Rightarrow> (ShowBackgroundError error w, [])
            | Inr services \<Rightarrow> ApplyServiceList ui now services w))"

definition status_reply ::
  "ui \<Rightarrow> string \<Rightarrow> u64 \<Rightarrow> AgentError + ServiceSnapshot \<Rightarrow> main_window \<Rightarrow> main_window" where
  "status_reply ui service_id generation result w =
     (if generation \<noteq> mw_status_generation w \<or> service_id \<noteq> mw_current_service_id w then w
      else (let w = w\<lparr> mw_status_in_flight := False \<rparr> in
            case result of
              Inl error \<Rightarrow> ShowBackgroundError error w
            | Inr snapshot \<Rightarrow> ApplySnapshot ui snapshot w))"

fun join_lines :: "string list \<Rightarrow> string" where
  "join_lines [] = []"
| "join_lines [l] = l"
| "join_lines (l # ls) = l @ newline # join_lines ls"

definition logs_reply ::
  "string \<Rightarrow> u64 \<Rightarrow> AgentError + string list \<Rightarrow> main_window \<Rightarrow> main_window" where
  "logs_reply service_id generation result w =
     (if generation \<noteq> mw_logs_generation w \<or> service_id \<noteq> mw_current_service_id w then w
      else (let w = w\<lparr> mw_logs_in_flight := False \<rparr> in
            case result of
              Inl error \<Rightarrow> ShowBackgroundError error w
            | Inr ls \<Rightarrow> w\<lparr> mw_log := join_lines ls \<rparr>))"

definition metrics_reply ::
  "ui \<Rightarrow> string \<Rightarrow> u64 \<Rightarrow> AgentError + ServiceMetricsSnapshot \<Rightarrow> main_window \<Rightarrow> main_window" where
  "metrics_reply ui service_id generation result w =
     (if generation \<noteq> mw_metrics_generation w \<or> service_id \<noteq> mw_current_service_id w then w
      else (let w = w\<lparr> mw_metrics_in_flight := False \<rparr> in
            case result of
              Inl error \<Rightarrow>
                if er_code error = ''metrics_not_ready'' then
                  showMessage ''Metrics collector is waiting for its first sample'' (ShowMetricsNotReady w)
                else ShowBackgroundError error w
            | Inr metrics \<Rightarrow> ApplyMetrics ui metrics w))"

text \<open>The message box runs its own event loop at the end of the callback: later events come after it.\<close>

definition action_reply ::
  "ui \<Rightarrow> string \<Rightarrow> string \<Rightarrow> AgentError + ServiceSnapshot \<Rightarrow> main_window operation" where
  "action_reply ui action_name service_id result w =
     (let w = w\<lparr> mw_action_in_flight := False \<rparr> in
      case result of
        Inl error \<Rightarrow>
          ((UpdateActionButtons w)\<lparr> mw_warnings := mw_warnings w
              @ [action_name @ '' failed for '' @ service_id @ ''.'' @ [newline, newline] @ er_message error] \<rparr>, [])
      | Inr snapshot \<Rightarrow>
          perform
            ((if service_id = mw_current_service_id w
              then [quietly (ApplySnapshot ui snapshot), RefreshLogs, RefreshMetrics,
                    on_history history_Refresh, on_health health_Refresh]
              else [])
             @ [RefreshServices, quietly (showMessage (action_name @ '' completed for '' @ service_id)),
                quietly UpdateActionButtons]) w)"

section \<open>The program\<close>

text \<open>The window as its members and \<open>BuildUi\<close> leave it; Qt creates widgets enabled.\<close>

definition BuildUi :: "millis \<Rightarrow> main_window" where
  "BuildUi now = ClearCurrentServiceDetails now
     \<lparr> mw_list = [], mw_list_row = None, mw_list_enabled = True, mw_details = no_details, mw_metrics = no_metrics,
       mw_log = [], mw_tail = 100, mw_tail_enabled = True, mw_start_enabled = True, mw_stop_enabled = True,
       mw_restart_enabled = True, mw_refresh_logs_enabled = True, mw_status_bar = [], mw_warnings = [],
       mw_history = new_history_panel now, mw_health = new_health_panel, mw_has_snapshot = False,
       mw_action_in_flight = False, mw_services_in_flight = False, mw_status_in_flight = False,
       mw_logs_in_flight = False, mw_metrics_in_flight = False, mw_current_service_id = [],
       mw_current_state = ''unknown'', mw_services_generation = 0, mw_status_generation = 0,
       mw_logs_generation = 0, mw_metrics_generation = 0 \<rparr>"

definition new_main_window :: "millis \<Rightarrow> string \<Rightarrow> main_window \<times> desktop_request list" where
  "new_main_window now agent_url = RefreshAll (showMessage (''Agent: '' @ agent_url) (BuildUi now))"

text \<open>
  \<open>main\<close>: what Qt's parser says of the URL - whether it is valid, its scheme, its host - decides
  whether there is a window; otherwise the exit code is 1.
\<close>

definition desktop_main ::
  "millis \<Rightarrow> bool \<times> string \<times> string \<Rightarrow> string \<Rightarrow> int + main_window \<times> desktop_request list" where
  "desktop_main now url agent_url =
     (case url of (valid, scheme, host) \<Rightarrow>
        if \<not> valid \<or> scheme \<noteq> ''http'' \<or> host = [] then Inl 1 else Inr (new_main_window now agent_url))"

section \<open>Events\<close>

text \<open>
  What each request sends, and what is done with its reply: the client's operation on the reply of the
  network, then the callback.
\<close>

fun client_action :: "StatusOperation \<Rightarrow> qt_api \<Rightarrow> string \<Rightarrow> ServiceSnapshot client_op" where
  "client_action OpStart = StartService"
| "client_action OpStop = StopService"
| "client_action OpRestart = RestartService"

fun request_sent :: "qt_api \<Rightarrow> desktop_request \<Rightarrow> verb \<times> client_url" where
  "request_sent qt (RequestServices g) = fst (GetServices qt)"
| "request_sent qt (RequestState s g) = fst (client_GetStatus qt s)"
| "request_sent qt (RequestLogs s n g) = fst (GetLogs qt s n)"
| "request_sent qt (RequestMetrics s g) = fst (GetMetrics qt s)"
| "request_sent qt (RequestHistory s g) = fst (GetMetricsHistory qt s kHistoryLimit)"
| "request_sent qt (RequestHealth s g) = fst (GetHealth qt s)"
| "request_sent qt (RequestAlerts s b g) = fst (GetServiceAlerts qt s b)"
| "request_sent qt (RequestRecovery s g) = fst (GetServiceRecoveryEvents qt s kRecoveryEventLimit)"
| "request_sent qt (RequestAck a) = fst (client_AcknowledgeAlert qt a)"
| "request_sent qt (RequestAction op n s) = fst (client_action op qt s)"

fun handle_reply :: "qt_api \<Rightarrow> ui \<Rightarrow> millis \<Rightarrow> desktop_request \<Rightarrow> reply \<Rightarrow> main_window operation" where
  "handle_reply qt ui now (RequestServices g) raw = services_reply ui now g (snd (GetServices qt) raw)"
| "handle_reply qt ui now (RequestState s g) raw = quietly (status_reply ui s g (snd (client_GetStatus qt s) raw))"
| "handle_reply qt ui now (RequestLogs s n g) raw = quietly (logs_reply s g (snd (GetLogs qt s n) raw))"
| "handle_reply qt ui now (RequestMetrics s g) raw = quietly (metrics_reply ui s g (snd (GetMetrics qt s) raw))"
| "handle_reply qt ui now (RequestHistory s g) raw =
     on_history (quietly (history_reply ui now s g (snd (GetMetricsHistory qt s kHistoryLimit) raw)))"
| "handle_reply qt ui now (RequestHealth s g) raw =
     on_health (quietly (health_reply ui s g (snd (GetHealth qt s) raw)))"
| "handle_reply qt ui now (RequestAlerts s b g) raw =
     on_health (quietly (alerts_reply ui s g (snd (GetServiceAlerts qt s b) raw)))"
| "handle_reply qt ui now (RequestRecovery s g) raw =
     on_health (quietly (recovery_reply ui s g (snd (GetServiceRecoveryEvents qt s kRecoveryEventLimit) raw)))"
| "handle_reply qt ui now (RequestAck a) raw = on_health (ack_reply (snd (client_AcknowledgeAlert qt a) raw))"
| "handle_reply qt ui now (RequestAction op n s) raw = action_reply ui n s (snd (client_action op qt s) raw)"

text \<open>The replies given so far are kept beside the window, for the statements below.\<close>

record desktop =
  dk_window :: main_window
  dk_pending :: "desktop_request list"
  dk_answered :: "(desktop_request \<times> reply) list"

datatype desktop_event =
    TimerTick
  | ServiceSelected "nat option"
  | ActionClicked StatusOperation
  | RefreshLogsClicked
  | TailChanged int
  | RefreshHealthClicked
  | ResolvedToggled
  | AlertSelected "nat option"
  | AcknowledgeClicked
  | Replied nat reply

fun action_name :: "StatusOperation \<Rightarrow> string" where
  "action_name OpStart = ''start''"
| "action_name OpStop = ''stop''"
| "action_name OpRestart = ''restart''"

fun action_enabled :: "StatusOperation \<Rightarrow> main_window \<Rightarrow> bool" where
  "action_enabled OpStart w = mw_start_enabled w"
| "action_enabled OpStop w = mw_stop_enabled w"
| "action_enabled OpRestart w = mw_restart_enabled w"

text \<open>The handlers \<open>ConnectUiSignals\<close> and the panel install; a disabled widget has no events.\<close>

definition service_selected :: "millis \<Rightarrow> nat option \<Rightarrow> main_window operation" where
  "service_selected now row w =
     (case row of
        None \<Rightarrow> (deselect now (w\<lparr> mw_list_row := None \<rparr>), [])
      | Some i \<Rightarrow> SelectService now (fst (snd (mw_list w ! i))) (w\<lparr> mw_list_row := Some i \<rparr>))"

definition row_exists :: "nat option \<Rightarrow> 'a list \<Rightarrow> bool" where
  "row_exists row rows = (case row of None \<Rightarrow> True | Some i \<Rightarrow> i < length rows)"

fun user_handler :: "millis \<Rightarrow> desktop_event \<Rightarrow> main_window \<Rightarrow> main_window operation option" where
  "user_handler now TimerTick w = Some RefreshAll"
| "user_handler now (ServiceSelected row) w =
     (if mw_list_enabled w \<and> row_exists row (mw_list w) then Some (service_selected now row) else None)"
| "user_handler now (ActionClicked op) w =
     (if action_enabled op w then Some (ExecuteAction (action_name op) op) else None)"
| "user_handler now RefreshLogsClicked w = (if mw_refresh_logs_enabled w then Some RefreshLogs else None)"
| "user_handler now (TailChanged n) w =
     (if mw_tail_enabled w \<and> 10 \<le> n \<and> n \<le> 500 then Some (quietly (\<lambda>w. w\<lparr> mw_tail := n \<rparr>)) else None)"
| "user_handler now RefreshHealthClicked w = Some (on_health health_Refresh)"
| "user_handler now ResolvedToggled w = Some (on_health toggle_resolved)"
| "user_handler now (AlertSelected row) w =
     (if row_exists row (sp_alerts (mw_health w)) then Some (on_health (quietly (select_alert row))) else None)"
| "user_handler now AcknowledgeClicked w =
     (if sp_acknowledge_enabled (mw_health w) then Some (on_health AcknowledgeSelectedAlert) else None)"
| "user_handler now (Replied n raw) w = None"

definition remove_nth :: "nat \<Rightarrow> 'a list \<Rightarrow> 'a list" where
  "remove_nth n xs = take n xs @ drop (Suc n) xs"

definition desktop_step :: "qt_api \<Rightarrow> ui \<Rightarrow> millis \<Rightarrow> desktop_event \<Rightarrow> desktop \<Rightarrow> desktop option" where
  "desktop_step qt ui now ev d =
     (case ev of
        Replied n raw \<Rightarrow>
          if n < length (dk_pending d) then
            (let rq = dk_pending d ! n; (w, sent) = handle_reply qt ui now rq raw (dk_window d) in
             Some \<lparr> dk_window = w, dk_pending = remove_nth n (dk_pending d) @ sent,
                    dk_answered = dk_answered d @ [(rq, raw)] \<rparr>)
          else None
      | _ \<Rightarrow>
          (case user_handler now ev (dk_window d) of
             None \<Rightarrow> None
           | Some f \<Rightarrow>
               (let (w, sent) = f (dk_window d) in
                Some \<lparr> dk_window = w, dk_pending = dk_pending d @ sent, dk_answered = dk_answered d \<rparr>)))"

definition start_desktop :: "millis \<Rightarrow> string \<Rightarrow> desktop" where
  "start_desktop now agent_url =
     (let (w, sent) = new_main_window now agent_url in
      \<lparr> dk_window = w, dk_pending = sent, dk_answered = [] \<rparr>)"

inductive desktop_reachable :: "qt_api \<Rightarrow> ui \<Rightarrow> desktop \<Rightarrow> bool" for qt ui where
  started: "desktop_reachable qt ui (start_desktop now agent_url)"
| stepped: "desktop_reachable qt ui d \<Longrightarrow> desktop_step qt ui now ev d = Some d' \<Longrightarrow> desktop_reachable qt ui d'"

end
