(* ===== verification/DesktopInv.thy ===== *)
theory DesktopInv
  imports MainWindow
begin

text \<open>
  What holds of the desktop after any events (\<open>src/apps/desktop/src/widgets/main_window.cpp\<close>): every flag
  that holds requests back belongs to a request under way, one action at most is under way, and
  everything shown comes from an answer about the selected service. The lemmas take the operations one
  by one; the theorems are about every reachable desktop.
\<close>

section \<open>The slots of the window\<close>

definition services_accepts :: "main_window \<Rightarrow> desktop_request \<Rightarrow> bool" where
  "services_accepts w = (\<lambda>rq. case rq of RequestServices g \<Rightarrow> g = mw_services_generation w | _ \<Rightarrow> False)"

definition status_accepts :: "main_window \<Rightarrow> desktop_request \<Rightarrow> bool" where
  "status_accepts w = (\<lambda>rq. case rq of
     RequestState s g \<Rightarrow> g = mw_status_generation w \<and> s = mw_current_service_id w | _ \<Rightarrow> False)"

definition logs_accepts :: "main_window \<Rightarrow> desktop_request \<Rightarrow> bool" where
  "logs_accepts w = (\<lambda>rq. case rq of
     RequestLogs s n g \<Rightarrow> g = mw_logs_generation w \<and> s = mw_current_service_id w | _ \<Rightarrow> False)"

definition metrics_accepts :: "main_window \<Rightarrow> desktop_request \<Rightarrow> bool" where
  "metrics_accepts w = (\<lambda>rq. case rq of
     RequestMetrics s g \<Rightarrow> g = mw_metrics_generation w \<and> s = mw_current_service_id w | _ \<Rightarrow> False)"

definition is_selected :: "main_window \<Rightarrow> bool" where
  "is_selected w \<longleftrightarrow> mw_current_service_id w \<noteq> []"

definition may_ask_status :: "main_window \<Rightarrow> bool" where
  "may_ask_status w \<longleftrightarrow> mw_current_service_id w \<noteq> [] \<and> \<not> mw_action_in_flight w"

lemmas window_accepts_defs = services_accepts_def status_accepts_def logs_accepts_def metrics_accepts_def
  is_selected_def may_ask_status_def

lemmas refresh_defs = RefreshServices_def RefreshStatus_def RefreshLogs_def RefreshMetrics_def

interpretation services_slot: request_slot mw_services_in_flight "\<lambda>_. True" services_accepts RefreshServices
  by unfold_locales (auto simp: refresh_defs window_accepts_defs Let_def)

interpretation status_slot: request_slot mw_status_in_flight may_ask_status status_accepts RefreshStatus
  by unfold_locales (auto simp: refresh_defs window_accepts_defs Let_def)

interpretation logs_slot: request_slot mw_logs_in_flight is_selected logs_accepts RefreshLogs
  by unfold_locales (auto simp: refresh_defs window_accepts_defs Let_def)

interpretation metrics_slot: request_slot mw_metrics_in_flight is_selected metrics_accepts RefreshMetrics
  by unfold_locales (auto simp: refresh_defs window_accepts_defs Let_def)

section \<open>Every flag has its request\<close>

definition is_action :: "desktop_request \<Rightarrow> bool" where
  "is_action rq = (case rq of RequestAction _ _ _ \<Rightarrow> True | _ \<Rightarrow> False)"

text \<open>While an action is under way no status is asked for, and there is one action.\<close>

definition action_backed :: "desktop_request list \<Rightarrow> main_window \<Rightarrow> bool" where
  "action_backed pending w \<longleftrightarrow>
     length (filter is_action pending) = (if mw_action_in_flight w then 1 else 0)
     \<and> (mw_action_in_flight w \<longrightarrow> \<not> mw_status_in_flight w)"

definition own_backed :: "desktop_request list \<Rightarrow> main_window \<Rightarrow> bool" where
  "own_backed pending w \<longleftrightarrow>
     backed mw_services_in_flight (\<lambda>_. True) services_accepts pending w
     \<and> backed mw_status_in_flight may_ask_status status_accepts pending w
     \<and> backed mw_logs_in_flight is_selected logs_accepts pending w
     \<and> backed mw_metrics_in_flight is_selected metrics_accepts pending w"

definition window_backed :: "desktop_request list \<Rightarrow> main_window \<Rightarrow> bool" where
  "window_backed pending w \<longleftrightarrow> own_backed pending w \<and> action_backed pending w
     \<and> history_backed pending (mw_history w) \<and> health_backed pending (mw_health w)"

lemma history_backed_more: "history_backed pending p \<Longrightarrow> history_backed (pending @ sent) p"
  by (simp add: history_backed_def backed_def)

lemma health_backed_more: "health_backed pending p \<Longrightarrow> health_backed (pending @ sent) p"
  by (simp add: health_backed_def backed_def)

text \<open>The fields the window's own slots depend on.\<close>

definition same_slots :: "main_window \<Rightarrow> main_window \<Rightarrow> bool" where
  "same_slots v w \<longleftrightarrow>
     mw_current_service_id v = mw_current_service_id w \<and> mw_action_in_flight v = mw_action_in_flight w
     \<and> mw_services_in_flight v = mw_services_in_flight w \<and> mw_services_generation v = mw_services_generation w
     \<and> mw_status_in_flight v = mw_status_in_flight w \<and> mw_status_generation v = mw_status_generation w
     \<and> mw_logs_in_flight v = mw_logs_in_flight w \<and> mw_logs_generation v = mw_logs_generation w
     \<and> mw_metrics_in_flight v = mw_metrics_in_flight w \<and> mw_metrics_generation v = mw_metrics_generation w"

lemma own_backed_same:
  assumes "own_backed pending w" and v: "same_slots v w"
  shows "own_backed (pending @ sent) v"
proof -
  have "services_accepts v = services_accepts w" "status_accepts v = status_accepts w" "logs_accepts v = logs_accepts w"
    "metrics_accepts v = metrics_accepts w" "is_selected v = is_selected w" "may_ask_status v = may_ask_status w"
    using v by (simp_all only: same_slots_def window_accepts_defs)
  with assms show ?thesis by (simp add: own_backed_def backed_def same_slots_def)
qed

lemma action_backed_same:
  assumes "action_backed pending w" and "same_slots v w" and "filter is_action sent = []"
  shows "action_backed (pending @ sent) v"
  using assms by (simp add: action_backed_def same_slots_def)

lemma window_backed_same:
  assumes "window_backed pending w" and "same_slots v w"
    and "history_backed pending (mw_history v)" and "health_backed pending (mw_health v)"
  shows "window_backed pending v"
  using assms own_backed_same [of pending w v "[]"] action_backed_same [of pending w v "[]"]
  by (simp add: window_backed_def)

lemma on_history_sustains:
  assumes "sustains history_backed f" and "\<And>p. filter is_action (snd (f p)) = []"
  shows "sustains window_backed (on_history f)"
  unfolding sustains_def
proof (intro allI impI)
  fix pending w
  assume w: "window_backed pending w"
  let ?v = "fst (on_history f w)" and ?sent = "snd (on_history f w)"
  have v: "mw_history ?v = fst (f (mw_history w))" "mw_health ?v = mw_health w" "?sent = snd (f (mw_history w))" "same_slots ?v w"
    by (simp_all add: on_history_def same_slots_def case_prod_beta)
  show "window_backed (pending @ ?sent) ?v"
    using w own_backed_same [OF _ v(4)] action_backed_same [OF _ v(4)] sustainsD [OF assms(1)] assms(2)
    by (simp add: window_backed_def v(1,2,3) health_backed_more)
qed

lemma on_health_sustains:
  assumes "sustains health_backed f" and "\<And>p. filter is_action (snd (f p)) = []"
  shows "sustains window_backed (on_health f)"
  unfolding sustains_def
proof (intro allI impI)
  fix pending w
  assume w: "window_backed pending w"
  let ?v = "fst (on_health f w)" and ?sent = "snd (on_health f w)"
  have v: "mw_health ?v = fst (f (mw_health w))" "mw_history ?v = mw_history w" "?sent = snd (f (mw_health w))" "same_slots ?v w"
    by (simp_all add: on_health_def same_slots_def case_prod_beta)
  show "window_backed (pending @ ?sent) ?v"
    using w own_backed_same [OF _ v(4)] action_backed_same [OF _ v(4)] sustainsD [OF assms(1)] assms(2)
    by (simp add: window_backed_def v(1,2,3) history_backed_more)
qed

text \<open>No panel sends an action.\<close>

lemma panels_send_no_action:
  "filter is_action (snd (history_Refresh p)) = []" "filter is_action (snd (history_SetServiceId now sid p)) = []"
  by (simp_all add: history_Refresh_def history_SetServiceId_def is_action_def Let_def)

lemma refreshes_send_no_action:
  "filter is_action (snd (RefreshHealth h)) = []" "filter is_action (snd (RefreshAlerts h)) = []"
  "filter is_action (snd (RefreshRecoveryEvents h)) = []"
  by (simp_all add: RefreshHealth_def RefreshAlerts_def RefreshRecoveryEvents_def is_action_def Let_def)

lemma perform_sends: "list_all (\<lambda>f. \<forall>w. filter P (snd (f w)) = []) fs \<Longrightarrow> filter P (snd (perform fs w)) = []"
  by (induction fs arbitrary: w) (simp_all add: case_prod_beta)

lemma health_sends_no_action:
  "filter is_action (snd (health_Refresh h)) = []" "filter is_action (snd (health_SetServiceId sid h)) = []"
  "filter is_action (snd (toggle_resolved h)) = []" "filter is_action (snd (AcknowledgeSelectedAlert h)) = []"
  "filter is_action (snd (ack_reply r h)) = []"
proof -
  show refresh: "filter is_action (snd (health_Refresh h)) = []" for h
    unfolding health_Refresh_def by (rule perform_sends) (simp add: refreshes_send_no_action)
  show "filter is_action (snd (health_SetServiceId sid h)) = []"
    by (simp add: health_SetServiceId_def refresh)
  show "filter is_action (snd (toggle_resolved h)) = []"
    by (simp add: toggle_resolved_def refreshes_send_no_action)
  show "filter is_action (snd (AcknowledgeSelectedAlert h)) = []"
    by (simp add: AcknowledgeSelectedAlert_def is_action_def Let_def)
  have "filter is_action (snd (perform [quietly f, RefreshAlerts, quietly g] p)) = []" for f g p
    by (rule perform_sends) (simp add: refreshes_send_no_action quietly_def)
  then show "filter is_action (snd (ack_reply r h)) = []"
    by (cases r) (simp_all add: ack_reply_def)
qed

lemma refreshes_sustain:
  "sustains window_backed RefreshServices" "sustains window_backed RefreshStatus"
  "sustains window_backed RefreshLogs" "sustains window_backed RefreshMetrics"
  by (auto simp: sustains_def window_backed_def own_backed_def action_backed_def backed_def window_accepts_defs
      refresh_defs is_action_def Let_def history_backed_more health_backed_more)

lemmas panel_refreshes_sustain =
  on_history_sustains [OF history_Refresh_sustains panels_send_no_action(1)]
  on_health_sustains [OF health_Refresh_sustains health_sends_no_action(1)]

lemma RefreshAll_sustains: "sustains window_backed RefreshAll"
  unfolding RefreshAll_def
  by (rule sustains_perform) (simp add: refreshes_sustain panel_refreshes_sustain)

text \<open>Operations that only show something.\<close>

lemmas quiet_defs = showMessage_def UpdateActionButtons_def ShowBackgroundError_def ApplySnapshot_def ApplyMetrics_def
  ClearMetrics_def ShowMetricsNotReady_def ClearCurrentServiceDetails_def

lemma quiet_same_slots:
  "same_slots (showMessage t w) w" "same_slots (UpdateActionButtons w) w" "same_slots (ShowBackgroundError e w) w"
  "same_slots (ApplySnapshot ui s w) w" "same_slots (ApplyMetrics ui m w) w" "same_slots (ShowMetricsNotReady w) w"
  "same_slots (ClearCurrentServiceDetails now w) w"
  by (simp_all add: same_slots_def quiet_defs Let_def)

lemma quiet_panels [simp]:
  "mw_history (showMessage t w) = mw_history w" "mw_health (showMessage t w) = mw_health w"
  "mw_history (UpdateActionButtons w) = mw_history w" "mw_health (UpdateActionButtons w) = mw_health w"
  "mw_history (ShowBackgroundError e w) = mw_history w" "mw_health (ShowBackgroundError e w) = mw_health w"
  "mw_history (ApplySnapshot ui s w) = mw_history w" "mw_health (ApplySnapshot ui s w) = mw_health w"
  "mw_history (ApplyMetrics ui m w) = mw_history w" "mw_health (ApplyMetrics ui m w) = mw_health w"
  "mw_history (ShowMetricsNotReady w) = mw_history w" "mw_health (ShowMetricsNotReady w) = mw_health w"
  "mw_history (ClearCurrentServiceDetails now w) = history_Clear now (mw_history w)"
  "mw_health (ClearCurrentServiceDetails now w) = health_Clear (mw_health w)"
  by (simp_all add: quiet_defs Let_def)

lemma quiet_backed:
  assumes "window_backed pending w"
  shows "window_backed pending (showMessage t w)" "window_backed pending (UpdateActionButtons w)"
    "window_backed pending (ShowBackgroundError e w)" "window_backed pending (ApplySnapshot ui s w)"
    "window_backed pending (ApplyMetrics ui m w)" "window_backed pending (ShowMetricsNotReady w)"
    "window_backed pending (ClearCurrentServiceDetails now w)"
proof -
  have panels: "history_backed pending (mw_history w)" "health_backed pending (mw_health w)"
    "history_backed pending (history_Clear now (mw_history w))" "health_backed pending (health_Clear (mw_health w))"
    using assms by (simp_all add: window_backed_def history_idle_backed health_Clear_backed)
  show "window_backed pending (showMessage t w)" "window_backed pending (UpdateActionButtons w)"
    "window_backed pending (ShowBackgroundError e w)" "window_backed pending (ApplySnapshot ui s w)"
    "window_backed pending (ApplyMetrics ui m w)" "window_backed pending (ShowMetricsNotReady w)"
    "window_backed pending (ClearCurrentServiceDetails now w)"
    by (rule window_backed_same [OF assms]; simp add: quiet_same_slots panels)+
qed

lemma quietly_sustains:
  "sustains window_backed (quietly (showMessage t))" "sustains window_backed (quietly UpdateActionButtons)"
  "sustains window_backed (quietly (ApplySnapshot ui s))" "sustains window_backed (quietly (ClearCurrentServiceDetails now))"
  by (simp_all add: sustains_quietly quiet_backed)

text \<open>Fields that no slot depends on.\<close>

lemma plain_backed:
  assumes "window_backed pending w"
  shows "window_backed pending (w\<lparr> mw_list := l \<rparr>)" "window_backed pending (w\<lparr> mw_list_row := r \<rparr>)"
    "window_backed pending (w\<lparr> mw_tail := n \<rparr>)" "window_backed pending (w\<lparr> mw_warnings := ws \<rparr>)"
    "window_backed pending (w\<lparr> mw_log := t \<rparr>)"
  by (rule window_backed_same [OF assms]; use assms in \<open>simp add: same_slots_def window_backed_def\<close>)+

text \<open>Another service is selected, or none.\<close>

lemma forget_backed:
  assumes "window_backed pending w"
  shows "window_backed pending (forget_requests (w\<lparr> mw_current_service_id := sid \<rparr>))"
  using assms
  by (auto simp: window_backed_def own_backed_def action_backed_def backed_def forget_requests_def window_accepts_defs)

lemma deselect_backed:
  assumes "window_backed pending w"
  shows "window_backed pending (deselect now w)"
proof -
  have "window_backed pending (w\<lparr> mw_current_service_id := [] \<rparr>)"
    using assms by (auto simp: window_backed_def own_backed_def action_backed_def backed_def window_accepts_defs)
  then show ?thesis unfolding deselect_def by (rule quiet_backed)
qed

lemmas panel_selections_sustain =
  on_history_sustains [OF history_SetServiceId_sustains panels_send_no_action(2)]
  on_health_sustains [OF health_SetServiceId_sustains health_sends_no_action(2)]

lemma SelectService_sustains: "sustains window_backed (SelectService now sid)"
proof -
  have forget: "sustains window_backed (quietly (\<lambda>w. forget_requests (w\<lparr> mw_current_service_id := sid \<rparr>)))"
    by (rule sustains_quietly) (rule forget_backed)
  have "sustains window_backed (perform
      [quietly (\<lambda>w. forget_requests (w\<lparr> mw_current_service_id := sid \<rparr>)), quietly (ClearCurrentServiceDetails now),
       on_history (history_SetServiceId now sid), on_health (health_SetServiceId sid),
       quietly (showMessage (''Selected service: '' @ sid)), RefreshStatus, RefreshLogs, RefreshMetrics])"
    by (rule sustains_perform) (simp add: forget quietly_sustains panel_selections_sustain refreshes_sustain)
  then show ?thesis
    by (simp add: sustains_def SelectService_def)
qed

lemma ApplyServiceList_sustains: "sustains window_backed (ApplyServiceList ui now services)"
proof -
  have "window_backed (pending @ snd (ApplyServiceList ui now services w)) (fst (ApplyServiceList ui now services w))"
    if w: "window_backed pending w" for pending w
  proof -
    let ?w = "w\<lparr> mw_list := map list_item services, mw_list_row := row_of (mw_current_service_id w) services \<rparr>"
    have "window_backed pending ?w" using w by (intro plain_backed)
    then show ?thesis
      using sustainsD [OF SelectService_sustains]
      by (auto simp: ApplyServiceList_def Let_def quiet_backed deselect_backed split: option.split)
  qed
  then show ?thesis by (simp add: sustains_def)
qed

lemma ExecuteAction_sustains: "sustains window_backed (ExecuteAction name op)"
proof -
  have "window_backed (pending @ snd (ExecuteAction name op w)) (fst (ExecuteAction name op w))"
    if w: "window_backed pending w" for pending w
  proof (cases "mw_action_in_flight w \<or> mw_current_service_id w = []")
    case True
    with w show ?thesis by (auto simp: ExecuteAction_def)
  next
    case False
    let ?rq = "RequestAction op name (mw_current_service_id w)"
    have "window_backed (pending @ [?rq]) (forget_requests (w\<lparr> mw_action_in_flight := True \<rparr>))"
      using w False
      by (auto simp: window_backed_def own_backed_def action_backed_def backed_def forget_requests_def
          window_accepts_defs is_action_def history_backed_more health_backed_more)
    with False show ?thesis by (simp add: ExecuteAction_def quiet_backed)
  qed
  then show ?thesis by (simp add: sustains_def)
qed

text \<open>A request whose reply has come has left the list.\<close>

definition taken :: "desktop_request \<Rightarrow> desktop_request list \<Rightarrow> desktop_request list \<Rightarrow> bool" where
  "taken rq pending rest \<longleftrightarrow> set pending \<subseteq> insert rq (set rest)
     \<and> length (filter is_action pending) = (if is_action rq then 1 else 0) + length (filter is_action rest)"

lemma remove_nth_taken:
  assumes "n < length pending"
  shows "taken (pending ! n) pending (remove_nth n pending)"
proof -
  have pending: "pending = take n pending @ pending ! n # drop (Suc n) pending"
    using assms by (rule id_take_nth_drop)
  have "set pending \<subseteq> insert (pending ! n) (set (remove_nth n pending))"
    by (subst (1) pending) (auto simp: remove_nth_def)
  moreover have "length (filter is_action pending)
      = (if is_action (pending ! n) then 1 else 0) + length (filter is_action (remove_nth n pending))"
    by (subst (1) pending) (simp add: remove_nth_def)
  ultimately show ?thesis by (simp add: taken_def)
qed

lemma backed_taken:
  "backed flag selected accepts pending w \<Longrightarrow> taken rq pending rest \<Longrightarrow> \<not> accepts w rq \<Longrightarrow>
     backed flag selected accepts rest w"
  by (rule backed_other) (auto simp: taken_def)

lemma ack_taken: "list_ex is_ack pending \<Longrightarrow> taken rq pending rest \<Longrightarrow> \<not> is_ack rq \<Longrightarrow> list_ex is_ack rest"
  by (auto simp: taken_def intro: list_ex_rest)

text \<open>What the reply of one kind leaves of the slots of the other kinds.\<close>

lemma stale_backed:
  assumes "window_backed pending w" and "taken rq pending rest"
    and "\<not> services_accepts w rq" "\<not> status_accepts w rq" "\<not> logs_accepts w rq" "\<not> metrics_accepts w rq"
  shows "own_backed rest w"
  using assms by (auto simp: window_backed_def own_backed_def intro: backed_taken)

lemma stale_history_backed:
  assumes "window_backed pending w" and "taken rq pending rest" and "\<not> history_accepts (mw_history w) rq"
  shows "history_backed rest (mw_history w)"
  using assms by (auto simp: window_backed_def history_backed_def intro: backed_taken)

lemma stale_health_backed:
  assumes "window_backed pending w" and "taken rq pending rest" and "\<not> is_ack rq"
    and "\<not> health_accepts (mw_health w) rq" "\<not> alerts_accepts (mw_health w) rq" "\<not> recovery_accepts (mw_health w) rq"
  shows "health_backed rest (mw_health w)"
  using assms by (auto simp: window_backed_def health_backed_def intro: backed_taken ack_taken)

lemma stale_action_backed:
  "window_backed pending w \<Longrightarrow> taken rq pending rest \<Longrightarrow> \<not> is_action rq \<Longrightarrow> action_backed rest w"
  by (simp add: window_backed_def action_backed_def taken_def)

lemmas kinds = window_accepts_defs accepts_defs is_ack_def is_action_def

text \<open>The window's own replies: either they are stale, or they clear their flag first.\<close>

lemma cleared_backed:
  assumes "window_backed pending w" and "taken rq pending rest"
  shows "rq = RequestServices g \<Longrightarrow> window_backed rest (w\<lparr> mw_services_in_flight := False \<rparr>)"
    and "rq = RequestState s g \<Longrightarrow> window_backed rest (w\<lparr> mw_status_in_flight := False \<rparr>)"
    and "rq = RequestLogs s n g \<Longrightarrow> window_backed rest (w\<lparr> mw_logs_in_flight := False \<rparr>)"
    and "rq = RequestMetrics s g \<Longrightarrow> window_backed rest (w\<lparr> mw_metrics_in_flight := False \<rparr>)"
    and "rq = RequestAction op name s \<Longrightarrow> window_backed rest (w\<lparr> mw_action_in_flight := False \<rparr>)"
proof -
  have other: "list_ex P pending \<Longrightarrow> \<not> P rq \<Longrightarrow> list_ex P rest" for P
    using assms(2) by (auto simp: taken_def intro: list_ex_rest)
  note parts = assms(1) [unfolded window_backed_def own_backed_def action_backed_def history_backed_def
      health_backed_def backed_def]
  show "rq = RequestServices g \<Longrightarrow> window_backed rest (w\<lparr> mw_services_in_flight := False \<rparr>)"
    "rq = RequestState s g \<Longrightarrow> window_backed rest (w\<lparr> mw_status_in_flight := False \<rparr>)"
    "rq = RequestLogs s n g \<Longrightarrow> window_backed rest (w\<lparr> mw_logs_in_flight := False \<rparr>)"
    "rq = RequestMetrics s g \<Longrightarrow> window_backed rest (w\<lparr> mw_metrics_in_flight := False \<rparr>)"
    "rq = RequestAction op name s \<Longrightarrow> window_backed rest (w\<lparr> mw_action_in_flight := False \<rparr>)"
    by (use parts other assms(2) in \<open>auto simp: window_backed_def own_backed_def action_backed_def history_backed_def
        health_backed_def backed_def kinds taken_def split: if_splits\<close>)+
qed

lemma stale_window_backed:
  assumes "window_backed pending w" and "taken rq pending rest"
    and "\<not> services_accepts w rq" "\<not> status_accepts w rq" "\<not> logs_accepts w rq" "\<not> metrics_accepts w rq"
    "\<not> history_accepts (mw_history w) rq" "\<not> is_ack rq" "\<not> is_action rq"
    "\<not> health_accepts (mw_health w) rq" "\<not> alerts_accepts (mw_health w) rq" "\<not> recovery_accepts (mw_health w) rq"
  shows "window_backed rest w"
  unfolding window_backed_def
  using stale_backed [OF assms(1,2)] stale_history_backed [OF assms(1,2)] stale_health_backed [OF assms(1,2)]
    stale_action_backed [OF assms(1,2)] assms(3-) by simp

lemma services_reply_backed:
  assumes "window_backed pending w" and "taken (RequestServices g) pending rest"
  shows "window_backed (rest @ snd (services_reply ui now g r w)) (fst (services_reply ui now g r w))"
proof (cases "g = mw_services_generation w")
  case False
  then have "window_backed rest w"
    by (intro stale_window_backed [OF assms]) (simp_all add: kinds)
  with False show ?thesis by (simp add: services_reply_def)
next
  case True
  from cleared_backed(1) [OF assms refl] show ?thesis
    using True sustainsD [OF ApplyServiceList_sustains]
    by (auto simp: services_reply_def Let_def quiet_backed split: sum.split)
qed

lemma status_reply_backed:
  assumes "window_backed pending w" and "taken (RequestState s g) pending rest"
  shows "window_backed rest (status_reply ui s g r w)"
proof (cases "g = mw_status_generation w \<and> s = mw_current_service_id w")
  case False
  then have "window_backed rest w"
    by (intro stale_window_backed [OF assms]) (simp_all add: kinds)
  with False show ?thesis by (auto simp: status_reply_def)
next
  case True
  from cleared_backed(2) [OF assms refl] show ?thesis
    using True by (auto simp: status_reply_def Let_def quiet_backed split: sum.split)
qed

lemma logs_reply_backed:
  assumes "window_backed pending w" and "taken (RequestLogs s n g) pending rest"
  shows "window_backed rest (logs_reply s g r w)"
proof (cases "g = mw_logs_generation w \<and> s = mw_current_service_id w")
  case False
  then have "window_backed rest w"
    by (intro stale_window_backed [OF assms]) (simp_all add: kinds)
  with False show ?thesis by (auto simp: logs_reply_def)
next
  case True
  have "window_backed rest (w\<lparr> mw_logs_in_flight := False \<rparr>)" by (rule cleared_backed(3) [OF assms refl])
  from this plain_backed(5) [OF this] show ?thesis
    using True by (auto simp: logs_reply_def Let_def quiet_backed split: sum.split)
qed

lemma metrics_reply_backed:
  assumes "window_backed pending w" and "taken (RequestMetrics s g) pending rest"
  shows "window_backed rest (metrics_reply ui s g r w)"
proof (cases "g = mw_metrics_generation w \<and> s = mw_current_service_id w")
  case False
  then have "window_backed rest w"
    by (intro stale_window_backed [OF assms]) (simp_all add: kinds)
  with False show ?thesis by (auto simp: metrics_reply_def)
next
  case True
  from cleared_backed(4) [OF assms refl] show ?thesis
    using True by (auto simp: metrics_reply_def Let_def quiet_backed split: sum.split)
qed

lemma action_reply_backed:
  assumes "window_backed pending w" and "taken (RequestAction op name s) pending rest"
  shows "window_backed (rest @ snd (action_reply ui name s r w)) (fst (action_reply ui name s r w))"
proof -
  note cleared = cleared_backed(5) [OF assms refl]
  show ?thesis
  proof (cases r)
    case (Inl e)
    from plain_backed(4) [OF quiet_backed(2) [OF cleared]] show ?thesis
      by (simp add: action_reply_def Inl Let_def)
  next
    case (Inr snapshot)
    have "sustains window_backed (perform ((if b then [quietly (ApplySnapshot ui snapshot), RefreshLogs, RefreshMetrics,
        on_history history_Refresh, on_health health_Refresh] else []) @ [RefreshServices, quietly (showMessage t), quietly UpdateActionButtons]))"
      for b t
      by (rule sustains_perform) (simp add: refreshes_sustain panel_refreshes_sustain quietly_sustains)
    from sustainsD [OF this cleared] show ?thesis
      by (simp add: action_reply_def Inr Let_def)
  qed
qed

text \<open>The panels' replies.\<close>

lemma on_panel_backed:
  assumes "own_backed rest w" "action_backed rest w"
  shows "history_backed rest p \<Longrightarrow> health_backed rest (mw_health w) \<Longrightarrow> window_backed rest (w\<lparr> mw_history := p \<rparr>)"
    and "health_backed (rest @ sent) h \<Longrightarrow> history_backed rest (mw_history w) \<Longrightarrow> filter is_action sent = [] \<Longrightarrow>
      window_backed (rest @ sent) (w\<lparr> mw_health := h \<rparr>)"
  using assms own_backed_same [OF assms(1), of "w\<lparr> mw_history := p \<rparr>" "[]"]
    action_backed_same [OF assms(2), of "w\<lparr> mw_history := p \<rparr>" "[]"]
    own_backed_same [OF assms(1), of "w\<lparr> mw_health := h \<rparr>" sent]
    action_backed_same [OF assms(2), of "w\<lparr> mw_health := h \<rparr>" sent]
  by (simp_all add: window_backed_def same_slots_def history_backed_more)

lemma handle_reply_backed:
  assumes w: "window_backed pending w" and rq: "taken rq pending rest"
  shows "window_backed (rest @ snd (handle_reply qt ui now rq raw w)) (fst (handle_reply qt ui now rq raw w))"
proof -
  note stale = stale_backed [OF w rq] stale_action_backed [OF w rq] stale_history_backed [OF w rq] stale_health_backed [OF w rq]
  have panels: "history_backed pending (mw_history w)" "health_backed pending (mw_health w)"
    using w by (simp_all add: window_backed_def)
  have rest: "set pending \<subseteq> insert rq (set rest)" using rq by (simp add: taken_def)
  note health_replies = health_reply_backed [OF panels(2)] alerts_reply_backed [OF panels(2)]
    recovery_reply_backed [OF panels(2)] ack_reply_backed [OF panels(2)]
  show ?thesis
  proof (cases rq)
    case (RequestHistory s g)
    with stale rest history_reply_backed [OF panels(1)] show ?thesis
      by (simp add: on_history_def quietly_def on_panel_backed kinds)
  next
    case (RequestHealth s g)
    with stale rest health_replies show ?thesis
      by (auto simp: on_health_def quietly_def kinds intro!: on_panel_backed(2) [where sent = "[]", simplified])
  next
    case (RequestAlerts s b g)
    with stale rest health_replies show ?thesis
      by (auto simp: on_health_def quietly_def kinds intro!: on_panel_backed(2) [where sent = "[]", simplified])
  next
    case (RequestRecovery s g)
    with stale rest health_replies show ?thesis
      by (auto simp: on_health_def quietly_def kinds intro!: on_panel_backed(2) [where sent = "[]", simplified])
  next
    case (RequestAck a)
    with stale rest health_replies health_sends_no_action(5) show ?thesis
      by (auto simp: on_health_def case_prod_beta kinds intro!: on_panel_backed(2))
  next
    case (RequestServices g)
    with services_reply_backed [OF w] rq show ?thesis by simp
  next
    case (RequestState s g)
    with status_reply_backed [OF w] rq show ?thesis by (simp add: quietly_def)
  next
    case (RequestLogs s n g)
    with logs_reply_backed [OF w] rq show ?thesis by (simp add: quietly_def)
  next
    case (RequestMetrics s g)
    with metrics_reply_backed [OF w] rq show ?thesis by (simp add: quietly_def)
  next
    case (RequestAction op name s)
    with action_reply_backed [OF w] rq show ?thesis by simp
  qed
qed

section \<open>Every event keeps it\<close>

lemma service_selected_sustains: "sustains window_backed (service_selected now row)"
proof -
  have "window_backed (pending @ snd (service_selected now row w)) (fst (service_selected now row w))"
    if w: "window_backed pending w" for pending w
    using deselect_backed [OF plain_backed(2) [OF w]] sustainsD [OF SelectService_sustains plain_backed(2) [OF w]]
    by (auto simp: service_selected_def split: option.split)
  then show ?thesis by (simp add: sustains_def)
qed

lemma user_handler_sustains:
  assumes "user_handler now ev w = Some f"
  shows "sustains window_backed f"
proof (cases ev)
  case (TailChanged n)
  with assms show ?thesis by (auto split: if_splits intro: sustains_quietly plain_backed)
next
  case (AlertSelected row)
  have "sustains health_backed (quietly (select_alert row))"
    by (rule sustains_quietly) (rule select_alert_backed)
  then have "sustains window_backed (on_health (quietly (select_alert row)))"
    by (rule on_health_sustains) (simp add: quietly_def)
  with AlertSelected assms show ?thesis by (auto split: if_splits)
next
  case ResolvedToggled
  then show ?thesis
    using assms on_health_sustains [OF toggle_resolved_sustains health_sends_no_action(3)] by simp
next
  case AcknowledgeClicked
  then show ?thesis
    using assms on_health_sustains [OF acknowledge_sustains health_sends_no_action(4)] by (auto split: if_splits)
qed (use assms in \<open>auto split: if_splits simp: RefreshAll_sustains service_selected_sustains ExecuteAction_sustains
      refreshes_sustain panel_refreshes_sustain\<close>)

definition desktop_backed :: "desktop \<Rightarrow> bool" where
  "desktop_backed d \<longleftrightarrow> window_backed (dk_pending d) (dk_window d)"

lemma step_cases:
  assumes "desktop_step qt ui now ev d = Some d'"
  obtains (reply) n raw where "ev = Replied n raw" "n < length (dk_pending d)"
      "dk_window d' = fst (handle_reply qt ui now (dk_pending d ! n) raw (dk_window d))"
      "dk_pending d' = remove_nth n (dk_pending d) @ snd (handle_reply qt ui now (dk_pending d ! n) raw (dk_window d))"
      "dk_answered d' = dk_answered d @ [(dk_pending d ! n, raw)]"
  | (user) f where "user_handler now ev (dk_window d) = Some f" "dk_window d' = fst (f (dk_window d))"
      "dk_pending d' = dk_pending d @ snd (f (dk_window d))" "dk_answered d' = dk_answered d"
proof (cases "\<exists>n raw. ev = Replied n raw")
  case True
  then show thesis
    using assms by (auto simp: desktop_step_def Let_def split: if_splits prod.splits intro!: reply)
next
  case False
  then have "desktop_step qt ui now ev d = (case user_handler now ev (dk_window d) of None \<Rightarrow> None
      | Some f \<Rightarrow> let (w, sent) = f (dk_window d) in
         Some \<lparr> dk_window = w, dk_pending = dk_pending d @ sent, dk_answered = dk_answered d \<rparr>)"
    by (cases ev) (simp_all only: desktop_step_def desktop_event.case, simp)
  with assms obtain f where f: "user_handler now ev (dk_window d) = Some f"
    and d': "d' = \<lparr> dk_window = fst (f (dk_window d)), dk_pending = dk_pending d @ snd (f (dk_window d)), dk_answered = dk_answered d \<rparr>"
    by (auto simp: case_prod_beta Let_def split: option.splits)
  show thesis by (rule user [OF f]) (simp_all add: d')
qed

lemma step_backed:
  assumes "desktop_step qt ui now ev d = Some d'" and "desktop_backed d"
  shows "desktop_backed d'"
  using assms(1)
proof (cases rule: step_cases)
  case (reply n raw)
  with handle_reply_backed [OF _ remove_nth_taken, of "dk_pending d" "dk_window d" n] assms(2) show ?thesis
    by (simp add: desktop_backed_def)
next
  case (user f)
  with sustainsD [OF user_handler_sustains [OF user(1)], of "dk_pending d" "dk_window d"] assms(2) show ?thesis
    by (simp add: desktop_backed_def)
qed

lemma BuildUi_backed: "window_backed [] (BuildUi now)"
proof -
  have "mw_history (BuildUi now) = history_Clear now (new_history_panel now)"
    "mw_health (BuildUi now) = health_Clear new_health_panel"
    unfolding BuildUi_def by simp_all
  then show ?thesis
    by (simp add: window_backed_def own_backed_def action_backed_def backed_def history_idle_backed health_Clear_backed)
      (simp add: BuildUi_def quiet_defs Let_def)
qed

lemma start_backed: "desktop_backed (start_desktop now agent_url)"
  using sustainsD [OF RefreshAll_sustains quiet_backed(1) [OF BuildUi_backed]]
  by (simp add: desktop_backed_def start_desktop_def new_main_window_def case_prod_beta)

lemma reachable_backed: "desktop_reachable qt ui d \<Longrightarrow> desktop_backed d"
  by (induction rule: desktop_reachable.induct) (auto intro: start_backed step_backed)

text \<open>After the timer, every flag is set: the requests are under way.\<close>

lemma perform_fst: "fst (perform [] w) = w" "fst (perform (f # fs) w) = fst (perform fs (fst (f w)))"
  by (simp_all add: case_prod_beta)

lemma refresh_fields:
  "mw_current_service_id (fst (RefreshServices w)) = mw_current_service_id w"
  "mw_action_in_flight (fst (RefreshServices w)) = mw_action_in_flight w"
  "mw_services_in_flight (fst (RefreshServices w))"
  "mw_history (fst (RefreshServices w)) = mw_history w" "mw_health (fst (RefreshServices w)) = mw_health w"
  "mw_current_service_id (fst (RefreshStatus w)) = mw_current_service_id w"
  "mw_action_in_flight (fst (RefreshStatus w)) = mw_action_in_flight w"
  "mw_services_in_flight (fst (RefreshStatus w)) = mw_services_in_flight w"
  "mw_history (fst (RefreshStatus w)) = mw_history w" "mw_health (fst (RefreshStatus w)) = mw_health w"
  "mw_current_service_id w \<noteq> [] \<Longrightarrow> \<not> mw_action_in_flight w \<Longrightarrow> mw_status_in_flight (fst (RefreshStatus w))"
  "mw_current_service_id (fst (RefreshLogs w)) = mw_current_service_id w"
  "mw_action_in_flight (fst (RefreshLogs w)) = mw_action_in_flight w"
  "mw_services_in_flight (fst (RefreshLogs w)) = mw_services_in_flight w"
  "mw_status_in_flight (fst (RefreshLogs w)) = mw_status_in_flight w"
  "mw_history (fst (RefreshLogs w)) = mw_history w" "mw_health (fst (RefreshLogs w)) = mw_health w"
  "mw_current_service_id w \<noteq> [] \<Longrightarrow> mw_logs_in_flight (fst (RefreshLogs w))"
  "mw_current_service_id (fst (RefreshMetrics w)) = mw_current_service_id w"
  "mw_action_in_flight (fst (RefreshMetrics w)) = mw_action_in_flight w"
  "mw_services_in_flight (fst (RefreshMetrics w)) = mw_services_in_flight w"
  "mw_status_in_flight (fst (RefreshMetrics w)) = mw_status_in_flight w"
  "mw_logs_in_flight (fst (RefreshMetrics w)) = mw_logs_in_flight w"
  "mw_history (fst (RefreshMetrics w)) = mw_history w" "mw_health (fst (RefreshMetrics w)) = mw_health w"
  "mw_current_service_id w \<noteq> [] \<Longrightarrow> mw_metrics_in_flight (fst (RefreshMetrics w))"
  by (simp_all add: refresh_defs Let_def)

text \<open>An operation on a panel leaves the window's own fields.\<close>

lemma on_panel_same:
  "fst (on_history f w) = w\<lparr> mw_history := fst (f (mw_history w)) \<rparr>"
  "fst (on_health g w) = w\<lparr> mw_health := fst (g (mw_health w)) \<rparr>"
  by (simp_all add: on_history_def on_health_def case_prod_beta)

lemma RefreshAll_flags:
  assumes "v = fst (RefreshAll w)"
  shows "mw_services_in_flight v" "mw_current_service_id v = mw_current_service_id w"
    "mw_action_in_flight v = mw_action_in_flight w"
    "mw_current_service_id w \<noteq> [] \<Longrightarrow> mw_logs_in_flight v \<and> mw_metrics_in_flight v"
    "mw_current_service_id w \<noteq> [] \<Longrightarrow> \<not> mw_action_in_flight w \<Longrightarrow> mw_status_in_flight v"
    "mw_history v = fst (history_Refresh (mw_history w))" "mw_health v = fst (health_Refresh (mw_health w))"
  unfolding assms RefreshAll_def perform_fst on_panel_same by (simp_all add: refresh_fields)

lemma panel_flags:
  "hp_service_id p \<noteq> [] \<Longrightarrow> hp_request_in_flight (fst (history_Refresh p))"
  "sp_service_id h \<noteq> [] \<Longrightarrow> sp_health_in_flight (fst (health_Refresh h)) \<and> sp_alerts_in_flight (fst (health_Refresh h))
     \<and> sp_recovery_in_flight (fst (health_Refresh h))"
  "sp_service_id (fst (health_Refresh h)) = sp_service_id h"
  by (simp_all add: history_Refresh_def health_Refresh_def RefreshHealth_def RefreshAlerts_def
      RefreshRecoveryEvents_def Let_def case_prod_beta)

end
