(* ===== verification/DesktopSpec.thy ===== *)
theory DesktopSpec
  imports DesktopInv
begin

text \<open>
  The contract of the desktop: the details, metrics, log, charts, health, alerts and recovery events
  the window and its panels show come from answers about the selected service (their status lines are
  not part of this), the action buttons follow what is shown, and the timer always has the requests
  under way that keep it up to date.
\<close>

section \<open>Where the shown comes from\<close>

type_synonym answers = "(desktop_request \<times> reply) list"

text \<open>A snapshot of a service: from its status, from an action on it, or from the list of services.\<close>

definition snapshot_of :: "qt_api \<Rightarrow> answers \<Rightarrow> string \<Rightarrow> ServiceSnapshot \<Rightarrow> bool" where
  "snapshot_of qt answers sid snapshot \<longleftrightarrow>
     (\<exists>g raw. (RequestState sid g, raw) \<in> set answers \<and> snd (client_GetStatus qt sid) raw = Inr snapshot)
     \<or> (\<exists>op name raw. (RequestAction op name sid, raw) \<in> set answers \<and> snd (client_action op qt sid) raw = Inr snapshot)
     \<or> (\<exists>g raw services. (RequestServices g, raw) \<in> set answers \<and> snd (GetServices qt) raw = Inr services
          \<and> snapshot \<in> set services \<and> sn_id snapshot = sid)"

definition details_shown :: "qt_api \<Rightarrow> ui \<Rightarrow> answers \<Rightarrow> main_window \<Rightarrow> bool" where
  "details_shown qt ui answers w \<longleftrightarrow>
     (if mw_has_snapshot w then
        \<exists>snapshot. snapshot_of qt answers (mw_current_service_id w) snapshot
          \<and> mw_details w = details_of ui snapshot \<and> mw_current_state w = ui_normal ui (sn_state snapshot)
      else mw_details w = no_details \<and> mw_current_state w = ''unknown'')"

definition metrics_shown :: "qt_api \<Rightarrow> ui \<Rightarrow> answers \<Rightarrow> main_window \<Rightarrow> bool" where
  "metrics_shown qt ui answers w \<longleftrightarrow>
     mw_metrics w = no_metrics \<or> mw_metrics w = metrics_not_ready
     \<or> (\<exists>g raw metrics. (RequestMetrics (mw_current_service_id w) g, raw) \<in> set answers
          \<and> snd (GetMetrics qt (mw_current_service_id w)) raw = Inr metrics \<and> mw_metrics w = labels_of ui metrics)"

definition log_shown :: "qt_api \<Rightarrow> answers \<Rightarrow> main_window \<Rightarrow> bool" where
  "log_shown qt answers w \<longleftrightarrow>
     mw_log w = []
     \<or> (\<exists>n g raw ls. (RequestLogs (mw_current_service_id w) n g, raw) \<in> set answers
          \<and> snd (GetLogs qt (mw_current_service_id w) n) raw = Inr ls \<and> mw_log w = join_lines ls)"

definition charts_show :: "rounding \<Rightarrow> history_panel \<Rightarrow> ServiceMetricsSnapshot list \<Rightarrow> bool" where
  "charts_show rnd p history \<longleftrightarrow>
     ch_series (hp_cpu_chart p) = drawn rnd kCpuPercent history
     \<and> ch_series (hp_rss_chart p) = drawn rnd kRssMemory history
     \<and> ch_series (hp_thread_chart p) = drawn rnd kThreadCount history
     \<and> ch_series (hp_fd_chart p) = drawn rnd kFdCount history"

definition history_of :: "qt_api \<Rightarrow> answers \<Rightarrow> string \<Rightarrow> ServiceMetricsSnapshot list \<Rightarrow> bool" where
  "history_of qt answers sid history \<longleftrightarrow>
     (\<exists>g raw. (RequestHistory sid g, raw) \<in> set answers \<and> snd (GetMetricsHistory qt sid kHistoryLimit) raw = Inr history)"

definition chart_kinds :: "history_panel \<Rightarrow> bool" where
  "chart_kinds p \<longleftrightarrow> ch_kind (hp_cpu_chart p) = kCpuPercent \<and> ch_kind (hp_rss_chart p) = kRssMemory
     \<and> ch_kind (hp_thread_chart p) = kThreadCount \<and> ch_kind (hp_fd_chart p) = kFdCount"

definition history_shown :: "qt_api \<Rightarrow> ui \<Rightarrow> answers \<Rightarrow> history_panel \<Rightarrow> bool" where
  "history_shown qt ui answers p \<longleftrightarrow> chart_kinds p
     \<and> (charts_show (ui_round ui) p []
        \<or> (\<exists>history. history_of qt answers (hp_service_id p) history \<and> charts_show (ui_round ui) p history))"

definition health_shown :: "qt_api \<Rightarrow> ui \<Rightarrow> answers \<Rightarrow> health_panel \<Rightarrow> bool" where
  "health_shown qt ui answers p \<longleftrightarrow>
     (sp_health p = no_health
      \<or> (\<exists>g raw health. (RequestHealth (sp_service_id p) g, raw) \<in> set answers
           \<and> snd (GetHealth qt (sp_service_id p)) raw = Inr health \<and> sp_health p = health_of ui health))
     \<and> (sp_alerts p = []
      \<or> (\<exists>b g raw alerts. (RequestAlerts (sp_service_id p) b g, raw) \<in> set answers
           \<and> snd (GetServiceAlerts qt (sp_service_id p) b) raw = Inr alerts \<and> sp_alerts p = map (alert_row ui) alerts))
     \<and> (sp_recovery_events p = []
      \<or> (\<exists>g raw events. (RequestRecovery (sp_service_id p) g, raw) \<in> set answers
           \<and> snd (GetServiceRecoveryEvents qt (sp_service_id p) kRecoveryEventLimit) raw = Inr events
           \<and> sp_recovery_events p = map (recovery_row ui) events))"

definition shows_selected :: "qt_api \<Rightarrow> ui \<Rightarrow> answers \<Rightarrow> main_window \<Rightarrow> bool" where
  "shows_selected qt ui answers w \<longleftrightarrow>
     details_shown qt ui answers w \<and> metrics_shown qt ui answers w \<and> log_shown qt answers w
     \<and> history_shown qt ui answers (mw_history w) \<and> health_shown qt ui answers (mw_health w)"

definition panels_follow :: "main_window \<Rightarrow> bool" where
  "panels_follow w \<longleftrightarrow> hp_service_id (mw_history w) = mw_current_service_id w
     \<and> sp_service_id (mw_health w) = mw_current_service_id w"

text \<open>The buttons are what \<open>UpdateActionButtons\<close> would make them, but for the one that refreshes the logs.\<close>

definition can_control :: "main_window \<Rightarrow> bool" where
  "can_control w \<longleftrightarrow> mw_has_snapshot w \<and> mw_current_service_id w \<noteq> [] \<and> \<not> mw_action_in_flight w
     \<and> mw_current_state w \<noteq> ''starting'' \<and> mw_current_state w \<noteq> ''stopping''"

definition buttons_follow :: "main_window \<Rightarrow> bool" where
  "buttons_follow w \<longleftrightarrow>
     mw_start_enabled w = (can_control w \<and> mw_current_state w \<noteq> ''running'')
     \<and> mw_stop_enabled w = (can_control w \<and> mw_current_state w = ''running'')
     \<and> mw_restart_enabled w = (can_control w \<and> mw_current_state w = ''running'')
     \<and> mw_tail_enabled w = (mw_current_service_id w \<noteq> []) \<and> mw_list_enabled w = (\<not> mw_action_in_flight w)"

section \<open>The panels\<close>

lemma history_shown_same:
  assumes "history_shown qt ui answers p" and "hp_service_id q = hp_service_id p"
    and "hp_cpu_chart q = hp_cpu_chart p" "hp_rss_chart q = hp_rss_chart p" "hp_thread_chart q = hp_thread_chart p"
    "hp_fd_chart q = hp_fd_chart p"
  shows "history_shown qt ui answers q"
  using assms by (simp add: history_shown_def chart_kinds_def charts_show_def)

lemma history_Refresh_shown:
  "history_shown qt ui answers p \<Longrightarrow> history_shown qt ui answers (fst (history_Refresh p))"
  by (erule history_shown_same) (simp_all add: history_Refresh_def Let_def)

lemma history_forget_shown:
  "chart_kinds p \<Longrightarrow> history_shown qt ui answers (history_forget now sid p)"
  by (simp add: history_shown_def chart_kinds_def charts_show_def history_forget_def on_charts_def chart_Clear_def
      RemoveAllSeries_def drawn_Nil)

lemma history_SetStatus_shown:
  "history_shown qt ui answers p \<Longrightarrow> history_shown qt ui answers (history_SetStatus t p)"
  by (erule history_shown_same) (simp_all add: history_SetStatus_def)

lemma history_Clear_shown: "chart_kinds p \<Longrightarrow> history_shown qt ui answers (history_Clear now p)"
  by (simp add: history_Clear_def history_forget_shown history_SetStatus_shown)

lemma history_SetServiceId_shown:
  "history_shown qt ui answers p \<Longrightarrow> history_shown qt ui answers (fst (history_SetServiceId now sid p))"
  by (simp add: history_SetServiceId_def history_Refresh_shown history_SetStatus_shown history_forget_shown
      history_shown_def [of qt ui answers p])

lemma SetHistory_kind: "ch_kind (SetHistory ui now history c) = ch_kind c"
  by (simp add: SetHistory_def Let_def RemoveAllSeries_def chart_Clear_def)

lemma ApplyHistory_shown:
  assumes "history_shown qt ui answers p" and history: "history_of qt answers (hp_service_id p) history"
  shows "history_shown qt ui answers (ApplyHistory ui now history p)"
proof -
  obtain g raw where "snd (GetMetricsHistory qt (hp_service_id p) kHistoryLimit) raw = Inr history"
    using history by (auto simp: history_of_def)
  note series = SetHistory_series [OF samples_have_pids [OF GetMetricsHistory_samples(1) [OF this]]]
  have kinds: "chart_kinds p" using assms(1) by (simp add: history_shown_def)
  then have "chart_kinds (ApplyHistory ui now history p) \<and> charts_show (ui_round ui) (ApplyHistory ui now history p) history"
    by (simp add: ApplyHistory_def chart_kinds_def charts_show_def on_charts_def history_SetStatus_def series
        SetHistory_kind chart_Clear_def RemoveAllSeries_def drawn_Nil)
  with history show ?thesis by (auto simp: history_shown_def)
qed

lemma history_reply_shown:
  assumes "history_shown qt ui answers p" and "(RequestHistory sid g, raw) \<in> set answers"
  shows "history_shown qt ui answers (history_reply ui now sid g (snd (GetMetricsHistory qt sid kHistoryLimit) raw) p)"
proof -
  let ?p = "p\<lparr> hp_request_in_flight := False \<rparr>"
  have p: "history_shown qt ui answers ?p"
    by (rule history_shown_same [OF assms(1)]) simp_all
  have "history_of qt answers sid history" if "snd (GetMetricsHistory qt sid kHistoryLimit) raw = Inr history" for history
    using that assms(2) by (auto simp: history_of_def)
  then show ?thesis
    using assms(1) p by (auto simp: history_reply_def Let_def split: sum.split
        intro!: history_SetStatus_shown ApplyHistory_shown [OF p])
qed

lemma health_shown_same:
  assumes "health_shown qt ui answers p" and "sp_service_id q = sp_service_id p" "sp_health q = sp_health p"
    "sp_alerts q = sp_alerts p" "sp_recovery_events q = sp_recovery_events p"
  shows "health_shown qt ui answers q"
  using assms by (simp add: health_shown_def)

lemma health_cleared_shown:
  "sp_health p = no_health \<Longrightarrow> sp_alerts p = [] \<Longrightarrow> sp_recovery_events p = [] \<Longrightarrow> health_shown qt ui answers p"
  by (simp add: health_shown_def)

lemma health_Clear_shown: "health_shown qt ui answers (health_Clear p)"
  by (rule health_cleared_shown) (simp_all add: health_quiet_defs)

lemma health_Refresh_fields:
  "sp_service_id (fst (health_Refresh p)) = sp_service_id p" "sp_health (fst (health_Refresh p)) = sp_health p"
  "sp_alerts (fst (health_Refresh p)) = sp_alerts p" "sp_recovery_events (fst (health_Refresh p)) = sp_recovery_events p"
  by (simp_all add: health_Refresh_def RefreshHealth_def RefreshAlerts_def RefreshRecoveryEvents_def Let_def case_prod_beta)

lemma RefreshAlerts_fields:
  "sp_service_id (fst (RefreshAlerts p)) = sp_service_id p" "sp_health (fst (RefreshAlerts p)) = sp_health p"
  "sp_alerts (fst (RefreshAlerts p)) = sp_alerts p" "sp_recovery_events (fst (RefreshAlerts p)) = sp_recovery_events p"
  by (simp_all add: RefreshAlerts_def Let_def)

lemma health_SetServiceId_shown:
  "health_shown qt ui answers p \<Longrightarrow> health_shown qt ui answers (fst (health_SetServiceId sid p))
     \<and> sp_service_id (fst (health_SetServiceId sid p)) = sid"
  by (auto simp: health_SetServiceId_def health_Refresh_fields health_quiet_defs intro!: health_cleared_shown)

text \<open>Operations on the health panel that change nothing shown about the service.\<close>

lemma health_user_fields:
  "health_shown qt ui answers p \<Longrightarrow> health_shown qt ui answers (fst (health_Refresh p)) \<and> sp_service_id (fst (health_Refresh p)) = sp_service_id p"
  "health_shown qt ui answers p \<Longrightarrow> health_shown qt ui answers (fst (toggle_resolved p)) \<and> sp_service_id (fst (toggle_resolved p)) = sp_service_id p"
  "health_shown qt ui answers p \<Longrightarrow> health_shown qt ui answers (select_alert row p) \<and> sp_service_id (select_alert row p) = sp_service_id p"
  "health_shown qt ui answers p \<Longrightarrow> health_shown qt ui answers (fst (AcknowledgeSelectedAlert p)) \<and> sp_service_id (fst (AcknowledgeSelectedAlert p)) = sp_service_id p"
  "health_shown qt ui answers p \<Longrightarrow> health_shown qt ui answers (fst (ack_reply r p)) \<and> sp_service_id (fst (ack_reply r p)) = sp_service_id p"
  by (cases r; auto intro: health_shown_same simp: health_Refresh_fields RefreshAlerts_fields toggle_resolved_def
      select_alert_def AcknowledgeSelectedAlert_def UpdateAcknowledgeButton_def ack_reply_def health_SetStatus_def
      quietly_def case_prod_beta Let_def)+

lemma health_replies_shown:
  assumes p: "health_shown qt ui answers p"
  shows "(RequestHealth sid g, raw) \<in> set answers \<Longrightarrow>
      health_shown qt ui answers (health_reply ui sid g (snd (GetHealth qt sid) raw) p)"
    and "(RequestAlerts sid b g, raw) \<in> set answers \<Longrightarrow>
      health_shown qt ui answers (alerts_reply ui sid g (snd (GetServiceAlerts qt sid b) raw) p)"
    and "(RequestRecovery sid g, raw) \<in> set answers \<Longrightarrow>
      health_shown qt ui answers (recovery_reply ui sid g (snd (GetServiceRecoveryEvents qt sid kRecoveryEventLimit) raw) p)"
    and "sp_service_id (health_reply ui sid g r1 p) = sp_service_id p"
    and "sp_service_id (alerts_reply ui sid g r2 p) = sp_service_id p"
    and "sp_service_id (recovery_reply ui sid g r3 p) = sp_service_id p"
  using p by (auto simp: health_reply_def alerts_reply_def recovery_reply_def health_quiet_defs health_shown_def Let_def
      split: sum.split)

section \<open>The window\<close>

definition window_shown :: "qt_api \<Rightarrow> ui \<Rightarrow> answers \<Rightarrow> main_window \<Rightarrow> bool" where
  "window_shown qt ui answers w \<longleftrightarrow> shows_selected qt ui answers w \<and> panels_follow w \<and> buttons_follow w"

definition same_view :: "main_window \<Rightarrow> main_window \<Rightarrow> bool" where
  "same_view v w \<longleftrightarrow>
     mw_details v = mw_details w \<and> mw_has_snapshot v = mw_has_snapshot w \<and> mw_current_state v = mw_current_state w
     \<and> mw_current_service_id v = mw_current_service_id w \<and> mw_metrics v = mw_metrics w \<and> mw_log v = mw_log w
     \<and> mw_action_in_flight v = mw_action_in_flight w \<and> mw_start_enabled v = mw_start_enabled w
     \<and> mw_stop_enabled v = mw_stop_enabled w \<and> mw_restart_enabled v = mw_restart_enabled w
     \<and> mw_tail_enabled v = mw_tail_enabled w \<and> mw_list_enabled v = mw_list_enabled w"

lemma window_shown_same:
  assumes "window_shown qt ui answers w" and "same_view v w"
    and "history_shown qt ui answers (mw_history v)" "hp_service_id (mw_history v) = hp_service_id (mw_history w)"
    and "health_shown qt ui answers (mw_health v)" "sp_service_id (mw_health v) = sp_service_id (mw_health w)"
  shows "window_shown qt ui answers v"
  using assms by (simp add: window_shown_def shows_selected_def details_shown_def metrics_shown_def log_shown_def
      panels_follow_def buttons_follow_def can_control_def same_view_def)

lemma window_shown_panels:
  assumes "window_shown qt ui answers w"
  shows "history_shown qt ui answers (mw_history w)" "health_shown qt ui answers (mw_health w)"
    "chart_kinds (mw_history w)"
  using assms by (simp_all add: window_shown_def shows_selected_def history_shown_def)

abbreviation shows_on :: "qt_api \<Rightarrow> ui \<Rightarrow> answers \<Rightarrow> desktop_request list \<Rightarrow> main_window \<Rightarrow> bool" where
  "shows_on qt ui answers \<equiv> \<lambda>pending w. window_shown qt ui answers w"

lemma refreshes_show:
  "sustains (shows_on qt ui answers) RefreshServices" "sustains (shows_on qt ui answers) RefreshStatus"
  "sustains (shows_on qt ui answers) RefreshLogs" "sustains (shows_on qt ui answers) RefreshMetrics"
  by (auto simp: sustains_def refresh_defs same_view_def Let_def window_shown_panels intro: window_shown_same)

lemma on_history_shows:
  assumes "\<And>p. history_shown qt ui answers p \<Longrightarrow>
    history_shown qt ui answers (fst (f p)) \<and> hp_service_id (fst (f p)) = hp_service_id p"
  shows "sustains (shows_on qt ui answers) (on_history f)"
  unfolding sustains_def
  by (auto simp: on_history_def same_view_def case_prod_beta window_shown_panels assms intro: window_shown_same)

lemma on_health_shows:
  assumes "\<And>p. health_shown qt ui answers p \<Longrightarrow>
    health_shown qt ui answers (fst (f p)) \<and> sp_service_id (fst (f p)) = sp_service_id p"
  shows "sustains (shows_on qt ui answers) (on_health f)"
  unfolding sustains_def
  by (auto simp: on_health_def same_view_def case_prod_beta window_shown_panels assms intro: window_shown_same)

lemma panel_refreshes_show:
  "sustains (shows_on qt ui answers) (on_history history_Refresh)"
  "sustains (shows_on qt ui answers) (on_health health_Refresh)"
  by (simp_all add: on_history_shows on_health_shows history_Refresh_shown health_user_fields)

lemma RefreshAll_shows: "sustains (shows_on qt ui answers) RefreshAll"
  unfolding RefreshAll_def by (rule sustains_perform) (simp add: refreshes_show panel_refreshes_show)

text \<open>Setting the buttons makes them follow, whatever they were.\<close>

lemma buttons_follow_update: "buttons_follow (UpdateActionButtons w)"
  by (auto simp: buttons_follow_def UpdateActionButtons_def can_control_def Let_def)

lemma UpdateActionButtons_shows:
  "shows_selected qt ui answers (UpdateActionButtons w) = shows_selected qt ui answers w"
  "panels_follow (UpdateActionButtons w) = panels_follow w"
  by (simp_all add: shows_selected_def details_shown_def metrics_shown_def log_shown_def panels_follow_def
      UpdateActionButtons_def Let_def)

lemma ApplySnapshot_shown:
  assumes "shows_selected qt ui answers w" "panels_follow w" and "snapshot_of qt answers (mw_current_service_id w) snapshot"
  shows "window_shown qt ui answers (ApplySnapshot ui snapshot w)"
proof -
  let ?v = "w\<lparr> mw_has_snapshot := True, mw_current_state := ui_normal ui (sn_state snapshot), mw_details := details_of ui snapshot \<rparr>"
  have "shows_selected qt ui answers ?v \<and> panels_follow ?v"
    using assms by (auto simp: shows_selected_def details_shown_def metrics_shown_def log_shown_def panels_follow_def)
  then show ?thesis
    by (simp add: window_shown_def ApplySnapshot_def UpdateActionButtons_shows buttons_follow_update)
qed

lemma cleared_shows:
  assumes "chart_kinds (mw_history w)"
  shows "shows_selected qt ui answers (ClearCurrentServiceDetails now w)" "buttons_follow (ClearCurrentServiceDetails now w)"
    "mw_current_service_id (ClearCurrentServiceDetails now w) = mw_current_service_id w"
    "panels_follow (ClearCurrentServiceDetails now w) \<longleftrightarrow> mw_current_service_id w = []"
proof -
  show "buttons_follow (ClearCurrentServiceDetails now w)"
    unfolding ClearCurrentServiceDetails_def by (rule buttons_follow_update)
  show "mw_current_service_id (ClearCurrentServiceDetails now w) = mw_current_service_id w"
    by (simp add: quiet_defs Let_def)
  show "shows_selected qt ui answers (ClearCurrentServiceDetails now w)"
    by (simp add: shows_selected_def history_Clear_shown [OF assms] health_Clear_shown)
      (simp add: details_shown_def metrics_shown_def log_shown_def quiet_defs Let_def)
  show "panels_follow (ClearCurrentServiceDetails now w) \<longleftrightarrow> mw_current_service_id w = []"
    by (auto simp: panels_follow_def) (auto simp: quiet_defs health_quiet_defs Let_def)
qed

lemma deselect_cleared: "chart_kinds (mw_history w) \<Longrightarrow> window_shown qt ui answers (deselect now w)"
  by (simp add: window_shown_def deselect_def cleared_shows)

lemma deselect_shown: "window_shown qt ui answers w \<Longrightarrow> window_shown qt ui answers (deselect now w)"
  by (rule deselect_cleared) (rule window_shown_panels)

lemma showMessage_shown: "window_shown qt ui answers w \<Longrightarrow> window_shown qt ui answers (showMessage t w)"
  by (rule window_shown_same) (simp_all add: same_view_def showMessage_def window_shown_panels)

lemma perform_quietly: "perform (quietly f # fs) w = perform fs (f w)"
  by (simp add: quietly_def case_prod_beta)

lemma with_panels:
  "shows_selected qt ui answers (w\<lparr> mw_history := p, mw_health := h \<rparr>) \<longleftrightarrow>
     details_shown qt ui answers w \<and> metrics_shown qt ui answers w \<and> log_shown qt answers w
     \<and> history_shown qt ui answers p \<and> health_shown qt ui answers h"
  "panels_follow (w\<lparr> mw_history := p, mw_health := h \<rparr>) \<longleftrightarrow>
     hp_service_id p = mw_current_service_id w \<and> sp_service_id h = mw_current_service_id w"
  "buttons_follow (w\<lparr> mw_history := p, mw_health := h \<rparr>) \<longleftrightarrow> buttons_follow w"
  by (simp_all add: shows_selected_def details_shown_def metrics_shown_def log_shown_def panels_follow_def
      buttons_follow_def can_control_def)

text \<open>A selection: everything is cleared before the panels take the new id.\<close>

lemma SelectService_shows: "sustains (shows_on qt ui answers) (SelectService now sid)"
proof -
  have "window_shown qt ui answers (fst (SelectService now sid w))" if w: "window_shown qt ui answers w" for w
  proof (cases "sid = [] \<or> sid = mw_current_service_id w")
    case True
    with w show ?thesis by (auto simp: SelectService_def)
  next
    case False
    let ?c = "ClearCurrentServiceDetails now (forget_requests (w\<lparr> mw_current_service_id := sid \<rparr>))"
    let ?v = "?c\<lparr> mw_history := fst (history_SetServiceId now sid (mw_history ?c)),
      mw_health := fst (health_SetServiceId sid (mw_health ?c)) \<rparr>"
    have kinds: "chart_kinds (mw_history (forget_requests (w\<lparr> mw_current_service_id := sid \<rparr>)))"
      using window_shown_panels(3) [OF w] by (simp add: forget_requests_def)
    note c = cleared_shows [OF kinds]
    have id: "mw_current_service_id ?c = sid" by (simp add: c(3)) (simp add: forget_requests_def)
    have panels: "history_shown qt ui answers (mw_history ?c)" "health_shown qt ui answers (mw_health ?c)"
      using c(1) by (simp_all add: shows_selected_def)
    have "window_shown qt ui answers ?v"
      using c(1,2) id history_SetServiceId_shown [OF panels(1)] health_SetServiceId_shown [OF panels(2)]
      by (simp add: window_shown_def with_panels) (simp add: shows_selected_def)
    from showMessage_shown [OF this]
    have message: "window_shown qt ui answers (showMessage t ?v)" for t .
    have refresh: "sustains (shows_on qt ui answers) (perform [RefreshStatus, RefreshLogs, RefreshMetrics])"
      by (rule sustains_perform) (simp add: refreshes_show)
    have "fst (SelectService now sid w) = fst (perform [RefreshStatus, RefreshLogs, RefreshMetrics] (showMessage (''Selected service: '' @ sid) ?v))"
      using False unfolding SelectService_def perform_quietly
      by (simp add: on_history_def on_health_def quietly_def case_prod_beta)
    then show ?thesis using sustainsD [OF refresh message] by simp
  qed
  then show ?thesis by (simp add: sustains_def)
qed

lemma SelectService_shown: "window_shown qt ui answers w \<Longrightarrow> window_shown qt ui answers (fst (SelectService now sid w))"
  using sustainsD [OF SelectService_shows] by auto

section \<open>Replies\<close>

lemma row_of_service:
  assumes "row_of sid services = Some i"
  shows "i < length services"
proof -
  have "last rows < length services" if "filter (\<lambda>i. sn_id (services ! i) = sid) [0..<length services] = r # rows'"
    "rows = r # rows'" for rows r rows'
  proof -
    have "last rows \<in> set (filter (\<lambda>i. sn_id (services ! i) = sid) [0..<length services])"
      unfolding that by (rule last_in_set) simp
    then show ?thesis by simp
  qed
  with assms show ?thesis by (auto simp: row_of_def split: list.splits if_splits)
qed

lemma window_shown_plain:
  assumes "window_shown qt ui answers w"
  shows "window_shown qt ui answers (w\<lparr> mw_list := l, mw_list_row := r \<rparr>)" "window_shown qt ui answers (w\<lparr> mw_list_row := r \<rparr>)"
    "window_shown qt ui answers (w\<lparr> mw_tail := n \<rparr>)" "window_shown qt ui answers (w\<lparr> mw_warnings := ws \<rparr>)"
    "window_shown qt ui answers (w\<lparr> mw_services_in_flight := b \<rparr>)" "window_shown qt ui answers (w\<lparr> mw_status_in_flight := b \<rparr>)"
    "window_shown qt ui answers (w\<lparr> mw_logs_in_flight := b \<rparr>)" "window_shown qt ui answers (w\<lparr> mw_metrics_in_flight := b \<rparr>)"
  by (rule window_shown_same [OF assms]; simp add: same_view_def window_shown_panels [OF assms])+

lemma window_shown_parts:
  "window_shown qt ui answers w \<Longrightarrow> shows_selected qt ui answers w"
  "window_shown qt ui answers w \<Longrightarrow> panels_follow w"
  by (simp_all add: window_shown_def)

lemma ApplyServiceList_shown:
  assumes w: "window_shown qt ui answers w"
    and "(RequestServices g, raw) \<in> set answers" "snd (GetServices qt) raw = Inr services"
  shows "window_shown qt ui answers (fst (ApplyServiceList ui now services w))"
proof -
  let ?w = "w\<lparr> mw_list := map list_item services, mw_list_row := row_of (mw_current_service_id w) services \<rparr>"
  have v: "window_shown qt ui answers ?w" by (rule window_shown_plain(1) [OF w])
  show ?thesis
  proof (cases "row_of (mw_current_service_id w) services")
    case None
    with v show ?thesis
      by (simp add: ApplyServiceList_def Let_def showMessage_shown deselect_shown)
  next
    case (Some i)
    note in_list = row_of_service [OF Some]
    show ?thesis
    proof (cases "sn_id (services ! i) = mw_current_service_id w")
      case False
      with v Some show ?thesis by (simp add: ApplyServiceList_def Let_def SelectService_shown)
    next
      case True
      then have "snapshot_of qt answers (mw_current_service_id ?w) (services ! i)"
        using assms(2,3) in_list nth_mem by (fastforce simp: snapshot_of_def)
      from ApplySnapshot_shown [OF window_shown_parts [OF v] this] show ?thesis
        using True Some by (simp add: ApplyServiceList_def Let_def)
    qed
  qed
qed

lemma ShowBackgroundError_shown: "window_shown qt ui answers w \<Longrightarrow> window_shown qt ui answers (ShowBackgroundError e w)"
  by (simp add: ShowBackgroundError_def showMessage_shown)

lemma services_reply_shown:
  assumes w: "window_shown qt ui answers w" and "(RequestServices g, raw) \<in> set answers"
  shows "window_shown qt ui answers (fst (services_reply ui now g (snd (GetServices qt) raw) w))"
  using w ApplyServiceList_shown [OF window_shown_plain(5) [OF w] assms(2)]
    ShowBackgroundError_shown [OF window_shown_plain(5) [OF w]]
  by (auto simp: services_reply_def Let_def split: sum.split)

lemma status_reply_shown:
  assumes w: "window_shown qt ui answers w" and answer: "(RequestState s g, raw) \<in> set answers"
  shows "window_shown qt ui answers (status_reply ui s g (snd (client_GetStatus qt s) raw) w)"
proof -
  let ?v = "w\<lparr> mw_status_in_flight := False \<rparr>"
  have v: "window_shown qt ui answers ?v" by (rule window_shown_plain(6) [OF w])
  have "snapshot_of qt answers (mw_current_service_id ?v) snapshot"
    if "snd (client_GetStatus qt s) raw = Inr snapshot" "s = mw_current_service_id w" for snapshot
    using that answer by (auto simp: snapshot_of_def)
  with w v show ?thesis
    by (auto simp: status_reply_def Let_def ShowBackgroundError_shown split: sum.split
        intro!: ApplySnapshot_shown window_shown_parts [OF v])
qed

text \<open>New labels of the metrics, a new text of the log.\<close>

lemma metrics_labels_shown:
  assumes v: "window_shown qt ui answers v" and "metrics_shown qt ui answers (v\<lparr> mw_metrics := l \<rparr>)"
  shows "window_shown qt ui answers (v\<lparr> mw_metrics := l \<rparr>)"
  using assms by (simp add: window_shown_def shows_selected_def details_shown_def log_shown_def panels_follow_def
      buttons_follow_def can_control_def)

lemma log_text_shown:
  assumes v: "window_shown qt ui answers v" and "log_shown qt answers (v\<lparr> mw_log := t \<rparr>)"
  shows "window_shown qt ui answers (v\<lparr> mw_log := t \<rparr>)"
  using assms by (simp add: window_shown_def shows_selected_def details_shown_def metrics_shown_def panels_follow_def
      buttons_follow_def can_control_def)

lemma logs_reply_shown:
  assumes w: "window_shown qt ui answers w" and answer: "(RequestLogs s n g, raw) \<in> set answers"
  shows "window_shown qt ui answers (logs_reply s g (snd (GetLogs qt s n) raw) w)"
proof -
  let ?v = "w\<lparr> mw_logs_in_flight := False \<rparr>"
  have v: "window_shown qt ui answers ?v" by (rule window_shown_plain(7) [OF w])
  have "window_shown qt ui answers (?v\<lparr> mw_log := join_lines ls \<rparr>)"
    if "snd (GetLogs qt s n) raw = Inr ls" "s = mw_current_service_id w" for ls
    using that answer by (intro log_text_shown [OF v]) (auto simp: log_shown_def)
  with w v show ?thesis
    by (auto simp: logs_reply_def Let_def ShowBackgroundError_shown split: sum.split)
qed

lemma metrics_reply_shown:
  assumes w: "window_shown qt ui answers w" and answer: "(RequestMetrics s g, raw) \<in> set answers"
  shows "window_shown qt ui answers (metrics_reply ui s g (snd (GetMetrics qt s) raw) w)"
proof -
  let ?v = "w\<lparr> mw_metrics_in_flight := False \<rparr>"
  have v: "window_shown qt ui answers ?v" by (rule window_shown_plain(8) [OF w])
  have "window_shown qt ui answers (?v\<lparr> mw_metrics := labels_of ui m \<rparr>)"
    if "snd (GetMetrics qt s) raw = Inr m" "s = mw_current_service_id w" for m
    using that answer by (intro metrics_labels_shown [OF v]) (auto simp: metrics_shown_def)
  moreover have "window_shown qt ui answers (?v\<lparr> mw_metrics := metrics_not_ready \<rparr>)"
    by (intro metrics_labels_shown [OF v]) (simp add: metrics_shown_def)
  ultimately show ?thesis
    using w v by (auto simp: metrics_reply_def Let_def ShowBackgroundError_shown showMessage_shown ShowMetricsNotReady_def
        ApplyMetrics_def split: sum.split)
qed

lemma updated_shown:
  "shows_selected qt ui answers w \<Longrightarrow> panels_follow w \<Longrightarrow> window_shown qt ui answers (UpdateActionButtons w)"
  by (simp add: window_shown_def UpdateActionButtons_shows buttons_follow_update)

lemma action_done_shows:
  assumes "window_shown qt ui answers w"
  shows "shows_selected qt ui answers (w\<lparr> mw_action_in_flight := False \<rparr>)" "panels_follow (w\<lparr> mw_action_in_flight := False \<rparr>)"
  using assms by (simp_all add: window_shown_def shows_selected_def details_shown_def metrics_shown_def log_shown_def panels_follow_def)

lemma list_asked_shows:
  assumes "shows_selected qt ui answers v" "panels_follow v"
  shows "shows_selected qt ui answers (showMessage t (fst (RefreshServices v)))"
    "panels_follow (showMessage t (fst (RefreshServices v)))"
  using assms by (simp_all add: RefreshServices_def showMessage_def shows_selected_def details_shown_def metrics_shown_def
      log_shown_def panels_follow_def Let_def)

lemma quietly_show:
  "sustains (shows_on qt ui answers) (quietly (showMessage t))" "sustains (shows_on qt ui answers) (quietly UpdateActionButtons)"
  by (auto intro: sustains_quietly showMessage_shown updated_shown window_shown_parts)

lemma action_reply_shown:
  assumes w: "window_shown qt ui answers w" and answer: "(RequestAction op name s, raw) \<in> set answers"
  shows "window_shown qt ui answers (fst (action_reply ui name s (snd (client_action op qt s) raw) w))"
proof -
  let ?w = "w\<lparr> mw_action_in_flight := False \<rparr>"
  note finished = action_done_shows [OF w]
  let ?finish = "[RefreshServices, quietly (showMessage (name @ '' completed for '' @ s)), quietly UpdateActionButtons]"
  show ?thesis
  proof (cases "snd (client_action op qt s) raw")
    case (Inl e)
    from window_shown_plain(4) [OF updated_shown [OF finished]] show ?thesis
      by (simp add: action_reply_def Inl Let_def)
  next
    case (Inr snapshot)
    show ?thesis
    proof (cases "s = mw_current_service_id w")
      case True
      then have "snapshot_of qt answers (mw_current_service_id ?w) snapshot"
        using answer Inr by (auto simp: snapshot_of_def)
      note applied = ApplySnapshot_shown [OF finished this]
      have "sustains (shows_on qt ui answers)
        (perform ([RefreshLogs, RefreshMetrics, on_history history_Refresh, on_health health_Refresh] @ ?finish))"
        by (rule sustains_perform) (simp add: refreshes_show panel_refreshes_show quietly_show)
      from sustainsD [OF this applied] True show ?thesis
        unfolding action_reply_def Inr Let_def sum.case by (simp add: perform_quietly del: perform.simps)
    next
      case False
      have "shows_selected qt ui answers (showMessage t (fst (RefreshServices ?w)))
          \<and> panels_follow (showMessage t (fst (RefreshServices ?w)))" for t
        using list_asked_shows [OF finished] by simp
      then show ?thesis
        using False updated_shown by (simp add: action_reply_def Inr Let_def quietly_def case_prod_beta)
    qed
  qed
qed

lemma on_history_shown:
  assumes "window_shown qt ui answers w" "history_shown qt ui answers (f (mw_history w))"
    "hp_service_id (f (mw_history w)) = hp_service_id (mw_history w)"
  shows "window_shown qt ui answers (fst (on_history (quietly f) w))"
  using assms by (auto simp: on_history_def quietly_def same_view_def window_shown_panels intro: window_shown_same)

lemma on_health_shown:
  assumes "window_shown qt ui answers w" "health_shown qt ui answers (f (mw_health w))"
    "sp_service_id (f (mw_health w)) = sp_service_id (mw_health w)"
  shows "window_shown qt ui answers (fst (on_health (quietly f) w))"
  using assms by (auto simp: on_health_def quietly_def same_view_def window_shown_panels intro: window_shown_same)

lemma handle_reply_shown:
  assumes w: "window_shown qt ui answers w" and answer: "(rq, raw) \<in> set answers"
  shows "window_shown qt ui answers (fst (handle_reply qt ui now rq raw w))"
proof (cases rq)
  case (RequestHistory s g)
  then show ?thesis
    using on_history_shown [OF w] history_reply_shown [OF window_shown_panels(1) [OF w]] answer by simp
next
  case (RequestHealth s g)
  then show ?thesis
    using on_health_shown [OF w] health_replies_shown [OF window_shown_panels(2) [OF w]] answer by simp
next
  case (RequestAlerts s b g)
  then show ?thesis
    using on_health_shown [OF w] health_replies_shown [OF window_shown_panels(2) [OF w]] answer by simp
next
  case (RequestRecovery s g)
  then show ?thesis
    using on_health_shown [OF w] health_replies_shown [OF window_shown_panels(2) [OF w]] answer by simp
next
  case (RequestAck a)
  then show ?thesis
    using sustainsD [OF on_health_shows [OF health_user_fields(5)] w] by simp
next
  case (RequestServices g)
  then show ?thesis using services_reply_shown [OF w] answer by simp
next
  case (RequestState s g)
  then show ?thesis using status_reply_shown [OF w] answer by (simp add: quietly_def)
next
  case (RequestLogs s n g)
  then show ?thesis using logs_reply_shown [OF w] answer by (simp add: quietly_def)
next
  case (RequestMetrics s g)
  then show ?thesis using metrics_reply_shown [OF w] answer by (simp add: quietly_def)
next
  case (RequestAction op name s)
  then show ?thesis using action_reply_shown [OF w] answer by simp
qed

section \<open>Every event\<close>

lemma ExecuteAction_shown:
  assumes w: "window_shown qt ui answers w"
  shows "window_shown qt ui answers (fst (ExecuteAction name op w))"
proof -
  let ?v = "forget_requests (w\<lparr> mw_action_in_flight := True \<rparr>)"
  have "shows_selected qt ui answers ?v" "panels_follow ?v"
    using w by (simp_all add: window_shown_def shows_selected_def details_shown_def metrics_shown_def log_shown_def
        panels_follow_def forget_requests_def)
  from showMessage_shown [OF updated_shown [OF this]] w show ?thesis
    by (simp add: ExecuteAction_def)
qed

lemma user_handler_shown:
  assumes "user_handler now ev v = Some f" and w: "window_shown qt ui answers w"
  shows "window_shown qt ui answers (fst (f w))"
proof (cases ev)
  case TimerTick
  then show ?thesis using assms(1) sustainsD [OF RefreshAll_shows w] by auto
next
  case (ServiceSelected row)
  then have "f = service_selected now row" using assms(1) by (auto split: if_splits)
  then show ?thesis
    using deselect_shown [OF window_shown_plain(2) [OF w]] SelectService_shown [OF window_shown_plain(2) [OF w]]
    by (auto simp: service_selected_def split: option.split)
next
  case (ActionClicked op)
  then show ?thesis using assms(1) ExecuteAction_shown [OF w] by (auto split: if_splits)
next
  case RefreshLogsClicked
  then show ?thesis using assms(1) sustainsD [OF refreshes_show(3) w] by (auto split: if_splits)
next
  case (TailChanged n)
  then show ?thesis using assms(1) window_shown_plain(3) [OF w] by (auto simp: quietly_def split: if_splits)
next
  case RefreshHealthClicked
  then show ?thesis using assms(1) sustainsD [OF panel_refreshes_show(2) w] by auto
next
  case ResolvedToggled
  then show ?thesis using assms(1) sustainsD [OF on_health_shows [OF health_user_fields(2)] w] by auto
next
  case (AlertSelected row)
  then show ?thesis
    using assms(1) on_health_shown [OF w] health_user_fields(3) [OF window_shown_panels(2) [OF w]] by (auto split: if_splits)
next
  case AcknowledgeClicked
  then show ?thesis
    using assms(1) sustainsD [OF on_health_shows [OF health_user_fields(4)] w] by (auto split: if_splits)
next
  case (Replied n raw)
  then show ?thesis using assms(1) by simp
qed

lemma snapshot_of_more: "snapshot_of qt answers sid s \<Longrightarrow> snapshot_of qt (answers @ later) sid s"
  unfolding snapshot_of_def by (auto 4 4)

lemma history_of_more: "history_of qt answers sid h \<Longrightarrow> history_of qt (answers @ later) sid h"
  unfolding history_of_def by auto

lemma health_shown_more: "health_shown qt ui answers p \<Longrightarrow> health_shown qt ui (answers @ later) p"
  unfolding health_shown_def by (elim conjE, intro conjI) (elim disjE; auto 4 4)+

lemma window_shown_more:
  assumes "window_shown qt ui answers w"
  shows "window_shown qt ui (answers @ later) w"
proof -
  have parts: "details_shown qt ui answers w" "metrics_shown qt ui answers w" "log_shown qt answers w"
    "history_shown qt ui answers (mw_history w)" "health_shown qt ui answers (mw_health w)"
    using assms by (simp_all add: window_shown_def shows_selected_def)
  have "details_shown qt ui (answers @ later) w"
    using parts(1) by (auto simp: details_shown_def intro: snapshot_of_more split: if_splits)
  moreover have "metrics_shown qt ui (answers @ later) w"
    using parts(2) unfolding metrics_shown_def by (elim disjE) auto
  moreover have "log_shown qt (answers @ later) w"
    using parts(3) unfolding log_shown_def by (elim disjE) auto
  moreover have "history_shown qt ui (answers @ later) (mw_history w)"
    using parts(4) by (auto simp: history_shown_def intro: history_of_more)
  moreover note health_shown_more [OF parts(5)]
  ultimately show ?thesis
    using assms by (simp add: window_shown_def shows_selected_def)
qed

lemma step_shown:
  assumes "desktop_step qt ui now ev d = Some d'" and "window_shown qt ui (dk_answered d) (dk_window d)"
  shows "window_shown qt ui (dk_answered d') (dk_window d')"
  using assms(1)
proof (cases rule: step_cases)
  case (reply n raw)
  then show ?thesis
    using handle_reply_shown [OF window_shown_more [OF assms(2)], of "dk_pending d ! n" raw "[(dk_pending d ! n, raw)]"] by simp
next
  case (user f)
  then show ?thesis using user_handler_shown [OF user(1) assms(2)] by simp
qed

lemma BuildUi_shown: "window_shown qt ui answers (BuildUi now)"
proof -
  have "chart_kinds (new_history_panel now)"
    by (simp add: new_history_panel_def history_Clear_def history_SetStatus_def history_forget_def on_charts_def
        chart_kinds_def new_chart_def chart_Clear_def RemoveAllSeries_def)
  then show ?thesis
    unfolding BuildUi_def window_shown_def by (simp add: cleared_shows)
qed

lemma start_fields:
  "dk_window (start_desktop now agent_url) = fst (RefreshAll (showMessage (''Agent: '' @ agent_url) (BuildUi now)))"
  "dk_answered (start_desktop now agent_url) = []"
  by (simp_all add: start_desktop_def new_main_window_def case_prod_beta)

lemma start_shown: "window_shown qt ui (dk_answered (start_desktop now agent_url)) (dk_window (start_desktop now agent_url))"
  unfolding start_fields by (rule sustainsD [OF RefreshAll_shows showMessage_shown [OF BuildUi_shown]])

lemma reachable_shown: "desktop_reachable qt ui d \<Longrightarrow> window_shown qt ui (dk_answered d) (dk_window d)"
proof (induction rule: desktop_reachable.induct)
  case (started now agent_url)
  show ?case by (rule start_shown)
next
  case (stepped d now ev d')
  show ?case by (rule step_shown [OF stepped.hyps(2) stepped.IH])
qed

section \<open>The properties\<close>

text \<open>C9. Whatever the order of the replies and of the user's selections, the details, the metrics
  labels, the log, the charts, the health, the alerts and the recovery events the window shows are each
  empty (or a placeholder) or come from an answer to a request about the service that is selected now,
  never from one about another service; the panels follow the selection. The list of services and the
  status lines of the window and of its panels are not among these: \<open>late_acknowledgement_in_status\<close>
  below shows a reply that reaches the status line of another service.\<close>

theorem desktop_shows_selected:
  assumes "desktop_reachable qt ui d"
  shows "shows_selected qt ui (dk_answered d) (dk_window d)
    \<and> hp_service_id (mw_history (dk_window d)) = mw_current_service_id (dk_window d)
    \<and> sp_service_id (mw_health (dk_window d)) = mw_current_service_id (dk_window d)"
  using reachable_shown [OF assms] by (simp add: window_shown_def panels_follow_def)

text \<open>C10. An action is sent only for the selected service, while no other is under way, and only on the
  strength of a snapshot of that service that the window shows: a start when it does not run, a stop or
  restart when it runs. Until the reply comes no further action can be sent.\<close>

theorem desktop_commands_follow_display:
  assumes "desktop_reachable qt ui d" and "desktop_step qt ui now (ActionClicked op) d = Some d'"
  shows "mw_current_service_id (dk_window d) \<noteq> [] \<and> filter is_action (dk_pending d) = []
    \<and> filter is_action (dk_pending d') = [RequestAction op (action_name op) (mw_current_service_id (dk_window d))]
    \<and> (\<exists>snapshot. snapshot_of qt (dk_answered d) (mw_current_service_id (dk_window d)) snapshot
         \<and> mw_details (dk_window d) = details_of ui snapshot
         \<and> (if op = OpStart then ui_normal ui (sn_state snapshot) \<notin> {''running'', ''starting'', ''stopping''}
            else ui_normal ui (sn_state snapshot) = ''running''))
    \<and> \<not> mw_start_enabled (dk_window d') \<and> \<not> mw_stop_enabled (dk_window d') \<and> \<not> mw_restart_enabled (dk_window d')"
proof -
  let ?w = "dk_window d"
  have enabled: "action_enabled op ?w" and d': "d' = \<lparr> dk_window = fst (ExecuteAction (action_name op) op ?w),
      dk_pending = dk_pending d @ snd (ExecuteAction (action_name op) op ?w), dk_answered = dk_answered d \<rparr>"
    using assms(2) by (auto simp: desktop_step_def Let_def case_prod_beta split: option.splits if_splits)
  have shown: "details_shown qt ui (dk_answered d) ?w" "buttons_follow ?w"
    using reachable_shown [OF assms(1)] by (simp_all add: window_shown_def shows_selected_def)
  have backed: "action_backed (dk_pending d) ?w"
    using reachable_backed [OF assms(1)] by (simp add: desktop_backed_def window_backed_def)
  have may: "can_control ?w" and state: "if op = OpStart then mw_current_state ?w \<noteq> ''running'' else mw_current_state ?w = ''running''"
    using enabled shown(2) by (cases op; simp add: buttons_follow_def)+
  then have none: "filter is_action (dk_pending d) = []"
    using backed by (simp add: action_backed_def can_control_def)
  obtain snapshot where "snapshot_of qt (dk_answered d) (mw_current_service_id ?w) snapshot"
    "mw_details ?w = details_of ui snapshot" "mw_current_state ?w = ui_normal ui (sn_state snapshot)"
    using shown(1) may by (auto simp: details_shown_def can_control_def)
  moreover have "ExecuteAction (action_name op) op ?w
      = (showMessage (''Sending '' @ action_name op @ '' request for '' @ mw_current_service_id ?w @ ''...'')
           (UpdateActionButtons (forget_requests (?w\<lparr> mw_action_in_flight := True \<rparr>))),
         [RequestAction op (action_name op) (mw_current_service_id ?w)])"
    using may by (simp add: ExecuteAction_def can_control_def)
  ultimately show ?thesis
    using may state none
    by (auto simp: d' can_control_def is_action_def showMessage_def UpdateActionButtons_def forget_requests_def Let_def)
qed

text \<open>C14. A refresh is never held back by a request that was lost to a change of service, to an action or
  to a stale reply: after every tick of the timer, for each kind of information about the selected
  service, a request is under way whose reply the window will accept - for the status, unless an action
  is, whose reply brings it.\<close>

theorem desktop_refresh_never_stuck:
  assumes "desktop_reachable qt ui d" and "desktop_step qt ui now TimerTick d = Some d'"
  shows "list_ex (services_accepts (dk_window d')) (dk_pending d')
    \<and> (mw_current_service_id (dk_window d') \<noteq> [] \<longrightarrow>
         (list_ex (status_accepts (dk_window d')) (dk_pending d') \<or> list_ex is_action (dk_pending d'))
         \<and> list_ex (logs_accepts (dk_window d')) (dk_pending d')
         \<and> list_ex (metrics_accepts (dk_window d')) (dk_pending d')
         \<and> list_ex (history_accepts (mw_history (dk_window d'))) (dk_pending d')
         \<and> list_ex (health_accepts (mw_health (dk_window d'))) (dk_pending d')
         \<and> list_ex (alerts_accepts (mw_health (dk_window d'))) (dk_pending d')
         \<and> list_ex (recovery_accepts (mw_health (dk_window d'))) (dk_pending d'))"
proof -
  let ?w = "dk_window d" and ?v = "dk_window d'" and ?ps = "dk_pending d'"
  have v: "?v = fst (RefreshAll ?w)"
    using assms(2) by (auto simp: desktop_step_def Let_def case_prod_beta)
  have backed: "window_backed ?ps ?v"
    using step_backed [OF assms(2) reachable_backed [OF assms(1)]] by (simp add: desktop_backed_def)
  have follow: "panels_follow ?w" using reachable_shown [OF assms(1)] by (simp add: window_shown_def)
  note flags = RefreshAll_flags [OF v]
  have slots: "own_backed ?ps ?v" "action_backed ?ps ?v" "history_backed ?ps (mw_history ?v)" "health_backed ?ps (mw_health ?v)"
    using backed by (simp_all add: window_backed_def)
  have services: "list_ex (services_accepts ?v) ?ps"
    using slots(1) flags(1) by (simp add: own_backed_def backed_def)
  show ?thesis
  proof (cases "mw_current_service_id ?v = []")
    case True
    with services show ?thesis by simp
  next
    case False
    then have sid: "mw_current_service_id ?w \<noteq> []" using flags(2) by simp
    then have panels: "hp_service_id (mw_history ?w) \<noteq> []" "sp_service_id (mw_health ?w) \<noteq> []"
      using follow by (simp_all add: panels_follow_def)
    have "list_ex (status_accepts ?v) ?ps \<or> list_ex is_action ?ps"
    proof (cases "mw_action_in_flight ?w")
      case True
      then have "length (filter is_action ?ps) = 1" using slots(2) flags(3) by (simp add: action_backed_def)
      then have "filter is_action ?ps \<noteq> []" by auto
      then show ?thesis by (simp add: filter_empty_conv list_ex_iff)
    next
      case False
      then show ?thesis
        using slots(1) flags(2,3,5) sid by (simp add: own_backed_def backed_def may_ask_status_def)
    qed
    moreover have "list_ex (logs_accepts ?v) ?ps \<and> list_ex (metrics_accepts ?v) ?ps"
      using slots(1) flags(2,4) sid by (simp add: own_backed_def backed_def is_selected_def)
    moreover have "list_ex (history_accepts (mw_history ?v)) ?ps"
      using slots(3) panel_flags(1) [OF panels(1)] panels by (simp add: history_backed_def backed_def flags)
    moreover have "list_ex (health_accepts (mw_health ?v)) ?ps \<and> list_ex (alerts_accepts (mw_health ?v)) ?ps
        \<and> list_ex (recovery_accepts (mw_health ?v)) ?ps"
      using slots(4) panel_flags(2,3) [of "mw_health ?w"] panels by (simp add: health_backed_def backed_def flags)
    ultimately show ?thesis using services by simp
  qed
qed

lemma GetServiceAlerts_service:
  assumes "snd (GetServiceAlerts qt sid b) raw = Inr alerts"
  shows "list_all (\<lambda>a. an_service_id a = sid) alerts"
proof -
  obtain n i js where read: "read_each n i (ParseAlertSnapshot qt)
      (\<lambda>acc x. if an_service_id x \<noteq> sid then Some ''Agent alerts response contains an invalid alert'' else None) js [] = Inr alerts"
    using assms by (auto simp: GetServiceAlerts_def SendJsonRequest_def split: sum.splits if_splits)
  show ?thesis
    using read by (rule read_each_invariant) (auto split: if_splits)
qed

text \<open>C22. What a click on the acknowledgement sends, if anything, names an alert of the selected service
  that the table shows and that an answer about this service contained.\<close>

theorem desktop_acknowledges_shown_alert:
  assumes "desktop_reachable qt ui d" and "desktop_step qt ui now AcknowledgeClicked d = Some d'"
  shows "dk_pending d' = dk_pending d
    \<or> (\<exists>alert b g raw alerts. dk_pending d' = dk_pending d @ [RequestAck (an_id alert)]
        \<and> an_service_id alert = mw_current_service_id (dk_window d)
        \<and> alert_row ui alert \<in> set (sp_alerts (mw_health (dk_window d)))
        \<and> (RequestAlerts (mw_current_service_id (dk_window d)) b g, raw) \<in> set (dk_answered d)
        \<and> snd (GetServiceAlerts qt (mw_current_service_id (dk_window d)) b) raw = Inr alerts \<and> alert \<in> set alerts)"
proof -
  let ?w = "dk_window d" and ?p = "mw_health (dk_window d)"
  have d': "dk_pending d' = dk_pending d @ snd (AcknowledgeSelectedAlert ?p)"
    using assms(2) by (auto simp: desktop_step_def Let_def case_prod_beta on_health_def split: option.splits if_splits)
  have shown: "health_shown qt ui (dk_answered d) ?p" "sp_service_id ?p = mw_current_service_id ?w"
    using reachable_shown [OF assms(1)] by (simp_all add: window_shown_def shows_selected_def panels_follow_def)
  show ?thesis
  proof (cases "sp_ack_in_flight ?p \<or> SelectedAlertId ?p = []")
    case True
    then show ?thesis using d' by (auto simp: AcknowledgeSelectedAlert_def Let_def)
  next
    case False
    then have sent: "dk_pending d' = dk_pending d @ [RequestAck (SelectedAlertId ?p)]"
      using d' by (simp add: AcknowledgeSelectedAlert_def Let_def)
    obtain row where row: "row < length (sp_alerts ?p)" "SelectedAlertId ?p = fst (sp_alerts ?p ! row)"
      using False by (auto simp: SelectedAlertId_def split: option.splits if_splits)
    then obtain b g raw alerts where answer: "(RequestAlerts (mw_current_service_id ?w) b g, raw) \<in> set (dk_answered d)"
      "snd (GetServiceAlerts qt (mw_current_service_id ?w) b) raw = Inr alerts" "sp_alerts ?p = map (alert_row ui) alerts"
      using shown unfolding health_shown_def by auto
    have alert: "alerts ! row \<in> set alerts" "SelectedAlertId ?p = an_id (alerts ! row)"
      "alert_row ui (alerts ! row) \<in> set (sp_alerts ?p)"
      using row answer(3) by (auto simp: alert_row_def)
    moreover have "an_service_id (alerts ! row) = mw_current_service_id ?w"
      using GetServiceAlerts_service [OF answer(2)] alert(1) by (simp add: list_all_iff)
    ultimately show ?thesis using sent answer by metis
  qed
qed

section \<open>Edges\<close>

text \<open>
  An action makes the requests about its service stale, but not a request for the list: its answer,
  given before the action, replaces the snapshot the action brought.
\<close>

lemma late_list_replaces_action:
  assumes "mw_services_in_flight w" and "sn_id old = mw_current_service_id w"
    and "v = fst (action_reply ui name (mw_current_service_id w) (Inr new) w)"
  shows "mw_details (fst (services_reply ui now (mw_services_generation w) (Inr [old]) v)) = details_of ui old"
proof -
  have "mw_services_generation v = mw_services_generation w \<and> mw_current_service_id v = mw_current_service_id w"
    unfolding assms(3) action_reply_def Let_def sum.case
    by (simp add: assms(1) perform_fst perform_quietly on_panel_same refresh_defs quiet_defs quietly_def Let_def
        del: perform.simps)
  then show ?thesis
    using assms(2) by (simp add: services_reply_def ApplyServiceList_def row_of_def ApplySnapshot_def UpdateActionButtons_def Let_def)
qed

text \<open>
  Neither a request for the log nor its reply sets the button that sends it: a snapshot that arrives
  between the two disables it, and it stays so with no request under way.
\<close>

lemma log_button_stays_disabled:
  assumes "mw_current_service_id w \<noteq> []" and "\<not> mw_logs_in_flight w"
    and "v = logs_reply (mw_current_service_id w) (mw_logs_generation w + 1) r (ApplySnapshot ui s (fst (RefreshLogs w)))"
  shows "\<not> mw_logs_in_flight v \<and> \<not> mw_refresh_logs_enabled v"
  using assms by (simp add: RefreshLogs_def ApplySnapshot_def UpdateActionButtons_def logs_reply_def ShowBackgroundError_def
      showMessage_def Let_def split: sum.split)

text \<open>The selection of the alerts table stays on its row: a refresh puts another alert under it.\<close>

lemma selection_follows_row:
  assumes "sp_selected_row p = Some 0" and "sp_alerts p = [alert_row ui a]"
  shows "SelectedAlertId p = an_id a" and "SelectedAlertId (ApplyAlerts ui [b, a] p) = an_id b"
  using assms by (simp_all add: SelectedAlertId_def ApplyAlerts_def fill_alerts_def UpdateAcknowledgeButton_def alert_row_def)

text \<open>
  The reply to an acknowledgement is written to the status line of the health panel whatever service
  the panel shows by then, as no selection is compared.
\<close>

lemma late_acknowledgement_in_status:
  "sp_status (fst (ack_reply (Inr alert) (fst (health_SetServiceId sid p)))) = ''Alert acknowledged: '' @ an_id alert"
  by (simp add: ack_reply_def perform_fst quietly_def Let_def RefreshAlerts_def UpdateAcknowledgeButton_def
      health_SetStatus_def)

section \<open>Witnesses\<close>

text \<open>An agent that always answers with the same object, which has the members of several answers.\<close>

definition desk_service_members :: "(string \<times> json) list" where
  "desk_service_members = [(''id'', JStr ''a''), (''display_name'', JStr ''A''), (''state'', JStr ''running''),
     (''desired_state'', JStr ''running''), (''auto_start'', JBool True), (''pid'', JNum ''5''),
     (''uptime_seconds'', JNum ''7''), (''last_exit_code'', JNull), (''last_exit_signal'', JNull)]"

definition desk_alert_members :: "(string \<times> json) list" where
  "desk_alert_members = [(''id'', JStr ''a:r''), (''service_id'', JStr ''a''), (''rule_id'', JStr ''r''),
     (''severity'', JStr ''warning''), (''state'', JStr ''active''), (''message'', JStr ''m''),
     (''acknowledged'', JBool False), (''first_triggered_at_unix_ms'', JNum ''1''),
     (''last_triggered_at_unix_ms'', JNum ''2''), (''resolved_at_unix_ms'', JNull), (''trigger_count'', JNum ''1'')]"

definition desk_qt :: qt_api where
  "desk_qt = answering_qt (JObj (desk_service_members
     @ [(''services'', JArr [JObj desk_service_members]), (''service_id'', JStr ''a''),
        (''alerts'', JArr [JObj desk_alert_members])]))"

fun run_desktop :: "qt_api \<Rightarrow> ui \<Rightarrow> desktop_event list \<Rightarrow> desktop \<Rightarrow> desktop option" where
  "run_desktop qt ui [] d = Some d"
| "run_desktop qt ui (ev # evs) d =
     (case desktop_step qt ui 0 ev d of None \<Rightarrow> None | Some d' \<Rightarrow> run_desktop qt ui evs d')"

definition desk_run :: "desktop_event list \<Rightarrow> desktop option" where
  "desk_run evs = run_desktop desk_qt exact_ui evs (start_desktop 0 [])"

lemma run_desktop_reachable:
  "desktop_reachable qt ui d \<Longrightarrow> run_desktop qt ui evs d = Some d' \<Longrightarrow> desktop_reachable qt ui d'"
  by (induction evs arbitrary: d) (auto split: option.splits intro: desktop_reachable.stepped)

lemma desk_run_reachable: "desk_run evs = Some d \<Longrightarrow> desktop_reachable desk_qt exact_ui d"
  unfolding desk_run_def by (rule run_desktop_reachable [OF desktop_reachable.started])

text \<open>The list arrives and the first service is selected; its alerts and its status arrive.\<close>

definition desk_events :: "desktop_event list" where
  "desk_events = [Replied 0 ok_reply, Replied 2 ok_reply, Replied 3 ok_reply]"

lemma desk_desktop:
  obtains d where "desk_run desk_events = Some d" "dt_state (mw_details (dk_window d)) = ''running''"
    "map fst (sp_alerts (mw_health (dk_window d))) = [''a:r'']" "mw_current_service_id (dk_window d) = ''a''"
proof -
  have "map_option (\<lambda>d. (dt_state (mw_details (dk_window d)), map fst (sp_alerts (mw_health (dk_window d))),
      mw_current_service_id (dk_window d))) (desk_run desk_events) = Some (''running'', [''a:r''], ''a'')"
    by code_simp
  then show thesis by (auto intro: that)
qed

theorem desktop_shows_selected_witness:
  "\<exists>d. desk_run desk_events = Some d \<and> dt_state (mw_details (dk_window d)) = ''running''
     \<and> shows_selected desk_qt exact_ui (dk_answered d) (dk_window d)"
proof -
  obtain d where d: "desk_run desk_events = Some d" "dt_state (mw_details (dk_window d)) = ''running''"
    by (rule desk_desktop)
  with desktop_shows_selected [OF desk_run_reachable [OF d(1)]] show ?thesis by blast
qed

theorem desktop_commands_follow_display_witness:
  "\<exists>d d'. desk_run desk_events = Some d \<and> desktop_step desk_qt exact_ui 0 (ActionClicked OpStop) d = Some d'
     \<and> filter is_action (dk_pending d') = [RequestAction OpStop ''stop'' ''a'']"
proof -
  have "map_option (\<lambda>d. (mw_current_service_id (dk_window d),
      map_option (\<lambda>_. ()) (desktop_step desk_qt exact_ui 0 (ActionClicked OpStop) d))) (desk_run desk_events) = Some (''a'', Some ())"
    by code_simp
  then obtain d d' where d: "desk_run desk_events = Some d" "mw_current_service_id (dk_window d) = ''a''"
    "desktop_step desk_qt exact_ui 0 (ActionClicked OpStop) d = Some d'"
    by auto
  with desktop_commands_follow_display [OF desk_run_reachable [OF d(1)] d(3)] show ?thesis by auto
qed

theorem desktop_refresh_never_stuck_witness:
  "\<exists>d d'. desk_run desk_events = Some d \<and> desktop_step desk_qt exact_ui 0 TimerTick d = Some d'
     \<and> list_ex (logs_accepts (dk_window d')) (dk_pending d')"
proof -
  have "map_option (\<lambda>d. map_option (\<lambda>d'. mw_current_service_id (dk_window d')) (desktop_step desk_qt exact_ui 0 TimerTick d))
      (desk_run desk_events) = Some (Some ''a'')"
    by code_simp
  then obtain d d' where d: "desk_run desk_events = Some d" "desktop_step desk_qt exact_ui 0 TimerTick d = Some d'"
    "mw_current_service_id (dk_window d') = ''a''"
    by auto
  with desktop_refresh_never_stuck [OF desk_run_reachable [OF d(1)] d(2)] show ?thesis by auto
qed

theorem desktop_acknowledges_shown_alert_witness:
  "\<exists>d d' (alert :: AlertSnapshot). desk_run (desk_events @ [AlertSelected (Some 0)]) = Some d
     \<and> desktop_step desk_qt exact_ui 0 AcknowledgeClicked d = Some d'
     \<and> dk_pending d' = dk_pending d @ [RequestAck (an_id alert)] \<and> an_service_id alert = ''a''"
proof -
  have "map_option (\<lambda>d. (mw_current_service_id (dk_window d), map_option (\<lambda>d'. length (dk_pending d') - length (dk_pending d))
      (desktop_step desk_qt exact_ui 0 AcknowledgeClicked d))) (desk_run (desk_events @ [AlertSelected (Some 0)])) = Some (''a'', Some 1)"
    by code_simp
  then obtain d d' where d: "desk_run (desk_events @ [AlertSelected (Some 0)]) = Some d" "mw_current_service_id (dk_window d) = ''a''"
    "desktop_step desk_qt exact_ui 0 AcknowledgeClicked d = Some d'" "length (dk_pending d') - length (dk_pending d) = 1"
    by auto
  from desktop_acknowledges_shown_alert [OF desk_run_reachable [OF d(1)] d(3)] show ?thesis
  proof (elim disjE exE conjE)
    assume "dk_pending d' = dk_pending d"
    with d(4) show ?thesis by simp
  next
    fix alert :: AlertSnapshot and b g raw alerts
    assume "dk_pending d' = dk_pending d @ [RequestAck (an_id alert)]"
      and "an_service_id alert = mw_current_service_id (dk_window d)"
    with d show ?thesis by (intro exI [of _ d] exI [of _ d'] exI [of _ alert] conjI) simp_all
  qed
qed

end
