(* ===== verification/Spec2Isabelle.thy ===== *)
theory Spec2Isabelle
  imports HealthCheck AlertManager SupervisorSpec LogReader Recovery Registry Monitor Client ServerShutdown ProcReader Programs DesktopSpec
begin

text \<open>
  AegisDesk is an agent that supervises local services and a desktop program that shows them. The
  agent (\<open>src/apps/agent\<close>) starts and stops child processes, checks their health, samples their
  resource use, evaluates alert rules, restarts failed services within a budget, and serves all of
  this over a local HTTP API. The desktop (\<open>src/apps/desktop\<close>) is a client of that API. A demo
  service (\<open>src/apps/demo_service\<close>) is what the agent is tried out with. This library models the
  agent, the desktop and the demo service, and states what makes each part correct. Each
  theory follows the order of the code; names are the code's names.

  \<^bold>\<open>Parts and theories.\<close>

  \<^item> Data model. \<open>Prelude\<close> has the machine integers (words of 16, 32 and 64 bits), the string searches and
    number texts of the C++ library, sorting, hash maps as association lists in some order, and
    the locale \<open>bounded_log\<close> of a deque cut to a capacity. \<open>Doubles\<close> has the comparisons and the printing of
    \<open>double\<close>. \<open>ServiceModel\<close> has the headers of \<open>include/agent\<close>: enumerations with their texts,
    identifiers, configuration and published records, each \<open>IsStructurallyValid\<close>, and the locale
    \<open>service_store\<close> of a component that forgets services, interpreted on every component that does.
  \<^item> Processes. \<open>Supervisor\<close> is \<open>process_supervisor.cpp\<close>; \<open>SupervisorFrame\<close> and \<open>SupervisorInv\<close> show what
    every critical section and operation keeps, \<open>SupervisorSpec\<close> draws the contract. \<open>LogReader\<close> is
    \<open>log_reader.cpp\<close>, \<open>Registry\<close> is \<open>service_registry.cpp\<close>: the configuration file and the table of
    supervisors with its loops over all of them.
  \<^item> Monitoring. \<open>HealthCheck\<close>, \<open>AlertEval\<close>, \<open>AlertManager\<close> and \<open>Recovery\<close> are the four components
    that \<open>Monitor\<close> (\<open>health_monitor.cpp\<close>) composes into one round; \<open>Metrics\<close> is the sampler and the
    collector, \<open>ProcReader\<close> the readers of Linux, macOS and other platforms behind the locale
    \<open>platform_metrics_reader\<close>.
  \<^item> The API. \<open>Json\<close> has the text of JSON values and a reader of them, \<open>Api\<close> is \<open>agent_api.cpp\<close>:
    routing, bodies, and the handler on the state of the registry, the collector and the monitor.
    \<open>Executor\<close> (\<open>bounded_request_executor.cpp\<close>), \<open>Session\<close> (\<open>http_session.cpp\<close>), \<open>Server\<close> and
    \<open>ServerShutdown\<close> (\<open>http_server.cpp\<close>) carry requests to it.
  \<^item> The desktop. \<open>Client\<close> is \<open>agent_client.cpp\<close>; its last section runs a request through the client,
    the agent and back. \<open>Display\<close> has the texts of labels and tables (\<open>ui_helpers.cpp\<close>,
    \<open>main_window.cpp\<close>), \<open>MetricChart\<close> is \<open>metric_chart_widget.cpp\<close>, \<open>Panels\<close> the two panels
    (\<open>metrics_history_panel.cpp\<close>, \<open>service_health_panel.cpp\<close>) with the request protocol as the locale
    \<open>request_slot\<close>, interpreted on the eight kinds of request. \<open>MainWindow\<close> is \<open>main_window.cpp\<close> with the
    events that drive it - timer, clicks, and the replies of \<open>Client\<close> in any order; \<open>DesktopInv\<close> and
    \<open>DesktopSpec\<close> have its invariants and its contract.
  \<^item> The programs. \<open>Programs\<close> has both \<open>main\<close> functions: arguments, the order of starts and stops.

  \<^bold>\<open>How state and time are modelled.\<close> A class is a record of its fields, an operation a function that
  returns the new state; errors are values. A block under a mutex is one step. Where threads
  matter there are two forms. The supervisor runs against a script: one item per system call
  or wait, with the steps of the observer thread and of the clocks that happen meanwhile and the
  answer of the call; a statement about all scripts is one about all interleavings and all
  answers. A script that ends while an operation waits gives \<^term>\<open>None\<close>: no claim is made of an
  operation that is still waiting, and \<open>stop_wait_ends\<close> says that a script with a clock that
  advances is long enough. The executor, the session and the server are step relations
  over events (threads, completions of reads and writes, timers, calls of other components), with
  invariants by induction over the reachable states. The measure \<open>server_effort\<close> bounds the length of
  every run of the server's own steps (\<open>shutdown_step\<close>) once a stop was requested and \<open>Wait\<close> is in
  progress, or a start has failed; \<open>server_shutdown_reaches_end\<close> says that a run that cannot go on
  is in the stopped state with all closed.

  \<^bold>\<open>What the lemmas show.\<close>

  \<^item> Supervisor: in every interleaving the published status is consistent, its transitions are edges of
    one table, there is one child at most, signals go to it alone; each operation's outcome on every
    branch; the protocol over the \<open>exec\<close> pipe loses no error code and no descriptor.
  \<^item> Monitoring: the counters and timers of each component are functions of the history they have seen
    (runs of failures, duration of a condition, life of an alert, number of restarts in a window), histories
    are bounded, a restart is made only for a desired, failed service within its budget, and nothing of a
    removed service stays anywhere.
  \<^item> API: every body is the text of one JSON object, which a reader of RFC 8259 gets back when all its
    strings are UTF-8 and refuses otherwise; the client reads back what the agent holds, only a \<open>POST\<close> that
    acknowledges an alert or names an operation changes anything, and an action on the desktop reaches
    exactly the service it names.
  \<^item> Server: a task accepted is run once, a session answers each request at most once and in order, the bounds
    on connections and requests hold, a stop waits for the work it has accepted, every run of a shutdown ends,
    and so does that of a failed start, in a server that can be started again.
  \<^item> Desktop: the details, metrics, log, charts, health, alerts and recovery events shown come from answers
    about the selected service (the status lines do not: a late acknowledgement writes there), actions are sent on the strength of
    what is shown, the timer always has a request under way that will be accepted, a chart draws exactly the
    samples of each process within its axes. The section on edges of \<open>DesktopSpec\<close> has the cases in which an
    older answer, a disabled button or a moved selection misleads the user.
  \<^item> Readers and programs: the numbers of \<open>/proc\<close> are read whatever the process name is, conversions of time
    are exact or refused; when the agent returns from \<open>main\<close> it has stopped what it started, and an exception
    \<open>main\<close> has no handler for is the only other end it has.

  \<^bold>\<open>Parameters.\<close> What is not in the repository is an argument: the answers of the operating system
  (scripts, files, clocks, kernel texts), Boost's property tree (a tree of strings and children) and the
  completions of Boost.Asio, Qt's JSON reader and the conversion of its numbers (record \<open>qt_api\<close>; the
  locale \<open>qt_reader\<close> asks only that it reads the kind of objects the agent prints, of less than 64 MiB, and
  that integers of up to 53 bits are exact), its local times, case folding and printing of a \<open>double\<close> (record \<open>ui\<close>), the rounding of \<open>long double\<close> and \<open>double\<close> (with the laws that it is
  monotone and exact on the integers the type holds, for the charts that its relative error is small). Each law has an instance that is computed.

  \<^bold>\<open>Bounds.\<close> Times are mathematical integers, as the code stays far from the ends of 64 bits;
  counters, ticks, sizes and process times are words. Loops are structural or have a measure; none has
  fuel.

  \<^bold>\<open>Not modelled.\<close> The layout of the desktop's widgets (the \<open>Build\<close> functions but for the texts and
  states they set, the helpers of \<open>ui_helpers.cpp\<close> that create widgets) is a sequence of calls to Qt with no
  decisions; of Qt the model keeps that a disabled widget has no events, that callbacks run one at a time
  after the call that sent the request, and that a table keeps its selected row when it is filled. The
  clock a chart reads when it is cleared is read once per event. The logger's output format; the tests,
  fixtures and benchmarks. Memory and thread creation fail only where the code handles it. Exceptions of the
  file system are modelled where the code lets them pass (\<open>Registry\<close>, \<open>Recovery\<close>) and left out of
  \<open>LogReader\<close>. Some sequences of calls are one step: an evaluation of \<open>Recovery\<close> reads the status of a service
  and acts on it with no request of another thread in between, only the observer and the clocks step between an
  action of the API and the status it answers with, and \<open>Start\<close> of the server is one step up to its joins, although
  its I/O threads run before it has posted the first accept. Whether the destructors of \<open>main\<close> run when an
  exception has no handler is left to the implementation by C++ and not modelled.
\<close>

end
